(* ===== verification/Prelude.thy ===== *)
theory Prelude
  imports Main "HOL-Library.Word" "HOL-Library.AList" "HOL-Library.Monad_Syntax"
    "HOL-Library.Multiset"
begin

text \<open>
  Shared vocabulary of the development: the machine integer types, the option monad in which a
  failed \<open>assert\<close>, an \<open>abort()\<close> or a trapping instruction of the C++ code is \<open>None\<close>,
  checked list access, association lists for the \<open>std::map\<close> and \<open>std::unordered_map\<close>
  members, and the counting lemmas about them that the components share.
\<close>

unbundle bit_operations_syntax

type_synonym u32 = "32 word"
type_synonym u64 = "64 word"

named_theorems cache_simps \<open>equations that unfold the small operations of the model\<close>
named_theorems pins_simps \<open>what each operation does to the pending-response counters\<close>

section \<open>Failing computations\<close>

text \<open>\<open>assert(b)\<close>: the process ends when the condition is false.\<close>

definition cpp_assert :: "bool \<Rightarrow> unit option" where
  "cpp_assert b = (if b then Some () else None)"

text \<open>Unsigned 32-bit division; the machine traps on a zero divisor.\<close>

definition div_u32 :: "u32 \<Rightarrow> u32 \<Rightarrow> u32 option" where
  "div_u32 a b = (if b = 0 then None else Some (a div b))"

definition mod_u32 :: "u32 \<Rightarrow> u32 \<Rightarrow> u32 option" where
  "mod_u32 a b = (if b = 0 then None else Some (a mod b))"

text \<open>Array access: reading or writing out of range has no defined outcome, hence \<open>None\<close>.\<close>

definition nth_opt :: "'a list \<Rightarrow> nat \<Rightarrow> 'a option" where
  "nth_opt xs i = (if i < length xs then Some (xs ! i) else None)"

definition update_opt :: "'a list \<Rightarrow> nat \<Rightarrow> 'a \<Rightarrow> 'a list option" where
  "update_opt xs i x = (if i < length xs then Some (xs[i := x]) else None)"

lemma cpp_assert_Some [simp]: "cpp_assert b = Some u \<longleftrightarrow> b"
  by (simp add: cpp_assert_def)

lemma cpp_assert_None [simp]: "cpp_assert b = None \<longleftrightarrow> \<not> b"
  by (simp add: cpp_assert_def)

lemma cpp_assert_simps [simp]: "cpp_assert True = Some ()" "cpp_assert False = None"
  by (simp_all add: cpp_assert_def)

lemma div_u32_Some [simp]: "div_u32 a b = Some q \<longleftrightarrow> b \<noteq> 0 \<and> q = a div b"
  by (auto simp: div_u32_def)

lemma mod_u32_Some [simp]: "mod_u32 a b = Some q \<longleftrightarrow> b \<noteq> 0 \<and> q = a mod b"
  by (auto simp: mod_u32_def)

lemma nth_opt_Some [simp]: "nth_opt xs i = Some x \<longleftrightarrow> i < length xs \<and> x = xs ! i"
  by (auto simp: nth_opt_def)

lemma nth_opt_None [simp]: "nth_opt xs i = None \<longleftrightarrow> length xs \<le> i"
  by (simp add: nth_opt_def not_less)

lemma nth_opt_in [simp]: "i < length xs \<Longrightarrow> nth_opt xs i = Some (xs ! i)"
  by (simp add: nth_opt_def)

lemma update_opt_Some [simp]:
  "update_opt xs i x = Some ys \<longleftrightarrow> i < length xs \<and> ys = xs[i := x]"
  by (auto simp: update_opt_def)

lemma update_opt_in [simp]: "i < length xs \<Longrightarrow> update_opt xs i x = Some (xs[i := x])"
  by (simp add: update_opt_def)

lemma of_nat_u32_neq_0: "0 < n \<Longrightarrow> n < 2 ^ 32 \<Longrightarrow> (of_nat n :: u32) \<noteq> 0"
  by (auto simp: unat_of_nat dest!: arg_cong [where f = unat])

lemmas bind_Some_iff = Option.bind_eq_Some_conv

text \<open>A loop whose body may fail.\<close>

fun fold_opt :: "('x \<Rightarrow> 'a \<Rightarrow> 'a option) \<Rightarrow> 'x list \<Rightarrow> 'a \<Rightarrow> 'a option" where
  "fold_opt f [] a = Some a"
| "fold_opt f (x # xs) a = do { a' \<leftarrow> f x a; fold_opt f xs a' }"

lemma fold_opt_rule:
  assumes "fold_opt f xs a = Some b" "P a"
    and "\<And>x a b. x \<in> set xs \<Longrightarrow> f x a = Some b \<Longrightarrow> P a \<Longrightarrow> P b"
  shows "P b"
  using assms by (induction xs arbitrary: a) (auto simp: bind_Some_iff)

lemma fold_opt_total:
  assumes "P a" and "\<And>x a. x \<in> set xs \<Longrightarrow> P a \<Longrightarrow> \<exists>b. f x a = Some b \<and> P b"
  shows "\<exists>b. fold_opt f xs a = Some b \<and> P b"
  using assms
proof (induction xs arbitrary: a)
  case Nil
  then show ?case by simp
next
  case (Cons x xs)
  then obtain a' where "f x a = Some a'" "P a'" by (meson list.set_intros(1))
  with Cons.IH [of a'] Cons.prems(2) show ?case by (auto intro: list.set_intros(2))
qed

lemma fold_opt_append:
  "fold_opt f (xs @ ys) a = do { b \<leftarrow> fold_opt f xs a; fold_opt f ys b }"
  by (induction xs arbitrary: a) (auto split: bind_splits)

text \<open>A loop that rewrites the first \<open>n\<close> elements of a list one by one.\<close>

lemma fold_opt_rewrite:
  assumes "fold_opt (\<lambda>i xs. do { x \<leftarrow> nth_opt xs i; y \<leftarrow> g x; update_opt xs i y }) [0..<n] xs = Some ys"
  shows "n \<le> length xs \<and> length ys = length xs \<and> (\<forall>i < n. g (xs ! i) = Some (ys ! i))
    \<and> (\<forall>i. n \<le> i \<longrightarrow> ys ! i = xs ! i)"
  using assms
proof (induction n arbitrary: ys)
  case 0
  then show ?case by simp
next
  case (Suc n)
  from Suc.prems obtain zs y where zs: "fold_opt (\<lambda>i xs. do { x \<leftarrow> nth_opt xs i; y \<leftarrow> g x; update_opt xs i y })
      [0..<n] xs = Some zs" and y: "n < length zs" "g (zs ! n) = Some y" "ys = zs[n := y]"
    by (auto simp: fold_opt_append bind_Some_iff)
  note ih = Suc.IH [OF zs]
  have "g (xs ! i) = Some (ys ! i)" if "i < Suc n" for i
    using ih y that by (cases "i = n") auto
  moreover have "ys ! i = xs ! i" if "Suc n \<le> i" for i
    using ih y that by auto
  ultimately show ?case using ih y by auto
qed

lemma fold_opt_rewrite_total:
  assumes "n \<le> length xs" "\<And>x. g x \<noteq> None"
  shows "fold_opt (\<lambda>i xs. do { x \<leftarrow> nth_opt xs i; y \<leftarrow> g x; update_opt xs i y }) [0..<n] xs \<noteq> None"
  using assms
proof (induction n)
  case 0
  then show ?case by simp
next
  case (Suc n)
  from Suc.IH Suc.prems obtain zs where
    zs: "fold_opt (\<lambda>i xs. do { x \<leftarrow> nth_opt xs i; y \<leftarrow> g x; update_opt xs i y }) [0..<n] xs = Some zs"
    by (meson Suc_leD not_None_eq)
  from fold_opt_rewrite [OF zs] Suc.prems(1) have n: "n < length zs" by simp
  from Suc.prems(2) obtain y where "g (zs ! n) = Some y" by (meson not_None_eq)
  with zs n show ?case by (simp add: fold_opt_append)
qed

section \<open>Counting in lists and association lists\<close>

text \<open>How many elements satisfy a predicate, and how a single write changes the number.\<close>

definition count_if :: "('a \<Rightarrow> bool) \<Rightarrow> 'a list \<Rightarrow> nat" where
  "count_if P xs = length (filter P xs)"

lemma count_if_simps [simp]:
  "count_if P [] = 0"
  "count_if P (x # xs) = (if P x then Suc (count_if P xs) else count_if P xs)"
  "count_if P (xs @ ys) = count_if P xs + count_if P ys"
  by (simp_all add: count_if_def)

lemma count_if_update:
  assumes "i < length xs"
  shows "count_if P (xs[i := x]) + (if P (xs ! i) then 1 else 0)
       = count_if P xs + (if P x then 1 else 0)"
  using assms
proof (induction xs arbitrary: i)
  case Nil
  then show ?case by simp
next
  case (Cons y ys)
  then show ?case by (cases i) (auto split: if_splits)
qed

lemma count_if_update_same:
  assumes "i < length xs" "P x = P (xs ! i)"
  shows "count_if P (xs[i := x]) = count_if P xs"
  using count_if_update [OF assms(1), of P x] assms(2) by (auto split: if_splits)

lemma count_if_zero: "count_if P xs = 0 \<longleftrightarrow> (\<forall>x \<in> set xs. \<not> P x)"
  by (induction xs) auto

lemma count_if_le [simp]: "count_if P xs \<le> length xs"
  by (simp add: count_if_def)

lemma count_if_cong [cong]: "xs = ys \<Longrightarrow> (\<And>x. x \<in> set ys \<Longrightarrow> P x = Q x) \<Longrightarrow> count_if P xs = count_if Q ys"
  by (auto simp: count_if_def intro!: arg_cong [where f = length] filter_cong)

text \<open>The number of keys bound to a value, in an association list with distinct keys.\<close>

definition count_val :: "'v \<Rightarrow> ('k \<times> 'v) list \<Rightarrow> nat" where
  "count_val v al = count_if (\<lambda>kv. snd kv = v) al"

lemma count_val_Nil [simp]: "count_val v [] = 0"
  by (simp add: count_val_def)

lemma count_val_le: "count_val v al \<le> length al"
  by (simp add: count_val_def)

lemma count_val_update_fresh:
  "k \<notin> fst ` set al \<Longrightarrow>
   count_val v (AList.update k w al) = count_val v al + (if w = v then 1 else 0)"
  by (induction al) (auto simp: count_val_def)

lemma count_val_delete:
  assumes "distinct (map fst al)" "map_of al k = Some w"
  shows "count_val v (AList.delete k al) + (if w = v then 1 else 0) = count_val v al"
  using assms
proof (induction al)
  case Nil
  then show ?case by simp
next
  case (Cons a al)
  show ?case
  proof (cases "fst a = k")
    case True
    with Cons.prems have "k \<notin> fst ` set al" "snd a = w" by auto
    then have "AList.delete k al = al" "snd a = w"
      by (simp_all add: delete_notin_dom dom_map_of_conv_image_fst)
    then show ?thesis using True by (cases a) (simp add: count_val_def)
  next
    case False
    with Cons show ?thesis by (cases a) (auto simp: count_val_def split: if_splits)
  qed
qed

lemma count_val_pos: "map_of al k = Some v \<Longrightarrow> 0 < count_val v al"
  by (induction al) (auto simp: count_val_def split: if_splits)

lemma map_of_None_iff_fst: "map_of al k = None \<longleftrightarrow> k \<notin> fst ` set al"
  by (simp add: map_of_eq_None_iff)

lemma map_of_delete: "map_of (AList.delete k al) = (map_of al)(k := None)"
  by (simp add: delete_conv')

lemma map_of_update: "map_of (AList.update k v al) = (map_of al)(k \<mapsto> v)"
  by (simp add: update_conv')

lemma distinct_keys_update: "distinct (map fst al) \<Longrightarrow> distinct (map fst (AList.update k v al))"
  by (rule distinct_update)

lemma distinct_keys_delete: "distinct (map fst al) \<Longrightarrow> distinct (map fst (AList.delete k al))"
  by (rule distinct_delete)

lemma keys_update: "fst ` set (AList.update k v al) = insert k (fst ` set al)"
  using AList.dom_update [of k v al] by simp

lemma keys_delete: "fst ` set (AList.delete k al) = fst ` set al - {k}"
  by (induction al) auto

lemma length_update_fresh:
  "k \<notin> fst ` set al \<Longrightarrow> length (AList.update k v al) = Suc (length al)"
  by (induction al) (auto split: prod.splits)

lemma length_update_old:
  "k \<in> fst ` set al \<Longrightarrow> length (AList.update k v al) = length al"
  by (induction al) auto

lemma mset_keys_update_fresh:
  "k \<notin> fst ` set al \<Longrightarrow> mset (map fst (AList.update k v al)) = add_mset k (mset (map fst al))"
  by (induction al) auto

lemma mset_keys_delete:
  assumes "distinct (map fst al)" "k \<in> fst ` set al"
  shows "add_mset k (mset (map fst (AList.delete k al))) = mset (map fst al)"
  using assms
proof (induction al)
  case Nil
  then show ?case by simp
next
  case (Cons a al)
  show ?case
  proof (cases "fst a = k")
    case True
    with Cons.prems have "k \<notin> fst ` set al" by auto
    then have "AList.delete k al = al"
      by (simp add: delete_notin_dom dom_map_of_conv_image_fst)
    then show ?thesis using True by (cases a) simp
  next
    case False
    with Cons show ?thesis by (cases a) auto
  qed
qed

end
