(* ===== verification/GpuTypes.thy ===== *)
theory GpuTypes
  imports Prelude
begin

text \<open>
  The types and helper classes of \<open>gpgpusim_cache/gpgpu_cache/gpgpu_stubs.h\<close> that the caches
  are built on: access descriptors (\<open>mem_access_t\<close>), request tokens (\<open>mem_fetch\<close>) and the
  memory they live in, the allocator, the port to the next memory level, and the two hash
  functions of the set index. The enums of \<open>gpu_cache_ref.h\<close> that every component uses are
  here too.

  Tokens are shared: the caller, the MSHR table, the miss queue and the maps of a cache hold
  pointers to one \<open>mem_fetch\<close> and write its size, address and status. They therefore live in an
  explicit heap, and a pointer is its address \<open>mf_ref\<close>. Constructor arguments the stub ignores
  (\<open>ctx\<close>, \<open>cycle\<close>) are left out, as are the print functions.
\<close>

type_synonym new_addr_type = u64
type_synonym time = u32
type_synonym byte_mask = "128 word"
type_synonym sector_mask = "4 word"
type_synonym active_mask = "64 word"
type_synonym mf_ref = nat

definition SECTOR_SIZE :: nat where "SECTOR_SIZE = 32"
definition SECTOR_CHUNCK_SIZE :: nat where "SECTOR_CHUNCK_SIZE = 4"
definition MAX_DEFAULT_CACHE_SIZE_MULTIBLIER :: u32 where
  "MAX_DEFAULT_CACHE_SIZE_MULTIBLIER = 4"

text \<open>\<open>LOGB2\<close>: count the right shifts until the value is zero.\<close>

fun LOGB2 :: "nat \<Rightarrow> nat" where
  "LOGB2 x = (if x div 2 = 0 then 0 else Suc (LOGB2 (x div 2)))"

declare LOGB2.simps [simp del]

text \<open>\<open>bitset::count\<close>.\<close>

definition mask_count :: "'a::len word \<Rightarrow> nat" where
  "mask_count m = length (filter (bit m) [0..<LENGTH('a)])"

text \<open>\<open>mem_access_sector_mask_t().set(j)\<close>: the mask with only sector \<open>j\<close>.\<close>

definition one_sector :: "nat \<Rightarrow> sector_mask" where
  "one_sector j = push_bit j 1"

datatype mem_fetch_status = IN_SHADER_FETCHED | IN_L1I_MISS_QUEUE | IN_L1D_MISS_QUEUE
  | IN_L1C_MISS_QUEUE | IN_L1T_MISS_QUEUE | IN_SHADER_L1T_ROB | IN_PARTITION_ICNT_TO_L2_QUEUE
  | IN_PARTITION_ROP_DELAY | IN_PARTITION_L2_TO_ICNT_QUEUE | IN_PARTITION_L2_FILL_QUEUE
  | IN_PARTITION_L2_TO_DRAM_QUEUE | NUM_MEM_FETCH_STATUS

datatype FuncCache = FuncCachePreferNone | FuncCachePreferShared | FuncCachePreferL1
  | FuncCachePreferEqual

datatype mem_access_type = GLOBAL_ACC_R | LOCAL_ACC_R | CONST_ACC_R | TEXTURE_ACC_R
  | GLOBAL_ACC_W | LOCAL_ACC_W | L1_WRBK_ACC | L2_WRBK_ACC | INST_ACC_R | L1_WR_ALLOC_R
  | L2_WR_ALLOC_R

text \<open>The enumerators' integer values, used as row numbers of the statistics.\<close>

fun mem_access_type_num :: "mem_access_type \<Rightarrow> nat" where
  "mem_access_type_num GLOBAL_ACC_R = 0"
| "mem_access_type_num LOCAL_ACC_R = 1"
| "mem_access_type_num CONST_ACC_R = 2"
| "mem_access_type_num TEXTURE_ACC_R = 3"
| "mem_access_type_num GLOBAL_ACC_W = 4"
| "mem_access_type_num LOCAL_ACC_W = 5"
| "mem_access_type_num L1_WRBK_ACC = 6"
| "mem_access_type_num L2_WRBK_ACC = 7"
| "mem_access_type_num INST_ACC_R = 8"
| "mem_access_type_num L1_WR_ALLOC_R = 9"
| "mem_access_type_num L2_WR_ALLOC_R = 10"

definition NUM_MEM_ACCESS_TYPE :: nat where "NUM_MEM_ACCESS_TYPE = 11"

fun mem_access_type_str :: "mem_access_type \<Rightarrow> string" where
  "mem_access_type_str GLOBAL_ACC_R = ''GLOBAL_ACC_R''"
| "mem_access_type_str LOCAL_ACC_R = ''LOCAL_ACC_R''"
| "mem_access_type_str CONST_ACC_R = ''CONST_ACC_R''"
| "mem_access_type_str TEXTURE_ACC_R = ''TEXTURE_ACC_R''"
| "mem_access_type_str GLOBAL_ACC_W = ''GLOBAL_ACC_W''"
| "mem_access_type_str LOCAL_ACC_W = ''LOCAL_ACC_W''"
| "mem_access_type_str L1_WRBK_ACC = ''L1_WRBK_ACC''"
| "mem_access_type_str L2_WRBK_ACC = ''L2_WRBK_ACC''"
| "mem_access_type_str INST_ACC_R = ''INST_ACC_R''"
| "mem_access_type_str L1_WR_ALLOC_R = ''L1_WR_ALLOC_R''"
| "mem_access_type_str L2_WR_ALLOC_R = ''L2_WR_ALLOC_R''"

lemma mem_access_type_num_less [simp]: "mem_access_type_num t < NUM_MEM_ACCESS_TYPE"
  by (cases t) (simp_all add: NUM_MEM_ACCESS_TYPE_def)

lemma mem_access_type_num_inj [simp]: "mem_access_type_num s = mem_access_type_num t \<longleftrightarrow> s = t"
  by (cases s; cases t) simp_all

section \<open>Access descriptors and request tokens\<close>

record mem_access_t =
  acc_type :: mem_access_type
  acc_addr :: new_addr_type
  acc_size :: u32
  acc_warp_mask :: active_mask
  acc_byte_mask :: byte_mask
  acc_sector_mask :: sector_mask
  acc_is_write :: bool

text \<open>The constructor: an empty sector mask becomes sector 0.\<close>

definition new_mem_access ::
  "mem_access_type \<Rightarrow> new_addr_type \<Rightarrow> u32 \<Rightarrow> bool \<Rightarrow> active_mask \<Rightarrow> byte_mask \<Rightarrow> sector_mask
   \<Rightarrow> mem_access_t" where
  "new_mem_access type addr sz wr warp_mask byte_mask sector_mask =
     \<lparr>acc_type = type, acc_addr = addr, acc_size = sz, acc_warp_mask = warp_mask,
      acc_byte_mask = byte_mask,
      acc_sector_mask = (if mask_count sector_mask = 0 then one_sector 0 else sector_mask),
      acc_is_write = wr\<rparr>"

definition default_mem_access :: mem_access_t where
  "default_mem_access =
     \<lparr>acc_type = GLOBAL_ACC_R, acc_addr = 0, acc_size = 0, acc_warp_mask = 0,
      acc_byte_mask = - 1, acc_sector_mask = one_sector 0, acc_is_write = False\<rparr>"

record warp_inst_t =
  inst_pc :: u32
  m_is_ldgsts :: bool
  m_is_store :: bool
  m_is_load :: bool
  m_is_write_inst :: bool

definition new_warp_inst :: warp_inst_t where
  "new_warp_inst = \<lparr>inst_pc = 0, m_is_ldgsts = False, m_is_store = False, m_is_load = False,
     m_is_write_inst = False\<rparr>"

definition inst_get_uid :: "warp_inst_t \<Rightarrow> u32" where
  "inst_get_uid i = 0"

record mem_fetch =
  m_access :: mem_access_t
  m_inst :: warp_inst_t
  m_streamID :: u64
  m_ctrl_size :: u32
  m_wid :: u32
  m_sid :: u32
  m_tpc :: u32
  mf_status :: mem_fetch_status
  original_mf :: "mf_ref option"
  original_wr_mf :: "mf_ref option"
  m_data_size :: u32
  tlx_chip :: u32
  tlx_sub_partition :: u32

definition new_mem_fetch ::
  "mem_access_t \<Rightarrow> warp_inst_t option \<Rightarrow> u64 \<Rightarrow> u32 \<Rightarrow> u32 \<Rightarrow> u32 \<Rightarrow> u32 \<Rightarrow> mf_ref option
   \<Rightarrow> mf_ref option \<Rightarrow> mem_fetch" where
  "new_mem_fetch access inst streamID ctrl_size wid sid tpc orig orig_wr =
     \<lparr>m_access = access, m_inst = (case inst of Some i \<Rightarrow> i | None \<Rightarrow> new_warp_inst),
      m_streamID = streamID, m_ctrl_size = ctrl_size, m_wid = wid, m_sid = sid, m_tpc = tpc,
      mf_status = NUM_MEM_FETCH_STATUS, original_mf = orig, original_wr_mf = orig_wr,
      m_data_size = acc_size access, tlx_chip = 0, tlx_sub_partition = 0\<rparr>"

abbreviation get_addr :: "mem_fetch \<Rightarrow> new_addr_type" where
  "get_addr mf \<equiv> acc_addr (m_access mf)"

abbreviation get_is_write :: "mem_fetch \<Rightarrow> bool" where
  "get_is_write mf \<equiv> acc_is_write (m_access mf)"

abbreviation get_access_type :: "mem_fetch \<Rightarrow> mem_access_type" where
  "get_access_type mf \<equiv> acc_type (m_access mf)"

abbreviation get_access_byte_mask :: "mem_fetch \<Rightarrow> byte_mask" where
  "get_access_byte_mask mf \<equiv> acc_byte_mask (m_access mf)"

abbreviation get_access_sector_mask :: "mem_fetch \<Rightarrow> sector_mask" where
  "get_access_sector_mask mf \<equiv> acc_sector_mask (m_access mf)"

abbreviation get_access_warp_mask :: "mem_fetch \<Rightarrow> active_mask" where
  "get_access_warp_mask mf \<equiv> acc_warp_mask (m_access mf)"

definition set_data_size :: "u32 \<Rightarrow> mem_fetch \<Rightarrow> mem_fetch" where
  "set_data_size sz mf = mf\<lparr>m_data_size := sz\<rparr>"

definition set_addr :: "new_addr_type \<Rightarrow> mem_fetch \<Rightarrow> mem_fetch" where
  "set_addr a mf = mf\<lparr>m_access := (m_access mf)\<lparr>acc_addr := a\<rparr>\<rparr>"

definition set_mf_status :: "mem_fetch_status \<Rightarrow> mem_fetch \<Rightarrow> mem_fetch" where
  "set_mf_status s mf = mf\<lparr>mf_status := s\<rparr>"

definition set_chip :: "u32 \<Rightarrow> mem_fetch \<Rightarrow> mem_fetch" where
  "set_chip c mf = mf\<lparr>tlx_chip := c\<rparr>"

definition set_partition :: "u32 \<Rightarrow> mem_fetch \<Rightarrow> mem_fetch" where
  "set_partition p mf = mf\<lparr>tlx_sub_partition := p\<rparr>"

definition isatomic :: "mem_fetch \<Rightarrow> bool" where
  "isatomic mf = False"

lemmas mf_setter_defs [cache_simps] = set_data_size_def set_addr_def set_mf_status_def
  set_chip_def set_partition_def

lemma mf_setters_simps [simp]:
  "m_access (set_data_size n mf) = m_access mf" "m_data_size (set_data_size n mf) = n"
  "get_addr (set_addr a mf) = a" "m_data_size (set_addr a mf) = m_data_size mf"
  "get_access_sector_mask (set_addr a mf) = get_access_sector_mask mf"
  "get_access_byte_mask (set_addr a mf) = get_access_byte_mask mf"
  "get_is_write (set_addr a mf) = get_is_write mf"
  "m_access (set_mf_status s mf) = m_access mf" "m_data_size (set_mf_status s mf) = m_data_size mf"
  "m_access (set_chip c mf) = m_access mf" "m_access (set_partition p mf) = m_access mf"
  by (simp_all add: mf_setter_defs)

section \<open>The heap of tokens\<close>

record mf_heap =
  mfs :: "mf_ref \<Rightarrow> mem_fetch option"
  next_mf :: mf_ref

definition empty_heap :: mf_heap where
  "empty_heap = \<lparr>mfs = (\<lambda>_. None), next_mf = 0\<rparr>"

text \<open>\<open>new mem_fetch(...)\<close>: an address never handed out before.\<close>

definition heap_new :: "mem_fetch \<Rightarrow> mf_heap \<Rightarrow> mf_ref \<times> mf_heap" where
  "heap_new mf h = (next_mf h, h\<lparr>mfs := (mfs h)(next_mf h \<mapsto> mf), next_mf := Suc (next_mf h)\<rparr>)"

text \<open>Reading or writing through a dangling pointer has no defined outcome.\<close>

definition heap_get :: "mf_heap \<Rightarrow> mf_ref \<Rightarrow> mem_fetch option" where
  "heap_get h r = mfs h r"

definition heap_upd :: "mf_ref \<Rightarrow> (mem_fetch \<Rightarrow> mem_fetch) \<Rightarrow> mf_heap \<Rightarrow> mf_heap option" where
  "heap_upd r f h =
     (case mfs h r of None \<Rightarrow> None | Some mf \<Rightarrow> Some (h\<lparr>mfs := (mfs h)(r \<mapsto> f mf)\<rparr>))"

definition heap_delete :: "mf_ref \<Rightarrow> mf_heap \<Rightarrow> mf_heap" where
  "heap_delete r h = h\<lparr>mfs := (mfs h)(r := None)\<rparr>"

text \<open>Every allocated token lies below the allocation pointer.\<close>

definition heap_ok :: "mf_heap \<Rightarrow> bool" where
  "heap_ok h \<longleftrightarrow> (\<forall>r. mfs h r \<noteq> None \<longrightarrow> r < next_mf h)"

lemma heap_ok_empty [simp]: "heap_ok empty_heap"
  by (simp add: heap_ok_def empty_heap_def)

lemma heap_ok_new: "heap_ok h \<Longrightarrow> heap_ok (snd (heap_new mf h))"
  by (auto simp: heap_ok_def heap_new_def less_Suc_eq)

lemma heap_ok_upd: "heap_ok h \<Longrightarrow> heap_upd r f h = Some h' \<Longrightarrow> heap_ok h'"
  by (auto simp: heap_ok_def heap_upd_def split: option.splits if_splits)

lemma heap_ok_delete: "heap_ok h \<Longrightarrow> heap_ok (heap_delete r h)"
  by (auto simp: heap_ok_def heap_delete_def)

lemma heap_upd_next [simp]: "heap_upd r f h = Some h' \<Longrightarrow> next_mf h' = next_mf h"
  by (auto simp: heap_upd_def split: option.splits)

lemma heap_upd_None: "heap_upd r f h = None \<longleftrightarrow> mfs h r = None"
  by (simp add: heap_upd_def split: option.splits)

lemma heap_upd_Some: "heap_upd r f h = Some h' \<longleftrightarrow>
   (\<exists>mf. mfs h r = Some mf \<and> h' = h\<lparr>mfs := (mfs h)(r \<mapsto> f mf)\<rparr>)"
  by (auto simp: heap_upd_def split: option.splits)

section \<open>The allocator and the memory port\<close>

record simple_mf_allocator =
  allocated :: "mf_ref list"

text \<open>First \<open>alloc\<close> overload: a plain read or write token in sector 0.\<close>

definition alloc_simple ::
  "new_addr_type \<Rightarrow> mem_access_type \<Rightarrow> u32 \<Rightarrow> bool \<Rightarrow> u64 \<Rightarrow> simple_mf_allocator \<Rightarrow> mf_heap
   \<Rightarrow> mf_ref \<times> simple_mf_allocator \<times> mf_heap" where
  "alloc_simple addr type sz wr streamID al h =
     (let access = new_mem_access type addr sz wr 0 0 (one_sector 0);
          inst = (if wr then new_warp_inst\<lparr>m_is_store := True, m_is_write_inst := True\<rparr>
                  else new_warp_inst\<lparr>m_is_load := True\<rparr>);
          (r, h') = heap_new (new_mem_fetch access (Some inst) streamID 0 0 0 0 None None) h
      in (r, al\<lparr>allocated := allocated al @ [r]\<rparr>, h'))"

text \<open>Second overload, which the write-backs of \<open>data_cache\<close> use.\<close>

definition alloc_masked ::
  "new_addr_type \<Rightarrow> mem_access_type \<Rightarrow> active_mask \<Rightarrow> byte_mask \<Rightarrow> sector_mask \<Rightarrow> u32 \<Rightarrow> bool
   \<Rightarrow> u32 \<Rightarrow> u32 \<Rightarrow> u32 \<Rightarrow> mf_ref option \<Rightarrow> u64 \<Rightarrow> simple_mf_allocator \<Rightarrow> mf_heap
   \<Rightarrow> mf_ref \<times> simple_mf_allocator \<times> mf_heap" where
  "alloc_masked addr type active byte_mask sector_mask sz wr wid sid tpc orig streamID al h =
     (let sm = (if mask_count sector_mask = 0 then one_sector 0 else sector_mask);
          access = new_mem_access type addr sz wr active byte_mask sm;
          (r, h') = heap_new (new_mem_fetch access (Some new_warp_inst) streamID 0 wid sid tpc
                                orig None) h
      in (r, al\<lparr>allocated := allocated al @ [r]\<rparr>, h'))"

record simple_mem_interface =
  port_queue :: "mf_ref list"
  max_queue_size :: u32
  max_queue_occupancy :: u32

definition new_mem_interface :: "u32 \<Rightarrow> simple_mem_interface" where
  "new_mem_interface n = \<lparr>port_queue = [], max_queue_size = n, max_queue_occupancy = 0\<rparr>"

definition port_full :: "simple_mem_interface \<Rightarrow> u32 \<Rightarrow> bool \<Rightarrow> bool" where
  "port_full p sz wr = (unat (max_queue_size p) \<le> length (port_queue p))"

text \<open>The comparison as a walk down the queue, for evaluation with large bounds.\<close>

fun at_least :: "u32 \<Rightarrow> 'a list \<Rightarrow> bool" where
  "at_least w [] = (w = 0)"
| "at_least w (x # xs) = (w = 0 \<or> at_least (w - 1) xs)"

lemma at_least_length: "at_least w xs \<longleftrightarrow> unat w \<le> length xs"
proof (induction xs arbitrary: w)
  case (Cons x xs)
  then show ?case by (cases "w = 0") (auto simp: unat_minus_one unat_gt_0)
qed (simp add: unat_eq_0)

lemma port_full_code [code]: "port_full p sz wr = at_least (max_queue_size p) (port_queue p)"
  by (simp add: port_full_def at_least_length)

definition port_push :: "mf_ref \<Rightarrow> simple_mem_interface \<Rightarrow> simple_mem_interface" where
  "port_push mf p =
     (let q = port_queue p @ [mf] in
      p\<lparr>port_queue := q,
        max_queue_occupancy := (if unat (max_queue_occupancy p) < length q
                                then of_nat (length q) else max_queue_occupancy p)\<rparr>)"

text \<open>
  What \<open>mem_fetch_interface\<close> promises its clients: a port holds a bounded queue of tokens, \<open>push\<close>
  appends one, and \<open>full\<close> says that the bound is reached.
\<close>

locale mem_port =
  fixes full :: "'p \<Rightarrow> u32 \<Rightarrow> bool \<Rightarrow> bool"
    and push :: "mf_ref \<Rightarrow> 'p \<Rightarrow> 'p"
    and contents :: "'p \<Rightarrow> mf_ref list"
    and capacity :: "'p \<Rightarrow> nat"
  assumes contents_push: "contents (push mf p) = contents p @ [mf]"
    and capacity_push: "capacity (push mf p) = capacity p"
    and full_iff: "full p sz wr \<longleftrightarrow> capacity p \<le> length (contents p)"
begin

lemma push_within: "\<not> full p sz wr \<Longrightarrow> length (contents (push mf p)) \<le> capacity (push mf p)"
  by (simp add: contents_push capacity_push full_iff)

text \<open>Sending from the head of a queue while the port has room keeps the order of the tokens.\<close>

definition send_head :: "mf_ref list \<times> 'p \<Rightarrow> mf_ref list \<times> 'p" where
  "send_head qp = (case qp of ([], p) \<Rightarrow> ([], p)
     | (mf # q, p) \<Rightarrow> if full p 0 False then (mf # q, p) else (q, push mf p))"

lemma send_head_order:
  "contents (snd (send_head (q, p))) @ fst (send_head (q, p)) = contents p @ q"
  by (cases q) (simp_all add: send_head_def contents_push)

lemma full_any: "full p sz wr = full p sz' wr'"
  by (simp add: full_iff)

end

interpretation simple_port: mem_port port_full port_push port_queue "\<lambda>p. unat (max_queue_size p)"
  by unfold_locales (simp_all add: port_full_def port_push_def Let_def)

section \<open>Hash functions of the set index\<close>

definition bitwise_hash_function :: "u64 \<Rightarrow> u32 \<Rightarrow> u32 \<Rightarrow> u32" where
  "bitwise_hash_function higher_bits index bank_set_num =
     ucast ((ucast index XOR higher_bits) AND ucast (bank_set_num - 1))"

definition ipoly_hash_function :: "u64 \<Rightarrow> u32 \<Rightarrow> u32 \<Rightarrow> u32" where
  "ipoly_hash_function higher_bits index bank_set_num =
     (let a = higher_bits;
          h = (ucast a :: u32) XOR ucast (drop_bit 32 a);
          h = (h XOR drop_bit 16 h) * 0x85ebca6b;
          h = (h XOR drop_bit 13 h) * 0xc2b2ae35;
          h = h XOR drop_bit 16 h
      in h AND (bank_set_num - 1))"

definition partition_address :: "new_addr_type \<Rightarrow> new_addr_type" where
  "partition_address addr = addr"

definition translation_set_index :: "new_addr_type \<Rightarrow> nat \<Rightarrow> nat \<Rightarrow> u32" where
  "translation_set_index addr nset_log2 lsize_log2 =
     ucast (drop_bit lsize_log2 addr AND ucast (push_bit nset_log2 (1 :: u32) - 1))"

lemma and_pred_less:
  fixes n :: "'a::len word"
  assumes "n \<noteq> 0"
  shows "x AND (n - 1) < n"
proof -
  have "x AND (n - 1) \<le> n - 1" by (rule word_and_le1)
  moreover have "n - 1 < n"
    using assms by (simp add: word_less_nat_alt unat_minus_one unat_gt_0)
  ultimately show ?thesis by (rule le_less_trans)
qed

end
