(* ===== verification/DataStore.thy ===== *)
theory DataStore
  imports GpuTypes
begin

text \<open>
  \<open>DataStore\<close> of \<open>data_store.h\<close>: the functional memory of one level, bytes keyed by block address.
  Writing fewer bytes than an entry holds keeps its tail, and reading more than it holds pads
  with zeros. The source pointer of \<open>write\<close> is the list of bytes it points to.

  The locale \<open>byte_store\<close> states what a memory system relies on, and the store interprets it.
\<close>

type_synonym byte = "8 word"

record data_store =
  m_storage :: "(new_addr_type \<times> byte list) list"

definition new_data_store :: data_store where
  "new_data_store = \<lparr>m_storage = []\<rparr>"

text \<open>\<open>vector::resize\<close> to a larger size, with zeros.\<close>

definition resize_to :: "nat \<Rightarrow> byte list \<Rightarrow> byte list" where
  "resize_to n xs = xs @ replicate (n - length xs) 0"

definition ds_write :: "new_addr_type \<Rightarrow> byte list \<Rightarrow> nat \<Rightarrow> data_store \<Rightarrow> data_store option" where
  "ds_write block_addr data sz s =
     (if length data < sz then None
      else
        let entry = (case map_of (m_storage s) block_addr of Some e \<Rightarrow> e | None \<Rightarrow> []);
            entry = (if length entry < sz then resize_to sz entry else entry)
        in Some (s\<lparr>m_storage :=
             AList.update block_addr (take sz data @ drop sz entry) (m_storage s)\<rparr>))"

definition ds_read :: "new_addr_type \<Rightarrow> nat \<Rightarrow> data_store \<Rightarrow> byte list" where
  "ds_read block_addr sz s =
     (case map_of (m_storage s) block_addr of
        None \<Rightarrow> replicate sz 0
      | Some e \<Rightarrow> (if length e < sz then resize_to sz e else e))"

definition ds_contains :: "new_addr_type \<Rightarrow> data_store \<Rightarrow> bool" where
  "ds_contains block_addr s = (map_of (m_storage s) block_addr \<noteq> None)"

definition ds_clear :: "data_store \<Rightarrow> data_store" where
  "ds_clear s = s\<lparr>m_storage := []\<rparr>"

definition ds_size :: "data_store \<Rightarrow> nat" where
  "ds_size s = length (m_storage s)"

section \<open>The contract\<close>

locale byte_store =
  fixes bytes :: "'s \<Rightarrow> 'a \<Rightarrow> byte list"
    and has :: "'a \<Rightarrow> 's \<Rightarrow> bool"
    and put :: "'a \<Rightarrow> byte list \<Rightarrow> nat \<Rightarrow> 's \<Rightarrow> 's option"
    and fetch :: "'a \<Rightarrow> nat \<Rightarrow> 's \<Rightarrow> byte list"
  assumes write_defined: "n \<le> length d \<Longrightarrow> \<exists>s'. put a d n s = Some s'"
    and write_bytes: "put a d n s = Some s' \<Longrightarrow> n \<le> length d \<and> has a s' \<and>
      bytes s' = (bytes s)(a := take n d @ drop n (bytes s a)) \<and> (\<forall>b. b \<noteq> a \<longrightarrow> has b s' = has b s)"
    and read_bytes: "fetch a n s = bytes s a @ replicate (n - length (bytes s a)) 0"
begin

lemma read_length: "n \<le> length (fetch a n s)"
  by (simp add: read_bytes)

lemma read_after_write:
  assumes "put a d n s = Some s'"
  shows "take n (fetch a n s') = take n d"
  using write_bytes [OF assms] by (auto simp: read_bytes)

lemma read_other:
  assumes "put a d n s = Some s'" "b \<noteq> a"
  shows "fetch b m s' = fetch b m s"
  using write_bytes [OF assms(1)] assms(2) by (simp add: read_bytes)

lemma nth_read:
  "k < n \<Longrightarrow> fetch a n s ! k = (if k < length (bytes s a) then bytes s a ! k else 0)"
  by (simp add: read_bytes nth_append)

text \<open>A short write replaces exactly the bytes it brings.\<close>

lemma nth_read_write:
  assumes "put a d n s = Some s'" "k < m"
  shows "fetch a m s' ! k = (if k < n then d ! k else fetch a m s ! k)"
proof -
  from write_bytes [OF assms(1)] have n: "n \<le> length d"
    and b: "bytes s' a = take n d @ drop n (bytes s a)" by auto
  show ?thesis
    using n assms(2) by (auto simp: nth_read b nth_append)
qed

end

definition ds_bytes :: "data_store \<Rightarrow> new_addr_type \<Rightarrow> byte list" where
  "ds_bytes s a = (case map_of (m_storage s) a of Some e \<Rightarrow> e | None \<Rightarrow> [])"

lemma ds_write_bytes:
  assumes "ds_write a d n s = Some s'"
  shows "n \<le> length d \<and> ds_contains a s' \<and>
    ds_bytes s' = (ds_bytes s)(a := take n d @ drop n (ds_bytes s a)) \<and>
    (\<forall>b. b \<noteq> a \<longrightarrow> ds_contains b s' = ds_contains b s)"
  using assms
  by (auto simp: ds_write_def ds_contains_def ds_bytes_def map_of_update resize_to_def Let_def
      fun_eq_iff split: if_splits)

interpretation store: byte_store ds_bytes ds_contains ds_write ds_read
proof unfold_locales
  show "ds_read a n s = ds_bytes s a @ replicate (n - length (ds_bytes s a)) 0" for a n s
    by (simp add: ds_read_def ds_bytes_def resize_to_def split: option.splits)
  show "\<exists>s'. ds_write a d n s = Some s'" if "n \<le> length d" for n d a s
    using that by (simp add: ds_write_def Let_def not_less)
qed (rule ds_write_bytes)

text \<open>C18: Round trip. After a write of \<open>n\<close> bytes to a block, a read of any block and any length sees the
  written bytes in the written positions of that block and what was there before everywhere else: the
  tail of a longer entry survives, and bytes never written read as zero before and after.\<close>

theorem store_round_trip:
  assumes "ds_write a d n s = Some s'" "k < m"
  shows "ds_read b m s' ! k = (if b = a \<and> k < n then d ! k else ds_read b m s ! k)
    \<and> m \<le> length (ds_read b m s')"
  using store.nth_read_write [OF assms] store.read_other [OF assms(1), of b m] store.read_length
  by (cases "b = a") auto

theorem store_round_trip_witness:
  "ds_read 8 4 (the (ds_write 8 [1, 2] 2 new_data_store)) ! 1 = 2"
proof -
  obtain s' where s: "ds_write 8 [1, 2] 2 new_data_store = Some s'"
    using store.write_defined [of 2 "[1, 2]" 8 new_data_store] by auto
  show ?thesis using store_round_trip [OF s, of 1 4 8] by (simp add: s)
qed

end
