(* ===== verification/CacheBlocks.thy ===== *)
theory CacheBlocks
  imports GpuTypes
begin

text \<open>
  The enums and the cache blocks of \<open>gpu_cache_ref.h\<close>. \<open>cache_block_t\<close> is an abstract class with
  two implementations: \<open>line_cache_block\<close>, one state for the whole line, and
  \<open>sector_cache_block\<close>, one state per 32-byte sector. Each is a record that extends the members
  of the base class, each virtual function is a definition, and the datatype \<open>cache_block\<close> with
  the \<open>blk_\<close> functions is the virtual dispatch. \<open>m_set_byte_mask_on_fill\<close>, which no constructor
  initialises, starts as \<open>False\<close>. The arrays of a sector block are functions from the sector
  number, read and written below \<open>SECTOR_CHUNCK_SIZE\<close> only.

  The locales state what the rest of the cache relies on: the counter discipline of \<open>pin\<close> and
  \<open>unpin\<close>, and that no other operation than \<open>allocate\<close> touches that counter.
\<close>

section \<open>Enums\<close>

datatype cache_block_state = INVALID | RESERVED | VALID | MODIFIED

datatype cache_request_status = HIT | HIT_RESERVED | MISS | RESERVATION_FAIL | SECTOR_MISS
  | MSHR_HIT

fun cache_request_status_num :: "cache_request_status \<Rightarrow> nat" where
  "cache_request_status_num HIT = 0"
| "cache_request_status_num HIT_RESERVED = 1"
| "cache_request_status_num MISS = 2"
| "cache_request_status_num RESERVATION_FAIL = 3"
| "cache_request_status_num SECTOR_MISS = 4"
| "cache_request_status_num MSHR_HIT = 5"

definition NUM_CACHE_REQUEST_STATUS :: nat where "NUM_CACHE_REQUEST_STATUS = 6"

datatype cache_reservation_fail_reason = LINE_ALLOC_FAIL | MISS_QUEUE_FULL | MSHR_ENRTY_FAIL
  | MSHR_MERGE_ENRTY_FAIL | MSHR_RW_PENDING | LINE_PINNED_FAIL | HIT_RESPONSE_QUEUE_FULL

fun fail_reason_num :: "cache_reservation_fail_reason \<Rightarrow> nat" where
  "fail_reason_num LINE_ALLOC_FAIL = 0"
| "fail_reason_num MISS_QUEUE_FULL = 1"
| "fail_reason_num MSHR_ENRTY_FAIL = 2"
| "fail_reason_num MSHR_MERGE_ENRTY_FAIL = 3"
| "fail_reason_num MSHR_RW_PENDING = 4"
| "fail_reason_num LINE_PINNED_FAIL = 5"
| "fail_reason_num HIT_RESPONSE_QUEUE_FULL = 6"

definition NUM_CACHE_RESERVATION_FAIL_STATUS :: nat where
  "NUM_CACHE_RESERVATION_FAIL_STATUS = 7"

datatype cache_event_type = WRITE_BACK_REQUEST_SENT | READ_REQUEST_SENT | WRITE_REQUEST_SENT
  | WRITE_ALLOCATE_SENT

datatype cache_gpu_level = L1_GPU_CACHE | L2_GPU_CACHE | OTHER_GPU_CACHE

fun cache_request_status_str :: "cache_request_status \<Rightarrow> string" where
  "cache_request_status_str HIT = ''HIT''"
| "cache_request_status_str HIT_RESERVED = ''HIT_RESERVED''"
| "cache_request_status_str MISS = ''MISS''"
| "cache_request_status_str RESERVATION_FAIL = ''RESERVATION_FAIL''"
| "cache_request_status_str SECTOR_MISS = ''SECTOR_MISS''"
| "cache_request_status_str MSHR_HIT = ''MSHR_HIT''"

fun cache_fail_status_str :: "cache_reservation_fail_reason \<Rightarrow> string" where
  "cache_fail_status_str LINE_ALLOC_FAIL = ''LINE_ALLOC_FAIL''"
| "cache_fail_status_str MISS_QUEUE_FULL = ''MISS_QUEUE_FULL''"
| "cache_fail_status_str MSHR_ENRTY_FAIL = ''MSHR_ENRTY_FAIL''"
| "cache_fail_status_str MSHR_MERGE_ENRTY_FAIL = ''MSHR_MERGE_ENRTY_FAIL''"
| "cache_fail_status_str MSHR_RW_PENDING = ''MSHR_RW_PENDING''"
| "cache_fail_status_str LINE_PINNED_FAIL = ''LINE_PINNED_FAIL''"
| "cache_fail_status_str HIT_RESPONSE_QUEUE_FULL = ''HIT_RESPONSE_QUEUE_FULL''"

text \<open>The enumerators are ordered by their values, as the C++ comparisons order them.\<close>

instantiation cache_request_status :: linorder
begin

definition less_eq_cache_request_status ::
  "cache_request_status \<Rightarrow> cache_request_status \<Rightarrow> bool" where
  "less_eq_cache_request_status a b = (cache_request_status_num a \<le> cache_request_status_num b)"

definition less_cache_request_status ::
  "cache_request_status \<Rightarrow> cache_request_status \<Rightarrow> bool" where
  "less_cache_request_status a b = (cache_request_status_num a < cache_request_status_num b)"

instance
proof
  fix x y z :: cache_request_status
  show "(x < y) = (x \<le> y \<and> \<not> y \<le> x)"
    by (auto simp: less_eq_cache_request_status_def less_cache_request_status_def)
  show "x \<le> x" by (simp add: less_eq_cache_request_status_def)
  show "x \<le> y \<Longrightarrow> y \<le> z \<Longrightarrow> x \<le> z" by (simp add: less_eq_cache_request_status_def)
  show "x \<le> y \<Longrightarrow> y \<le> x \<Longrightarrow> x = y"
    by (cases x; cases y) (simp_all add: less_eq_cache_request_status_def)
  show "x \<le> y \<or> y \<le> x" by (auto simp: less_eq_cache_request_status_def)
qed

end

lemma cache_request_status_num_less [simp]:
  "cache_request_status_num s < NUM_CACHE_REQUEST_STATUS"
  by (cases s) (simp_all add: NUM_CACHE_REQUEST_STATUS_def)

lemma cache_request_status_num_inj [simp]:
  "cache_request_status_num s = cache_request_status_num t \<longleftrightarrow> s = t"
  by (cases s; cases t) simp_all

lemma fail_reason_num_less [simp]: "fail_reason_num f < NUM_CACHE_RESERVATION_FAIL_STATUS"
  by (cases f) (simp_all add: NUM_CACHE_RESERVATION_FAIL_STATUS_def)

lemma fail_reason_num_inj [simp]: "fail_reason_num f = fail_reason_num g \<longleftrightarrow> f = g"
  by (cases f; cases g) simp_all

record evicted_block_info =
  ev_block_addr :: new_addr_type
  ev_modified_size :: u32
  ev_byte_mask :: byte_mask
  ev_sector_mask :: sector_mask

definition no_evicted :: evicted_block_info where
  "no_evicted = \<lparr>ev_block_addr = 0, ev_modified_size = 0, ev_byte_mask = 0, ev_sector_mask = 0\<rparr>"

record cache_event =
  m_cache_event_type :: cache_event_type
  m_evicted_block :: evicted_block_info

definition mk_event :: "cache_event_type \<Rightarrow> cache_event" where
  "mk_event t = \<lparr>m_cache_event_type = t, m_evicted_block = no_evicted\<rparr>"

definition mk_event_evicted :: "cache_event_type \<Rightarrow> evicted_block_info \<Rightarrow> cache_event" where
  "mk_event_evicted t e = \<lparr>m_cache_event_type = t, m_evicted_block = e\<rparr>"

definition was_write_sent :: "cache_event list \<Rightarrow> bool" where
  "was_write_sent es = list_ex (\<lambda>e. m_cache_event_type e = WRITE_REQUEST_SENT) es"

definition was_read_sent :: "cache_event list \<Rightarrow> bool" where
  "was_read_sent es = list_ex (\<lambda>e. m_cache_event_type e = READ_REQUEST_SENT) es"

definition was_writeallocate_sent :: "cache_event list \<Rightarrow> bool" where
  "was_writeallocate_sent es = list_ex (\<lambda>e. m_cache_event_type e = WRITE_ALLOCATE_SENT) es"

text \<open>\<open>was_writeback_sent\<close> also hands out the first write-back event.\<close>

definition was_writeback_sent :: "cache_event list \<Rightarrow> cache_event option" where
  "was_writeback_sent es = find (\<lambda>e. m_cache_event_type e = WRITE_BACK_REQUEST_SENT) es"

section \<open>Line blocks\<close>

record cache_block_base =
  m_tag :: new_addr_type
  m_block_addr :: new_addr_type
  m_pending_response_count :: u32
  m_max_pending_response_count :: u32
  m_dirty_byte_mask :: byte_mask

record line_cache_block = cache_block_base +
  l_alloc_time :: time
  l_last_access_time :: time
  l_fill_time :: time
  l_status :: cache_block_state
  l_ignore_on_fill_status :: bool
  l_set_modified_on_fill :: bool
  l_set_readable_on_fill :: bool
  l_set_byte_mask_on_fill :: bool
  l_readable :: bool

definition new_line_block :: line_cache_block where
  "new_line_block =
     \<lparr>m_tag = 0, m_block_addr = 0, m_pending_response_count = 0,
      m_max_pending_response_count = 0, m_dirty_byte_mask = 0,
      l_alloc_time = 0, l_last_access_time = 0, l_fill_time = 0, l_status = INVALID,
      l_ignore_on_fill_status = False, l_set_modified_on_fill = False,
      l_set_readable_on_fill = False, l_set_byte_mask_on_fill = False, l_readable = True\<rparr>"

definition line_allocate ::
  "new_addr_type \<Rightarrow> new_addr_type \<Rightarrow> time \<Rightarrow> line_cache_block \<Rightarrow> line_cache_block" where
  "line_allocate tag block_addr t b =
     b\<lparr>m_tag := tag, m_block_addr := block_addr, l_alloc_time := t, l_last_access_time := t,
       l_fill_time := 0, l_status := RESERVED, l_ignore_on_fill_status := False,
       l_set_modified_on_fill := False, l_set_readable_on_fill := False,
       l_set_byte_mask_on_fill := False, m_pending_response_count := 0,
       m_max_pending_response_count := 0\<rparr>"

text \<open>\<open>set_byte_mask\<close>, shared by both implementations.\<close>

definition or_byte_mask :: "byte_mask \<Rightarrow> 'a cache_block_base_scheme \<Rightarrow> 'a cache_block_base_scheme"
  where "or_byte_mask bm b = b\<lparr>m_dirty_byte_mask := m_dirty_byte_mask b OR bm\<rparr>"

definition line_fill :: "time \<Rightarrow> byte_mask \<Rightarrow> line_cache_block \<Rightarrow> line_cache_block" where
  "line_fill t byte_mask b =
     (let b1 = b\<lparr>l_status := (if l_set_modified_on_fill b then MODIFIED else VALID)\<rparr>;
          b2 = (if l_set_readable_on_fill b1 then b1\<lparr>l_readable := True\<rparr> else b1);
          b3 = (if l_set_byte_mask_on_fill b2 then or_byte_mask byte_mask b2 else b2)
      in b3\<lparr>l_fill_time := t\<rparr>)"

definition line_dirty_sector_mask :: "line_cache_block \<Rightarrow> sector_mask" where
  "line_dirty_sector_mask b = (if l_status b = MODIFIED then - 1 else 0)"

definition line_modified_size :: u32 where
  "line_modified_size = of_nat (SECTOR_CHUNCK_SIZE * SECTOR_SIZE)"

text \<open>\<open>pin\<close> and \<open>unpin\<close>, the same code in both implementations.\<close>

definition pin_base :: "'a cache_block_base_scheme \<Rightarrow> 'a cache_block_base_scheme" where
  "pin_base b =
     (let n = m_pending_response_count b + 1 in
      b\<lparr>m_pending_response_count := n,
        m_max_pending_response_count := (if m_max_pending_response_count b < n then n
                                         else m_max_pending_response_count b)\<rparr>)"

definition unpin_base :: "'a cache_block_base_scheme \<Rightarrow> 'a cache_block_base_scheme option" where
  "unpin_base b =
     (if m_pending_response_count b > 0
      then Some (b\<lparr>m_pending_response_count := m_pending_response_count b - 1\<rparr>) else None)"

definition is_pinned_base :: "'a cache_block_base_scheme \<Rightarrow> bool" where
  "is_pinned_base b = (m_pending_response_count b \<noteq> 0)"

section \<open>Sector blocks\<close>

record sector_cache_block = cache_block_base +
  s_alloc_time :: "nat \<Rightarrow> time"
  s_last_access_time :: "nat \<Rightarrow> time"
  s_fill_time :: "nat \<Rightarrow> time"
  s_line_alloc_time :: time
  s_line_last_access_time :: time
  s_line_fill_time :: time
  s_status :: "nat \<Rightarrow> cache_block_state"
  s_ignore_on_fill_status :: "nat \<Rightarrow> bool"
  s_set_modified_on_fill :: "nat \<Rightarrow> bool"
  s_set_readable_on_fill :: "nat \<Rightarrow> bool"
  s_set_byte_mask_on_fill :: bool
  s_readable :: "nat \<Rightarrow> bool"

definition sectors :: "nat list" where "sectors = [0..<SECTOR_CHUNCK_SIZE]"

text \<open>\<open>init()\<close>: everything but the tag, the block address and \<open>m_set_byte_mask_on_fill\<close>.\<close>

definition sector_init :: "sector_cache_block \<Rightarrow> sector_cache_block" where
  "sector_init b =
     b\<lparr>s_alloc_time := (\<lambda>_. 0), s_fill_time := (\<lambda>_. 0), s_last_access_time := (\<lambda>_. 0),
       s_status := (\<lambda>_. INVALID), s_ignore_on_fill_status := (\<lambda>_. False),
       s_set_modified_on_fill := (\<lambda>_. False), s_set_readable_on_fill := (\<lambda>_. False),
       s_readable := (\<lambda>_. True), s_line_alloc_time := 0, s_line_last_access_time := 0,
       s_line_fill_time := 0, m_pending_response_count := 0, m_max_pending_response_count := 0,
       m_dirty_byte_mask := 0\<rparr>"

definition new_sector_block :: sector_cache_block where
  "new_sector_block =
     \<lparr>m_tag = 0, m_block_addr = 0, m_pending_response_count = 0,
      m_max_pending_response_count = 0, m_dirty_byte_mask = 0,
      s_alloc_time = (\<lambda>_. 0), s_last_access_time = (\<lambda>_. 0), s_fill_time = (\<lambda>_. 0),
      s_line_alloc_time = 0, s_line_last_access_time = 0, s_line_fill_time = 0,
      s_status = (\<lambda>_. INVALID), s_ignore_on_fill_status = (\<lambda>_. False),
      s_set_modified_on_fill = (\<lambda>_. False), s_set_readable_on_fill = (\<lambda>_. False),
      s_set_byte_mask_on_fill = False, s_readable = (\<lambda>_. True)\<rparr>"

text \<open>\<open>get_sector_index\<close> asserts that exactly one sector is named.\<close>

definition get_sector_index :: "sector_mask \<Rightarrow> nat option" where
  "get_sector_index m = (if mask_count m = 1 then find (bit m) sectors else None)"

definition sector_allocate_line ::
  "new_addr_type \<Rightarrow> new_addr_type \<Rightarrow> time \<Rightarrow> sector_mask \<Rightarrow> sector_cache_block
   \<Rightarrow> sector_cache_block option" where
  "sector_allocate_line tag block_addr t sm b0 =
     (let b = sector_init b0 in
      case get_sector_index sm of None \<Rightarrow> None
      | Some sidx \<Rightarrow>
          Some (b\<lparr>m_tag := tag, m_block_addr := block_addr,
            s_alloc_time := (s_alloc_time b)(sidx := t),
            s_last_access_time := (s_last_access_time b)(sidx := t),
            s_fill_time := (s_fill_time b)(sidx := 0),
            s_status := (s_status b)(sidx := RESERVED),
            s_ignore_on_fill_status := (s_ignore_on_fill_status b)(sidx := False),
            s_set_modified_on_fill := (s_set_modified_on_fill b)(sidx := False),
            s_set_readable_on_fill := (s_set_readable_on_fill b)(sidx := False),
            s_set_byte_mask_on_fill := False,
            s_line_alloc_time := t, s_line_last_access_time := t, s_line_fill_time := 0\<rparr>))"

definition sector_is_invalid_line :: "sector_cache_block \<Rightarrow> bool" where
  "sector_is_invalid_line b = list_all (\<lambda>i. s_status b i = INVALID) sectors"

definition sector_is_reserved_line :: "sector_cache_block \<Rightarrow> bool" where
  "sector_is_reserved_line b = list_ex (\<lambda>i. s_status b i = RESERVED) sectors"

definition sector_is_modified_line :: "sector_cache_block \<Rightarrow> bool" where
  "sector_is_modified_line b = list_ex (\<lambda>i. s_status b i = MODIFIED) sectors"

definition sector_allocate_sector ::
  "time \<Rightarrow> sector_mask \<Rightarrow> sector_cache_block \<Rightarrow> sector_cache_block option" where
  "sector_allocate_sector t sm b =
     (if sector_is_invalid_line b then None
      else case get_sector_index sm of None \<Rightarrow> None
      | Some sidx \<Rightarrow>
          Some (b\<lparr>s_alloc_time := (s_alloc_time b)(sidx := t),
            s_last_access_time := (s_last_access_time b)(sidx := t),
            s_fill_time := (s_fill_time b)(sidx := 0),
            s_set_modified_on_fill :=
              (s_set_modified_on_fill b)(sidx := (s_status b sidx = MODIFIED)),
            s_set_readable_on_fill := (s_set_readable_on_fill b)(sidx := False),
            s_status := (s_status b)(sidx := RESERVED),
            s_ignore_on_fill_status := (s_ignore_on_fill_status b)(sidx := False),
            s_readable := (s_readable b)(sidx := True),
            s_line_last_access_time := t, s_line_fill_time := 0\<rparr>))"

definition sector_fill ::
  "time \<Rightarrow> sector_mask \<Rightarrow> byte_mask \<Rightarrow> sector_cache_block \<Rightarrow> sector_cache_block option" where
  "sector_fill t sm byte_mask b =
     (case get_sector_index sm of None \<Rightarrow> None
      | Some sidx \<Rightarrow>
          (let b1 = b\<lparr>s_status := (s_status b)(sidx := (if s_set_modified_on_fill b sidx
                                                        then MODIFIED else VALID))\<rparr>;
               b2 = (if s_set_readable_on_fill b1 sidx
                     then b1\<lparr>s_readable := (s_readable b1)(sidx := True),
                             s_set_readable_on_fill := (s_set_readable_on_fill b1)(sidx := False)\<rparr>
                     else b1);
               b3 = (if s_set_byte_mask_on_fill b2 then or_byte_mask byte_mask b2 else b2)
           in Some (b3\<lparr>s_fill_time := (s_fill_time b3)(sidx := t), s_line_fill_time := t\<rparr>)))"

definition sector_dirty_sector_mask :: "sector_cache_block \<Rightarrow> sector_mask" where
  "sector_dirty_sector_mask b =
     fold (\<lambda>i m. if s_status b i = MODIFIED then m OR one_sector i else m) sectors 0"

definition sector_modified_size :: "sector_cache_block \<Rightarrow> u32" where
  "sector_modified_size b =
     of_nat (count_if (\<lambda>i. s_status b i = MODIFIED) sectors) * of_nat SECTOR_SIZE"

end
