(* ===== verification/BlockOps.thy ===== *)
theory BlockOps
  imports CacheBlocks
begin

text \<open>
  The virtual functions of \<open>cache_block_t\<close>: the datatype \<open>cache_block\<close> is a pointer to one of
  the two implementations, and each \<open>blk_\<close> function dispatches on it. The functions that name
  one sector of a sector block fail when the mask is not one-hot, as \<open>get_sector_index\<close> does.
  The second half holds the laws of the block interface and their interpretation.
\<close>

datatype cache_block = LineBlock line_cache_block | SectorBlock sector_cache_block

definition blk_tag :: "cache_block \<Rightarrow> new_addr_type" where
  "blk_tag b = (case b of LineBlock l \<Rightarrow> m_tag l | SectorBlock s \<Rightarrow> m_tag s)"

definition blk_block_addr :: "cache_block \<Rightarrow> new_addr_type" where
  "blk_block_addr b = (case b of LineBlock l \<Rightarrow> m_block_addr l | SectorBlock s \<Rightarrow> m_block_addr s)"

definition blk_allocate ::
  "new_addr_type \<Rightarrow> new_addr_type \<Rightarrow> time \<Rightarrow> sector_mask \<Rightarrow> cache_block \<Rightarrow> cache_block option" where
  "blk_allocate tag block_addr t sm b = (case b of
     LineBlock l \<Rightarrow> Some (LineBlock (line_allocate tag block_addr t l))
   | SectorBlock s \<Rightarrow> map_option SectorBlock (sector_allocate_line tag block_addr t sm s))"

definition blk_fill ::
  "time \<Rightarrow> sector_mask \<Rightarrow> byte_mask \<Rightarrow> cache_block \<Rightarrow> cache_block option" where
  "blk_fill t sm bm b = (case b of
     LineBlock l \<Rightarrow> Some (LineBlock (line_fill t bm l))
   | SectorBlock s \<Rightarrow> map_option SectorBlock (sector_fill t sm bm s))"

definition blk_is_invalid_line :: "cache_block \<Rightarrow> bool" where
  "blk_is_invalid_line b = (case b of LineBlock l \<Rightarrow> l_status l = INVALID
   | SectorBlock s \<Rightarrow> sector_is_invalid_line s)"

definition blk_is_valid_line :: "cache_block \<Rightarrow> bool" where
  "blk_is_valid_line b = (case b of LineBlock l \<Rightarrow> l_status l = VALID
   | SectorBlock s \<Rightarrow> \<not> sector_is_invalid_line s)"

definition blk_is_reserved_line :: "cache_block \<Rightarrow> bool" where
  "blk_is_reserved_line b = (case b of LineBlock l \<Rightarrow> l_status l = RESERVED
   | SectorBlock s \<Rightarrow> sector_is_reserved_line s)"

definition blk_is_modified_line :: "cache_block \<Rightarrow> bool" where
  "blk_is_modified_line b = (case b of LineBlock l \<Rightarrow> l_status l = MODIFIED
   | SectorBlock s \<Rightarrow> sector_is_modified_line s)"

definition blk_get_status :: "sector_mask \<Rightarrow> cache_block \<Rightarrow> cache_block_state option" where
  "blk_get_status sm b = (case b of LineBlock l \<Rightarrow> Some (l_status l)
   | SectorBlock s \<Rightarrow> map_option (s_status s) (get_sector_index sm))"

definition blk_set_status ::
  "cache_block_state \<Rightarrow> sector_mask \<Rightarrow> cache_block \<Rightarrow> cache_block option" where
  "blk_set_status st sm b = (case b of LineBlock l \<Rightarrow> Some (LineBlock (l\<lparr>l_status := st\<rparr>))
   | SectorBlock s \<Rightarrow> map_option (\<lambda>i. SectorBlock (s\<lparr>s_status := (s_status s)(i := st)\<rparr>))
       (get_sector_index sm))"

definition blk_set_byte_mask :: "byte_mask \<Rightarrow> cache_block \<Rightarrow> cache_block" where
  "blk_set_byte_mask bm b = (case b of LineBlock l \<Rightarrow> LineBlock (or_byte_mask bm l)
   | SectorBlock s \<Rightarrow> SectorBlock (or_byte_mask bm s))"

definition blk_dirty_byte_mask :: "cache_block \<Rightarrow> byte_mask" where
  "blk_dirty_byte_mask b = (case b of LineBlock l \<Rightarrow> m_dirty_byte_mask l
   | SectorBlock s \<Rightarrow> m_dirty_byte_mask s)"

definition blk_dirty_sector_mask :: "cache_block \<Rightarrow> sector_mask" where
  "blk_dirty_sector_mask b = (case b of LineBlock l \<Rightarrow> line_dirty_sector_mask l
   | SectorBlock s \<Rightarrow> sector_dirty_sector_mask s)"

definition blk_last_access_time :: "cache_block \<Rightarrow> time" where
  "blk_last_access_time b = (case b of LineBlock l \<Rightarrow> l_last_access_time l
   | SectorBlock s \<Rightarrow> s_line_last_access_time s)"

definition blk_set_last_access_time :: "time \<Rightarrow> sector_mask \<Rightarrow> cache_block \<Rightarrow> cache_block option" where
  "blk_set_last_access_time t sm b = (case b of
     LineBlock l \<Rightarrow> Some (LineBlock (l\<lparr>l_last_access_time := t\<rparr>))
   | SectorBlock s \<Rightarrow> map_option (\<lambda>i. SectorBlock (s\<lparr>s_last_access_time :=
       (s_last_access_time s)(i := t), s_line_last_access_time := t\<rparr>)) (get_sector_index sm))"

definition blk_alloc_time :: "cache_block \<Rightarrow> time" where
  "blk_alloc_time b = (case b of LineBlock l \<Rightarrow> l_alloc_time l
   | SectorBlock s \<Rightarrow> s_line_alloc_time s)"

definition blk_set_ignore_on_fill :: "bool \<Rightarrow> sector_mask \<Rightarrow> cache_block \<Rightarrow> cache_block option" where
  "blk_set_ignore_on_fill v sm b = (case b of
     LineBlock l \<Rightarrow> Some (LineBlock (l\<lparr>l_ignore_on_fill_status := v\<rparr>))
   | SectorBlock s \<Rightarrow> map_option (\<lambda>i. SectorBlock (s\<lparr>s_ignore_on_fill_status :=
       (s_ignore_on_fill_status s)(i := v)\<rparr>)) (get_sector_index sm))"

definition blk_set_modified_on_fill :: "bool \<Rightarrow> sector_mask \<Rightarrow> cache_block \<Rightarrow> cache_block option" where
  "blk_set_modified_on_fill v sm b = (case b of
     LineBlock l \<Rightarrow> Some (LineBlock (l\<lparr>l_set_modified_on_fill := v\<rparr>))
   | SectorBlock s \<Rightarrow> map_option (\<lambda>i. SectorBlock (s\<lparr>s_set_modified_on_fill :=
       (s_set_modified_on_fill s)(i := v)\<rparr>)) (get_sector_index sm))"

definition blk_set_readable_on_fill :: "bool \<Rightarrow> sector_mask \<Rightarrow> cache_block \<Rightarrow> cache_block option" where
  "blk_set_readable_on_fill v sm b = (case b of
     LineBlock l \<Rightarrow> Some (LineBlock (l\<lparr>l_set_readable_on_fill := v\<rparr>))
   | SectorBlock s \<Rightarrow> map_option (\<lambda>i. SectorBlock (s\<lparr>s_set_readable_on_fill :=
       (s_set_readable_on_fill s)(i := v)\<rparr>)) (get_sector_index sm))"

definition blk_set_byte_mask_on_fill :: "bool \<Rightarrow> cache_block \<Rightarrow> cache_block" where
  "blk_set_byte_mask_on_fill v b = (case b of
     LineBlock l \<Rightarrow> LineBlock (l\<lparr>l_set_byte_mask_on_fill := v\<rparr>)
   | SectorBlock s \<Rightarrow> SectorBlock (s\<lparr>s_set_byte_mask_on_fill := v\<rparr>))"

definition blk_modified_size :: "cache_block \<Rightarrow> u32" where
  "blk_modified_size b = (case b of LineBlock l \<Rightarrow> line_modified_size
   | SectorBlock s \<Rightarrow> sector_modified_size s)"

definition blk_set_m_readable :: "bool \<Rightarrow> sector_mask \<Rightarrow> cache_block \<Rightarrow> cache_block option" where
  "blk_set_m_readable v sm b = (case b of LineBlock l \<Rightarrow> Some (LineBlock (l\<lparr>l_readable := v\<rparr>))
   | SectorBlock s \<Rightarrow> map_option (\<lambda>i. SectorBlock (s\<lparr>s_readable := (s_readable s)(i := v)\<rparr>))
       (get_sector_index sm))"

definition blk_is_readable :: "sector_mask \<Rightarrow> cache_block \<Rightarrow> bool option" where
  "blk_is_readable sm b = (case b of LineBlock l \<Rightarrow> Some (l_readable l)
   | SectorBlock s \<Rightarrow> map_option (s_readable s) (get_sector_index sm))"

definition blk_allocate_sector :: "time \<Rightarrow> sector_mask \<Rightarrow> cache_block \<Rightarrow> cache_block option" where
  \<comment> \<open>the cast \<open>(sector_cache_block *)\<close>; the callers assert a sector cache first\<close>
  "blk_allocate_sector t sm b = (case b of LineBlock l \<Rightarrow> None
   | SectorBlock s \<Rightarrow> map_option SectorBlock (sector_allocate_sector t sm s))"

definition blk_pin :: "cache_block \<Rightarrow> cache_block" where
  "blk_pin b = (case b of LineBlock l \<Rightarrow> LineBlock (pin_base l)
   | SectorBlock s \<Rightarrow> SectorBlock (pin_base s))"

definition blk_unpin :: "cache_block \<Rightarrow> cache_block option" where
  "blk_unpin b = (case b of LineBlock l \<Rightarrow> map_option LineBlock (unpin_base l)
   | SectorBlock s \<Rightarrow> map_option SectorBlock (unpin_base s))"

definition blk_pending :: "cache_block \<Rightarrow> u32" where
  "blk_pending b = (case b of LineBlock l \<Rightarrow> m_pending_response_count l
   | SectorBlock s \<Rightarrow> m_pending_response_count s)"

definition blk_max_pending :: "cache_block \<Rightarrow> u32" where
  "blk_max_pending b = (case b of LineBlock l \<Rightarrow> m_max_pending_response_count l
   | SectorBlock s \<Rightarrow> m_max_pending_response_count s)"

definition blk_is_pinned :: "cache_block \<Rightarrow> bool" where
  "blk_is_pinned b = (case b of LineBlock l \<Rightarrow> is_pinned_base l
   | SectorBlock s \<Rightarrow> is_pinned_base s)"

fun is_sector_block :: "cache_block \<Rightarrow> bool" where
  "is_sector_block (SectorBlock s) = True"
| "is_sector_block (LineBlock l) = False"

section \<open>The counter interface\<close>

text \<open>
  What the owner of a block promises about its pending-response counter, and what follows for a
  client that pins and unpins: the counter counts, and \<open>unpin\<close> never trips its assertion while
  every \<open>unpin\<close> is matched by an earlier \<open>pin\<close>.
\<close>

locale pin_counter =
  fixes pending :: "'b \<Rightarrow> u32"
    and pin :: "'b \<Rightarrow> 'b"
    and unpin :: "'b \<Rightarrow> 'b option"
    and pinned :: "'b \<Rightarrow> bool"
  assumes pinned_iff: "pinned b \<longleftrightarrow> pending b \<noteq> 0"
    and pending_pin: "pending (pin b) = pending b + 1"
    and unpin_free: "pending b = 0 \<Longrightarrow> unpin b = None"
    and unpin_held: "pending b \<noteq> 0 \<Longrightarrow> \<exists>b'. unpin b = Some b' \<and> pending b' = pending b - 1"
begin

lemma unpin_Some: "unpin b = Some b' \<Longrightarrow> pending b \<noteq> 0 \<and> pending b' = pending b - 1"
  using unpin_free [of b] unpin_held [of b] by (cases "pending b = 0") auto

lemma pin_then_unpin:
  assumes "pending b + 1 \<noteq> 0"
  shows "\<exists>b'. unpin (pin b) = Some b' \<and> pending b' = pending b"
  using unpin_held [of "pin b"] assms by (auto simp: pending_pin)

lemma unpin_of_nat:
  assumes "pending b = of_nat n" "0 < n" "n < 2 ^ 32"
  shows "\<exists>b'. unpin b = Some b' \<and> pending b' = of_nat (n - 1)"
proof -
  have "(of_nat n :: u32) \<noteq> 0" using assms(2,3) by (rule of_nat_u32_neq_0)
  with unpin_held [of b] assms show ?thesis by (auto simp: of_nat_diff)
qed

lemma pinned_of_nat: "pending b = of_nat n \<Longrightarrow> 0 < n \<Longrightarrow> n < 2 ^ 32 \<Longrightarrow> pinned b"
  by (simp add: pinned_iff of_nat_u32_neq_0)

end

interpretation base_pins: pin_counter "m_pending_response_count :: 'a cache_block_base_scheme \<Rightarrow> u32"
  pin_base unpin_base is_pinned_base
  by unfold_locales
    (auto simp: pin_base_def unpin_base_def is_pinned_base_def Let_def word_gt_0)

interpretation block_pins: pin_counter blk_pending blk_pin blk_unpin blk_is_pinned
proof unfold_locales
  fix b :: cache_block
  show "blk_is_pinned b \<longleftrightarrow> blk_pending b \<noteq> 0"
    by (cases b) (simp_all add: blk_is_pinned_def blk_pending_def is_pinned_base_def)
  show "blk_pending (blk_pin b) = blk_pending b + 1"
    by (cases b) (simp_all add: blk_pin_def blk_pending_def base_pins.pending_pin)
  show "blk_pending b = 0 \<Longrightarrow> blk_unpin b = None"
    by (cases b) (simp_all add: blk_unpin_def blk_pending_def base_pins.unpin_free)
  show "blk_pending b \<noteq> 0 \<Longrightarrow> \<exists>b'. blk_unpin b = Some b' \<and> blk_pending b' = blk_pending b - 1"
    by (cases b) (auto simp: blk_unpin_def blk_pending_def dest: base_pins.unpin_held)
qed

section \<open>What the operations leave alone\<close>

lemmas blk_defs = blk_tag_def blk_block_addr_def blk_fill_def blk_is_invalid_line_def
  blk_is_valid_line_def blk_is_reserved_line_def blk_is_modified_line_def blk_get_status_def
  blk_set_status_def blk_set_byte_mask_def blk_last_access_time_def blk_set_last_access_time_def
  blk_alloc_time_def blk_set_ignore_on_fill_def blk_set_modified_on_fill_def
  blk_set_readable_on_fill_def blk_set_byte_mask_on_fill_def blk_set_m_readable_def
  blk_is_readable_def blk_allocate_sector_def blk_allocate_def

text \<open>Only \<open>allocate\<close> (which resets it), \<open>pin\<close> and \<open>unpin\<close> write the counter.\<close>

lemma pending_fill [pins_simps]: "blk_fill t sm bm b = Some b' \<Longrightarrow> blk_pending b' = blk_pending b"
  by (cases b) (auto simp: blk_fill_def blk_pending_def line_fill_def sector_fill_def Let_def
      or_byte_mask_def split: option.splits if_splits)

lemma pending_set_status [pins_simps]:
  "blk_set_status st sm b = Some b' \<Longrightarrow> blk_pending b' = blk_pending b"
  by (cases b) (auto simp: blk_set_status_def blk_pending_def)

lemma pending_set_last_access_time [pins_simps]:
  "blk_set_last_access_time t sm b = Some b' \<Longrightarrow> blk_pending b' = blk_pending b"
  by (cases b) (auto simp: blk_set_last_access_time_def blk_pending_def)

lemma pending_set_ignore_on_fill [pins_simps]:
  "blk_set_ignore_on_fill v sm b = Some b' \<Longrightarrow> blk_pending b' = blk_pending b"
  by (cases b) (auto simp: blk_set_ignore_on_fill_def blk_pending_def)

lemma pending_set_modified_on_fill [pins_simps]:
  "blk_set_modified_on_fill v sm b = Some b' \<Longrightarrow> blk_pending b' = blk_pending b"
  by (cases b) (auto simp: blk_set_modified_on_fill_def blk_pending_def)

lemma pending_set_readable_on_fill [pins_simps]:
  "blk_set_readable_on_fill v sm b = Some b' \<Longrightarrow> blk_pending b' = blk_pending b"
  by (cases b) (auto simp: blk_set_readable_on_fill_def blk_pending_def)

lemma pending_set_m_readable [pins_simps]:
  "blk_set_m_readable v sm b = Some b' \<Longrightarrow> blk_pending b' = blk_pending b"
  by (cases b) (auto simp: blk_set_m_readable_def blk_pending_def)

lemma pending_allocate_sector [pins_simps]:
  "blk_allocate_sector t sm b = Some b' \<Longrightarrow> blk_pending b' = blk_pending b"
  by (cases b) (auto simp: blk_allocate_sector_def blk_pending_def sector_allocate_sector_def
      split: option.splits if_splits)

lemma pending_set_byte_mask [pins_simps, simp]: "blk_pending (blk_set_byte_mask bm b) = blk_pending b"
  by (cases b) (simp_all add: blk_set_byte_mask_def blk_pending_def or_byte_mask_def)

lemma pending_set_byte_mask_on_fill [pins_simps, simp]:
  "blk_pending (blk_set_byte_mask_on_fill v b) = blk_pending b"
  by (cases b) (simp_all add: blk_set_byte_mask_on_fill_def blk_pending_def)

lemma pending_allocate: "blk_allocate tag ba t sm b = Some b' \<Longrightarrow> blk_pending b' = 0"
  by (cases b) (auto simp: blk_allocate_def blk_pending_def line_allocate_def
      sector_allocate_line_def sector_init_def Let_def split: option.splits)

text \<open>The line state that each operation leaves behind.\<close>

lemma sectors_eq: "sectors = [0, 1, 2, 3]"
  by (simp add: sectors_def SECTOR_CHUNCK_SIZE_def upt_rec)

lemma sector_index_less: "get_sector_index sm = Some i \<Longrightarrow> i < SECTOR_CHUNCK_SIZE"
  by (auto simp: get_sector_index_def sectors_def find_Some_iff split: if_splits)

lemma sector_index_in: "get_sector_index sm = Some i \<Longrightarrow> i \<in> set sectors"
  by (auto dest: sector_index_less simp: sectors_def)

lemma sector_index_ones:
  "map (\<lambda>j. get_sector_index (one_sector j)) [0, 1, 2, 3] = map Some [0, 1, 2, 3]"
  by code_simp

lemma sector_index_one:
  assumes "j < SECTOR_CHUNCK_SIZE"
  shows "get_sector_index (one_sector j) = Some j"
proof -
  consider "j = 0" | "j = 1" | "j = 2" | "j = 3"
    using assms by (force simp: SECTOR_CHUNCK_SIZE_def)
  then show ?thesis using sector_index_ones by cases (simp_all only: list.map list.inject)
qed

lemma sector_allocate_line_state:
  assumes "sector_allocate_line tag ba t sm s = Some s'"
  shows "m_tag s' = tag" "m_block_addr s' = ba"
    "get_sector_index sm = Some i \<Longrightarrow> s_status s' = (\<lambda>_. INVALID)(i := RESERVED)"
    "get_sector_index sm \<noteq> None"
  using assms by (auto simp: sector_allocate_line_def sector_init_def Let_def split: option.splits)

lemma allocate_state:
  assumes "blk_allocate tag ba t sm b = Some b'"
  shows "blk_tag b' = tag" "blk_block_addr b' = ba" "blk_get_status sm b' = Some RESERVED"
    "\<not> blk_is_modified_line b'" "\<not> blk_is_invalid_line b'" "is_sector_block b' = is_sector_block b"
proof -
  have "blk_tag b' = tag \<and> blk_block_addr b' = ba \<and> blk_get_status sm b' = Some RESERVED
    \<and> \<not> blk_is_modified_line b' \<and> \<not> blk_is_invalid_line b' \<and> is_sector_block b' = is_sector_block b"
  proof (cases b)
    case (LineBlock l)
    then show ?thesis using assms
      by (auto simp: blk_allocate_def blk_tag_def blk_block_addr_def blk_get_status_def
          blk_is_modified_line_def blk_is_invalid_line_def line_allocate_def)
  next
    case (SectorBlock s)
    with assms obtain s' where s': "sector_allocate_line tag ba t sm s = Some s'"
      and b': "b' = SectorBlock s'" by (auto simp: blk_allocate_def)
    obtain i where i: "get_sector_index sm = Some i"
      using sector_allocate_line_state(4) [OF s'] by auto
    have st: "s_status s' = (\<lambda>_. INVALID)(i := RESERVED)"
      by (rule sector_allocate_line_state(3) [OF s' i])
    have "i \<in> set sectors" using i by (rule sector_index_in)
    with sector_allocate_line_state(1,2) [OF s'] st i show ?thesis
      by (auto simp: b' SectorBlock blk_tag_def blk_block_addr_def blk_get_status_def
          blk_is_modified_line_def blk_is_invalid_line_def sector_is_modified_line_def
          sector_is_invalid_line_def list_ex_iff list_all_iff)
  qed
  then show "blk_tag b' = tag" "blk_block_addr b' = ba" "blk_get_status sm b' = Some RESERVED"
    "\<not> blk_is_modified_line b'" "\<not> blk_is_invalid_line b'" "is_sector_block b' = is_sector_block b"
    by blast+
qed

lemma sector_fill_state:
  assumes "sector_fill t sm bm s = Some s'" "get_sector_index sm = Some i"
  shows "s_status s' = (s_status s)(i := (if s_set_modified_on_fill s i then MODIFIED else VALID))"
    "m_tag s' = m_tag s"
  using assms by (auto simp: sector_fill_def or_byte_mask_def Let_def)

lemma line_fill_state:
  "l_status (line_fill t bm l) = (if l_set_modified_on_fill l then MODIFIED else VALID)"
  "m_tag (line_fill t bm l) = m_tag l"
  by (auto simp: line_fill_def or_byte_mask_def Let_def)

lemma fill_state:
  assumes "blk_fill t sm bm b = Some b'"
  shows "blk_get_status sm b' = Some VALID \<or> blk_get_status sm b' = Some MODIFIED"
    "blk_tag b' = blk_tag b" "is_sector_block b' = is_sector_block b"
proof -
  have "(blk_get_status sm b' = Some VALID \<or> blk_get_status sm b' = Some MODIFIED)
    \<and> blk_tag b' = blk_tag b \<and> is_sector_block b' = is_sector_block b"
  proof (cases b)
    case (LineBlock l)
    then show ?thesis using assms
      by (auto simp: blk_fill_def blk_tag_def blk_get_status_def line_fill_state)
  next
    case (SectorBlock s)
    with assms obtain s' where s': "sector_fill t sm bm s = Some s'"
      and b': "b' = SectorBlock s'" by (auto simp: blk_fill_def)
    then obtain i where i: "get_sector_index sm = Some i"
      by (auto simp: sector_fill_def split: option.splits)
    from sector_fill_state [OF s' i] i show ?thesis
      by (simp add: b' SectorBlock blk_tag_def blk_get_status_def)
  qed
  then show "blk_get_status sm b' = Some VALID \<or> blk_get_status sm b' = Some MODIFIED"
    "blk_tag b' = blk_tag b" "is_sector_block b' = is_sector_block b" by blast+
qed

end
