(* ===== verification/CacheConfig.thy ===== *)
theory CacheConfig
  imports BlockOps
begin

text \<open>
  \<open>cache_config\<close>, \<open>l1d_cache_config\<close> and \<open>l2_cache_config\<close> of \<open>gpu_cache_ref.h\<close>: the members, the
  configuration string and its checks (\<open>init\<close>), the derived sizes, the address arithmetic and the
  set index functions. The class of the object, which decides the two virtual functions, is the
  field \<open>cfg_class\<close>. A member that \<open>init\<close> leaves unassigned keeps the value the object had.
\<close>

datatype replacement_policy_t = LRU | FIFO

datatype write_policy_t = READ_ONLY | WRITE_BACK | WRITE_THROUGH | WRITE_EVICT
  | LOCAL_WB_GLOBAL_WT

datatype allocation_policy_t = ON_MISS | ON_FILL | STREAMING

datatype write_allocate_policy_t = NO_WRITE_ALLOCATE | WRITE_ALLOCATE | FETCH_ON_WRITE
  | LAZY_FETCH_ON_READ

datatype mshr_config_t = TEX_FIFO | ASSOC | SECTOR_TEX_FIFO | SECTOR_ASSOC

datatype set_index_function = LINEAR_SET_FUNCTION | BITWISE_XORING_FUNCTION
  | HASH_IPOLY_FUNCTION | FERMI_HASH_SET_FUNCTION | CUSTOM_SET_FUNCTION

datatype cache_type = NORMAL | SECTOR

record l1d_fields =
  l1_latency :: u32
  l1_banks :: u32
  l1_banks_log2 :: nat
  l1_banks_byte_interleaving :: u32
  l1_banks_byte_interleaving_log2 :: nat
  l1_banks_hashing_function :: set_index_function
  m_unified_cache_size :: u32

text \<open>\<open>L2Config b\<close>: \<open>b\<close> says that \<open>m_address_mapping\<close> is not null.\<close>

datatype config_class = BaseConfig | L1DConfig l1d_fields | L2Config bool

record cache_config =
  cfg_class :: config_class
  cache_status :: FuncCache
  m_wr_percent :: u32
  m_valid :: bool
  m_disabled :: bool
  m_line_sz :: u32
  m_line_sz_log2 :: nat
  m_nset :: u32
  m_nset_log2 :: nat
  m_assoc :: u32
  m_atom_sz :: u32
  m_sector_sz_log2 :: nat
  original_m_assoc :: u32
  m_is_streaming :: bool
  m_replacement_policy :: replacement_policy_t
  m_write_policy :: write_policy_t
  m_alloc_policy :: allocation_policy_t
  m_mshr_type :: mshr_config_t
  m_cache_type :: cache_type
  m_write_alloc_policy :: write_allocate_policy_t
  m_mshr_entries :: u32
  m_mshr_max_merge :: u32
  m_miss_queue_size :: u32
  m_result_fifo_entries :: u32
  m_data_port_width :: u32
  m_defer_hit_response :: bool
  m_hit_response_queue_size :: u32
  m_set_index_function :: set_index_function

text \<open>The unions: three members have a second name in a texture cache.\<close>

abbreviation m_fragment_fifo_entries :: "cache_config \<Rightarrow> u32" where
  "m_fragment_fifo_entries \<equiv> m_mshr_entries"

abbreviation m_request_fifo_entries :: "cache_config \<Rightarrow> u32" where
  "m_request_fifo_entries \<equiv> m_mshr_max_merge"

abbreviation m_rob_entries :: "cache_config \<Rightarrow> u32" where
  "m_rob_entries \<equiv> m_miss_queue_size"

text \<open>The constructor assigns nine members; the others keep what the memory held.\<close>

definition new_cache_config :: "cache_config \<Rightarrow> cache_config" where
  "new_cache_config memory =
     memory\<lparr>m_valid := False, m_disabled := False, m_data_port_width := 0,
       m_defer_hit_response := True, m_hit_response_queue_size := 16,
       m_set_index_function := LINEAR_SET_FUNCTION, m_is_streaming := False, m_wr_percent := 0\<rparr>"

section \<open>The configuration string\<close>

text \<open>
  \<open>sscanf\<close> with the directives the format uses: \<open>%c\<close> takes one character, \<open>%u\<close> skips white space,
  takes an optional sign and at least one digit, and a literal must match. The scan stops at
  the first failure; the values assigned so far are the result. A numeral beyond 64 bits is
  clamped, then every value is cut to 32 bits.
\<close>

datatype scan_item = ScanC | ScanU | ScanLit char

datatype scan_val = ValC char | ValU u32

definition is_space_char :: "char \<Rightarrow> bool" where
  "is_space_char c = (of_char c \<in> {9, 10, 11, 12, 13, 32 :: nat})"

definition is_digit_char :: "char \<Rightarrow> bool" where
  "is_digit_char c = (48 \<le> (of_char c :: nat) \<and> (of_char c :: nat) \<le> 57)"

definition digits_value :: "string \<Rightarrow> int" where
  "digits_value ds = foldl (\<lambda>n c. 10 * n + (of_char c - 48)) 0 ds"

definition scan_uint :: "string \<Rightarrow> (u32 \<times> string) option" where
  "scan_uint s0 =
     (let s = dropWhile is_space_char s0;
          neg = (s \<noteq> [] \<and> hd s = CHR ''-'');
          s1 = (if s \<noteq> [] \<and> (hd s = CHR ''-'' \<or> hd s = CHR ''+'') then tl s else s);
          ds = takeWhile is_digit_char s1;
          n = digits_value ds;
          v = (if 2 ^ 64 \<le> n then - 1 else if neg then - of_int n else (of_int n :: u64))
      in if ds = [] then None else Some (ucast v, dropWhile is_digit_char s1))"

fun sscanf :: "scan_item list \<Rightarrow> string \<Rightarrow> scan_val list" where
  "sscanf [] s = []"
| "sscanf (ScanC # items) s = (case s of [] \<Rightarrow> [] | c # s' \<Rightarrow> ValC c # sscanf items s')"
| "sscanf (ScanU # items) s =
     (case scan_uint s of None \<Rightarrow> [] | Some (v, s') \<Rightarrow> ValU v # sscanf items s')"
| "sscanf (ScanLit l # items) s =
     (case s of [] \<Rightarrow> [] | c # s' \<Rightarrow> if c = l then sscanf items s' else [])"

text \<open>\<open>"%c:%u:%u:%u,%c:%c:%c:%c:%c,%c:%u:%u,%u:%u,%u"\<close>\<close>

definition config_format :: "scan_item list" where
  "config_format =
     [ScanC, ScanLit CHR '':'', ScanU, ScanLit CHR '':'', ScanU, ScanLit CHR '':'', ScanU,
      ScanLit CHR '','', ScanC, ScanLit CHR '':'', ScanC, ScanLit CHR '':'', ScanC,
      ScanLit CHR '':'', ScanC, ScanLit CHR '':'', ScanC, ScanLit CHR '','', ScanC,
      ScanLit CHR '':'', ScanU, ScanLit CHR '':'', ScanU, ScanLit CHR '','', ScanU,
      ScanLit CHR '':'', ScanU, ScanLit CHR '','', ScanU]"

definition parse_cache_type :: "char \<Rightarrow> cache_type option" where
  "parse_cache_type c = (if c = CHR ''N'' then Some NORMAL
     else if c = CHR ''S'' then Some SECTOR else None)"

definition parse_replacement :: "char \<Rightarrow> replacement_policy_t option" where
  "parse_replacement c = (if c = CHR ''L'' then Some LRU
     else if c = CHR ''F'' then Some FIFO else None)"

definition parse_write_policy :: "char \<Rightarrow> write_policy_t option" where
  "parse_write_policy c = (if c = CHR ''R'' then Some READ_ONLY
     else if c = CHR ''B'' then Some WRITE_BACK
     else if c = CHR ''T'' then Some WRITE_THROUGH
     else if c = CHR ''E'' then Some WRITE_EVICT
     else if c = CHR ''L'' then Some LOCAL_WB_GLOBAL_WT else None)"

definition parse_alloc_policy :: "char \<Rightarrow> allocation_policy_t option" where
  "parse_alloc_policy c = (if c = CHR ''m'' then Some ON_MISS
     else if c = CHR ''f'' then Some ON_FILL
     else if c = CHR ''s'' then Some STREAMING else None)"

definition parse_mshr_type :: "nat \<Rightarrow> char \<Rightarrow> mshr_config_t option" where
  "parse_mshr_type ntok c = (if c = CHR ''F'' then (if ntok = 14 then Some TEX_FIFO else None)
     else if c = CHR ''T'' then (if ntok = 14 then Some SECTOR_TEX_FIFO else None)
     else if c = CHR ''A'' then Some ASSOC
     else if c = CHR ''S'' then Some SECTOR_ASSOC else None)"

definition parse_write_alloc :: "char \<Rightarrow> write_allocate_policy_t option" where
  "parse_write_alloc c = (if c = CHR ''N'' then Some NO_WRITE_ALLOCATE
     else if c = CHR ''W'' then Some WRITE_ALLOCATE
     else if c = CHR ''F'' then Some FETCH_ON_WRITE
     else if c = CHR ''L'' then Some LAZY_FETCH_ON_READ else None)"

definition parse_set_index :: "char \<Rightarrow> set_index_function option" where
  "parse_set_index c = (if c = CHR ''H'' then Some FERMI_HASH_SET_FUNCTION
     else if c = CHR ''P'' then Some HASH_IPOLY_FUNCTION
     else if c = CHR ''C'' then Some CUSTOM_SET_FUNCTION
     else if c = CHR ''L'' then Some LINEAR_SET_FUNCTION
     else if c = CHR ''X'' then Some BITWISE_XORING_FUNCTION else None)"

text \<open>The three optional numbers at the end of the string.\<close>

definition assign_rest :: "scan_val list \<Rightarrow> cache_config \<Rightarrow> cache_config" where
  "assign_rest rest c = (case rest of
     [ValU q] \<Rightarrow> c\<lparr>m_miss_queue_size := q\<rparr>
   | [ValU q, ValU r] \<Rightarrow> c\<lparr>m_miss_queue_size := q, m_result_fifo_entries := r\<rparr>
   | [ValU q, ValU r, ValU p] \<Rightarrow>
       c\<lparr>m_miss_queue_size := q, m_result_fifo_entries := r, m_data_port_width := p\<rparr>
   | _ \<Rightarrow> c)"

text \<open>The checks that end the program on a combination of policies that cannot work.\<close>

definition invalid_combination :: "cache_config \<Rightarrow> bool" where
  "invalid_combination c =
     ((m_alloc_policy c = ON_FILL \<or> m_alloc_policy c = STREAMING) \<and> m_write_policy c = WRITE_BACK
    \<or> (m_write_alloc_policy c = FETCH_ON_WRITE \<or> m_write_alloc_policy c = LAZY_FETCH_ON_READ)
        \<and> m_alloc_policy c = ON_FILL
    \<or> m_cache_type c = SECTOR \<and>
        \<not> (m_line_sz c div of_nat SECTOR_SIZE = of_nat SECTOR_CHUNCK_SIZE
           \<and> m_line_sz c mod of_nat SECTOR_SIZE = 0))"

text \<open>From the numbers and letters of the string to the configuration.\<close>

definition config_of_tokens ::
  "cache_config \<Rightarrow> FuncCache \<Rightarrow> nat \<Rightarrow> char \<Rightarrow> u32 \<Rightarrow> u32 \<Rightarrow> u32 \<Rightarrow> char \<Rightarrow> char \<Rightarrow> char \<Rightarrow> char
   \<Rightarrow> char \<Rightarrow> char \<Rightarrow> u32 \<Rightarrow> u32 \<Rightarrow> scan_val list \<Rightarrow> cache_config option" where
  "config_of_tokens c0 status ntok ct nset line_sz assoc rp wp ap wap sif mshr_type entries merge rest =
     do {
       cache_type \<leftarrow> parse_cache_type ct;
       replacement \<leftarrow> parse_replacement rp;
       write_policy \<leftarrow> parse_write_policy wp;
       alloc \<leftarrow> parse_alloc_policy ap;
       mshr \<leftarrow> parse_mshr_type ntok mshr_type;
       write_alloc \<leftarrow> parse_write_alloc wap;
       let c = assign_rest rest (c0\<lparr>cache_status := status, m_nset := nset,
         m_line_sz := line_sz, m_assoc := assoc, m_mshr_entries := entries,
         m_mshr_max_merge := merge, m_cache_type := cache_type,
         m_replacement_policy := replacement, m_write_policy := write_policy,
         m_alloc_policy := (if alloc = STREAMING then ON_FILL else alloc),
         m_is_streaming := (m_is_streaming c0 \<or> alloc = STREAMING), m_mshr_type := mshr,
         m_line_sz_log2 := LOGB2 (unat line_sz), m_nset_log2 := LOGB2 (unat nset),
         m_valid := True,
         m_atom_sz := (if cache_type = SECTOR then of_nat SECTOR_SIZE else line_sz),
         m_sector_sz_log2 := LOGB2 SECTOR_SIZE, original_m_assoc := assoc,
         m_write_alloc_policy := write_alloc\<rparr>);
       cpp_assert (\<not> invalid_combination c);
       let c' = (if m_data_port_width c = 0 then c\<lparr>m_data_port_width := line_sz\<rparr> else c);
       r \<leftarrow> mod_u32 line_sz (m_data_port_width c');
       cpp_assert (r = 0);
       index \<leftarrow> parse_set_index sif;
       Some (c'\<lparr>m_set_index_function := index\<rparr>)
     }"

definition config_init :: "cache_config \<Rightarrow> string \<Rightarrow> FuncCache \<Rightarrow> cache_config option" where
  "config_init c0 config status =
     (let vals = sscanf config_format config in
      case vals of
        ValC ct # ValU nset # ValU line_sz # ValU assoc # ValC rp # ValC wp # ValC ap # ValC wap #
        ValC sif # ValC mshr_type # ValU entries # ValU merge # rest \<Rightarrow>
          config_of_tokens c0 status (length vals) ct nset line_sz assoc rp wp ap wap sif mshr_type
            entries merge rest
      | _ \<Rightarrow> (if config = ''none'' then Some (c0\<lparr>cache_status := status, m_disabled := True\<rparr>)
              else None))"

definition l1d_config_init :: "cache_config \<Rightarrow> string \<Rightarrow> FuncCache \<Rightarrow> cache_config option" where
  "l1d_config_init c config status = (case cfg_class c of
     L1DConfig f \<Rightarrow>
       config_init (c\<lparr>cfg_class := L1DConfig (f\<lparr>
         l1_banks_byte_interleaving_log2 := LOGB2 (unat (l1_banks_byte_interleaving f)),
         l1_banks_log2 := LOGB2 (unat (l1_banks f))\<rparr>)\<rparr>) config status
   | _ \<Rightarrow> None)"

definition l2_config_init :: "cache_config \<Rightarrow> string \<Rightarrow> bool \<Rightarrow> cache_config option" where
  "l2_config_init c config_string mapping =
     map_option (\<lambda>c'. c'\<lparr>cfg_class := L2Config mapping\<rparr>)
       (config_init c config_string FuncCachePreferNone)"

section \<open>Sizes and addresses\<close>

definition get_line_sz :: "cache_config \<Rightarrow> u32 option" where
  "get_line_sz c = (if m_valid c then Some (m_line_sz c) else None)"

definition get_atom_sz :: "cache_config \<Rightarrow> u32 option" where
  "get_atom_sz c = (if m_valid c then Some (m_atom_sz c) else None)"

definition get_num_lines :: "cache_config \<Rightarrow> u32 option" where
  "get_num_lines c = (if m_valid c then Some (m_nset c * m_assoc c) else None)"

definition get_max_cache_multiplier :: "cache_config \<Rightarrow> u32 option" where
  "get_max_cache_multiplier c = (case cfg_class c of
     L1DConfig f \<Rightarrow>
       (if 0 < m_unified_cache_size f then
          do {
            let original_size = m_nset c * original_m_assoc c * m_line_sz c div 1024;
            r \<leftarrow> mod_u32 (m_unified_cache_size f) original_size;
            cpp_assert (r = 0);
            div_u32 (m_unified_cache_size f) original_size
          }
        else Some MAX_DEFAULT_CACHE_SIZE_MULTIBLIER)
   | _ \<Rightarrow> Some MAX_DEFAULT_CACHE_SIZE_MULTIBLIER)"

definition get_max_num_lines :: "cache_config \<Rightarrow> u32 option" where
  "get_max_num_lines c =
     (if m_valid c then map_option (\<lambda>m. m * m_nset c * original_m_assoc c)
        (get_max_cache_multiplier c) else None)"

definition get_max_assoc :: "cache_config \<Rightarrow> u32 option" where
  "get_max_assoc c =
     (if m_valid c then map_option (\<lambda>m. m * original_m_assoc c) (get_max_cache_multiplier c)
      else None)"

definition get_total_size_inKB :: "cache_config \<Rightarrow> u32 option" where
  "get_total_size_inKB c =
     (if m_valid c then Some (m_assoc c * m_nset c * m_line_sz c div 1024) else None)"

definition set_assoc :: "u32 \<Rightarrow> cache_config \<Rightarrow> cache_config" where
  "set_assoc n c = c\<lparr>m_assoc := n\<rparr>"

definition set_allocation_policy :: "allocation_policy_t \<Rightarrow> cache_config \<Rightarrow> cache_config" where
  "set_allocation_policy p c = c\<lparr>m_alloc_policy := p\<rparr>"

definition set_defer_hit_response :: "bool \<Rightarrow> cache_config \<Rightarrow> cache_config" where
  "set_defer_hit_response b c = c\<lparr>m_defer_hit_response := b\<rparr>"

definition set_hit_response_queue_size :: "u32 \<Rightarrow> cache_config \<Rightarrow> cache_config" where
  "set_hit_response_queue_size n c = c\<lparr>m_hit_response_queue_size := n\<rparr>"

definition cfg_tag :: "cache_config \<Rightarrow> new_addr_type \<Rightarrow> new_addr_type" where
  "cfg_tag c addr = addr AND NOT (ucast (m_line_sz c - 1))"

definition block_addr :: "cache_config \<Rightarrow> new_addr_type \<Rightarrow> new_addr_type" where
  "block_addr c addr = addr AND NOT (ucast (m_line_sz c - 1))"

definition mshr_addr :: "cache_config \<Rightarrow> new_addr_type \<Rightarrow> new_addr_type" where
  "mshr_addr c addr = addr AND NOT (ucast (m_atom_sz c - 1))"

section \<open>Set index\<close>

definition fermi_hash :: "new_addr_type \<Rightarrow> u32 \<Rightarrow> nat \<Rightarrow> u32" where
  "fermi_hash addr nset line_sz_log2 =
     (let lower_xor = ucast (drop_bit line_sz_log2 addr AND 0x1F) :: u32;
          upper_xor = ucast (drop_bit 13 (addr AND 0xE000)) :: u32;
          upper_xor = upper_xor OR ucast (drop_bit 14 (addr AND 0x20000));
          upper_xor = upper_xor OR ucast (drop_bit 15 (addr AND 0x80000));
          set_index = lower_xor XOR upper_xor
      in if nset = 64 then set_index OR ucast (drop_bit 7 (addr AND 0x1000)) else set_index)"

definition hash_function ::
  "new_addr_type \<Rightarrow> u32 \<Rightarrow> nat \<Rightarrow> nat \<Rightarrow> set_index_function \<Rightarrow> u32 option" where
  "hash_function addr nset line_sz_log2 nset_log2 index_function =
     do {
       set_index \<leftarrow> (case index_function of
          FERMI_HASH_SET_FUNCTION \<Rightarrow>
            (if nset = 32 \<or> nset = 64 then Some (fermi_hash addr nset line_sz_log2) else None)
        | BITWISE_XORING_FUNCTION \<Rightarrow>
            (let higher_bits = drop_bit (line_sz_log2 + nset_log2) addr;
                 index = ucast (drop_bit line_sz_log2 addr AND ucast (nset - 1))
             in Some (bitwise_hash_function higher_bits index nset))
        | HASH_IPOLY_FUNCTION \<Rightarrow>
            (let higher_bits = drop_bit (line_sz_log2 + nset_log2) addr;
                 index = ucast (drop_bit line_sz_log2 addr AND ucast (nset - 1))
             in Some (ipoly_hash_function higher_bits index nset))
        | CUSTOM_SET_FUNCTION \<Rightarrow> Some 0
        | LINEAR_SET_FUNCTION \<Rightarrow>
            Some (ucast (drop_bit line_sz_log2 addr AND ucast (nset - 1))));
       cpp_assert (set_index < nset);
       Some set_index
     }"

definition set_index :: "cache_config \<Rightarrow> new_addr_type \<Rightarrow> u32 option" where
  "set_index c addr =
     (let a = (case cfg_class c of L2Config True \<Rightarrow> partition_address addr | _ \<Rightarrow> addr)
      in hash_function a (m_nset c) (m_line_sz_log2 c) (m_nset_log2 c) (m_set_index_function c))"

definition set_bank :: "l1d_fields \<Rightarrow> new_addr_type \<Rightarrow> u32 option" where
  "set_bank f addr =
     hash_function addr (l1_banks f) (l1_banks_byte_interleaving_log2 f) (l1_banks_log2 f)
       (l1_banks_hashing_function f)"

end
