(* ===== verification/Float32.thy ===== *)
theory Float32
  imports Prelude
begin

text \<open>
  The single-precision arithmetic that \<open>tag_array\<close> uses for its dirty-line percentage and its miss
  rates, and the length of a number in bits, on which rounding and integer logarithms rest. All
  operands are non-negative and far from the ends of the exponent range, so a number is a mantissa
  and an exponent, and an operation is the exact quotient rounded to 24 bits, ties to even, as
  IEEE 754 prescribes.
\<close>

record f32 =
  mantissa :: int
  expo :: int

function bit_length :: "int \<Rightarrow> nat" where
  "bit_length n = (if n \<le> 0 then 0 else Suc (bit_length (n div 2)))"
  by pat_completeness auto
termination
  by (relation "measure nat") auto

declare bit_length.simps [simp del]

text \<open>Rounding a quotient to the nearest integer, a tie to the even one.\<close>

definition round_div :: "int \<Rightarrow> int \<Rightarrow> int" where
  "round_div n d =
     (let q = n div d; r = n mod d in
      if 2 * r < d then q else if d < 2 * r then q + 1 else if even q then q else q + 1)"

text \<open>
  \<open>n / d\<close>, for \<open>0 \<le> n\<close> and \<open>0 < d\<close>, rounded to \<open>p\<close> significant bits: 24 for \<open>float\<close>, 53 for
  \<open>double\<close>.
\<close>

definition float_quot :: "nat \<Rightarrow> int \<Rightarrow> int \<Rightarrow> f32" where
  "float_quot p n d =
     (if n = 0 then \<lparr>mantissa = 0, expo = 0\<rparr>
      else
        let scaled = (\<lambda>e. if 0 \<le> e then (n, d * 2 ^ nat e) else (n * 2 ^ nat (- e), d));
            e0 = int (bit_length n) - int (bit_length d) - int p;
            e = (case scaled e0 of (a, b) \<Rightarrow> if 2 ^ p * b \<le> a then e0 + 1 else e0)
        in case scaled e of (a, b) \<Rightarrow> \<lparr>mantissa = round_div a b, expo = e\<rparr>)"

abbreviation f32_quot :: "int \<Rightarrow> int \<Rightarrow> f32" where
  "f32_quot \<equiv> float_quot 24"

abbreviation f64_quot :: "int \<Rightarrow> int \<Rightarrow> f32" where
  "f64_quot \<equiv> float_quot 53"

definition f32_of_u32 :: "u32 \<Rightarrow> f32" where
  "f32_of_u32 w = f32_quot (uint w) 1"

definition f32_div :: "f32 \<Rightarrow> f32 \<Rightarrow> f32" where
  "f32_div x y =
     f32_quot (mantissa x * 2 ^ nat (expo x - expo y)) (mantissa y * 2 ^ nat (expo y - expo x))"

definition f32_mul :: "f32 \<Rightarrow> f32 \<Rightarrow> f32" where
  "f32_mul x y =
     (let e = expo x + expo y in
      f32_quot (mantissa x * mantissa y * 2 ^ nat e) (2 ^ nat (- e)))"

definition f32_ge :: "f32 \<Rightarrow> f32 \<Rightarrow> bool" where
  "f32_ge x y = (mantissa y * 2 ^ nat (expo y - expo x) \<le> mantissa x * 2 ^ nat (expo x - expo y))"

lemma round_div_nonneg: "0 \<le> n \<Longrightarrow> 0 < d \<Longrightarrow> 0 \<le> round_div n d"
  by (auto simp: round_div_def Let_def pos_imp_zdiv_nonneg_iff add_increasing2)

lemma float_quot_nonneg: "0 \<le> n \<Longrightarrow> 0 < d \<Longrightarrow> 0 \<le> mantissa (float_quot p n d)"
  by (auto simp: float_quot_def Let_def round_div_nonneg split: prod.splits if_splits)

lemma f32_of_u32_nonneg [simp]: "0 \<le> mantissa (f32_of_u32 w)"
  by (simp add: f32_of_u32_def float_quot_nonneg)

lemma f32_of_u32_zero [simp]: "mantissa (f32_of_u32 0) = 0"
  by (simp add: f32_of_u32_def float_quot_def)

lemma f32_ge_zero: "0 \<le> mantissa x \<Longrightarrow> f32_ge x (f32_of_u32 0)"
  by (simp add: f32_ge_def)

text \<open>The bit length brackets a positive number between two powers of two.\<close>

lemma bit_length_bounds:
  assumes "0 < n"
  shows "0 < bit_length n \<and> 2 ^ (bit_length n - 1) \<le> n \<and> n < 2 ^ bit_length n"
  using assms
proof (induction n rule: bit_length.induct)
  case (1 n)
  show ?case
  proof (cases "n = 1")
    case True
    then show ?thesis by (simp add: bit_length.simps)
  next
    case False
    with 1 have ih: "0 < bit_length (n div 2)" "2 ^ (bit_length (n div 2) - 1) \<le> n div 2"
      "n div 2 < 2 ^ bit_length (n div 2)" by auto
    have eq: "bit_length n = Suc (bit_length (n div 2))" using 1(2) by (subst bit_length.simps) simp
    from ih(1) have "(2 :: int) ^ bit_length (n div 2) = 2 * 2 ^ (bit_length (n div 2) - 1)"
      by (metis power_Suc Suc_diff_1)
    with ih(2) have "2 ^ bit_length (n div 2) \<le> n" by linarith
    moreover from ih(3) have "n < 2 * 2 ^ bit_length (n div 2)" by linarith
    ultimately show ?thesis using eq by simp
  qed
qed

lemma bit_length_unique:
  assumes "2 ^ k \<le> n" "n < 2 ^ Suc k"
  shows "bit_length n = Suc k"
  using assms
proof (induction k arbitrary: n)
  case 0
  then have "n = 1" by simp
  then show ?case by (simp add: bit_length.simps)
next
  case (Suc k)
  then have "bit_length (n div 2) = Suc k" by simp
  moreover have "(0 :: int) < 2 ^ Suc k" by simp
  with Suc.prems(1) have "0 < n" by linarith
  ultimately show ?case by (subst bit_length.simps) simp
qed

end
