(* ===== verification/TagArray.thy ===== *)
theory TagArray
  imports CacheConfig Float32
begin

text \<open>
  \<open>tag_array\<close>: the lines of a cache, the lookup and victim choice (\<open>probe\<close>), the access that
  allocates (\<open>access\<close>), the fills, the management operations and the counters. The configuration
  is a reference to the cache's own, passed to each function. \<open>idx\<close> is an in-out argument, kept
  when nothing is found. A failed assertion, a call of \<open>abort\<close> and an index outside \<open>m_lines\<close>
  are \<open>None\<close>.
\<close>

record tag_array =
  m_lines :: "cache_block list"
  ta_access :: u32
  ta_miss :: u32
  ta_pending_hit :: u32
  ta_res_fail :: u32
  ta_sector_miss :: u32
  m_dirty :: u32
  m_last_fail_reason :: cache_reservation_fail_reason
  m_prev_snapshot_access :: u32
  m_prev_snapshot_miss :: u32
  m_prev_snapshot_pending_hit :: u32
  m_core_id :: int
  m_type_id :: int
  is_used :: bool
  pending_lines :: "(new_addr_type \<times> u32) list"

definition new_tag_array :: "cache_config \<Rightarrow> int \<Rightarrow> int \<Rightarrow> tag_array option" where
  "new_tag_array cfg core_id type_id =
     map_option (\<lambda>n. \<lparr>m_lines = replicate (unat n) (case m_cache_type cfg of
          NORMAL \<Rightarrow> LineBlock new_line_block | SECTOR \<Rightarrow> SectorBlock new_sector_block),
        ta_access = 0, ta_miss = 0, ta_pending_hit = 0, ta_res_fail = 0, ta_sector_miss = 0,
        m_dirty = 0, m_last_fail_reason = LINE_ALLOC_FAIL, m_prev_snapshot_access = 0,
        m_prev_snapshot_miss = 0, m_prev_snapshot_pending_hit = 0, m_core_id = core_id,
        m_type_id = type_id, is_used = False, pending_lines = []\<rparr>)
     (get_max_num_lines cfg)"

definition add_pending_line :: "cache_config \<Rightarrow> mem_fetch \<Rightarrow> tag_array \<Rightarrow> tag_array" where
  "add_pending_line cfg mf ta =
     (let addr = block_addr cfg (get_addr mf) in
      case map_of (pending_lines ta) addr of
        None \<Rightarrow> ta\<lparr>pending_lines := AList.update addr (inst_get_uid (m_inst mf)) (pending_lines ta)\<rparr>
      | Some _ \<Rightarrow> ta)"

definition remove_pending_line :: "cache_config \<Rightarrow> mem_fetch \<Rightarrow> tag_array \<Rightarrow> tag_array" where
  "remove_pending_line cfg mf ta =
     (let addr = block_addr cfg (get_addr mf) in
      case map_of (pending_lines ta) addr of
        None \<Rightarrow> ta
      | Some _ \<Rightarrow> ta\<lparr>pending_lines := AList.delete addr (pending_lines ta)\<rparr>)"

section \<open>Probe\<close>

text \<open>The local variables of the search over the ways of a set.\<close>

record probe_acc =
  pa_invalid_line :: "nat option"
  pa_valid_line :: "nat option"
  pa_valid_timestamp :: u32
  pa_all_reserved :: bool
  pa_saw_pinned :: bool

definition probe_init :: probe_acc where
  "probe_init = \<lparr>pa_invalid_line = None, pa_valid_line = None, pa_valid_timestamp = - 1,
     pa_all_reserved = True, pa_saw_pinned = False\<rparr>"

definition dirty_line_percentage :: "cache_config \<Rightarrow> tag_array \<Rightarrow> f32" where
  "dirty_line_percentage cfg ta =
     f32_mul (f32_div (f32_of_u32 (m_dirty ta)) (f32_of_u32 (m_nset cfg * m_assoc cfg)))
       (f32_of_u32 100)"

text \<open>A clean line may be replaced; a dirty one only when enough of the cache is dirty.\<close>

definition replaceable :: "cache_config \<Rightarrow> tag_array \<Rightarrow> cache_block \<Rightarrow> bool" where
  "replaceable cfg ta line =
     (\<not> blk_is_modified_line line
      \<or> f32_ge (dirty_line_percentage cfg ta) (f32_of_u32 (m_wr_percent cfg)))"

definition line_timestamp :: "cache_config \<Rightarrow> cache_block \<Rightarrow> time" where
  "line_timestamp cfg line = (case m_replacement_policy cfg of
     LRU \<Rightarrow> blk_last_access_time line | FIFO \<Rightarrow> blk_alloc_time line)"

definition probe_candidate ::
  "cache_config \<Rightarrow> tag_array \<Rightarrow> nat \<Rightarrow> cache_block \<Rightarrow> probe_acc \<Rightarrow> probe_acc" where
  "probe_candidate cfg ta index line acc =
     (if blk_is_pinned line then acc\<lparr>pa_saw_pinned := True\<rparr>
      else if blk_is_reserved_line line then acc
      else if replaceable cfg ta line then
        (let acc1 = acc\<lparr>pa_all_reserved := False\<rparr> in
         if blk_is_invalid_line line then acc1\<lparr>pa_invalid_line := Some index\<rparr>
         else if line_timestamp cfg line < pa_valid_timestamp acc1
         then acc1\<lparr>pa_valid_timestamp := line_timestamp cfg line, pa_valid_line := Some index\<rparr>
         else acc1)
      else acc)"

definition probe_match ::
  "new_addr_type \<Rightarrow> sector_mask \<Rightarrow> bool \<Rightarrow> cache_block \<Rightarrow> cache_request_status option option" where
  "probe_match tag sm is_write line =
     (if blk_tag line = tag then
        do {
          st \<leftarrow> blk_get_status sm line;
          (case st of
             RESERVED \<Rightarrow> Some (Some HIT_RESERVED)
           | VALID \<Rightarrow> Some (Some HIT)
           | MODIFIED \<Rightarrow>
               (if is_write then Some (Some HIT)
                else map_option (\<lambda>r. Some (if r then HIT else SECTOR_MISS)) (blk_is_readable sm line))
           | INVALID \<Rightarrow> Some (if blk_is_valid_line line then Some SECTOR_MISS else None))
        }
      else Some None)"

definition way_index :: "cache_config \<Rightarrow> u32 \<Rightarrow> nat \<Rightarrow> nat" where
  "way_index cfg si way = unat (si * m_assoc cfg + of_nat way)"

fun probe_ways ::
  "cache_config \<Rightarrow> tag_array \<Rightarrow> new_addr_type \<Rightarrow> sector_mask \<Rightarrow> bool \<Rightarrow> nat list \<Rightarrow> probe_acc
   \<Rightarrow> (cache_request_status \<times> nat + probe_acc) option" where
  "probe_ways cfg ta tag sm is_write [] acc = Some (Inr acc)"
| "probe_ways cfg ta tag sm is_write (index # rest) acc =
     do {
       line \<leftarrow> nth_opt (m_lines ta) index;
       found \<leftarrow> probe_match tag sm is_write line;
       (case found of
          Some status \<Rightarrow> Some (Inl (status, index))
        | None \<Rightarrow> probe_ways cfg ta tag sm is_write rest (probe_candidate cfg ta index line acc))
     }"

definition set_ways :: "cache_config \<Rightarrow> u32 \<Rightarrow> nat list" where
  "set_ways cfg si = map (way_index cfg si) [0..<unat (m_assoc cfg)]"

definition tag_probe ::
  "cache_config \<Rightarrow> tag_array \<Rightarrow> new_addr_type \<Rightarrow> nat \<Rightarrow> sector_mask \<Rightarrow> bool
   \<Rightarrow> (cache_request_status \<times> nat \<times> tag_array) option" where
  "tag_probe cfg ta addr idx sm is_write =
     do {
       si \<leftarrow> set_index cfg addr;
       let ta = ta\<lparr>m_last_fail_reason := LINE_ALLOC_FAIL\<rparr>;
       r \<leftarrow> probe_ways cfg ta (cfg_tag cfg addr) sm is_write (set_ways cfg si) probe_init;
       (case r of
          Inl (status, index) \<Rightarrow> Some (status, index, ta)
        | Inr acc \<Rightarrow>
            if pa_all_reserved acc then
              (if m_alloc_policy cfg = ON_MISS
               then Some (RESERVATION_FAIL, idx,
                      if pa_saw_pinned acc then ta\<lparr>m_last_fail_reason := LINE_PINNED_FAIL\<rparr> else ta)
               else None)
            else (case pa_invalid_line acc of
                Some i \<Rightarrow> Some (MISS, i, ta)
              | None \<Rightarrow> (case pa_valid_line acc of Some i \<Rightarrow> Some (MISS, i, ta) | None \<Rightarrow> None)))
     }"

section \<open>Access\<close>

definition set_line :: "nat \<Rightarrow> cache_block \<Rightarrow> tag_array \<Rightarrow> tag_array option" where
  "set_line i b ta = map_option (\<lambda>ls. ta\<lparr>m_lines := ls\<rparr>) (update_opt (m_lines ta) i b)"

definition get_block :: "nat \<Rightarrow> tag_array \<Rightarrow> cache_block option" where
  "get_block i ta = nth_opt (m_lines ta) i"

definition access_hit :: "tag_array \<Rightarrow> time \<Rightarrow> nat \<Rightarrow> mem_fetch \<Rightarrow> tag_array option" where
  "access_hit ta t idx mf =
     do {
       b \<leftarrow> get_block idx ta;
       b' \<leftarrow> blk_set_last_access_time t (get_access_sector_mask mf) b;
       set_line idx b' ta
     }"

text \<open>The miss branch with allocation: the victim's data is handed out if it was modified.\<close>

definition access_allocate ::
  "cache_config \<Rightarrow> tag_array \<Rightarrow> new_addr_type \<Rightarrow> time \<Rightarrow> nat \<Rightarrow> bool \<Rightarrow> evicted_block_info
   \<Rightarrow> mem_fetch \<Rightarrow> (bool \<times> evicted_block_info \<times> tag_array) option" where
  "access_allocate cfg ta addr t idx wb evicted mf =
     do {
       b \<leftarrow> get_block idx ta;
       let (wb, evicted, ta) =
         (if blk_is_modified_line b
          then (True, \<lparr>ev_block_addr = blk_block_addr b, ev_modified_size = blk_modified_size b,
                  ev_byte_mask = blk_dirty_byte_mask b, ev_sector_mask = blk_dirty_sector_mask b\<rparr>,
                ta\<lparr>m_dirty := m_dirty ta - 1\<rparr>)
          else (wb, evicted, ta));
       b' \<leftarrow> blk_allocate (cfg_tag cfg addr) (block_addr cfg addr) t (get_access_sector_mask mf) b;
       ta' \<leftarrow> set_line idx b' ta;
       Some (wb, evicted, ta')
     }"

definition access_allocate_sector ::
  "tag_array \<Rightarrow> time \<Rightarrow> nat \<Rightarrow> mem_fetch \<Rightarrow> tag_array option" where
  "access_allocate_sector ta t idx mf =
     do {
       b \<leftarrow> get_block idx ta;
       let before = blk_is_modified_line b;
       b' \<leftarrow> blk_allocate_sector t (get_access_sector_mask mf) b;
       set_line idx b' (if before \<and> \<not> blk_is_modified_line b'
                        then ta\<lparr>m_dirty := m_dirty ta - 1\<rparr> else ta)
     }"

definition tag_access ::
  "cache_config \<Rightarrow> tag_array \<Rightarrow> new_addr_type \<Rightarrow> time \<Rightarrow> nat \<Rightarrow> bool \<Rightarrow> evicted_block_info
   \<Rightarrow> mem_fetch \<Rightarrow> (cache_request_status \<times> nat \<times> bool \<times> evicted_block_info \<times> tag_array) option"
where
  "tag_access cfg ta addr t idx wb evicted mf =
     do {
       let ta = ta\<lparr>ta_access := ta_access ta + 1, is_used := True\<rparr>;
       (status, idx, ta) \<leftarrow>
         tag_probe cfg ta addr idx (get_access_sector_mask mf) (get_is_write mf);
       (case status of
          HIT_RESERVED \<Rightarrow>
            do {
              ta' \<leftarrow> access_hit (ta\<lparr>ta_pending_hit := ta_pending_hit ta + 1\<rparr>) t idx mf;
              Some (status, idx, wb, evicted, ta')
            }
        | HIT \<Rightarrow>
            do {
              ta' \<leftarrow> access_hit ta t idx mf;
              Some (status, idx, wb, evicted, ta')
            }
        | MISS \<Rightarrow>
            (let ta = ta\<lparr>ta_miss := ta_miss ta + 1\<rparr> in
             if m_alloc_policy cfg = ON_MISS then
               do {
                 (wb', evicted', ta') \<leftarrow> access_allocate cfg ta addr t idx wb evicted mf;
                 Some (status, idx, wb', evicted', ta')
               }
             else Some (status, idx, wb, evicted, ta))
        | SECTOR_MISS \<Rightarrow>
            do {
              cpp_assert (m_cache_type cfg = SECTOR);
              let ta = ta\<lparr>ta_sector_miss := ta_sector_miss ta + 1\<rparr>;
              ta' \<leftarrow> (if m_alloc_policy cfg = ON_MISS then access_allocate_sector ta t idx mf
                       else Some ta);
              Some (status, idx, wb, evicted, ta')
            }
        | RESERVATION_FAIL \<Rightarrow>
            Some (status, idx, wb, evicted, ta\<lparr>ta_res_fail := ta_res_fail ta + 1\<rparr>)
        | MSHR_HIT \<Rightarrow> None)
     }"

text \<open>The overload without write-back asserts that nothing modified was evicted.\<close>

definition tag_access_no_wb ::
  "cache_config \<Rightarrow> tag_array \<Rightarrow> new_addr_type \<Rightarrow> time \<Rightarrow> nat \<Rightarrow> mem_fetch
   \<Rightarrow> (cache_request_status \<times> nat \<times> tag_array) option" where
  "tag_access_no_wb cfg ta addr t idx mf =
     do {
       (result, idx', wb, evicted, ta') \<leftarrow> tag_access cfg ta addr t idx False no_evicted mf;
       cpp_assert (\<not> wb);
       Some (result, idx', ta')
     }"

section \<open>Fill\<close>

text \<open>Writing a filled block back, with the dirty counter kept in step.\<close>

definition fill_block ::
  "tag_array \<Rightarrow> nat \<Rightarrow> time \<Rightarrow> sector_mask \<Rightarrow> byte_mask \<Rightarrow> tag_array option" where
  "fill_block ta idx t sm bm =
     do {
       b \<leftarrow> get_block idx ta;
       let before = blk_is_modified_line b;
       b' \<leftarrow> blk_fill t sm bm b;
       set_line idx b' (if blk_is_modified_line b' \<and> \<not> before
                        then ta\<lparr>m_dirty := m_dirty ta + 1\<rparr> else ta)
     }"

definition tag_fill_addr ::
  "cache_config \<Rightarrow> tag_array \<Rightarrow> new_addr_type \<Rightarrow> time \<Rightarrow> sector_mask \<Rightarrow> byte_mask \<Rightarrow> bool
   \<Rightarrow> tag_array option" where
  "tag_fill_addr cfg ta addr t sm bm is_write =
     do {
       (status, idx, ta) \<leftarrow> tag_probe cfg ta addr 0 sm is_write;
       (if status = RESERVATION_FAIL then Some ta
        else
          do {
            b \<leftarrow> get_block idx ta;
            let before = blk_is_modified_line b;
            b' \<leftarrow> (if status = MISS
                    then blk_allocate (cfg_tag cfg addr) (block_addr cfg addr) t sm b
                    else if status = SECTOR_MISS
                    then do { cpp_assert (m_cache_type cfg = SECTOR); blk_allocate_sector t sm b }
                    else Some b);
            ta' \<leftarrow> set_line idx b' (if before \<and> \<not> blk_is_modified_line b'
                                     then ta\<lparr>m_dirty := m_dirty ta - 1\<rparr> else ta);
            fill_block ta' idx t sm bm
          })
     }"

definition tag_fill_index ::
  "cache_config \<Rightarrow> tag_array \<Rightarrow> nat \<Rightarrow> time \<Rightarrow> mem_fetch \<Rightarrow> tag_array option" where
  "tag_fill_index cfg ta idx t mf =
     do {
       cpp_assert (m_alloc_policy cfg = ON_MISS);
       fill_block ta idx t (get_access_sector_mask mf) (get_access_byte_mask mf)
     }"

section \<open>Management and counters\<close>

definition blk_invalidate :: "cache_block \<Rightarrow> cache_block option" where
  "blk_invalidate b = fold_opt (\<lambda>j b. blk_set_status INVALID (one_sector j) b) sectors b"

definition tag_flush :: "cache_config \<Rightarrow> tag_array \<Rightarrow> tag_array option" where
  "tag_flush cfg ta =
     (if \<not> is_used ta then Some ta
      else do {
        n \<leftarrow> get_num_lines cfg;
        ls \<leftarrow> fold_opt (\<lambda>i ls. do {
            b \<leftarrow> nth_opt ls i;
            (if blk_is_modified_line b
             then do { b' \<leftarrow> blk_invalidate b; update_opt ls i b' } else Some ls)
          }) [0..<unat n] (m_lines ta);
        Some (ta\<lparr>m_lines := ls, m_dirty := 0, is_used := False\<rparr>)
      })"

definition tag_invalidate :: "cache_config \<Rightarrow> tag_array \<Rightarrow> tag_array option" where
  "tag_invalidate cfg ta =
     do {
       n \<leftarrow> get_num_lines cfg;
       ls \<leftarrow> fold_opt (\<lambda>i ls. do {
           b \<leftarrow> nth_opt ls i;
           b' \<leftarrow> blk_invalidate b;
           update_opt ls i b'
         }) [0..<unat n] (m_lines ta);
       Some (ta\<lparr>m_lines := ls, m_dirty := 0, is_used := False\<rparr>)
     }"

text \<open>
  The loops over the first \<open>get_num_lines()\<close> lines: they end early, with \<open>False\<close>, at the first line
  that fails the test, and read outside the vector when the configuration asks for more.
\<close>

definition all_configured_lines ::
  "(cache_block \<Rightarrow> bool) \<Rightarrow> cache_config \<Rightarrow> tag_array \<Rightarrow> bool option" where
  "all_configured_lines P cfg ta =
     do {
       n \<leftarrow> get_num_lines cfg;
       (if \<not> list_all P (take (unat n) (m_lines ta)) then Some False
        else if unat n \<le> length (m_lines ta) then Some True else None)
     }"

definition tag_no_pending_accesses :: "cache_config \<Rightarrow> tag_array \<Rightarrow> bool option" where
  "tag_no_pending_accesses cfg ta =
     (if pending_lines ta \<noteq> [] then Some False
      else all_configured_lines (\<lambda>b. \<not> blk_is_pinned b) cfg ta)"

definition tag_final_state_clean :: "cache_config \<Rightarrow> tag_array \<Rightarrow> bool option" where
  "tag_final_state_clean cfg ta =
     do {
       quiet \<leftarrow> tag_no_pending_accesses cfg ta;
       (if \<not> quiet then Some False else all_configured_lines blk_is_invalid_line cfg ta)
     }"

definition tag_max_pending_response_count :: "cache_config \<Rightarrow> tag_array \<Rightarrow> u32 option" where
  "tag_max_pending_response_count cfg ta =
     do {
       n \<leftarrow> get_num_lines cfg;
       fold_opt (\<lambda>i m. do {
           b \<leftarrow> nth_opt (m_lines ta) i;
           Some (if m < blk_max_pending b then blk_max_pending b else m)
         }) [0..<unat n] 0
     }"

definition windowed_miss_rate :: "tag_array \<Rightarrow> f32" where
  "windowed_miss_rate ta =
     (let n_access = ta_access ta - m_prev_snapshot_access ta;
          n_miss = (ta_miss ta + ta_sector_miss ta) - m_prev_snapshot_miss ta
      in if n_access \<noteq> 0
         then f32_div (f32_of_u32 (n_miss + ta_sector_miss ta)) (f32_of_u32 n_access)
         else \<lparr>mantissa = 0, expo = 0\<rparr>)"

definition new_window :: "tag_array \<Rightarrow> tag_array" where
  "new_window ta =
     (let ta = ta\<lparr>m_prev_snapshot_access := ta_access ta\<rparr>;
          ta = ta\<lparr>m_prev_snapshot_miss := ta_miss ta\<rparr>;
          ta = ta\<lparr>m_prev_snapshot_miss := ta_miss ta + ta_sector_miss ta\<rparr>
      in ta\<lparr>m_prev_snapshot_pending_hit := ta_pending_hit ta\<rparr>)"

text \<open>\<open>print\<close> adds the counters to two running totals (and writes a line of text).\<close>

definition tag_print_totals :: "tag_array \<Rightarrow> u32 \<Rightarrow> u32 \<Rightarrow> u32 \<times> u32" where
  "tag_print_totals ta total_access total_misses =
     (total_access + ta_access ta, total_misses + (ta_miss ta + ta_sector_miss ta))"

definition tag_get_stats :: "tag_array \<Rightarrow> u32 \<times> u32 \<times> u32 \<times> u32" where
  "tag_get_stats ta =
     (ta_access ta, ta_miss ta + ta_sector_miss ta, ta_pending_hit ta, ta_res_fail ta)"

definition inc_dirty :: "tag_array \<Rightarrow> tag_array" where
  "inc_dirty ta = ta\<lparr>m_dirty := m_dirty ta + 1\<rparr>"

end
