(* ===== verification/Mshr.thy ===== *)
theory Mshr
  imports GpuTypes
begin

text \<open>
  \<open>mshr_table\<close>: the finite table of outstanding misses. An entry holds the tokens merged into one
  miss in arrival order; \<open>m_current_response\<close> lists the blocks whose data has arrived and whose
  tokens are being handed back. The members that no function uses (\<open>pending_lines\<close>,
  \<open>m_current_response_ready\<close>) are left out. \<open>operator[]\<close> inserts an empty entry for a missing key.

  The locale \<open>merge_table\<close> states the contract the caches rely on, \<open>mshr\<close> interprets it.
\<close>

record mshr_entry =
  m_list :: "mf_ref list"
  m_has_atomic :: bool

record mshr_table =
  m_num_entries :: u32
  m_max_merged :: u32
  m_max_entries_seen :: u32
  m_max_merged_seen :: u32
  m_max_ready_seen :: u32
  m_data :: "(new_addr_type \<times> mshr_entry) list"
  m_current_response :: "new_addr_type list"

record mshr_watermark_stats =
  max_entries_seen :: u32
  max_merged_seen :: u32
  max_ready_seen :: u32

definition new_mshr_entry :: mshr_entry where
  "new_mshr_entry = \<lparr>m_list = [], m_has_atomic = False\<rparr>"

definition new_mshr_table :: "u32 \<Rightarrow> u32 \<Rightarrow> mshr_table" where
  "new_mshr_table num_entries max_merged =
     \<lparr>m_num_entries = num_entries, m_max_merged = max_merged, m_max_entries_seen = 0,
      m_max_merged_seen = 0, m_max_ready_seen = 0, m_data = [], m_current_response = []\<rparr>"

definition mshr_probe :: "mshr_table \<Rightarrow> new_addr_type \<Rightarrow> bool" where
  "mshr_probe t block_addr = (map_of (m_data t) block_addr \<noteq> None)"

definition mshr_full :: "mshr_table \<Rightarrow> new_addr_type \<Rightarrow> bool" where
  "mshr_full t block_addr =
     (case map_of (m_data t) block_addr of
        Some e \<Rightarrow> unat (m_max_merged t) \<le> length (m_list e)
      | None \<Rightarrow> unat (m_num_entries t) \<le> length (m_data t))"

definition mshr_lookup :: "mshr_table \<Rightarrow> new_addr_type \<Rightarrow> mshr_entry" where
  "mshr_lookup t block_addr =
     (case map_of (m_data t) block_addr of Some e \<Rightarrow> e | None \<Rightarrow> new_mshr_entry)"

definition mshr_add :: "new_addr_type \<Rightarrow> mf_ref \<Rightarrow> mem_fetch \<Rightarrow> mshr_table \<Rightarrow> mshr_table option" where
  "mshr_add block_addr r mf t =
     (let e = mshr_lookup t block_addr;
          e = e\<lparr>m_list := m_list e @ [r]\<rparr>;
          d = AList.update block_addr e (m_data t);
          t = t\<lparr>m_data := d,
            m_max_merged_seen := (if unat (m_max_merged_seen t) < length (m_list e)
                                  then of_nat (length (m_list e)) else m_max_merged_seen t),
            m_max_entries_seen := (if unat (m_max_entries_seen t) < length d
                                   then of_nat (length d) else m_max_entries_seen t)\<rparr>
      in do {
        cpp_assert (length d \<le> unat (m_num_entries t));
        cpp_assert (length (m_list e) \<le> unat (m_max_merged t));
        Some (if isatomic mf then t\<lparr>m_data := AList.update block_addr (e\<lparr>m_has_atomic := True\<rparr>) d\<rparr>
              else t)
      })"

text \<open>A read behind a write in the list of a block; a missing block gets an empty entry.\<close>

fun read_after_write :: "mf_heap \<Rightarrow> bool \<Rightarrow> mf_ref list \<Rightarrow> bool option" where
  "read_after_write h write_found [] = Some False"
| "read_after_write h write_found (r # rs) =
     do {
       mf \<leftarrow> heap_get h r;
       (if get_is_write mf then read_after_write h True rs
        else if write_found then Some True else read_after_write h write_found rs)
     }"

definition is_read_after_write_pending ::
  "mf_heap \<Rightarrow> new_addr_type \<Rightarrow> mshr_table \<Rightarrow> (bool \<times> mshr_table) option" where
  "is_read_after_write_pending h block_addr t =
     (let e = mshr_lookup t block_addr;
          t' = (if mshr_probe t block_addr then t
                else t\<lparr>m_data := AList.update block_addr e (m_data t)\<rparr>)
      in map_option (\<lambda>b. (b, t')) (read_after_write h False (m_list e)))"

definition mshr_busy :: "mshr_table \<Rightarrow> bool" where
  "mshr_busy t = False"

definition mshr_mark_ready :: "new_addr_type \<Rightarrow> mshr_table \<Rightarrow> (bool \<times> mshr_table) option" where
  "mshr_mark_ready block_addr t =
     do {
       cpp_assert (\<not> mshr_busy t);
       e \<leftarrow> map_of (m_data t) block_addr;
       let t = t\<lparr>m_current_response := m_current_response t @ [block_addr]\<rparr>;
       cpp_assert (length (m_current_response t) \<le> length (m_data t));
       Some (m_has_atomic e, t)
     }"

definition mshr_access_ready :: "mshr_table \<Rightarrow> bool" where
  "mshr_access_ready t = (m_current_response t \<noteq> [])"

definition mshr_empty :: "mshr_table \<Rightarrow> bool" where
  "mshr_empty t = (m_data t = [] \<and> m_current_response t = [])"

definition mshr_next_access :: "mshr_table \<Rightarrow> (mf_ref \<times> mshr_table) option" where
  "mshr_next_access t =
     (case m_current_response t of [] \<Rightarrow> None
      | block_addr # rest \<Rightarrow>
          (let e = mshr_lookup t block_addr in
           case m_list e of [] \<Rightarrow> None
           | result # others \<Rightarrow>
               if others = []
               then Some (result, t\<lparr>m_data := AList.delete block_addr (m_data t),
                                    m_current_response := rest\<rparr>)
               else Some (result, t\<lparr>m_data := AList.update block_addr (e\<lparr>m_list := others\<rparr>)
                                                (m_data t)\<rparr>)))"

definition mshr_watermarks :: "mshr_table \<Rightarrow> mshr_watermark_stats" where
  "mshr_watermarks t = \<lparr>max_entries_seen = m_max_entries_seen t,
     max_merged_seen = m_max_merged_seen t, max_ready_seen = m_max_ready_seen t\<rparr>"

definition check_mshr_parameters :: "u32 \<Rightarrow> u32 \<Rightarrow> mshr_table \<Rightarrow> unit option" where
  "check_mshr_parameters num_entries max_merged t =
     do {
       cpp_assert (m_num_entries t = num_entries);
       cpp_assert (m_max_merged t = max_merged)
     }"

section \<open>The invariant\<close>

definition mshr_inv :: "mshr_table \<Rightarrow> bool" where
  "mshr_inv t \<longleftrightarrow>
     distinct (map fst (m_data t))
   \<and> (\<forall>e \<in> snd ` set (m_data t). m_list e \<noteq> [] \<and> length (m_list e) \<le> unat (m_max_merged t))
   \<and> length (m_data t) \<le> unat (m_num_entries t)
   \<and> 0 < unat (m_max_merged t)
   \<and> distinct (m_current_response t)
   \<and> set (m_current_response t) \<subseteq> fst ` set (m_data t)"

definition mshr_waiting :: "mshr_table \<Rightarrow> new_addr_type \<Rightarrow> mf_ref list" where
  "mshr_waiting t a = m_list (mshr_lookup t a)"

definition mshr_outstanding :: "mshr_table \<Rightarrow> mf_ref multiset" where
  "mshr_outstanding t = (\<Sum>e \<leftarrow> m_data t. mset (m_list (snd e)))"

section \<open>The contract\<close>

text \<open>
  A merge table keeps, per block, the tokens waiting for it, and hands the tokens of the ready
  blocks back one at a time. Draining it returns them block by block in the order the blocks
  became ready, and within a block in the order they were added.
\<close>

locale merge_table =
  fixes inv :: "'t \<Rightarrow> bool"
    and waiting :: "'t \<Rightarrow> 'a \<Rightarrow> 'r list"
    and ready :: "'t \<Rightarrow> 'a list"
    and outstanding :: "'t \<Rightarrow> 'r multiset"
    and full :: "'t \<Rightarrow> 'a \<Rightarrow> bool"
    and add :: "'a \<Rightarrow> 'r \<Rightarrow> 'm \<Rightarrow> 't \<Rightarrow> 't option"
    and mark :: "'a \<Rightarrow> 't \<Rightarrow> (bool \<times> 't) option"
    and next_token :: "'t \<Rightarrow> ('r \<times> 't) option"
  assumes distinct_ready: "inv t \<Longrightarrow> distinct (ready t)"
    and add_spec: "inv t \<Longrightarrow> add a r m t = Some t' \<Longrightarrow> inv t' \<and>
      waiting t' = (waiting t)(a := waiting t a @ [r]) \<and> ready t' = ready t \<and>
      outstanding t' = add_mset r (outstanding t)"
    and add_room: "inv t \<Longrightarrow> \<not> full t a \<Longrightarrow> \<exists>t'. add a r m t = Some t'"
    and mark_spec: "inv t \<Longrightarrow> waiting t a \<noteq> [] \<Longrightarrow> a \<notin> set (ready t) \<Longrightarrow>
      \<exists>b t'. mark a t = Some (b, t') \<and> inv t' \<and> waiting t' = waiting t \<and>
        ready t' = ready t @ [a] \<and> outstanding t' = outstanding t"
    and next_spec: "inv t \<Longrightarrow> ready t = a # rest \<Longrightarrow>
      \<exists>r rs t'. waiting t a = r # rs \<and> next_token t = Some (r, t') \<and> inv t' \<and>
        waiting t' = (waiting t)(a := rs) \<and> ready t' = (if rs = [] then rest else a # rest) \<and>
        outstanding t = add_mset r (outstanding t')"
    and next_none: "ready t = [] \<Longrightarrow> next_token t = None"
begin

fun drain :: "nat \<Rightarrow> 't \<Rightarrow> ('r list \<times> 't) option" where
  "drain 0 t = Some ([], t)"
| "drain (Suc n) t =
     (case next_token t of None \<Rightarrow> None
      | Some (r, t') \<Rightarrow> map_option (\<lambda>(rs, t''). (r # rs, t'')) (drain n t'))"

lemma drain_add: "drain m t = Some (rs, t') \<Longrightarrow> drain n t' = Some (qs, t'') \<Longrightarrow>
    drain (m + n) t = Some (rs @ qs, t'')"
  by (induction m arbitrary: t rs) (auto split: option.splits)

lemma drain_block:
  assumes "inv t" "ready t = a # rest"
  shows "\<exists>t'. drain (length (waiting t a)) t = Some (waiting t a, t') \<and> inv t' \<and> ready t' = rest
    \<and> waiting t' = (waiting t)(a := []) \<and> outstanding t = mset (waiting t a) + outstanding t'"
  using assms
proof (induction "waiting t a" arbitrary: t)
  case Nil
  with next_spec [of t a rest] show ?case by auto
next
  case (Cons x xs)
  from next_spec [OF Cons.prems] Cons.hyps(2) obtain t' where t':
    "next_token t = Some (x, t')" "inv t'" "waiting t' = (waiting t)(a := xs)"
    "ready t' = (if xs = [] then rest else a # rest)"
    "outstanding t = add_mset x (outstanding t')" by auto
  show ?case
  proof (cases "xs = []")
    case True
    with t' Cons.hyps(2) [symmetric] show ?thesis by simp
  next
    case False
    with t' have "xs = waiting t' a" "inv t'" "ready t' = a # rest" by auto
    from Cons.hyps(1) [OF this] t' Cons.hyps(2) [symmetric] show ?thesis by auto
  qed
qed

lemma drain_all:
  assumes "inv t"
  shows "\<exists>t'. drain (length (concat (map (waiting t) (ready t)))) t
      = Some (concat (map (waiting t) (ready t)), t') \<and> inv t' \<and> ready t' = []"
  using assms
proof (induction "ready t" arbitrary: t)
  case Nil
  then show ?case by auto
next
  case (Cons a rest)
  from drain_block [OF Cons.prems] Cons.hyps(2) obtain t' where t':
    "drain (length (waiting t a)) t = Some (waiting t a, t')" "inv t'" "ready t' = rest"
    "waiting t' = (waiting t)(a := [])" by metis
  have "a \<notin> set rest" using distinct_ready [OF Cons.prems] Cons.hyps(2) by (metis distinct.simps(2))
  then have same: "map (waiting t') rest = map (waiting t) rest" using t'(4) by simp
  from Cons.hyps(1) [OF t'(3) [symmetric] t'(2), unfolded t'(3) same] obtain t'' where
    "drain (length (concat (map (waiting t) rest))) t' = Some (concat (map (waiting t) rest), t'')"
    "inv t''" "ready t'' = []" by blast
  with drain_add [OF t'(1)] show ?case using Cons.hyps(2) [symmetric] by auto
qed

end

section \<open>The table keeps the contract\<close>

lemma lookup_Some: "map_of (m_data t) a = Some e \<Longrightarrow> mshr_lookup t a = e"
  by (simp add: mshr_lookup_def)

lemma lookup_None: "map_of (m_data t) a = None \<Longrightarrow> mshr_lookup t a = new_mshr_entry"
  by (simp add: mshr_lookup_def)

lemma lookup_update: "mshr_lookup (t\<lparr>m_data := AList.update a e (m_data t)\<rparr>) b
    = (if b = a then e else mshr_lookup t b)"
  by (simp add: mshr_lookup_def map_of_update)

lemma sum_update_fresh:
  "a \<notin> fst ` set d \<Longrightarrow> (\<Sum>e \<leftarrow> AList.update a v d. f (snd e)) = (\<Sum>e \<leftarrow> d. f (snd e)) + f v"
  for f :: "'v \<Rightarrow> 'm::comm_monoid_add"
  by (induction d) (auto simp: ac_simps)

lemma sum_update_old:
  fixes f :: "'v \<Rightarrow> 'm multiset"
  assumes "distinct (map fst d)" "map_of d a = Some v0" "f v = add_mset r (f v0)"
  shows "(\<Sum>e \<leftarrow> AList.update a v d. f (snd e)) = add_mset r (\<Sum>e \<leftarrow> d. f (snd e))"
  using assms by (induction d) (auto split: if_splits)

lemma sum_delete:
  fixes f :: "'v \<Rightarrow> 'm multiset"
  assumes "distinct (map fst d)" "map_of d a = Some v0"
  shows "(\<Sum>e \<leftarrow> d. f (snd e)) = f v0 + (\<Sum>e \<leftarrow> AList.delete a d. f (snd e))"
  using assms
proof (induction d)
  case Nil
  then show ?case by simp
next
  case (Cons p d)
  show ?case
  proof (cases "fst p = a")
    case True
    with Cons.prems have "a \<notin> fst ` set d" by auto
    then have "AList.delete a d = d" by (simp add: delete_notin_dom dom_map_of_conv_image_fst)
    then show ?thesis using True Cons.prems by (cases p) simp
  next
    case False
    with Cons show ?thesis by (cases p) (auto simp: ac_simps)
  qed
qed

lemma update_same_key_back:
  "distinct (map fst d) \<Longrightarrow> map_of d a = Some v \<Longrightarrow> AList.update a v (AList.update a w d) = d"
  by (induction d arbitrary: w) (auto split: if_splits)

lemma length_delete_le: "length (AList.delete a d) \<le> length d"
  by (induction d) auto

lemma entries_update:
  "distinct (map fst d) \<Longrightarrow> \<forall>e \<in> snd ` set d. P e \<Longrightarrow> P v \<Longrightarrow> \<forall>e \<in> snd ` set (AList.update a v d). P e"
  by (induction d) auto

lemma entries_delete: "\<forall>e \<in> snd ` set d. P e \<Longrightarrow> \<forall>e \<in> snd ` set (AList.delete a d). P e"
  by (induction d) auto

text \<open>Replacing or removing an entry keeps the invariant, given what the new entry holds.\<close>

lemma mshr_inv_update:
  assumes inv: "mshr_inv t" and e: "m_list e \<noteq> []" "length (m_list e) \<le> unat (m_max_merged t)"
    and len: "length (AList.update a e (m_data t)) \<le> unat (m_num_entries t)"
    and t': "m_data t' = AList.update a e (m_data t)" "m_current_response t' = m_current_response t"
      "m_num_entries t' = m_num_entries t" "m_max_merged t' = m_max_merged t"
  shows "mshr_inv t'"
proof -
  have d: "distinct (map fst (m_data t))" using inv by (simp add: mshr_inv_def)
  have "\<forall>e \<in> snd ` set (AList.update a e (m_data t)).
      m_list e \<noteq> [] \<and> length (m_list e) \<le> unat (m_max_merged t)"
    by (rule entries_update [OF d]) (use inv e in \<open>simp_all add: mshr_inv_def\<close>)
  moreover have "set (m_current_response t) \<subseteq> fst ` set (AList.update a e (m_data t))"
    using inv unfolding keys_update by (auto simp: mshr_inv_def)
  ultimately show ?thesis
    using inv len d unfolding mshr_inv_def t' by (simp add: distinct_keys_update)
qed

lemma mshr_inv_delete:
  assumes inv: "mshr_inv t" and ready: "m_current_response t = a # rest"
    and t': "m_data t' = AList.delete a (m_data t)" "m_current_response t' = rest"
      "m_num_entries t' = m_num_entries t" "m_max_merged t' = m_max_merged t"
  shows "mshr_inv t'"
proof -
  have "\<forall>e \<in> snd ` set (AList.delete a (m_data t)).
      m_list e \<noteq> [] \<and> length (m_list e) \<le> unat (m_max_merged t)"
    by (rule entries_delete) (use inv in \<open>simp add: mshr_inv_def\<close>)
  moreover have "set rest \<subseteq> fst ` set (AList.delete a (m_data t))"
    using inv ready unfolding keys_delete by (auto simp: mshr_inv_def)
  moreover have "length (AList.delete a (m_data t)) \<le> unat (m_num_entries t)"
    using inv length_delete_le [of a "m_data t"] by (simp add: mshr_inv_def)
  ultimately show ?thesis
    using inv ready unfolding mshr_inv_def t' by (simp add: distinct_keys_delete)
qed

lemma mshr_inv_entry: "mshr_inv t \<Longrightarrow> map_of (m_data t) a = Some e \<Longrightarrow>
    m_list e \<noteq> [] \<and> length (m_list e) \<le> unat (m_max_merged t)"
  unfolding mshr_inv_def by (metis (no_types, lifting) image_eqI map_of_SomeD snd_conv)

lemma mshr_waiting_nonempty: "mshr_inv t \<Longrightarrow> mshr_waiting t a \<noteq> [] \<longleftrightarrow> mshr_probe t a"
  by (auto simp: mshr_waiting_def mshr_probe_def mshr_lookup_def new_mshr_entry_def
      dest: mshr_inv_entry split: option.splits)

lemma mshr_add_Some:
  assumes "mshr_add a r mf t = Some t'"
  defines "e \<equiv> (mshr_lookup t a)\<lparr>m_list := mshr_waiting t a @ [r]\<rparr>"
  shows "m_data t' = AList.update a e (m_data t)" "m_current_response t' = m_current_response t"
    "m_num_entries t' = m_num_entries t" "m_max_merged t' = m_max_merged t"
    "length (AList.update a e (m_data t)) \<le> unat (m_num_entries t)"
    "length (m_list e) \<le> unat (m_max_merged t)"
  using assms(1) by (auto simp: e_def mshr_add_def mshr_waiting_def isatomic_def Let_def bind_Some_iff)


lemma mshr_add_spec:
  assumes inv: "mshr_inv t" and add: "mshr_add a r mf t = Some t'"
  shows "mshr_inv t' \<and> mshr_waiting t' = (mshr_waiting t)(a := mshr_waiting t a @ [r])
    \<and> m_current_response t' = m_current_response t
    \<and> mshr_outstanding t' = add_mset r (mshr_outstanding t)"
proof -
  define e where "e = (mshr_lookup t a)\<lparr>m_list := mshr_waiting t a @ [r]\<rparr>"
  note f = mshr_add_Some [OF add, folded e_def]
  have d: "distinct (map fst (m_data t))" using inv by (simp add: mshr_inv_def)
  have "mshr_inv t'" by (rule mshr_inv_update [OF inv _ f(6) f(5) f(1-4)]) (simp add: e_def)
  moreover have "mshr_waiting t' b = ((mshr_waiting t)(a := mshr_waiting t a @ [r])) b" for b
    using f(1) by (simp add: mshr_waiting_def mshr_lookup_def map_of_update e_def)
  moreover have "mshr_outstanding t' = add_mset r (mshr_outstanding t)"
  proof (cases "map_of (m_data t) a")
    case None
    then show ?thesis
      by (simp add: mshr_outstanding_def f(1) sum_update_fresh [where f = "\<lambda>e. mset (m_list e)"] map_of_None_iff_fst
          e_def mshr_waiting_def lookup_None new_mshr_entry_def)
  next
    case (Some e0)
    then show ?thesis
      unfolding mshr_outstanding_def f(1)
      by (intro sum_update_old [OF d Some])
        (simp add: e_def mshr_waiting_def lookup_Some)
  qed
  ultimately show ?thesis using f(2) by auto
qed

lemma mshr_add_defined:
  "(\<exists>t'. mshr_add a r mf t = Some t') \<longleftrightarrow>
     length (AList.update a (mshr_lookup t a\<lparr>m_list := mshr_waiting t a @ [r]\<rparr>) (m_data t))
       \<le> unat (m_num_entries t)
   \<and> Suc (length (mshr_waiting t a)) \<le> unat (m_max_merged t)"
  by (simp add: mshr_add_def mshr_waiting_def Let_def isatomic_def cpp_assert_def)

lemma mshr_add_room:
  assumes inv: "mshr_inv t" and room: "\<not> mshr_full t a"
  shows "\<exists>t'. mshr_add a r mf t = Some t'"
proof (cases "map_of (m_data t) a")
  case None
  with room inv show ?thesis
    by (simp add: mshr_full_def mshr_add_defined mshr_waiting_def lookup_None new_mshr_entry_def
        length_update_fresh map_of_None_iff_fst mshr_inv_def Suc_le_eq)
next
  case (Some e)
  then have "a \<in> fst ` set (m_data t)" by (metis map_of_None_iff_fst option.distinct(1))
  with Some room inv show ?thesis
    by (simp add: mshr_full_def mshr_add_defined mshr_waiting_def lookup_Some
        length_update_old mshr_inv_def Suc_le_eq)
qed

lemma mshr_mark_spec:
  assumes inv: "mshr_inv t" and w: "mshr_waiting t a \<noteq> []" and new: "a \<notin> set (m_current_response t)"
  shows "\<exists>b t'. mshr_mark_ready a t = Some (b, t') \<and> mshr_inv t'
    \<and> mshr_waiting t' = mshr_waiting t \<and> m_current_response t' = m_current_response t @ [a]
    \<and> mshr_outstanding t' = mshr_outstanding t"
proof -
  let ?t' = "t\<lparr>m_current_response := m_current_response t @ [a]\<rparr>"
  from w inv obtain e where e: "map_of (m_data t) a = Some e"
    by (auto simp: mshr_waiting_nonempty mshr_probe_def)
  then have key: "a \<in> fst ` set (m_data t)" by (metis map_of_None_iff_fst option.distinct(1))
  have sub: "insert a (set (m_current_response t)) \<subseteq> fst ` set (m_data t)"
    using inv key by (simp add: mshr_inv_def)
  have "Suc (length (m_current_response t)) = card (insert a (set (m_current_response t)))"
    using inv new by (simp add: mshr_inv_def distinct_card)
  also have "\<dots> \<le> card (fst ` set (m_data t))" by (rule card_mono [OF _ sub]) simp
  also have "\<dots> \<le> length (m_data t)"
    by (metis card_length length_map set_map)
  finally have len: "Suc (length (m_current_response t)) \<le> length (m_data t)" .
  have "mshr_inv ?t'" using inv new key by (simp add: mshr_inv_def)
  moreover have "mshr_mark_ready a t = Some (m_has_atomic e, ?t')"
    using len e by (simp add: mshr_mark_ready_def mshr_busy_def cpp_assert_def)
  ultimately show ?thesis
    by (auto simp: mshr_waiting_def mshr_lookup_def mshr_outstanding_def)
qed

lemma mshr_next_spec:
  assumes inv: "mshr_inv t" and ready: "m_current_response t = a # rest"
  shows "\<exists>r rs t'. mshr_waiting t a = r # rs \<and> mshr_next_access t = Some (r, t') \<and> mshr_inv t'
    \<and> mshr_waiting t' = (mshr_waiting t)(a := rs)
    \<and> m_current_response t' = (if rs = [] then rest else a # rest)
    \<and> mshr_outstanding t = add_mset r (mshr_outstanding t')"
proof -
  have d: "distinct (map fst (m_data t))" using inv by (simp add: mshr_inv_def)
  have "a \<in> fst ` set (m_data t)" using inv ready by (simp add: mshr_inv_def)
  then obtain e where e: "map_of (m_data t) a = Some e"
    by (metis map_of_None_iff_fst not_None_eq)
  from mshr_inv_entry [OF inv e] obtain r rs where l: "m_list e = r # rs"
    by (meson neq_Nil_conv)
  have w: "mshr_waiting t a = r # rs" using l by (simp add: mshr_waiting_def lookup_Some [OF e])
  show ?thesis
  proof (cases "rs = []")
    case True
    define t' where "t' = t\<lparr>m_data := AList.delete a (m_data t), m_current_response := rest\<rparr>"
    have next': "mshr_next_access t = Some (r, t')"
      using ready l True by (simp add: mshr_next_access_def lookup_Some [OF e] t'_def)
    have "mshr_inv t'" by (rule mshr_inv_delete [OF inv ready]) (simp_all add: t'_def)
    moreover have "mshr_waiting t' b = ((mshr_waiting t)(a := rs)) b" for b
      using True by (simp add: mshr_waiting_def mshr_lookup_def map_of_delete t'_def new_mshr_entry_def)
    moreover have "mshr_outstanding t = add_mset r (mshr_outstanding t')"
      using sum_delete [OF d e, of "\<lambda>e. mset (m_list e)"] l True
      by (simp add: mshr_outstanding_def t'_def)
    moreover have "m_current_response t' = (if rs = [] then rest else a # rest)"
      using True by (simp add: t'_def)
    ultimately show ?thesis using w next' by blast
  next
    case False
    define t' where "t' = t\<lparr>m_data := AList.update a (e\<lparr>m_list := rs\<rparr>) (m_data t)\<rparr>"
    have next': "mshr_next_access t = Some (r, t')"
      using ready l False by (simp add: mshr_next_access_def lookup_Some [OF e] t'_def)
    have old: "a \<in> fst ` set (m_data t)" using e by (metis map_of_None_iff_fst option.distinct(1))
    have "mshr_inv t'"
      by (rule mshr_inv_update [OF inv, of "e\<lparr>m_list := rs\<rparr>" a])
        (use inv False l mshr_inv_entry [OF inv e] in
          \<open>simp_all add: t'_def length_update_old [OF old] mshr_inv_def\<close>)
    moreover have "mshr_waiting t' b = ((mshr_waiting t)(a := rs)) b" for b
      by (simp add: mshr_waiting_def mshr_lookup_def map_of_update t'_def)
    moreover have "mshr_outstanding t = add_mset r (mshr_outstanding t')"
    proof -
      let ?d' = "m_data t'"
      have d': "distinct (map fst ?d')" using d by (simp add: t'_def distinct_keys_update)
      have "?d' = AList.update a (e\<lparr>m_list := rs\<rparr>) (m_data t)" by (simp add: t'_def)
      then have same: "AList.update a e ?d' = m_data t" by (simp only: update_same_key_back [OF d e])
      have "map_of ?d' a = Some (e\<lparr>m_list := rs\<rparr>)" by (simp add: t'_def map_of_update)
      from sum_update_old [OF d' this, of "\<lambda>e. mset (m_list e)" e r] l same
      show ?thesis by (simp add: mshr_outstanding_def)
    qed
    moreover have "m_current_response t' = (if rs = [] then rest else a # rest)"
      using False ready by (simp add: t'_def)
    ultimately show ?thesis using w next' by blast
  qed
qed

interpretation mshr: merge_table mshr_inv mshr_waiting m_current_response mshr_outstanding
  mshr_full mshr_add mshr_mark_ready mshr_next_access
proof unfold_locales
  fix t :: mshr_table
  show "mshr_inv t \<Longrightarrow> distinct (m_current_response t)" by (simp add: mshr_inv_def)
  show "m_current_response t = [] \<Longrightarrow> mshr_next_access t = None" by (simp add: mshr_next_access_def)
qed (use mshr_add_spec mshr_add_room mshr_mark_spec mshr_next_spec in blast)+

lemma mshr_inv_new: "0 < max_merged \<Longrightarrow> mshr_inv (new_mshr_table n max_merged)"
  by (simp add: mshr_inv_def new_mshr_table_def word_less_nat_alt)

text \<open>C12: Order of the responses. From a table in its invariant, calling \<open>next_access\<close> until the ready
  list is empty returns the merged requests block by block in the order the blocks became ready, and
  within a block in the order the requests were added; no call fails and the table is left without
  ready blocks.\<close>

theorem mshr_drain_order:
  assumes "mshr_inv t"
  shows "\<exists>t'. mshr.drain (length (concat (map (mshr_waiting t) (m_current_response t)))) t
      = Some (concat (map (mshr_waiting t) (m_current_response t)), t')
    \<and> mshr_inv t' \<and> \<not> mshr_access_ready t'"
  using mshr.drain_all [OF assms] by (simp add: mshr_access_ready_def)

definition two_blocks :: mshr_table where
  "two_blocks = \<lparr>m_num_entries = 4, m_max_merged = 4, m_max_entries_seen = 0, m_max_merged_seen = 0,
     m_max_ready_seen = 0, m_data = [(0x80, \<lparr>m_list = [1, 2], m_has_atomic = False\<rparr>),
       (0x100, \<lparr>m_list = [3], m_has_atomic = False\<rparr>)], m_current_response = [0x100, 0x80]\<rparr>"

theorem mshr_drain_order_witness: "map_option fst (mshr.drain 3 two_blocks) = Some [3, 1, 2]"
proof -
  have "mshr_inv two_blocks" by (auto simp: mshr_inv_def two_blocks_def)
  from mshr_drain_order [OF this] show ?thesis
    by (auto simp: two_blocks_def mshr_waiting_def mshr_lookup_def numeral_3_eq_3)
qed

text \<open>C13: The table never overflows and merging keeps its order: while \<open>full\<close> is false \<open>add\<close> succeeds,
  appends the request behind those waiting for the block and disturbs no other block; at the limits the
  assertions in \<open>add\<close> stop the program, so a table never holds more blocks than \<open>m_num_entries\<close> nor more
  requests per block than \<open>m_max_merged\<close>.\<close>

theorem mshr_add_bounds:
  assumes inv: "mshr_inv t"
  shows "case mshr_add a r mf t of None \<Rightarrow> mshr_full t a
    | Some t' \<Rightarrow> \<not> mshr_full t a \<and> mshr_inv t' \<and> mshr_waiting t' = (mshr_waiting t)(a := mshr_waiting t a @ [r])
       \<and> length (m_data t') \<le> unat (m_num_entries t) \<and> length (mshr_waiting t' a) \<le> unat (m_max_merged t)"
proof (cases "mshr_add a r mf t")
  case None
  with mshr.add_room [OF inv, of a r mf] show ?thesis by auto
next
  case (Some t')
  have "\<exists>t'. mshr_add a r mf t = Some t'" using Some by simp
  then have d: "length (AList.update a (mshr_lookup t a\<lparr>m_list := mshr_waiting t a @ [r]\<rparr>) (m_data t))
      \<le> unat (m_num_entries t)" "Suc (length (mshr_waiting t a)) \<le> unat (m_max_merged t)"
    unfolding mshr_add_defined by auto
  have "\<not> mshr_full t a"
  proof (cases "map_of (m_data t) a")
    case None
    then have "a \<notin> fst ` set (m_data t)" by (simp add: map_of_None_iff_fst)
    with None d(1) show ?thesis by (simp add: mshr_full_def length_update_fresh)
  next
    case (Some e)
    with d(2) show ?thesis by (simp add: mshr_full_def mshr_waiting_def lookup_Some)
  qed
  with Some mshr.add_spec [OF inv Some] mshr_add_Some [OF Some] show ?thesis by auto
qed

theorem mshr_add_bounds_witness:
  "mshr_inv two_blocks \<and> (\<exists>t'. mshr_add 0x80 9 (new_mem_fetch default_mem_access None 0 0 0 0 0 None None) two_blocks
       = Some t' \<and> mshr_waiting t' 0x80 = [1, 2, 9])"
proof -
  let ?mf = "new_mem_fetch default_mem_access None 0 0 0 0 0 None None"
  have i: "mshr_inv two_blocks" by (auto simp: mshr_inv_def two_blocks_def)
  have w: "mshr_waiting two_blocks 0x80 = [1, 2]" "\<not> mshr_full two_blocks 0x80"
    by (simp_all add: two_blocks_def mshr_waiting_def mshr_lookup_def mshr_full_def)
  from mshr_add_bounds [OF i, of "0x80" 9 ?mf] w i show ?thesis by (auto split: option.splits)
qed

end
