(* ===== verification/CacheStats.thy ===== *)
theory CacheStats
  imports CacheBlocks
begin

text \<open>
  \<open>cache_stats\<close>, \<open>cache_sub_stats\<close> and \<open>cache_sub_stats_pw\<close> of \<open>gpu_cache_ref.h/.cc\<close>: counters per
  stream, access type and outcome, with 64-bit (per-window sums: 32-bit) wrap-around. A table of
  one stream is a function from the row and column, read and written inside its dimensions; the
  \<open>std::map\<close> from streams to tables is an association list. \<open>at\<close> on a missing stream throws, hence
  \<open>None\<close>. The functions that only print are left out.
\<close>

type_synonym stat_table = "nat \<Rightarrow> nat \<Rightarrow> u64"
type_synonym stat_map = "(u64 \<times> stat_table) list"

record cache_sub_stats =
  accesses :: u64
  misses :: u64
  pending_hits :: u64
  res_fails :: u64
  port_available_cycles :: u64
  data_port_busy_cycles :: u64
  fill_port_busy_cycles :: u64

definition clear_sub_stats :: cache_sub_stats where
  "clear_sub_stats = \<lparr>accesses = 0, misses = 0, pending_hits = 0, res_fails = 0,
     port_available_cycles = 0, data_port_busy_cycles = 0, fill_port_busy_cycles = 0\<rparr>"

definition sub_stats_add :: "cache_sub_stats \<Rightarrow> cache_sub_stats \<Rightarrow> cache_sub_stats" where
  "sub_stats_add a cs = \<lparr>accesses = accesses a + accesses cs, misses = misses a + misses cs,
     pending_hits = pending_hits a + pending_hits cs, res_fails = res_fails a + res_fails cs,
     port_available_cycles = port_available_cycles a + port_available_cycles cs,
     data_port_busy_cycles = data_port_busy_cycles a + data_port_busy_cycles cs,
     fill_port_busy_cycles = fill_port_busy_cycles a + fill_port_busy_cycles cs\<rparr>"

definition sub_stats_add_assign :: "cache_sub_stats \<Rightarrow> cache_sub_stats \<Rightarrow> cache_sub_stats" where
  "sub_stats_add_assign a css =
     a\<lparr>accesses := accesses a + accesses css, misses := misses a + misses css,
       pending_hits := pending_hits a + pending_hits css, res_fails := res_fails a + res_fails css,
       port_available_cycles := port_available_cycles a + port_available_cycles css,
       data_port_busy_cycles := data_port_busy_cycles a + data_port_busy_cycles css,
       fill_port_busy_cycles := fill_port_busy_cycles a + fill_port_busy_cycles css\<rparr>"

record cache_sub_stats_pw =
  pw_accesses :: u32
  write_misses :: u32
  write_hits :: u32
  write_pending_hits :: u32
  write_res_fails :: u32
  read_misses :: u32
  read_hits :: u32
  read_pending_hits :: u32
  read_res_fails :: u32

definition clear_sub_stats_pw :: cache_sub_stats_pw where
  "clear_sub_stats_pw = \<lparr>pw_accesses = 0, write_misses = 0, write_hits = 0,
     write_pending_hits = 0, write_res_fails = 0, read_misses = 0, read_hits = 0,
     read_pending_hits = 0, read_res_fails = 0\<rparr>"

definition sub_stats_pw_add_assign ::
  "cache_sub_stats_pw \<Rightarrow> cache_sub_stats_pw \<Rightarrow> cache_sub_stats_pw" where
  "sub_stats_pw_add_assign a css =
     a\<lparr>pw_accesses := pw_accesses a + pw_accesses css,
       write_misses := write_misses a + write_misses css,
       read_misses := read_misses a + read_misses css,
       write_pending_hits := write_pending_hits a + write_pending_hits css,
       read_pending_hits := read_pending_hits a + read_pending_hits css,
       write_res_fails := write_res_fails a + write_res_fails css,
       read_res_fails := read_res_fails a + read_res_fails css\<rparr>"

definition sub_stats_pw_add ::
  "cache_sub_stats_pw \<Rightarrow> cache_sub_stats_pw \<Rightarrow> cache_sub_stats_pw" where
  "sub_stats_pw_add a cs =
     clear_sub_stats_pw\<lparr>pw_accesses := pw_accesses a + pw_accesses cs,
       write_misses := write_misses a + write_misses cs,
       read_misses := read_misses a + read_misses cs,
       write_pending_hits := write_pending_hits a + write_pending_hits cs,
       read_pending_hits := read_pending_hits a + read_pending_hits cs,
       write_res_fails := write_res_fails a + write_res_fails cs,
       read_res_fails := read_res_fails a + read_res_fails cs\<rparr>"

section \<open>The statistics of a cache\<close>

record cache_stats =
  st_stats :: stat_map
  st_stats_pw :: stat_map
  st_fail_stats :: stat_map
  m_cache_port_available_cycles :: u64
  m_cache_data_port_busy_cycles :: u64
  m_cache_fill_port_busy_cycles :: u64

definition new_cache_stats :: cache_stats where
  "new_cache_stats = \<lparr>st_stats = [], st_stats_pw = [], st_fail_stats = [],
     m_cache_port_available_cycles = 0, m_cache_data_port_busy_cycles = 0,
     m_cache_fill_port_busy_cycles = 0\<rparr>"

definition stats_clear :: "cache_stats \<Rightarrow> cache_stats" where
  "stats_clear s = s\<lparr>st_stats := [], st_stats_pw := [], st_fail_stats := [],
     m_cache_port_available_cycles := 0, m_cache_data_port_busy_cycles := 0,
     m_cache_fill_port_busy_cycles := 0\<rparr>"

definition stats_clear_pw :: "cache_stats \<Rightarrow> cache_stats" where
  "stats_clear_pw s = s\<lparr>st_stats_pw := []\<rparr>"

definition check_valid :: "int \<Rightarrow> int \<Rightarrow> bool" where
  "check_valid type status = (0 \<le> type \<and> type < int NUM_MEM_ACCESS_TYPE \<and> 0 \<le> status
     \<and> status < int NUM_CACHE_REQUEST_STATUS)"

definition check_fail_valid :: "int \<Rightarrow> int \<Rightarrow> bool" where
  "check_fail_valid type fail = (0 \<le> type \<and> type < int NUM_MEM_ACCESS_TYPE \<and> 0 \<le> fail
     \<and> fail < int NUM_CACHE_RESERVATION_FAIL_STATUS)"

text \<open>The common body of the three increments: a missing stream first gets a table of zeros.\<close>

definition inc_cell :: "nat \<Rightarrow> nat \<Rightarrow> u64 \<Rightarrow> stat_map \<Rightarrow> stat_map" where
  "inc_cell row col streamID m =
     (let m = (case map_of m streamID of None \<Rightarrow> AList.update streamID (\<lambda>_ _. 0) m | Some _ \<Rightarrow> m);
          t = (case map_of m streamID of Some t \<Rightarrow> t | None \<Rightarrow> (\<lambda>_ _. 0))
      in AList.update streamID (t(row := (t row)(col := t row col + 1))) m)"

definition inc_stats :: "int \<Rightarrow> int \<Rightarrow> u64 \<Rightarrow> cache_stats \<Rightarrow> cache_stats option" where
  "inc_stats access_type access_outcome streamID s =
     (if check_valid access_type access_outcome
      then Some (s\<lparr>st_stats := inc_cell (nat access_type) (nat access_outcome) streamID (st_stats s)\<rparr>)
      else None)"

definition inc_stats_pw :: "int \<Rightarrow> int \<Rightarrow> u64 \<Rightarrow> cache_stats \<Rightarrow> cache_stats option" where
  "inc_stats_pw access_type access_outcome streamID s =
     (if check_valid access_type access_outcome
      then Some (s\<lparr>st_stats_pw :=
        inc_cell (nat access_type) (nat access_outcome) streamID (st_stats_pw s)\<rparr>)
      else None)"

definition inc_fail_stats :: "int \<Rightarrow> int \<Rightarrow> u64 \<Rightarrow> cache_stats \<Rightarrow> cache_stats option" where
  "inc_fail_stats access_type fail_outcome streamID s =
     (if check_fail_valid access_type fail_outcome
      then Some (s\<lparr>st_fail_stats :=
        inc_cell (nat access_type) (nat fail_outcome) streamID (st_fail_stats s)\<rparr>)
      else None)"

definition select_stats_status ::
  "cache_request_status \<Rightarrow> cache_request_status \<Rightarrow> cache_request_status" where
  "select_stats_status probe acc =
     (if probe = HIT_RESERVED \<and> acc \<noteq> RESERVATION_FAIL then probe
      else if probe = SECTOR_MISS \<and> acc = MISS then probe
      else acc)"

text \<open>\<open>operator()\<close>.\<close>

definition stats_at :: "int \<Rightarrow> int \<Rightarrow> bool \<Rightarrow> u64 \<Rightarrow> cache_stats \<Rightarrow> u64 option" where
  "stats_at access_type access_outcome fail_outcome streamID s =
     (if fail_outcome then
        (if check_fail_valid access_type access_outcome
         then map_option (\<lambda>t. t (nat access_type) (nat access_outcome)) (map_of (st_fail_stats s) streamID)
         else None)
      else
        (if check_valid access_type access_outcome
         then map_option (\<lambda>t. t (nat access_type) (nat access_outcome)) (map_of (st_stats s) streamID)
         else None))"

text \<open>
  The accumulation loops of \<open>operator+\<close> and \<open>operator+=\<close>. \<open>src\<close> gives the table that the inner
  loops read through \<open>cs(...)\<close>, which is not always the one being iterated.
\<close>

definition add_cells :: "nat \<Rightarrow> stat_table \<Rightarrow> stat_table \<Rightarrow> stat_table" where
  "add_cells cols a b =
     (\<lambda>ty st. if ty < NUM_MEM_ACCESS_TYPE \<and> st < cols then a ty st + b ty st else a ty st)"

fun accumulate ::
  "nat \<Rightarrow> (u64 \<Rightarrow> stat_table option) \<Rightarrow> stat_map \<Rightarrow> stat_map \<Rightarrow> stat_map option" where
  "accumulate cols src [] m = Some m"
| "accumulate cols src ((streamID, t) # rest) m =
     (case map_of m streamID of
        None \<Rightarrow> accumulate cols src rest (AList.update streamID t m)
      | Some old \<Rightarrow>
          do {
            t' \<leftarrow> src streamID;
            accumulate cols src rest (AList.update streamID (add_cells cols old t') m)
          })"

definition stats_add_assign :: "cache_stats \<Rightarrow> cache_stats \<Rightarrow> cache_stats option" where
  "stats_add_assign s cs =
     do {
       st \<leftarrow> accumulate NUM_CACHE_REQUEST_STATUS (map_of (st_stats cs)) (st_stats cs) (st_stats s);
       pw \<leftarrow> accumulate NUM_CACHE_REQUEST_STATUS (map_of (st_stats cs)) (st_stats_pw cs)
               (st_stats_pw s);
       fs \<leftarrow> accumulate NUM_CACHE_RESERVATION_FAIL_STATUS (map_of (st_fail_stats cs))
               (st_fail_stats cs) (st_fail_stats s);
       Some (s\<lparr>st_stats := st, st_stats_pw := pw, st_fail_stats := fs,
         m_cache_port_available_cycles :=
           m_cache_port_available_cycles s + m_cache_port_available_cycles cs,
         m_cache_data_port_busy_cycles :=
           m_cache_data_port_busy_cycles s + m_cache_data_port_busy_cycles cs,
         m_cache_fill_port_busy_cycles :=
           m_cache_fill_port_busy_cycles s + m_cache_fill_port_busy_cycles cs\<rparr>)
     }"

text \<open>\<open>operator+\<close> first copies the tables of \<open>this\<close> into a fresh object.\<close>

definition stats_add :: "cache_stats \<Rightarrow> cache_stats \<Rightarrow> cache_stats option" where
  "stats_add s cs =
     (let ret = new_cache_stats\<lparr>st_stats := st_stats s, st_stats_pw := st_stats_pw s,
                  st_fail_stats := st_fail_stats s\<rparr>
      in do {
        st \<leftarrow> accumulate NUM_CACHE_REQUEST_STATUS (map_of (st_stats cs)) (st_stats cs)
                (st_stats ret);
        pw \<leftarrow> accumulate NUM_CACHE_REQUEST_STATUS (map_of (st_stats cs)) (st_stats_pw cs)
                (st_stats_pw ret);
        fs \<leftarrow> accumulate NUM_CACHE_RESERVATION_FAIL_STATUS (map_of (st_fail_stats cs))
                (st_fail_stats cs) (st_fail_stats ret);
        Some (ret\<lparr>st_stats := st, st_stats_pw := pw, st_fail_stats := fs,
          m_cache_port_available_cycles :=
            m_cache_port_available_cycles s + m_cache_port_available_cycles cs,
          m_cache_data_port_busy_cycles :=
            m_cache_data_port_busy_cycles s + m_cache_data_port_busy_cycles cs,
          m_cache_fill_port_busy_cycles :=
            m_cache_fill_port_busy_cycles s + m_cache_fill_port_busy_cycles cs\<rparr>)
      })"

section \<open>Sums\<close>

text \<open>The cells of all streams whose row and column satisfy a condition, added up.\<close>

definition table_sum :: "nat \<Rightarrow> (nat \<Rightarrow> nat \<Rightarrow> bool) \<Rightarrow> stat_table \<Rightarrow> u64" where
  "table_sum cols P t =
     (\<Sum>ty \<leftarrow> [0..<NUM_MEM_ACCESS_TYPE]. \<Sum>st \<leftarrow> [0..<cols]. if P ty st then t ty st else 0)"

definition stat_sum :: "nat \<Rightarrow> (nat \<Rightarrow> nat \<Rightarrow> bool) \<Rightarrow> stat_map \<Rightarrow> u64" where
  "stat_sum cols P m = (\<Sum>kt \<leftarrow> m. table_sum cols P (snd kt))"

definition get_stats ::
  "mem_access_type list \<Rightarrow> cache_request_status list \<Rightarrow> cache_stats \<Rightarrow> u64" where
  "get_stats access_type access_status s =
     (\<Sum>kt \<leftarrow> st_stats s. \<Sum>ty \<leftarrow> access_type. \<Sum>st \<leftarrow> access_status.
        snd kt (mem_access_type_num ty) (cache_request_status_num st))"

definition get_fail_stats ::
  "mem_access_type \<Rightarrow> cache_reservation_fail_reason \<Rightarrow> cache_stats \<Rightarrow> u64" where
  "get_fail_stats access_type fail s =
     (\<Sum>kt \<leftarrow> st_fail_stats s. snd kt (mem_access_type_num access_type) (fail_reason_num fail))"

definition is_status :: "cache_request_status list \<Rightarrow> nat \<Rightarrow> bool" where
  "is_status ss st = list_ex (\<lambda>s. cache_request_status_num s = st) ss"

definition is_type :: "mem_access_type list \<Rightarrow> nat \<Rightarrow> bool" where
  "is_type ts ty = list_ex (\<lambda>t. mem_access_type_num t = ty) ts"

definition get_sub_stats :: "cache_stats \<Rightarrow> cache_sub_stats" where
  "get_sub_stats s =
     (let total = (\<lambda>P. stat_sum NUM_CACHE_REQUEST_STATUS P (st_stats s)) in
      \<lparr>accesses = total (\<lambda>ty st. is_status [HIT, MISS, SECTOR_MISS, HIT_RESERVED] st),
       misses = total (\<lambda>ty st. is_status [MISS, SECTOR_MISS] st),
       pending_hits = total (\<lambda>ty st. is_status [HIT_RESERVED] st),
       res_fails = total (\<lambda>ty st. is_status [RESERVATION_FAIL] st),
       port_available_cycles = m_cache_port_available_cycles s,
       data_port_busy_cycles = m_cache_data_port_busy_cycles s,
       fill_port_busy_cycles = m_cache_fill_port_busy_cycles s\<rparr>)"

text \<open>The per-window totals are 32-bit: each addition cuts the 64-bit cell.\<close>

definition get_sub_stats_pw :: "cache_stats \<Rightarrow> cache_sub_stats_pw" where
  "get_sub_stats_pw s =
     (let total = (\<lambda>P. ucast (stat_sum NUM_CACHE_REQUEST_STATUS P (st_stats_pw s)));
          read = is_type [GLOBAL_ACC_R, CONST_ACC_R, INST_ACC_R];
          write = is_type [GLOBAL_ACC_W]
      in
      \<lparr>pw_accesses = total (\<lambda>ty st. is_status [HIT, MISS, SECTOR_MISS, HIT_RESERVED] st),
       write_misses = total (\<lambda>ty st. is_status [MISS, SECTOR_MISS] st \<and> write ty),
       write_hits = total (\<lambda>ty st. is_status [HIT] st \<and> write ty),
       write_pending_hits = total (\<lambda>ty st. is_status [HIT_RESERVED] st \<and> write ty),
       write_res_fails = total (\<lambda>ty st. is_status [RESERVATION_FAIL] st \<and> write ty),
       read_misses = total (\<lambda>ty st. is_status [MISS, SECTOR_MISS] st \<and> read ty),
       read_hits = total (\<lambda>ty st. is_status [HIT] st \<and> read ty),
       read_pending_hits = total (\<lambda>ty st. is_status [HIT_RESERVED] st \<and> read ty),
       read_res_fails = total (\<lambda>ty st. is_status [RESERVATION_FAIL] st \<and> read ty)\<rparr>)"

definition sample_cache_port_utility :: "bool \<Rightarrow> bool \<Rightarrow> cache_stats \<Rightarrow> cache_stats" where
  "sample_cache_port_utility data_port_busy fill_port_busy s =
     (let s = s\<lparr>m_cache_port_available_cycles := m_cache_port_available_cycles s + 1\<rparr>;
          s = (if data_port_busy
               then s\<lparr>m_cache_data_port_busy_cycles := m_cache_data_port_busy_cycles s + 1\<rparr> else s)
      in (if fill_port_busy
          then s\<lparr>m_cache_fill_port_busy_cycles := m_cache_fill_port_busy_cycles s + 1\<rparr> else s))"

end
