(* ===== verification/BaselineCache.thy ===== *)
theory BaselineCache
  imports TagArray Mshr CacheStats
begin

text \<open>
  \<open>baseline_cache\<close>: what the read-only and the data cache share. The record holds the members
  (the tag array and the MSHR table inside it, the configuration by value) and two things the
  C++ code reaches through pointers: the heap of request tokens and the caller's event list.
  The port to the next level is an argument of \<open>cycle\<close>. The display functions and the
  \<open>inc_aggregated\<close> functions, which do nothing, are left out, and so are the process-wide maxima
  (\<open>g_abs_max\<close> globals).

  Parts: port bandwidth, pinned responses, response delivery and \<open>cycle\<close>, the fill from the lower
  level, read requests, watermarks.
\<close>

section \<open>Members\<close>

record extra_mf_fields =
  ex_valid :: bool
  ex_block_addr :: new_addr_type
  ex_addr :: new_addr_type
  ex_cache_index :: nat
  ex_data_size :: u32
  pending_read :: u32

definition new_extra_mf_fields ::
  "new_addr_type \<Rightarrow> new_addr_type \<Rightarrow> nat \<Rightarrow> u32 \<Rightarrow> cache_config \<Rightarrow> extra_mf_fields" where
  "new_extra_mf_fields a ad i d cfg =
     \<lparr>ex_valid = True, ex_block_addr = a, ex_addr = ad, ex_cache_index = i, ex_data_size = d,
      pending_read = (if m_mshr_type cfg = SECTOR_ASSOC
                      then m_line_sz cfg div of_nat SECTOR_SIZE else 0)\<rparr>"

record delayed_response_entry =
  dr_mf :: mf_ref
  dr_remaining_cycles :: u32

record bandwidth_management =
  m_data_port_occupied_cycles :: u32
  m_fill_port_occupied_cycles :: u32

record baseline_cache =
  m_config :: cache_config
  m_tag_array :: tag_array
  m_mshrs :: mshr_table
  m_miss_queue :: "mf_ref list"
  m_miss_queue_status :: mem_fetch_status
  m_level :: cache_gpu_level
  m_extra_mf_fields :: "(mf_ref \<times> extra_mf_fields) list"
  m_hit_response_queue :: "delayed_response_entry list"
  m_ready_response_queue :: "mf_ref list"
  m_pending_response_indices :: "(mf_ref \<times> nat) list"
  m_max_miss_queue_size :: u32
  m_max_extra_mf_fields_size :: u32
  m_max_hit_response_queue_size :: u32
  m_max_ready_response_queue_size :: u32
  m_max_pending_response_indices_size :: u32
  m_stats :: cache_stats
  m_bandwidth_management :: bandwidth_management
  g_heap :: mf_heap
  g_events :: "cache_event list"

definition new_bandwidth_management :: bandwidth_management where
  "new_bandwidth_management =
     \<lparr>m_data_port_occupied_cycles = 0, m_fill_port_occupied_cycles = 0\<rparr>"

text \<open>The constructor; \<open>init\<close> asserts the kind of MSHR.\<close>

definition new_baseline_cache ::
  "cache_config \<Rightarrow> int \<Rightarrow> int \<Rightarrow> mem_fetch_status \<Rightarrow> cache_gpu_level \<Rightarrow> mf_heap
   \<Rightarrow> baseline_cache option" where
  "new_baseline_cache cfg core_id type_id status level heap =
     do {
       ta \<leftarrow> new_tag_array cfg core_id type_id;
       cpp_assert (m_mshr_type cfg = ASSOC \<or> m_mshr_type cfg = SECTOR_ASSOC);
       Some \<lparr>m_config = cfg, m_tag_array = ta,
         m_mshrs = new_mshr_table (m_mshr_entries cfg) (m_mshr_max_merge cfg),
         m_miss_queue = [], m_miss_queue_status = status, m_level = level,
         m_extra_mf_fields = [], m_hit_response_queue = [], m_ready_response_queue = [],
         m_pending_response_indices = [], m_max_miss_queue_size = 0,
         m_max_extra_mf_fields_size = 0, m_max_hit_response_queue_size = 0,
         m_max_ready_response_queue_size = 0, m_max_pending_response_indices_size = 0,
         m_stats = new_cache_stats, m_bandwidth_management = new_bandwidth_management,
         g_heap = heap, g_events = []\<rparr>
     }"

definition update_cache_parameters ::
  "cache_config \<Rightarrow> 'a baseline_cache_scheme \<Rightarrow> 'a baseline_cache_scheme option" where
  "update_cache_parameters cfg c =
     do {
       check_mshr_parameters (m_mshr_entries cfg) (m_mshr_max_merge cfg) (m_mshrs c);
       Some (c\<lparr>m_config := cfg\<rparr>)
     }"

text \<open>Reading and writing a token, recording a statistic, sending an event.\<close>

definition get_mf :: "mf_ref \<Rightarrow> 'a baseline_cache_scheme \<Rightarrow> mem_fetch option" where
  "get_mf r c = heap_get (g_heap c) r"

definition upd_mf ::
  "mf_ref \<Rightarrow> (mem_fetch \<Rightarrow> mem_fetch) \<Rightarrow> 'a baseline_cache_scheme
   \<Rightarrow> 'a baseline_cache_scheme option" where
  "upd_mf r f c = map_option (\<lambda>h. c\<lparr>g_heap := h\<rparr>) (heap_upd r f (g_heap c))"

definition count_stats ::
  "mem_access_type \<Rightarrow> cache_request_status \<Rightarrow> u64 \<Rightarrow> 'a baseline_cache_scheme
   \<Rightarrow> 'a baseline_cache_scheme option" where
  "count_stats ty st sid c = map_option (\<lambda>s. c\<lparr>m_stats := s\<rparr>)
     (inc_stats (int (mem_access_type_num ty)) (int (cache_request_status_num st)) sid (m_stats c))"

definition count_stats_pw ::
  "mem_access_type \<Rightarrow> cache_request_status \<Rightarrow> u64 \<Rightarrow> 'a baseline_cache_scheme
   \<Rightarrow> 'a baseline_cache_scheme option" where
  "count_stats_pw ty st sid c = map_option (\<lambda>s. c\<lparr>m_stats := s\<rparr>)
     (inc_stats_pw (int (mem_access_type_num ty)) (int (cache_request_status_num st)) sid (m_stats c))"

definition count_fail ::
  "mem_fetch \<Rightarrow> cache_reservation_fail_reason \<Rightarrow> 'a baseline_cache_scheme
   \<Rightarrow> 'a baseline_cache_scheme option" where
  "count_fail mf why c = map_option (\<lambda>s. c\<lparr>m_stats := s\<rparr>)
     (inc_fail_stats (int (mem_access_type_num (get_access_type mf))) (int (fail_reason_num why))
        (m_streamID mf) (m_stats c))"

definition push_event :: "cache_event \<Rightarrow> 'a baseline_cache_scheme \<Rightarrow> 'a baseline_cache_scheme" where
  "push_event e c = c\<lparr>g_events := g_events c @ [e]\<rparr>"

section \<open>Bandwidth\<close>

text \<open>
  The occupied cycles are C++ \<open>int\<close>s, kept as 32-bit words in two's complement. Dividing by a
  zero port width traps.
\<close>

definition ceil_div :: "u32 \<Rightarrow> u32 \<Rightarrow> u32 option" where
  "ceil_div n d =
     do {
       q \<leftarrow> div_u32 n d;
       r \<leftarrow> mod_u32 n d;
       Some (q + (if r > 0 then 1 else 0))
     }"

definition use_data_port ::
  "cache_config \<Rightarrow> mem_fetch \<Rightarrow> cache_request_status \<Rightarrow> cache_event list \<Rightarrow> bandwidth_management
   \<Rightarrow> bandwidth_management option" where
  "use_data_port cfg mf outcome events bw =
     (let width = m_data_port_width cfg in
      case outcome of
        HIT \<Rightarrow> map_option (\<lambda>n. bw\<lparr>m_data_port_occupied_cycles :=
                 m_data_port_occupied_cycles bw + n\<rparr>) (ceil_div (m_data_size mf) width)
      | HIT_RESERVED \<Rightarrow> (case was_writeback_sent events of None \<Rightarrow> Some bw
          | Some ev \<Rightarrow> map_option (\<lambda>n. bw\<lparr>m_data_port_occupied_cycles :=
              m_data_port_occupied_cycles bw + n\<rparr>)
              (div_u32 (ev_modified_size (m_evicted_block ev)) width))
      | MISS \<Rightarrow> (case was_writeback_sent events of None \<Rightarrow> Some bw
          | Some ev \<Rightarrow> map_option (\<lambda>n. bw\<lparr>m_data_port_occupied_cycles :=
              m_data_port_occupied_cycles bw + n\<rparr>)
              (div_u32 (ev_modified_size (m_evicted_block ev)) width))
      | SECTOR_MISS \<Rightarrow> Some bw
      | RESERVATION_FAIL \<Rightarrow> Some bw
      | MSHR_HIT \<Rightarrow> None)"

definition use_fill_port ::
  "cache_config \<Rightarrow> bandwidth_management \<Rightarrow> bandwidth_management option" where
  "use_fill_port cfg bw =
     do {
       atom \<leftarrow> get_atom_sz cfg;
       n \<leftarrow> div_u32 atom (m_data_port_width cfg);
       Some (bw\<lparr>m_fill_port_occupied_cycles := m_fill_port_occupied_cycles bw + n\<rparr>)
     }"

definition replenish_port_bandwidth :: "bandwidth_management \<Rightarrow> bandwidth_management option" where
  "replenish_port_bandwidth bw =
     do {
       let bw = (if 0 < sint (m_data_port_occupied_cycles bw)
                 then bw\<lparr>m_data_port_occupied_cycles := m_data_port_occupied_cycles bw - 1\<rparr>
                 else bw);
       cpp_assert (0 \<le> sint (m_data_port_occupied_cycles bw));
       let bw = (if 0 < sint (m_fill_port_occupied_cycles bw)
                 then bw\<lparr>m_fill_port_occupied_cycles := m_fill_port_occupied_cycles bw - 1\<rparr>
                 else bw);
       cpp_assert (0 \<le> sint (m_fill_port_occupied_cycles bw));
       Some bw
     }"

lemma replenish_code [code]:
  "replenish_port_bandwidth \<lparr>m_data_port_occupied_cycles = d, m_fill_port_occupied_cycles = f\<rparr> =
     (let d = (if 0 < sint d then d - 1 else d); f = (if 0 < sint f then f - 1 else f)
      in if 0 \<le> sint d \<and> 0 \<le> sint f
         then Some \<lparr>m_data_port_occupied_cycles = d, m_fill_port_occupied_cycles = f\<rparr> else None)"
  by (simp add: replenish_port_bandwidth_def Let_def cpp_assert_def)

definition bw_data_port_free :: "bandwidth_management \<Rightarrow> bool" where
  "bw_data_port_free bw = (m_data_port_occupied_cycles bw = 0)"

definition bw_fill_port_free :: "bandwidth_management \<Rightarrow> bool" where
  "bw_fill_port_free bw = (m_fill_port_occupied_cycles bw = 0)"

definition data_port_free :: "'a baseline_cache_scheme \<Rightarrow> bool" where
  "data_port_free c = bw_data_port_free (m_bandwidth_management c)"

definition fill_port_free :: "'a baseline_cache_scheme \<Rightarrow> bool" where
  "fill_port_free c = bw_fill_port_free (m_bandwidth_management c)"

section \<open>Pinned responses\<close>

definition hit_response_latency :: "cache_config \<Rightarrow> mem_fetch \<Rightarrow> u32 option" where
  "hit_response_latency cfg mf =
     map_option (\<lambda>cycles. if cycles = 0 then 1 else cycles)
       (ceil_div (m_data_size mf) (m_data_port_width cfg))"

definition pin_response ::
  "mf_ref \<Rightarrow> nat \<Rightarrow> 'a baseline_cache_scheme \<Rightarrow> 'a baseline_cache_scheme option" where
  "pin_response r cache_index c =
     do {
       block \<leftarrow> get_block cache_index (m_tag_array c);
       ta \<leftarrow> set_line cache_index (blk_pin block) (m_tag_array c);
       Some (c\<lparr>m_tag_array := ta, m_pending_response_indices :=
         AList.update r cache_index (m_pending_response_indices c)\<rparr>)
     }"

definition unpin_response ::
  "mf_ref \<Rightarrow> 'a baseline_cache_scheme \<Rightarrow> 'a baseline_cache_scheme option" where
  "unpin_response r c =
     (case map_of (m_pending_response_indices c) r of
        None \<Rightarrow> Some c
      | Some cache_index \<Rightarrow>
          do {
            block \<leftarrow> get_block cache_index (m_tag_array c);
            block' \<leftarrow> blk_unpin block;
            ta \<leftarrow> set_line cache_index block' (m_tag_array c);
            Some (c\<lparr>m_tag_array := ta, m_pending_response_indices :=
              AList.delete r (m_pending_response_indices c)\<rparr>)
          })"

definition enqueue_hit_response ::
  "mf_ref \<Rightarrow> nat \<Rightarrow> 'a baseline_cache_scheme \<Rightarrow> 'a baseline_cache_scheme option" where
  "enqueue_hit_response r cache_index c =
     do {
       c \<leftarrow> pin_response r cache_index c;
       mf \<leftarrow> get_mf r c;
       n \<leftarrow> hit_response_latency (m_config c) mf;
       Some (c\<lparr>m_hit_response_queue :=
         m_hit_response_queue c @ [\<lparr>dr_mf = r, dr_remaining_cycles = n\<rparr>]\<rparr>)
     }"

definition miss_queue_full :: "nat \<Rightarrow> 'a baseline_cache_scheme \<Rightarrow> bool" where
  "miss_queue_full num_miss c =
     (unat (m_miss_queue_size (m_config c)) \<le> length (m_miss_queue c) + num_miss)"

definition hit_response_queue_full :: "'a baseline_cache_scheme \<Rightarrow> bool" where
  "hit_response_queue_full c = (m_defer_hit_response (m_config c)
     \<and> unat (m_hit_response_queue_size (m_config c)) \<le> length (m_hit_response_queue c))"

section \<open>Responses\<close>

definition access_ready :: "'a baseline_cache_scheme \<Rightarrow> bool" where
  "access_ready c = (m_ready_response_queue c \<noteq> [] \<or> mshr_access_ready (m_mshrs c))"

definition next_access ::
  "'a baseline_cache_scheme \<Rightarrow> (mf_ref \<times> 'a baseline_cache_scheme) option" where
  "next_access c =
     do {
       cpp_assert (access_ready c);
       (case m_ready_response_queue c of
          r # rest \<Rightarrow>
            map_option (\<lambda>c'. (r, c')) (unpin_response r (c\<lparr>m_ready_response_queue := rest\<rparr>))
        | [] \<Rightarrow>
            do {
              (r, ms) \<leftarrow> mshr_next_access (m_mshrs c);
              c' \<leftarrow> unpin_response r (c\<lparr>m_mshrs := ms\<rparr>);
              Some (r, c')
            })
     }"

text \<open>One tick of the deferred hits; those that reach zero become ready, in queue order.\<close>

fun tick_hit_queue ::
  "delayed_response_entry list \<Rightarrow> mf_ref list
   \<Rightarrow> (delayed_response_entry list \<times> mf_ref list) option" where
  "tick_hit_queue [] ready = Some ([], ready)"
| "tick_hit_queue (e # es) ready =
     (if dr_remaining_cycles e = 0 then None
      else
        let n = dr_remaining_cycles e - 1 in
        if n = 0 then tick_hit_queue es (ready @ [dr_mf e])
        else map_option (\<lambda>(q, ready'). (e\<lparr>dr_remaining_cycles := n\<rparr> # q, ready'))
               (tick_hit_queue es ready))"

definition cycle ::
  "('p \<Rightarrow> u32 \<Rightarrow> bool \<Rightarrow> bool) \<Rightarrow> (mf_ref \<Rightarrow> 'p \<Rightarrow> 'p) \<Rightarrow> 'p \<Rightarrow> 'a baseline_cache_scheme
   \<Rightarrow> ('p \<times> 'a baseline_cache_scheme) option" where
  "cycle full push port c =
     do {
       (hits, ready) \<leftarrow> tick_hit_queue (m_hit_response_queue c) (m_ready_response_queue c);
       let c = c\<lparr>m_hit_response_queue := hits, m_ready_response_queue := ready\<rparr>;
       (port, c) \<leftarrow> (case m_miss_queue c of [] \<Rightarrow> Some (port, c)
          | r # rest \<Rightarrow>
              do {
                mf \<leftarrow> get_mf r c;
                (if \<not> full port (m_data_size mf) (get_is_write mf)
                 then Some (push r port, c\<lparr>m_miss_queue := rest\<rparr>) else Some (port, c))
              });
       let c = c\<lparr>m_stats := sample_cache_port_utility (\<not> data_port_free c) (\<not> fill_port_free c)
                             (m_stats c)\<rparr>;
       bw \<leftarrow> replenish_port_bandwidth (m_bandwidth_management c);
       Some (port, c\<lparr>m_bandwidth_management := bw\<rparr>)
     }"

definition queues_empty :: "'a baseline_cache_scheme \<Rightarrow> bool" where
  "queues_empty c = (m_miss_queue c = [] \<and> m_extra_mf_fields c = [] \<and> m_hit_response_queue c = []
     \<and> m_ready_response_queue c = [] \<and> m_pending_response_indices c = [] \<and> mshr_empty (m_mshrs c))"

definition no_pending_accesses :: "'a baseline_cache_scheme \<Rightarrow> bool" where
  "no_pending_accesses c = (m_miss_queue c = [] \<and> m_hit_response_queue c = []
     \<and> m_ready_response_queue c = [])"

definition final_state_clean :: "'a baseline_cache_scheme \<Rightarrow> bool option" where
  "final_state_clean c = (if no_pending_accesses c
     then tag_final_state_clean (m_config c) (m_tag_array c) else Some False)"

section \<open>Fill\<close>

text \<open>Marking a block dirty: atomics on a fill, and every write hit that keeps the line.\<close>

definition mark_modified :: "nat \<Rightarrow> mem_fetch \<Rightarrow> tag_array \<Rightarrow> tag_array option" where
  "mark_modified cache_index mf ta =
     do {
       b \<leftarrow> get_block cache_index ta;
       let ta = (if \<not> blk_is_modified_line b then inc_dirty ta else ta);
       b' \<leftarrow> blk_set_status MODIFIED (get_access_sector_mask mf) b;
       set_line cache_index (blk_set_byte_mask (get_access_byte_mask mf) b') ta
     }"

text \<open>
  A sectored L1 in front of a sectored L2: the parts of a split request come back one by one; the
  last one stands for the original. The result is the token to fill, if any.
\<close>

definition collect_sectors ::
  "mf_ref \<Rightarrow> 'a baseline_cache_scheme \<Rightarrow> (mf_ref option \<times> 'a baseline_cache_scheme) option" where
  "collect_sectors r c =
     do {
       mf \<leftarrow> get_mf r c;
       orig \<leftarrow> original_mf mf;
       e \<leftarrow> map_of (m_extra_mf_fields c) orig;
       let n = pending_read e - 1;
       let c = c\<lparr>m_extra_mf_fields := AList.update orig (e\<lparr>pending_read := n\<rparr>) (m_extra_mf_fields c),
                 g_heap := heap_delete r (g_heap c)\<rparr>;
       Some (if n > 0 then None else Some orig, c)
     }"

definition fill_original ::
  "mf_ref \<Rightarrow> time \<Rightarrow> 'a baseline_cache_scheme \<Rightarrow> 'a baseline_cache_scheme option" where
  "fill_original r t c =
     do {
       e \<leftarrow> map_of (m_extra_mf_fields c) r;
       cpp_assert (ex_valid e);
       c \<leftarrow> upd_mf r (set_data_size (ex_data_size e)) c;
       c \<leftarrow> upd_mf r (set_addr (ex_addr e)) c;
       mf \<leftarrow> get_mf r c;
       ta \<leftarrow> (case m_alloc_policy (m_config c) of
          ON_MISS \<Rightarrow> tag_fill_index (m_config c) (m_tag_array c) (ex_cache_index e) t mf
        | ON_FILL \<Rightarrow> tag_fill_addr (m_config c) (m_tag_array c) (ex_block_addr e) t
                      (get_access_sector_mask mf) (get_access_byte_mask mf) (get_is_write mf)
        | STREAMING \<Rightarrow> None);
       (has_atomic, ms) \<leftarrow> mshr_mark_ready (ex_block_addr e) (m_mshrs c);
       ta \<leftarrow> (if has_atomic
              then do { cpp_assert (m_alloc_policy (m_config c) = ON_MISS);
                        mark_modified (ex_cache_index e) mf ta }
              else Some ta);
       bw \<leftarrow> use_fill_port (m_config c) (m_bandwidth_management c);
       Some (c\<lparr>m_tag_array := ta, m_mshrs := ms,
         m_extra_mf_fields := AList.delete r (m_extra_mf_fields c),
         m_bandwidth_management := bw\<rparr>)
     }"

definition fill ::
  "mf_ref \<Rightarrow> time \<Rightarrow> 'a baseline_cache_scheme \<Rightarrow> 'a baseline_cache_scheme option" where
  "fill r t c =
     (if m_mshr_type (m_config c) = SECTOR_ASSOC then
        do {
          (whole, c) \<leftarrow> collect_sectors r c;
          (case whole of None \<Rightarrow> Some c | Some orig \<Rightarrow> fill_original orig t c)
        }
      else fill_original r t c)"

definition waiting_for_fill :: "mf_ref \<Rightarrow> 'a baseline_cache_scheme \<Rightarrow> bool" where
  "waiting_for_fill r c = (map_of (m_extra_mf_fields c) r \<noteq> None)"

definition flush :: "'a baseline_cache_scheme \<Rightarrow> 'a baseline_cache_scheme option" where
  "flush c = map_option (\<lambda>ta. c\<lparr>m_tag_array := ta\<rparr>) (tag_flush (m_config c) (m_tag_array c))"

definition invalidate :: "'a baseline_cache_scheme \<Rightarrow> 'a baseline_cache_scheme option" where
  "invalidate c =
     map_option (\<lambda>ta. c\<lparr>m_tag_array := ta\<rparr>) (tag_invalidate (m_config c) (m_tag_array c))"

definition force_tag_access ::
  "new_addr_type \<Rightarrow> time \<Rightarrow> sector_mask \<Rightarrow> 'a baseline_cache_scheme
   \<Rightarrow> 'a baseline_cache_scheme option" where
  "force_tag_access addr t sm c =
     map_option (\<lambda>ta. c\<lparr>m_tag_array := ta\<rparr>)
       (tag_fill_addr (m_config c) (m_tag_array c) addr t sm 0 True)"

section \<open>Read requests\<close>

text \<open>The tag access of a read request: the read-only overload asserts that nothing is evicted.\<close>

definition request_tag_access ::
  "new_addr_type \<Rightarrow> time \<Rightarrow> nat \<Rightarrow> mem_fetch \<Rightarrow> bool \<Rightarrow> bool \<Rightarrow> evicted_block_info
   \<Rightarrow> 'a baseline_cache_scheme \<Rightarrow> (nat \<times> bool \<times> evicted_block_info \<times> 'a baseline_cache_scheme) option"
where
  "request_tag_access baddr t cache_index mf read_only wb evicted c =
     (if read_only then
        map_option (\<lambda>(st, idx, ta). (idx, wb, evicted, c\<lparr>m_tag_array := ta\<rparr>))
          (tag_access_no_wb (m_config c) (m_tag_array c) baddr t cache_index mf)
      else
        map_option (\<lambda>(st, idx, wb', evicted', ta). (idx, wb', evicted', c\<lparr>m_tag_array := ta\<rparr>))
          (tag_access (m_config c) (m_tag_array c) baddr t cache_index wb evicted mf))"

definition join_mshr ::
  "new_addr_type \<Rightarrow> mf_ref \<Rightarrow> mem_fetch \<Rightarrow> nat \<Rightarrow> 'a baseline_cache_scheme
   \<Rightarrow> 'a baseline_cache_scheme option" where
  "join_mshr maddr r mf cache_index c =
     do {
       ms \<leftarrow> mshr_add maddr r mf (m_mshrs c);
       let c = c\<lparr>m_mshrs := ms\<rparr>;
       (if m_defer_hit_response (m_config c) then pin_response r cache_index c else Some c)
     }"

text \<open>\<open>send_read_request\<close> with write-back; the result is \<open>(do_miss, wb, evicted, cache)\<close>.\<close>

definition send_read_request ::
  "new_addr_type \<Rightarrow> nat \<Rightarrow> mf_ref \<Rightarrow> time \<Rightarrow> bool \<Rightarrow> bool \<Rightarrow> evicted_block_info \<Rightarrow> bool \<Rightarrow> bool
   \<Rightarrow> 'a baseline_cache_scheme
   \<Rightarrow> (bool \<times> bool \<times> evicted_block_info \<times> 'a baseline_cache_scheme) option" where
  "send_read_request baddr cache_index r t do_miss wb evicted read_only wa c =
     do {
       mf \<leftarrow> get_mf r c;
       let maddr = mshr_addr (m_config c) (get_addr mf);
       let mshr_hit = mshr_probe (m_mshrs c) maddr;
       let mshr_avail = (\<not> mshr_full (m_mshrs c) maddr);
       (if mshr_hit \<and> mshr_avail then
          do {
            (idx, wb, evicted, c) \<leftarrow>
              request_tag_access baddr t cache_index mf read_only wb evicted c;
            c \<leftarrow> join_mshr maddr r mf idx c;
            c \<leftarrow> count_stats (get_access_type mf) MSHR_HIT (m_streamID mf) c;
            Some (True, wb, evicted, c)
          }
        else if \<not> mshr_hit \<and> mshr_avail
            \<and> length (m_miss_queue c) < unat (m_miss_queue_size (m_config c)) then
          do {
            (idx, wb, evicted, c) \<leftarrow>
              request_tag_access baddr t cache_index mf read_only wb evicted c;
            c \<leftarrow> join_mshr maddr r mf idx c;
            let c = c\<lparr>m_extra_mf_fields := AList.update r
              (new_extra_mf_fields maddr (get_addr mf) idx (m_data_size mf) (m_config c))
              (m_extra_mf_fields c)\<rparr>;
            atom \<leftarrow> get_atom_sz (m_config c);
            c \<leftarrow> upd_mf r (set_data_size atom) c;
            c \<leftarrow> upd_mf r (set_addr maddr) c;
            let c = c\<lparr>m_miss_queue := m_miss_queue c @ [r]\<rparr>;
            c \<leftarrow> upd_mf r (set_mf_status (m_miss_queue_status c)) c;
            Some (True, wb, evicted, if wa then c else push_event (mk_event READ_REQUEST_SENT) c)
          }
        else if mshr_hit \<and> \<not> mshr_avail then
          do {
            c \<leftarrow> count_fail mf MSHR_MERGE_ENRTY_FAIL c;
            Some (do_miss, wb, evicted, c)
          }
        else if \<not> mshr_hit \<and> \<not> mshr_avail then
          do {
            c \<leftarrow> count_fail mf MSHR_ENRTY_FAIL c;
            Some (do_miss, wb, evicted, c)
          }
        else None)
     }"

definition send_read_request_no_wb ::
  "new_addr_type \<Rightarrow> nat \<Rightarrow> mf_ref \<Rightarrow> time \<Rightarrow> bool \<Rightarrow> bool \<Rightarrow> bool \<Rightarrow> 'a baseline_cache_scheme
   \<Rightarrow> (bool \<times> 'a baseline_cache_scheme) option" where
  "send_read_request_no_wb baddr cache_index r t do_miss read_only wa c =
     map_option (\<lambda>(do_miss', wb, e, c'). (do_miss', c'))
       (send_read_request baddr cache_index r t do_miss False no_evicted read_only wa c)"

section \<open>Watermarks\<close>

record baseline_queue_watermark_stats =
  wm_miss_queue :: u32
  wm_extra_mf_fields :: u32
  wm_hit_response_queue :: u32
  wm_ready_response_queue :: u32
  wm_pending_response_indices :: u32
  wm_mshr_entries :: u32
  wm_mshr_merged :: u32
  wm_mshr_ready :: u32
  wm_line_refcount :: u32

definition raise_to :: "u32 \<Rightarrow> nat \<Rightarrow> u32" where
  "raise_to m n = (if unat m < n then of_nat n else m)"

definition sample_queue_watermarks :: "'a baseline_cache_scheme \<Rightarrow> 'a baseline_cache_scheme" where
  "sample_queue_watermarks c =
     c\<lparr>m_max_miss_queue_size := raise_to (m_max_miss_queue_size c) (length (m_miss_queue c)),
       m_max_extra_mf_fields_size :=
         raise_to (m_max_extra_mf_fields_size c) (length (m_extra_mf_fields c)),
       m_max_hit_response_queue_size :=
         raise_to (m_max_hit_response_queue_size c) (length (m_hit_response_queue c)),
       m_max_ready_response_queue_size :=
         raise_to (m_max_ready_response_queue_size c) (length (m_ready_response_queue c)),
       m_max_pending_response_indices_size :=
         raise_to (m_max_pending_response_indices_size c) (length (m_pending_response_indices c))\<rparr>"

definition queue_watermarks ::
  "'a baseline_cache_scheme \<Rightarrow> (baseline_queue_watermark_stats \<times> 'a baseline_cache_scheme) option"
where
  "queue_watermarks c0 =
     do {
       let c = sample_queue_watermarks c0;
       let ms = mshr_watermarks (m_mshrs c);
       max_ref \<leftarrow> tag_max_pending_response_count (m_config c) (m_tag_array c);
       Some (\<lparr>wm_miss_queue = m_max_miss_queue_size c,
         wm_extra_mf_fields = m_max_extra_mf_fields_size c,
         wm_hit_response_queue = m_max_hit_response_queue_size c,
         wm_ready_response_queue = m_max_ready_response_queue_size c,
         wm_pending_response_indices = m_max_pending_response_indices_size c,
         wm_mshr_entries = max_entries_seen ms, wm_mshr_merged = max_merged_seen ms,
         wm_mshr_ready = max_ready_seen ms, wm_line_refcount = max_ref\<rparr>, c)
     }"

end
