(* ===== verification/DataCache.thy ===== *)
theory DataCache
  imports BaselineCache
begin

text \<open>
  \<open>read_only_cache\<close>, \<open>data_cache\<close>, \<open>l1_cache\<close> and \<open>l2_cache\<close>: the handlers for hits and misses of
  every write policy, the dispatch on the outcome of the tag probe, and \<open>access\<close>. The handler
  pointers that \<open>init\<close> sets from the configuration are fields. A handler takes its arguments by
  value and returns its status and the new cache; \<open>cache_index\<close> follows the in-out argument of
  the tag access.
\<close>

datatype wr_hit_handler = WrHitWb | WrHitWt | WrHitWe | WrHitGlobalWeLocalWb

datatype wr_miss_handler = WrMissNoWa | WrMissWaNaive | WrMissWaFetchOnWrite
  | WrMissWaLazyFetchOnRead

record data_cache = baseline_cache +
  m_wr_alloc_type :: mem_access_type
  m_wrbk_type :: mem_access_type
  m_memfetch_creator :: simple_mf_allocator
  m_wr_hit :: wr_hit_handler
  m_wr_miss :: wr_miss_handler

text \<open>\<open>cache_index = (unsigned)-1\<close>\<close>

definition no_index :: nat where "no_index = unat (- 1 :: u32)"

declare no_index_def [code del]

section \<open>Read-only cache\<close>

definition count_outcome ::
  "mem_fetch \<Rightarrow> cache_request_status \<Rightarrow> cache_request_status \<Rightarrow> 'a baseline_cache_scheme
   \<Rightarrow> 'a baseline_cache_scheme option" where
  "count_outcome mf probe_status access_status c =
     do {
       let st = select_stats_status probe_status access_status;
       c \<leftarrow> count_stats (get_access_type mf) st (m_streamID mf) c;
       count_stats_pw (get_access_type mf) st (m_streamID mf) c
     }"

definition read_only_access ::
  "new_addr_type \<Rightarrow> mf_ref \<Rightarrow> time \<Rightarrow> 'a baseline_cache_scheme
   \<Rightarrow> (cache_request_status \<times> 'a baseline_cache_scheme) option" where
  "read_only_access addr r t c =
     do {
       mf \<leftarrow> get_mf r c;
       atom \<leftarrow> get_atom_sz (m_config c);
       cpp_assert (m_data_size mf \<le> atom);
       cpp_assert (m_write_policy (m_config c) = READ_ONLY);
       cpp_assert (\<not> get_is_write mf);
       let baddr = block_addr (m_config c) addr;
       (status, idx, ta) \<leftarrow> tag_probe (m_config c) (m_tag_array c) baddr no_index
           (get_access_sector_mask mf) (get_is_write mf);
       let c = c\<lparr>m_tag_array := ta\<rparr>;
       (cache_status, c) \<leftarrow>
         (if status = HIT then
            (if m_defer_hit_response (m_config c) \<and> hit_response_queue_full c then
               map_option (\<lambda>c. (RESERVATION_FAIL, c)) (count_fail mf HIT_RESPONSE_QUEUE_FULL c)
             else
               do {
                 (cache_status, idx, ta) \<leftarrow>
                   tag_access_no_wb (m_config c) (m_tag_array c) baddr t idx mf;
                 let c = c\<lparr>m_tag_array := ta\<rparr>;
                 c \<leftarrow> (if m_defer_hit_response (m_config c) \<and> cache_status = HIT
                       then enqueue_hit_response r idx c else Some c);
                 Some (cache_status, c)
               })
          else if status \<noteq> RESERVATION_FAIL then
            (if \<not> miss_queue_full 0 c then
               do {
                 (do_miss, c) \<leftarrow> send_read_request_no_wb baddr idx r t False True False c;
                 Some (if do_miss then MISS else RESERVATION_FAIL, c)
               }
             else map_option (\<lambda>c. (RESERVATION_FAIL, c)) (count_fail mf MISS_QUEUE_FULL c))
          else map_option (\<lambda>c. (RESERVATION_FAIL, c))
                 (count_fail mf (m_last_fail_reason (m_tag_array c)) c));
       c \<leftarrow> count_outcome mf status cache_status c;
       Some (cache_status, c)
     }"

section \<open>Write requests\<close>

definition send_write_request ::
  "mf_ref \<Rightarrow> cache_event \<Rightarrow> time \<Rightarrow> 'a baseline_cache_scheme \<Rightarrow> 'a baseline_cache_scheme option" where
  "send_write_request r request t c =
     (let c = push_event request c;
          c = c\<lparr>m_miss_queue := m_miss_queue c @ [r]\<rparr>
      in upd_mf r (set_mf_status (m_miss_queue_status c)) c)"

definition sector_all_set :: "byte_mask \<Rightarrow> nat \<Rightarrow> bool" where
  "sector_all_set m i = list_all (bit m) [i * SECTOR_SIZE..<(i + 1) * SECTOR_SIZE]"

text \<open>A sector whose bytes are all dirty may be read; the call names the whole mask.\<close>

definition update_m_readable :: "mem_fetch \<Rightarrow> nat \<Rightarrow> tag_array \<Rightarrow> tag_array option" where
  "update_m_readable mf cache_index ta =
     do {
       block \<leftarrow> get_block cache_index ta;
       block' \<leftarrow> fold_opt (\<lambda>i b.
           if bit (get_access_sector_mask mf) i \<and> sector_all_set (blk_dirty_byte_mask b) i
           then blk_set_m_readable True (get_access_sector_mask mf) b else Some b) sectors block;
       set_line cache_index block' ta
     }"

text \<open>A new token for the write-back of the evicted data, routed like the request that evicts it.\<close>

definition write_back ::
  "mf_ref \<Rightarrow> bool \<Rightarrow> evicted_block_info \<Rightarrow> cache_event \<Rightarrow> time \<Rightarrow> data_cache
   \<Rightarrow> data_cache option" where
  "write_back r wb evicted request t c =
     (if wb \<and> m_write_policy (m_config c) \<noteq> WRITE_THROUGH then
        do {
          mf \<leftarrow> get_mf r c;
          let (w, al, h) = alloc_masked (ev_block_addr evicted) (m_wrbk_type c)
            (get_access_warp_mask mf) (ev_byte_mask evicted) (ev_sector_mask evicted)
            (ev_modified_size evicted) True (- 1) (- 1) (- 1) None (m_streamID mf)
            (m_memfetch_creator c) (g_heap c);
          let c = c\<lparr>m_memfetch_creator := al, g_heap := h\<rparr>;
          c \<leftarrow> upd_mf w (set_chip (tlx_chip mf)) c;
          c \<leftarrow> upd_mf w (set_partition (tlx_sub_partition mf)) c;
          send_write_request w request t c
        }
      else Some c)"

section \<open>Write hits\<close>

definition write_hit_line ::
  "new_addr_type \<Rightarrow> nat \<Rightarrow> mf_ref \<Rightarrow> time \<Rightarrow> data_cache \<Rightarrow> data_cache option" where
  "write_hit_line addr cache_index r t c =
     do {
       mf \<leftarrow> get_mf r c;
       (st, idx, ta) \<leftarrow> tag_access_no_wb (m_config c) (m_tag_array c)
           (block_addr (m_config c) addr) t cache_index mf;
       ta \<leftarrow> mark_modified idx mf ta;
       ta \<leftarrow> update_m_readable mf idx ta;
       Some (c\<lparr>m_tag_array := ta\<rparr>)
     }"

definition wr_hit_wb ::
  "new_addr_type \<Rightarrow> nat \<Rightarrow> mf_ref \<Rightarrow> time \<Rightarrow> cache_request_status \<Rightarrow> data_cache
   \<Rightarrow> (cache_request_status \<times> data_cache) option" where
  "wr_hit_wb addr cache_index r t status c =
     map_option (\<lambda>c. (HIT, c)) (write_hit_line addr cache_index r t c)"

definition wr_hit_wt ::
  "new_addr_type \<Rightarrow> nat \<Rightarrow> mf_ref \<Rightarrow> time \<Rightarrow> cache_request_status \<Rightarrow> data_cache
   \<Rightarrow> (cache_request_status \<times> data_cache) option" where
  "wr_hit_wt addr cache_index r t status c =
     do {
       mf \<leftarrow> get_mf r c;
       (if miss_queue_full 0 c
        then map_option (\<lambda>c. (RESERVATION_FAIL, c)) (count_fail mf MISS_QUEUE_FULL c)
        else
          do {
            c \<leftarrow> write_hit_line addr cache_index r t c;
            c \<leftarrow> send_write_request r (mk_event WRITE_REQUEST_SENT) t c;
            Some (HIT, c)
          })
     }"

definition wr_hit_we ::
  "new_addr_type \<Rightarrow> nat \<Rightarrow> mf_ref \<Rightarrow> time \<Rightarrow> cache_request_status \<Rightarrow> data_cache
   \<Rightarrow> (cache_request_status \<times> data_cache) option" where
  "wr_hit_we addr cache_index r t status c =
     do {
       mf \<leftarrow> get_mf r c;
       (if miss_queue_full 0 c
        then map_option (\<lambda>c. (RESERVATION_FAIL, c)) (count_fail mf MISS_QUEUE_FULL c)
        else
          do {
            c \<leftarrow> send_write_request r (mk_event WRITE_REQUEST_SENT) t c;
            block \<leftarrow> get_block cache_index (m_tag_array c);
            block \<leftarrow> blk_set_status INVALID (get_access_sector_mask mf) block;
            ta \<leftarrow> set_line cache_index block (m_tag_array c);
            Some (HIT, c\<lparr>m_tag_array := ta\<rparr>)
          })
     }"

definition wr_hit_global_we_local_wb ::
  "new_addr_type \<Rightarrow> nat \<Rightarrow> mf_ref \<Rightarrow> time \<Rightarrow> cache_request_status \<Rightarrow> data_cache
   \<Rightarrow> (cache_request_status \<times> data_cache) option" where
  "wr_hit_global_we_local_wb addr cache_index r t status c =
     do {
       mf \<leftarrow> get_mf r c;
       (if get_access_type mf = GLOBAL_ACC_W then wr_hit_we addr cache_index r t status c
        else wr_hit_wb addr cache_index r t status c)
     }"

section \<open>Write misses\<close>

text \<open>The read request that allocates the line of a write miss.\<close>

definition write_alloc_request ::
  "mem_fetch \<Rightarrow> mf_ref option \<Rightarrow> data_cache \<Rightarrow> (mf_ref \<times> data_cache) option" where
  "write_alloc_request mf orig_wr c =
     do {
       atom \<leftarrow> get_atom_sz (m_config c);
       let ma = new_mem_access (m_wr_alloc_type c) (get_addr mf) atom False
                  (get_access_warp_mask mf) (get_access_byte_mask mf) (get_access_sector_mask mf);
       let (n, h) = heap_new (new_mem_fetch ma None (m_streamID mf) (m_ctrl_size mf) (m_wid mf)
                  (m_sid mf) (m_tpc mf) None orig_wr) (g_heap c);
       Some (n, c\<lparr>g_heap := h\<rparr>)
     }"

text \<open>The resources a write miss that fetches needs, and the reason when they are missing.\<close>

definition fetch_resources_missing :: "nat \<Rightarrow> new_addr_type \<Rightarrow> 'a baseline_cache_scheme \<Rightarrow> bool" where
  "fetch_resources_missing n maddr c =
     (let hit = mshr_probe (m_mshrs c) maddr; avail = (\<not> mshr_full (m_mshrs c) maddr) in
      miss_queue_full n c
      \<or> (\<not> (hit \<and> avail)
         \<and> \<not> (\<not> hit \<and> avail \<and> length (m_miss_queue c) < unat (m_miss_queue_size (m_config c)))))"

definition count_missing_resource ::
  "nat \<Rightarrow> new_addr_type \<Rightarrow> mem_fetch \<Rightarrow> 'a baseline_cache_scheme
   \<Rightarrow> 'a baseline_cache_scheme option" where
  "count_missing_resource n maddr mf c =
     (let hit = mshr_probe (m_mshrs c) maddr; avail = (\<not> mshr_full (m_mshrs c) maddr) in
      if miss_queue_full n c then count_fail mf MISS_QUEUE_FULL c
      else if hit \<and> \<not> avail then count_fail mf MSHR_MERGE_ENRTY_FAIL c
      else if \<not> hit \<and> \<not> avail then count_fail mf MSHR_ENRTY_FAIL c
      else None)"

definition wr_miss_wa_naive ::
  "new_addr_type \<Rightarrow> nat \<Rightarrow> mf_ref \<Rightarrow> time \<Rightarrow> cache_request_status \<Rightarrow> data_cache
   \<Rightarrow> (cache_request_status \<times> data_cache) option" where
  "wr_miss_wa_naive addr cache_index r t status c =
     do {
       mf \<leftarrow> get_mf r c;
       let baddr = block_addr (m_config c) addr;
       let maddr = mshr_addr (m_config c) (get_addr mf);
       (if fetch_resources_missing 2 maddr c
        then map_option (\<lambda>c. (RESERVATION_FAIL, c)) (count_missing_resource 2 maddr mf c)
        else
          do {
            c \<leftarrow> send_write_request r (mk_event WRITE_REQUEST_SENT) t c;
            (n, c) \<leftarrow> write_alloc_request mf None c;
            (do_miss, wb, evicted, c) \<leftarrow>
              send_read_request baddr cache_index n t False False no_evicted False True c;
            let c = push_event (mk_event WRITE_ALLOCATE_SENT) c;
            (if do_miss then
               do {
                 cpp_assert (wb \<and> m_write_policy (m_config c) \<noteq> WRITE_THROUGH \<longrightarrow> status = MISS);
                 c \<leftarrow> write_back r wb evicted (mk_event_evicted WRITE_BACK_REQUEST_SENT evicted) t c;
                 Some (MISS, c)
               }
             else Some (RESERVATION_FAIL, c))
          })
     }"

text \<open>The part of fetch-on-write for a request that writes the whole line or sector.\<close>

definition write_full_line ::
  "new_addr_type \<Rightarrow> nat \<Rightarrow> mf_ref \<Rightarrow> mem_fetch \<Rightarrow> time \<Rightarrow> data_cache
   \<Rightarrow> (cache_request_status \<times> data_cache) option" where
  "write_full_line baddr cache_index r mf t c =
     do {
       (status, idx, wb, evicted, ta) \<leftarrow>
         tag_access (m_config c) (m_tag_array c) baddr t cache_index False no_evicted mf;
       cpp_assert (status \<noteq> HIT);
       ta \<leftarrow> mark_modified idx mf ta;
       ta \<leftarrow> (if status = HIT_RESERVED
              then do {
                b \<leftarrow> get_block idx ta;
                b \<leftarrow> blk_set_ignore_on_fill True (get_access_sector_mask mf) b;
                set_line idx b ta
              } else Some ta);
       let c = c\<lparr>m_tag_array := ta\<rparr>;
       (if status \<noteq> RESERVATION_FAIL then
          do {
            c \<leftarrow> write_back r wb evicted (mk_event_evicted WRITE_BACK_REQUEST_SENT evicted) t c;
            Some (MISS, c)
          }
        else Some (RESERVATION_FAIL, c))
     }"

definition wr_miss_wa_fetch_on_write ::
  "new_addr_type \<Rightarrow> nat \<Rightarrow> mf_ref \<Rightarrow> time \<Rightarrow> cache_request_status \<Rightarrow> data_cache
   \<Rightarrow> (cache_request_status \<times> data_cache) option" where
  "wr_miss_wa_fetch_on_write addr cache_index r t status c =
     do {
       mf \<leftarrow> get_mf r c;
       let baddr = block_addr (m_config c) addr;
       let maddr = mshr_addr (m_config c) (get_addr mf);
       atom \<leftarrow> get_atom_sz (m_config c);
       (if mask_count (get_access_byte_mask mf) = unat atom then
          (if miss_queue_full 0 c
           then map_option (\<lambda>c. (RESERVATION_FAIL, c)) (count_fail mf MISS_QUEUE_FULL c)
           else write_full_line baddr cache_index r mf t c)
        else if fetch_resources_missing 1 maddr c
        then map_option (\<lambda>c. (RESERVATION_FAIL, c)) (count_missing_resource 1 maddr mf c)
        else
          do {
            (rw_pending, ms) \<leftarrow> (if mshr_probe (m_mshrs c) maddr
              then is_read_after_write_pending (g_heap c) maddr (m_mshrs c)
              else Some (False, m_mshrs c));
            let c = c\<lparr>m_mshrs := ms\<rparr>;
            (if rw_pending \<and> get_is_write mf
             then map_option (\<lambda>c. (RESERVATION_FAIL, c)) (count_fail mf MSHR_RW_PENDING c)
             else
               do {
                 (n, c) \<leftarrow> write_alloc_request mf (Some r) c;
                 (do_miss, wb, evicted, c) \<leftarrow>
                   send_read_request baddr cache_index n t False False no_evicted False True c;
                 b \<leftarrow> get_block cache_index (m_tag_array c);
                 b \<leftarrow> blk_set_modified_on_fill True (get_access_sector_mask mf) b;
                 ta \<leftarrow> set_line cache_index (blk_set_byte_mask_on_fill True b) (m_tag_array c);
                 let c = push_event (mk_event WRITE_ALLOCATE_SENT) (c\<lparr>m_tag_array := ta\<rparr>);
                 (if do_miss then
                    do {
                      c \<leftarrow> write_back r wb evicted
                             (mk_event_evicted WRITE_BACK_REQUEST_SENT evicted) t c;
                      Some (MISS, c)
                    }
                  else Some (RESERVATION_FAIL, c))
               })
          })
     }"

definition wr_miss_wa_lazy_fetch_on_read ::
  "new_addr_type \<Rightarrow> nat \<Rightarrow> mf_ref \<Rightarrow> time \<Rightarrow> cache_request_status \<Rightarrow> data_cache
   \<Rightarrow> (cache_request_status \<times> data_cache) option" where
  "wr_miss_wa_lazy_fetch_on_read addr cache_index r t status c =
     do {
       mf \<leftarrow> get_mf r c;
       let baddr = block_addr (m_config c) addr;
       let sm = get_access_sector_mask mf;
       (if miss_queue_full 0 c
        then map_option (\<lambda>c. (RESERVATION_FAIL, c)) (count_fail mf MISS_QUEUE_FULL c)
        else
          do {
            c \<leftarrow> (if m_write_policy (m_config c) = WRITE_THROUGH
                  then send_write_request r (mk_event WRITE_REQUEST_SENT) t c else Some c);
            (m_status, idx, wb, evicted, ta) \<leftarrow>
              tag_access (m_config c) (m_tag_array c) baddr t cache_index False no_evicted mf;
            cpp_assert (m_status \<noteq> HIT);
            ta \<leftarrow> mark_modified idx mf ta;
            b \<leftarrow> get_block idx ta;
            b \<leftarrow> (if m_status = HIT_RESERVED
                  then do {
                    b \<leftarrow> blk_set_ignore_on_fill True sm b;
                    b \<leftarrow> blk_set_modified_on_fill True sm b;
                    Some (blk_set_byte_mask_on_fill True b)
                  } else Some b);
            atom \<leftarrow> get_atom_sz (m_config c);
            b \<leftarrow> (if mask_count (get_access_byte_mask mf) = unat atom
                  then blk_set_m_readable True sm b
                  else do {
                    b \<leftarrow> blk_set_m_readable False sm b;
                    (if m_status = HIT_RESERVED then blk_set_readable_on_fill True sm b else Some b)
                  });
            ta \<leftarrow> set_line idx b ta;
            ta \<leftarrow> update_m_readable mf idx ta;
            let c = c\<lparr>m_tag_array := ta\<rparr>;
            (if m_status \<noteq> RESERVATION_FAIL then
               do {
                 c \<leftarrow> write_back r wb evicted (mk_event_evicted WRITE_BACK_REQUEST_SENT evicted) t c;
                 Some (MISS, c)
               }
             else Some (RESERVATION_FAIL, c))
          })
     }"

definition wr_miss_no_wa ::
  "new_addr_type \<Rightarrow> nat \<Rightarrow> mf_ref \<Rightarrow> time \<Rightarrow> cache_request_status \<Rightarrow> data_cache
   \<Rightarrow> (cache_request_status \<times> data_cache) option" where
  "wr_miss_no_wa addr cache_index r t status c =
     do {
       mf \<leftarrow> get_mf r c;
       (if miss_queue_full 0 c
        then map_option (\<lambda>c. (RESERVATION_FAIL, c)) (count_fail mf MISS_QUEUE_FULL c)
        else
          do {
            c \<leftarrow> send_write_request r (mk_event WRITE_REQUEST_SENT) t c;
            Some (MISS, c)
          })
     }"

section \<open>Reads\<close>

definition rd_hit_base ::
  "new_addr_type \<Rightarrow> nat \<Rightarrow> mf_ref \<Rightarrow> time \<Rightarrow> cache_request_status \<Rightarrow> data_cache
   \<Rightarrow> (cache_request_status \<times> data_cache) option" where
  "rd_hit_base addr cache_index r t status c =
     do {
       mf \<leftarrow> get_mf r c;
       (st, idx, ta) \<leftarrow> tag_access_no_wb (m_config c) (m_tag_array c)
           (block_addr (m_config c) addr) t cache_index mf;
       ta \<leftarrow> (if isatomic mf
              then do { cpp_assert (get_access_type mf = GLOBAL_ACC_R); mark_modified idx mf ta }
              else Some ta);
       Some (HIT, c\<lparr>m_tag_array := ta\<rparr>)
     }"

definition rd_miss_base ::
  "new_addr_type \<Rightarrow> nat \<Rightarrow> mf_ref \<Rightarrow> time \<Rightarrow> cache_request_status \<Rightarrow> data_cache
   \<Rightarrow> (cache_request_status \<times> data_cache) option" where
  "rd_miss_base addr cache_index r t status c =
     do {
       mf \<leftarrow> get_mf r c;
       (if miss_queue_full 1 c
        then map_option (\<lambda>c. (RESERVATION_FAIL, c)) (count_fail mf MISS_QUEUE_FULL c)
        else
          do {
            let baddr = block_addr (m_config c) addr;
            (do_miss, wb, evicted, c) \<leftarrow>
              send_read_request baddr cache_index r t False False no_evicted False False c;
            (if do_miss then
               do {
                 c \<leftarrow> write_back r wb evicted (mk_event WRITE_BACK_REQUEST_SENT) t c;
                 Some (MISS, c)
               }
             else Some (RESERVATION_FAIL, c))
          })
     }"

section \<open>Dispatch and access\<close>

definition run_wr_hit ::
  "new_addr_type \<Rightarrow> nat \<Rightarrow> mf_ref \<Rightarrow> time \<Rightarrow> cache_request_status \<Rightarrow> data_cache
   \<Rightarrow> (cache_request_status \<times> data_cache) option" where
  "run_wr_hit addr idx r t status c = (case m_wr_hit c of
     WrHitWb \<Rightarrow> wr_hit_wb addr idx r t status c
   | WrHitWt \<Rightarrow> wr_hit_wt addr idx r t status c
   | WrHitWe \<Rightarrow> wr_hit_we addr idx r t status c
   | WrHitGlobalWeLocalWb \<Rightarrow> wr_hit_global_we_local_wb addr idx r t status c)"

definition run_wr_miss ::
  "new_addr_type \<Rightarrow> nat \<Rightarrow> mf_ref \<Rightarrow> time \<Rightarrow> cache_request_status \<Rightarrow> data_cache
   \<Rightarrow> (cache_request_status \<times> data_cache) option" where
  "run_wr_miss addr idx r t status c = (case m_wr_miss c of
     WrMissNoWa \<Rightarrow> wr_miss_no_wa addr idx r t status c
   | WrMissWaNaive \<Rightarrow> wr_miss_wa_naive addr idx r t status c
   | WrMissWaFetchOnWrite \<Rightarrow> wr_miss_wa_fetch_on_write addr idx r t status c
   | WrMissWaLazyFetchOnRead \<Rightarrow> wr_miss_wa_lazy_fetch_on_read addr idx r t status c)"

definition charge_data_port ::
  "mf_ref \<Rightarrow> cache_request_status \<Rightarrow> 'a baseline_cache_scheme \<Rightarrow> 'a baseline_cache_scheme option" where
  "charge_data_port r outcome c =
     do {
       mf \<leftarrow> get_mf r c;
       bw \<leftarrow> use_data_port (m_config c) mf outcome (g_events c) (m_bandwidth_management c);
       Some (c\<lparr>m_bandwidth_management := bw\<rparr>)
     }"

definition run_handler ::
  "bool \<Rightarrow> cache_request_status \<Rightarrow> new_addr_type \<Rightarrow> nat \<Rightarrow> mf_ref \<Rightarrow> time \<Rightarrow> data_cache
   \<Rightarrow> (cache_request_status \<times> data_cache) option" where
  "run_handler wr probe_status addr idx r t c =
     do {
       mf \<leftarrow> get_mf r c;
       (if wr then
          (if probe_status = HIT then run_wr_hit addr idx r t probe_status c
           else if probe_status \<noteq> RESERVATION_FAIL
             \<or> m_write_alloc_policy (m_config c) = NO_WRITE_ALLOCATE
           then run_wr_miss addr idx r t probe_status c
           else map_option (\<lambda>c. (probe_status, c))
                  (count_fail mf (m_last_fail_reason (m_tag_array c)) c))
        else
          (if probe_status = HIT then rd_hit_base addr idx r t probe_status c
           else if probe_status \<noteq> RESERVATION_FAIL then rd_miss_base addr idx r t probe_status c
           else map_option (\<lambda>c. (probe_status, c))
                  (count_fail mf (m_last_fail_reason (m_tag_array c)) c)))
     }"

definition process_tag_probe ::
  "bool \<Rightarrow> cache_request_status \<Rightarrow> new_addr_type \<Rightarrow> nat \<Rightarrow> mf_ref \<Rightarrow> time \<Rightarrow> data_cache
   \<Rightarrow> (cache_request_status \<times> data_cache) option" where
  "process_tag_probe wr probe_status addr idx r t c =
     (if probe_status = HIT \<and> m_defer_hit_response (m_config c) \<and> hit_response_queue_full c then
        do {
          mf \<leftarrow> get_mf r c;
          c \<leftarrow> count_fail mf HIT_RESPONSE_QUEUE_FULL c;
          c \<leftarrow> charge_data_port r RESERVATION_FAIL c;
          Some (RESERVATION_FAIL, c)
        }
      else
        do {
          (access_status, c) \<leftarrow> run_handler wr probe_status addr idx r t c;
          c \<leftarrow> (if probe_status = HIT \<and> m_defer_hit_response (m_config c) \<and> access_status = HIT
                then enqueue_hit_response r idx c else Some c);
          c \<leftarrow> charge_data_port r access_status c;
          Some (access_status, c)
        })"

definition data_access ::
  "new_addr_type \<Rightarrow> mf_ref \<Rightarrow> time \<Rightarrow> data_cache \<Rightarrow> (cache_request_status \<times> data_cache) option" where
  "data_access addr r t c =
     do {
       mf \<leftarrow> get_mf r c;
       atom \<leftarrow> get_atom_sz (m_config c);
       cpp_assert (m_data_size mf \<le> atom);
       let wr = get_is_write mf;
       (probe_status, idx, ta) \<leftarrow> tag_probe (m_config c) (m_tag_array c)
           (block_addr (m_config c) addr) no_index (get_access_sector_mask mf) wr;
       (access_status, c) \<leftarrow>
         process_tag_probe wr probe_status addr idx r t (c\<lparr>m_tag_array := ta\<rparr>);
       mf \<leftarrow> get_mf r c;
       c \<leftarrow> count_outcome mf probe_status access_status c;
       Some (access_status, c)
     }"

definition l1_access ::
  "new_addr_type \<Rightarrow> mf_ref \<Rightarrow> time \<Rightarrow> data_cache \<Rightarrow> (cache_request_status \<times> data_cache) option" where
  "l1_access addr r t c = data_access addr r t c"

definition l2_access ::
  "new_addr_type \<Rightarrow> mf_ref \<Rightarrow> time \<Rightarrow> data_cache \<Rightarrow> (cache_request_status \<times> data_cache) option" where
  "l2_access addr r t c = data_access addr r t c"

section \<open>Constructors\<close>

definition wr_hit_of :: "write_policy_t \<Rightarrow> wr_hit_handler option" where
  "wr_hit_of p = (case p of READ_ONLY \<Rightarrow> None | WRITE_BACK \<Rightarrow> Some WrHitWb
     | WRITE_THROUGH \<Rightarrow> Some WrHitWt | WRITE_EVICT \<Rightarrow> Some WrHitWe
     | LOCAL_WB_GLOBAL_WT \<Rightarrow> Some WrHitGlobalWeLocalWb)"

definition wr_miss_of :: "write_allocate_policy_t \<Rightarrow> wr_miss_handler" where
  "wr_miss_of p = (case p of NO_WRITE_ALLOCATE \<Rightarrow> WrMissNoWa | WRITE_ALLOCATE \<Rightarrow> WrMissWaNaive
     | FETCH_ON_WRITE \<Rightarrow> WrMissWaFetchOnWrite | LAZY_FETCH_ON_READ \<Rightarrow> WrMissWaLazyFetchOnRead)"

definition new_data_cache ::
  "cache_config \<Rightarrow> int \<Rightarrow> int \<Rightarrow> simple_mf_allocator \<Rightarrow> mem_fetch_status \<Rightarrow> mem_access_type
   \<Rightarrow> mem_access_type \<Rightarrow> cache_gpu_level \<Rightarrow> mf_heap \<Rightarrow> data_cache option" where
  "new_data_cache cfg core_id type_id creator status wr_alloc_type wrbk_type level heap =
     do {
       c \<leftarrow> new_baseline_cache cfg core_id type_id status level heap;
       hit \<leftarrow> wr_hit_of (m_write_policy cfg);
       Some (baseline_cache.extend c \<lparr>m_wr_alloc_type = wr_alloc_type, m_wrbk_type = wrbk_type,
         m_memfetch_creator = creator, m_wr_hit = hit,
         m_wr_miss = wr_miss_of (m_write_alloc_policy cfg)\<rparr>)
     }"

definition new_l1_cache ::
  "cache_config \<Rightarrow> int \<Rightarrow> int \<Rightarrow> simple_mf_allocator \<Rightarrow> mem_fetch_status \<Rightarrow> cache_gpu_level
   \<Rightarrow> mf_heap \<Rightarrow> data_cache option" where
  "new_l1_cache cfg core_id type_id creator status level heap =
     new_data_cache cfg core_id type_id creator status L1_WR_ALLOC_R L1_WRBK_ACC level heap"

definition new_l2_cache ::
  "cache_config \<Rightarrow> int \<Rightarrow> int \<Rightarrow> simple_mf_allocator \<Rightarrow> mem_fetch_status \<Rightarrow> cache_gpu_level
   \<Rightarrow> mf_heap \<Rightarrow> data_cache option" where
  "new_l2_cache cfg core_id type_id creator status level heap =
     new_data_cache cfg core_id type_id creator status L2_WR_ALLOC_R L2_WRBK_ACC level heap"

end
