(* ===== verification/MemorySystem.thy ===== *)
theory MemorySystem
  imports DataStore DataCache
begin

text \<open>
  \<open>SimpleTwoLevel\<close> of \<open>memory_system.h\<close>: a read-only L1 in front of a DRAM, with the bytes in two
  data stores beside the timing model. A \<open>read\<close> sends one token through the cache, advances it a
  cycle, answers a miss from the DRAM store (copying the line into the L1 store and filling the
  cache), and drains the ready responses. Reading outside a vector is \<open>None\<close>.
\<close>

record two_level =
  l1_data :: data_store
  dram_data :: data_store
  dram_if :: simple_mem_interface
  sys_allocator :: simple_mf_allocator
  sys_cache :: baseline_cache

definition new_two_level :: "cache_config \<Rightarrow> string \<Rightarrow> two_level option" where
  "new_two_level memory config_str =
     do {
       cfg \<leftarrow> config_init (new_cache_config memory) config_str FuncCachePreferNone;
       c \<leftarrow> new_baseline_cache cfg 0 0 IN_L1C_MISS_QUEUE OTHER_GPU_CACHE empty_heap;
       Some \<lparr>l1_data = new_data_store, dram_data = new_data_store,
         dram_if = new_mem_interface 256, sys_allocator = \<lparr>allocated = []\<rparr>, sys_cache = c\<rparr>
     }"

text \<open>\<open>addr & ~(new_addr_type)(get_line_sz() - 1)\<close>\<close>

definition line_base :: "u32 \<Rightarrow> new_addr_type \<Rightarrow> new_addr_type" where
  "line_base line_sz addr = addr AND NOT (ucast (line_sz - 1))"

definition line_offset :: "u32 \<Rightarrow> new_addr_type \<Rightarrow> nat" where
  "line_offset line_sz addr = unat (ucast (addr - line_base line_sz addr) :: u32)"

text \<open>\<open>result.assign(full.begin() + offset, full.begin() + offset + size)\<close>\<close>

definition slice :: "nat \<Rightarrow> nat \<Rightarrow> byte list \<Rightarrow> byte list option" where
  "slice offset sz full =
     (if offset + sz \<le> length full then Some (take sz (drop offset full)) else None)"

text \<open>
  \<open>while (access_ready()) next_access();\<close> Every step hands out one token, so the number of tokens
  waiting is fuel enough.
\<close>

fun drain_ready :: "nat \<Rightarrow> 'a baseline_cache_scheme \<Rightarrow> 'a baseline_cache_scheme option" where
  "drain_ready 0 c = (if access_ready c then None else Some c)"
| "drain_ready (Suc n) c =
     (if \<not> access_ready c then Some c
      else (case next_access c of None \<Rightarrow> None | Some (r, c') \<Rightarrow> drain_ready n c'))"

definition ready_fuel :: "'a baseline_cache_scheme \<Rightarrow> nat" where
  "ready_fuel c = length (m_ready_response_queue c)
     + sum_list (map (\<lambda>e. length (m_list (snd e))) (m_data (m_mshrs c)))"

definition serve_hit ::
  "new_addr_type \<Rightarrow> nat \<Rightarrow> nat \<Rightarrow> nat \<Rightarrow> two_level \<Rightarrow> byte list option" where
  "serve_hit baddr offset sz line_sz sys =
     (if ds_contains baddr (l1_data sys) then slice offset sz (ds_read baddr line_sz (l1_data sys))
      else slice offset sz (ds_read baddr line_sz (dram_data sys)))"

definition serve_miss ::
  "new_addr_type \<Rightarrow> nat \<Rightarrow> nat \<Rightarrow> nat \<Rightarrow> time \<Rightarrow> two_level \<Rightarrow> (byte list \<times> two_level) option" where
  "serve_miss baddr offset sz line_sz t sys =
     do {
       let full = ds_read baddr line_sz (dram_data sys);
       result \<leftarrow> slice offset sz full;
       l1 \<leftarrow> ds_write baddr full (length full) (l1_data sys);
       c \<leftarrow> fold_opt (\<lambda>resp c. fill resp t c) (port_queue (dram_if sys)) (sys_cache sys);
       Some (result, sys\<lparr>l1_data := l1, dram_if := (dram_if sys)\<lparr>port_queue := []\<rparr>, sys_cache := c\<rparr>)
     }"

definition sys_read ::
  "new_addr_type \<Rightarrow> u32 \<Rightarrow> time \<Rightarrow> two_level \<Rightarrow> (bool \<times> byte list \<times> two_level) option" where
  "sys_read addr sz t sys =
     do {
       line_sz \<leftarrow> get_line_sz (m_config (sys_cache sys));
       let baddr = line_base line_sz addr;
       let offset = line_offset line_sz addr;
       let access = new_mem_access GLOBAL_ACC_R addr sz False 0 0 (one_sector 0);
       let (r, h) = heap_new (new_mem_fetch access (Some (new_warp_inst\<lparr>m_is_load := True\<rparr>))
                       0 0 0 0 0 None None) (g_heap (sys_cache sys));
       (status, c) \<leftarrow> read_only_access addr r t ((sys_cache sys)\<lparr>g_heap := h, g_events := []\<rparr>);
       (port, c) \<leftarrow> cycle port_full port_push (dram_if sys) c;
       let sys = sys\<lparr>dram_if := port, sys_cache := c\<rparr>;
       (is_hit, result, sys) \<leftarrow>
         (if status = HIT \<or> status = HIT_RESERVED then
            map_option (\<lambda>bs. (True, bs, sys))
              (serve_hit baddr offset (unat sz) (unat line_sz) sys)
          else if status = MISS \<or> status = SECTOR_MISS then
            map_option (\<lambda>(bs, sys). (False, bs, sys))
              (serve_miss baddr offset (unat sz) (unat line_sz) t sys)
          else Some (False, replicate (unat sz) 0, sys));
       c \<leftarrow> drain_ready (ready_fuel (sys_cache sys)) (sys_cache sys);
       Some (is_hit, result, sys\<lparr>sys_cache := c\<rparr>)
     }"

definition sys_write :: "new_addr_type \<Rightarrow> byte list \<Rightarrow> u32 \<Rightarrow> two_level \<Rightarrow> two_level option" where
  "sys_write addr data sz sys =
     do {
       line_sz \<leftarrow> get_line_sz (m_config (sys_cache sys));
       let baddr = line_base line_sz addr;
       let offset = line_offset line_sz addr;
       let n = unat line_sz;
       let block = (if ds_contains baddr (l1_data sys) then ds_read baddr n (l1_data sys)
                    else if ds_contains baddr (dram_data sys) then ds_read baddr n (dram_data sys)
                    else replicate n 0);
       block \<leftarrow> fold_opt (\<lambda>i b. do { x \<leftarrow> nth_opt data i; update_opt b (offset + i) x })
                 [0..<min (unat sz) (n - offset)] block;
       l1 \<leftarrow> ds_write baddr block n (l1_data sys);
       Some (sys\<lparr>l1_data := l1\<rparr>)
     }"

definition flush_to_dram :: "two_level \<Rightarrow> two_level option" where
  "flush_to_dram sys = map_option (\<lambda>c. sys\<lparr>sys_cache := c\<rparr>) (flush (sys_cache sys))"

end
