(* ===== verification/Samples.thy ===== *)
theory Samples
  imports TagArray
begin

text \<open>
  Concrete configurations and inputs that the witnesses of the properties share. The
  configurations are what \<open>init\<close> makes of a configuration string; the last lemmas check that.
\<close>

definition tiny_cfg :: cache_config where
  "tiny_cfg = \<lparr>cfg_class = BaseConfig, cache_status = FuncCachePreferNone, m_wr_percent = 0,
     m_valid = True, m_disabled = False, m_line_sz = 128, m_line_sz_log2 = 7, m_nset = 2,
     m_nset_log2 = 1, m_assoc = 2, m_atom_sz = 128, m_sector_sz_log2 = 5, original_m_assoc = 2,
     m_is_streaming = False, m_replacement_policy = LRU, m_write_policy = WRITE_BACK,
     m_alloc_policy = ON_MISS, m_mshr_type = ASSOC, m_cache_type = NORMAL,
     m_write_alloc_policy = WRITE_ALLOCATE, m_mshr_entries = 2, m_mshr_max_merge = 2,
     m_miss_queue_size = 4, m_result_fifo_entries = 4, m_data_port_width = 32,
     m_defer_hit_response = True, m_hit_response_queue_size = 16,
     m_set_index_function = LINEAR_SET_FUNCTION\<rparr>"

definition blank_cfg :: cache_config where
  "blank_cfg = tiny_cfg\<lparr>m_line_sz := 0, m_nset := 0, m_assoc := 0, m_miss_queue_size := 0,
     m_result_fifo_entries := 0\<rparr>"

definition ro_cfg :: cache_config where
  "ro_cfg = tiny_cfg\<lparr>m_write_policy := READ_ONLY, m_write_alloc_policy := NO_WRITE_ALLOCATE\<rparr>"

definition read_access :: "new_addr_type \<Rightarrow> u32 \<Rightarrow> mem_access_t" where
  "read_access addr sz = new_mem_access GLOBAL_ACC_R addr sz False 0 0 (one_sector 0)"

definition write_access :: "new_addr_type \<Rightarrow> u32 \<Rightarrow> byte_mask \<Rightarrow> mem_access_t" where
  "write_access addr sz bm = new_mem_access GLOBAL_ACC_W addr sz True 0 bm (one_sector 0)"

definition plain_mf :: "mem_access_t \<Rightarrow> mem_fetch" where
  "plain_mf a = new_mem_fetch a None 0 0 0 0 0 None None"

definition fresh_tags :: "cache_config \<Rightarrow> tag_array" where
  "fresh_tags cfg = the (new_tag_array cfg 0 0)"

lemma tiny_cfg_parsed:
  "config_init (new_cache_config blank_cfg) ''N:2:128:2,L:B:m:W:L,A:2:2,4:4,32'' FuncCachePreferNone
     = Some tiny_cfg"
  by code_simp

lemma ro_cfg_parsed:
  "config_init (new_cache_config blank_cfg) ''N:2:128:2,L:R:m:N:L,A:2:2,4:4,32'' FuncCachePreferNone
     = Some ro_cfg"
  by code_simp

end
