(* ===== verification/TagFacts.thy ===== *)
theory TagFacts
  imports Samples
begin

text \<open>
  What \<open>tag_array\<close> guarantees. First the outcome of a probe on every branch: which line a hit, a
  pending hit or a sector miss names, which line a miss chooses as its victim, and why a probe
  fails. Then what each operation does to the pending-response counters: nothing.
\<close>

section \<open>The search\<close>

definition eligible :: "cache_config \<Rightarrow> tag_array \<Rightarrow> cache_block \<Rightarrow> bool" where
  "eligible cfg ta b \<longleftrightarrow> \<not> blk_is_pinned b \<and> \<not> blk_is_reserved_line b \<and> replaceable cfg ta b"

text \<open>What the local variables of the search say about the ways seen so far.\<close>

definition probe_seen :: "cache_config \<Rightarrow> tag_array \<Rightarrow> nat list \<Rightarrow> probe_acc \<Rightarrow> bool" where
  "probe_seen cfg ta P acc \<longleftrightarrow>
     (let line = (\<lambda>j. m_lines ta ! j); el = (\<lambda>j. eligible cfg ta (line j)) in
      (pa_all_reserved acc \<longleftrightarrow> (\<forall>j \<in> set P. \<not> el j))
    \<and> (pa_saw_pinned acc \<longleftrightarrow> (\<exists>j \<in> set P. blk_is_pinned (line j)))
    \<and> (case pa_invalid_line acc of
         Some i \<Rightarrow> i \<in> set P \<and> el i \<and> blk_is_invalid_line (line i)
       | None \<Rightarrow> \<forall>j \<in> set P. el j \<longrightarrow> \<not> blk_is_invalid_line (line j))
    \<and> (case pa_valid_line acc of
         Some i \<Rightarrow> i \<in> set P \<and> el i \<and> \<not> blk_is_invalid_line (line i)
                   \<and> line_timestamp cfg (line i) = pa_valid_timestamp acc
       | None \<Rightarrow> pa_valid_timestamp acc = - 1)
    \<and> (\<forall>j \<in> set P. el j \<longrightarrow> \<not> blk_is_invalid_line (line j) \<longrightarrow>
         pa_valid_timestamp acc \<le> line_timestamp cfg (line j)))"

lemma probe_seen_init: "probe_seen cfg ta [] probe_init"
  by (simp add: probe_seen_def probe_init_def)

lemma probe_seen_step:
  assumes "probe_seen cfg ta P acc"
  shows "probe_seen cfg ta (P @ [i]) (probe_candidate cfg ta i (m_lines ta ! i) acc)"
proof -
  consider "\<not> eligible cfg ta (m_lines ta ! i)"
    | "eligible cfg ta (m_lines ta ! i)" "blk_is_invalid_line (m_lines ta ! i)"
    | "eligible cfg ta (m_lines ta ! i)" "\<not> blk_is_invalid_line (m_lines ta ! i)"
      "line_timestamp cfg (m_lines ta ! i) < pa_valid_timestamp acc"
    | "eligible cfg ta (m_lines ta ! i)" "\<not> blk_is_invalid_line (m_lines ta ! i)"
      "\<not> line_timestamp cfg (m_lines ta ! i) < pa_valid_timestamp acc" by blast
  then show ?thesis
  proof cases
    case 1
    then have "probe_candidate cfg ta i (m_lines ta ! i) acc =
        (if blk_is_pinned (m_lines ta ! i) then acc\<lparr>pa_saw_pinned := True\<rparr> else acc)"
      by (auto simp: probe_candidate_def eligible_def)
    then show ?thesis using 1 assms
      by (auto simp: probe_seen_def Let_def split: option.splits)
  next
    case 2
    then have "probe_candidate cfg ta i (m_lines ta ! i) acc =
        acc\<lparr>pa_all_reserved := False, pa_invalid_line := Some i\<rparr>"
      and "\<not> blk_is_pinned (m_lines ta ! i)"
      by (auto simp: probe_candidate_def eligible_def)
    then show ?thesis using 2 assms
      by (auto simp: probe_seen_def Let_def split: option.splits)
  next
    case 3
    then have "probe_candidate cfg ta i (m_lines ta ! i) acc =
        acc\<lparr>pa_all_reserved := False, pa_valid_line := Some i,
            pa_valid_timestamp := line_timestamp cfg (m_lines ta ! i)\<rparr>"
      and "\<not> blk_is_pinned (m_lines ta ! i)"
      by (auto simp: probe_candidate_def eligible_def)
    then show ?thesis using 3 assms
      by (auto simp: probe_seen_def Let_def split: option.splits dest!: bspec intro: order_trans less_imp_le)
  next
    case 4
    then have "probe_candidate cfg ta i (m_lines ta ! i) acc = acc\<lparr>pa_all_reserved := False\<rparr>"
      and "\<not> blk_is_pinned (m_lines ta ! i)"
      by (auto simp: probe_candidate_def eligible_def)
    then show ?thesis using 4 assms
      by (auto simp: probe_seen_def Let_def not_less split: option.splits)
  qed
qed

text \<open>\<open>Inr\<close>: no way matched, and the local variables describe all of them.\<close>

lemma probe_ways_Inr:
  assumes "probe_ways cfg ta tag sm wr ws acc = Some (Inr acc')" "probe_seen cfg ta P acc"
  shows "probe_seen cfg ta (P @ ws) acc'
    \<and> (\<forall>i \<in> set ws. i < length (m_lines ta) \<and> probe_match tag sm wr (m_lines ta ! i) = Some None)"
  using assms
proof (induction ws arbitrary: P acc)
  case Nil
  then show ?case by simp
next
  case (Cons i ws)
  then have i: "i < length (m_lines ta)" "probe_match tag sm wr (m_lines ta ! i) = Some None"
    and r: "probe_ways cfg ta tag sm wr ws (probe_candidate cfg ta i (m_lines ta ! i) acc)
        = Some (Inr acc')"
    by (auto simp: bind_Some_iff split: option.splits)
  from Cons.IH [OF r probe_seen_step [OF Cons.prems(2)]] i show ?case by simp
qed

lemma probe_ways_Inl:
  assumes "probe_ways cfg ta tag sm wr ws acc = Some (Inl (st, i))"
  shows "i \<in> set ws \<and> i < length (m_lines ta)
    \<and> probe_match tag sm wr (m_lines ta ! i) = Some (Some st)"
  using assms
  by (induction ws arbitrary: acc) (auto simp: bind_Some_iff split: option.splits)

text \<open>The search ends with a value when every index is in range and every mask is one-hot.\<close>

lemma probe_match_total:
  "\<lbrakk>\<And>s. line = SectorBlock s \<Longrightarrow> get_sector_index sm \<noteq> None\<rbrakk> \<Longrightarrow>
   probe_match tag sm wr line \<noteq> None"
  by (cases line)
    (auto simp: probe_match_def blk_get_status_def blk_is_readable_def split: cache_block_state.splits)

lemma probe_match_Some:
  assumes "probe_match tag sm wr line = Some (Some st)"
  shows "blk_tag line = tag"
    "st = HIT_RESERVED \<longleftrightarrow> blk_get_status sm line = Some RESERVED"
    "st = HIT \<longleftrightarrow> blk_get_status sm line = Some VALID
       \<or> blk_get_status sm line = Some MODIFIED \<and> (wr \<or> blk_is_readable sm line = Some True)"
    "st = SECTOR_MISS \<longleftrightarrow> blk_get_status sm line = Some INVALID \<and> blk_is_valid_line line
       \<or> blk_get_status sm line = Some MODIFIED \<and> \<not> wr \<and> blk_is_readable sm line = Some False"
    "st = HIT \<or> st = HIT_RESERVED \<or> st = SECTOR_MISS"
proof -
  from assms obtain y where y: "blk_get_status sm line = Some y" and t: "blk_tag line = tag"
    by (auto simp: probe_match_def bind_Some_iff split: if_splits)
  show "blk_tag line = tag" by (rule t)
  show "st = HIT_RESERVED \<longleftrightarrow> blk_get_status sm line = Some RESERVED"
    "st = HIT \<longleftrightarrow> blk_get_status sm line = Some VALID
       \<or> blk_get_status sm line = Some MODIFIED \<and> (wr \<or> blk_is_readable sm line = Some True)"
    "st = SECTOR_MISS \<longleftrightarrow> blk_get_status sm line = Some INVALID \<and> blk_is_valid_line line
       \<or> blk_get_status sm line = Some MODIFIED \<and> \<not> wr \<and> blk_is_readable sm line = Some False"
    "st = HIT \<or> st = HIT_RESERVED \<or> st = SECTOR_MISS"
    using assms y t
    by (cases y; auto simp: probe_match_def bind_Some_iff split: if_splits)+
qed

lemma probe_match_None:
  assumes "probe_match tag sm wr line = Some None" "blk_tag line = tag"
  shows "blk_get_status sm line = Some INVALID" "\<not> blk_is_valid_line line"
proof -
  from assms obtain y where y: "blk_get_status sm line = Some y"
    by (auto simp: probe_match_def bind_Some_iff)
  with assms have "y = INVALID \<and> \<not> blk_is_valid_line line"
    by (cases y) (auto simp: probe_match_def bind_Some_iff split: if_splits)
  with y show "blk_get_status sm line = Some INVALID" "\<not> blk_is_valid_line line" by auto
qed

section \<open>The outcomes of a probe\<close>

lemma tag_probe_search:
  assumes "tag_probe cfg ta addr idx sm wr = Some (st, i, ta')"
  obtains si r where "set_index cfg addr = Some si"
    "probe_ways cfg (ta\<lparr>m_last_fail_reason := LINE_ALLOC_FAIL\<rparr>) (cfg_tag cfg addr) sm wr
       (set_ways cfg si) probe_init = Some r"
  using assms by (auto simp: tag_probe_def bind_Some_iff Let_def)

lemma probe_only_reason:
  assumes "tag_probe cfg ta addr idx sm wr = Some (st, i, ta')"
  shows "ta' = ta\<lparr>m_last_fail_reason := m_last_fail_reason ta'\<rparr>"
proof -
  from assms obtain si r where sr: "set_index cfg addr = Some si"
    "probe_ways cfg (ta\<lparr>m_last_fail_reason := LINE_ALLOC_FAIL\<rparr>) (cfg_tag cfg addr) sm wr
       (set_ways cfg si) probe_init = Some r" by (rule tag_probe_search)
  show ?thesis
  proof (cases r)
    case (Inl a)
    then show ?thesis using assms sr by (cases a) (auto simp: tag_probe_def Let_def)
  next
    case (Inr acc)
    then show ?thesis using assms sr
      by (auto simp: tag_probe_def Let_def split: if_splits option.splits)
  qed
qed

lemma probe_tags:
  assumes "tag_probe cfg ta addr idx sm wr = Some (st, i, ta')"
  shows "m_lines ta' = m_lines ta" "m_dirty ta' = m_dirty ta" "pending_lines ta' = pending_lines ta"
    "is_used ta' = is_used ta"
  by (subst probe_only_reason [OF assms], simp)+

lemma eligible_cong [simp]: "eligible cfg (ta\<lparr>m_last_fail_reason := x\<rparr>) b = eligible cfg ta b"
  by (simp add: eligible_def replaceable_def dirty_line_percentage_def)

lemma probe_seen_cong [simp]:
  "probe_seen cfg (ta\<lparr>m_last_fail_reason := x\<rparr>) P acc = probe_seen cfg ta P acc"
  by (simp add: probe_seen_def)

lemma probe_found:
  assumes "tag_probe cfg ta addr idx sm wr = Some (st, i, ta')" "st \<noteq> MISS" "st \<noteq> RESERVATION_FAIL"
  obtains si where "set_index cfg addr = Some si" "i \<in> set (set_ways cfg si)"
    "i < length (m_lines ta)" "probe_match (cfg_tag cfg addr) sm wr (m_lines ta ! i) = Some (Some st)"
proof -
  let ?ta = "ta\<lparr>m_last_fail_reason := LINE_ALLOC_FAIL\<rparr>"
  from assms(1) obtain si r where si: "set_index cfg addr = Some si"
    and r: "probe_ways cfg ?ta (cfg_tag cfg addr) sm wr (set_ways cfg si) probe_init = Some r"
    by (rule tag_probe_search)
  show thesis
  proof (cases r)
    case (Inl a)
    then obtain st' j where a: "r = Inl (st', j)" by (cases a) auto
    from assms(1) si r have "st' = st" "j = i" by (simp_all add: tag_probe_def a)
    with that [OF si] probe_ways_Inl [OF r [unfolded a]] show thesis by auto
  next
    case (Inr acc)
    with assms si r show thesis
      by (auto simp: tag_probe_def Let_def split: if_splits option.splits)
  qed
qed

lemma probe_not_found:
  assumes "tag_probe cfg ta addr idx sm wr = Some (st, i, ta')" "st = MISS \<or> st = RESERVATION_FAIL"
  obtains si acc where "set_index cfg addr = Some si" "probe_seen cfg ta (set_ways cfg si) acc"
    "\<forall>j \<in> set (set_ways cfg si). j < length (m_lines ta)
       \<and> probe_match (cfg_tag cfg addr) sm wr (m_lines ta ! j) = Some None"
    "if pa_all_reserved acc
     then st = RESERVATION_FAIL \<and> i = idx \<and> m_alloc_policy cfg = ON_MISS
       \<and> m_last_fail_reason ta' = (if pa_saw_pinned acc then LINE_PINNED_FAIL else LINE_ALLOC_FAIL)
     else st = MISS \<and> (case pa_invalid_line acc of Some j \<Rightarrow> i = j
                       | None \<Rightarrow> pa_valid_line acc = Some i)"
proof -
  let ?ta = "ta\<lparr>m_last_fail_reason := LINE_ALLOC_FAIL\<rparr>"
  from assms(1) obtain si r where si: "set_index cfg addr = Some si"
    and r: "probe_ways cfg ?ta (cfg_tag cfg addr) sm wr (set_ways cfg si) probe_init = Some r"
    by (rule tag_probe_search)
  show thesis
  proof (cases r)
    case (Inl a)
    then obtain st' j where a: "r = Inl (st', j)" by (cases a) auto
    from assms(1) si r have "st' = st" by (simp add: tag_probe_def a)
    with probe_match_Some(5) [of "cfg_tag cfg addr" sm wr "m_lines ta ! j" st'] probe_ways_Inl [OF r [unfolded a]]
      assms(2) show thesis by auto
  next
    case (Inr acc)
    from probe_ways_Inr [OF r [unfolded Inr] probe_seen_init]
    have seen: "probe_seen cfg ta (set_ways cfg si) acc"
      and none: "\<forall>j \<in> set (set_ways cfg si). j < length (m_lines ta)
       \<and> probe_match (cfg_tag cfg addr) sm wr (m_lines ta ! j) = Some None" by auto
    show thesis
      by (rule that [OF si seen none])
        (use assms(1) si r Inr in \<open>auto simp: tag_probe_def Let_def split: if_splits option.splits\<close>)
  qed
qed

section \<open>Counters of pending responses\<close>

definition pins :: "tag_array \<Rightarrow> u32 list" where
  "pins ta = map blk_pending (m_lines ta)"

lemma length_pins [simp]: "length (pins ta) = length (m_lines ta)"
  by (simp add: pins_def)

lemma pins_nth [simp]: "i < length (m_lines ta) \<Longrightarrow> pins ta ! i = blk_pending (m_lines ta ! i)"
  by (simp add: pins_def)

lemma pins_dirty [simp]: "pins (ta\<lparr>m_dirty := n\<rparr>) = pins ta"
  by (simp add: pins_def)

lemma pins_counters [simp]:
  "pins (ta\<lparr>ta_access := a\<rparr>) = pins ta" "pins (ta\<lparr>ta_miss := a\<rparr>) = pins ta"
  "pins (ta\<lparr>ta_pending_hit := a\<rparr>) = pins ta" "pins (ta\<lparr>ta_res_fail := a\<rparr>) = pins ta"
  "pins (ta\<lparr>ta_sector_miss := a\<rparr>) = pins ta" "pins (ta\<lparr>is_used := u\<rparr>) = pins ta"
  "pins (ta\<lparr>m_last_fail_reason := x\<rparr>) = pins ta" "pins (inc_dirty ta) = pins ta"
  by (simp_all add: pins_def inc_dirty_def)

text \<open>Writing a line whose counter is the old one changes no counter.\<close>

lemma get_block_Some: "get_block i ta = Some b \<longleftrightarrow> i < length (m_lines ta) \<and> b = m_lines ta ! i"
  by (simp add: get_block_def)

lemma set_line_Some: "set_line i b ta = Some ta' \<longleftrightarrow>
    i < length (m_lines ta) \<and> ta' = ta\<lparr>m_lines := (m_lines ta)[i := b]\<rparr>"
  by (auto simp: set_line_def update_opt_def)

lemma pins_set_line:
  "set_line i b ta = Some ta' \<Longrightarrow> pins ta' = (pins ta)[i := blk_pending b]"
  by (auto simp: set_line_Some pins_def map_update)

lemma pins_set_line_same:
  assumes "set_line i b ta = Some ta'" "blk_pending b = pins ta ! i"
  shows "pins ta' = pins ta"
  using assms by (simp add: pins_set_line)

lemma pins_probe [pins_simps]:
  "tag_probe cfg ta addr idx sm wr = Some (st, i, ta') \<Longrightarrow> pins ta' = pins ta"
  by (simp add: pins_def probe_tags)

lemma pins_access_hit [pins_simps]: "access_hit ta t i mf = Some ta' \<Longrightarrow> pins ta' = pins ta"
  by (auto simp: access_hit_def bind_Some_iff get_block_Some
      intro!: pins_set_line_same dest: pending_set_last_access_time)

lemma pins_set_line_keep:
  assumes "set_line i b ta1 = Some ta'" "pins ta1 = pins ta" "blk_pending b = blk_pending (m_lines ta ! i)"
  shows "pins ta' = pins ta"
proof (rule trans [OF pins_set_line_same [OF assms(1)] assms(2)])
  have "i < length (m_lines ta1)" using assms(1) by (simp add: set_line_Some)
  then have "i < length (m_lines ta)" using assms(2) by (metis length_pins)
  then show "blk_pending b = pins ta1 ! i" using assms(2,3) by simp
qed

lemma pins_access_allocate:
  assumes "access_allocate cfg ta addr t i wb ev mf = Some (wb', ev', ta')"
    and "\<not> blk_is_pinned (m_lines ta ! i)"
  shows "pins ta' = pins ta"
proof -
  from assms(1) obtain b ta1 where
    b: "blk_allocate (cfg_tag cfg addr) (block_addr cfg addr) t (get_access_sector_mask mf)
      (m_lines ta ! i) = Some b" and s: "set_line i b ta1 = Some ta'" and p: "pins ta1 = pins ta"
    by (auto simp: access_allocate_def bind_Some_iff get_block_Some split: if_splits)
  from pending_allocate [OF b] assms(2)
  have "blk_pending b = blk_pending (m_lines ta ! i)" by (simp add: block_pins.pinned_iff)
  with s p show ?thesis by (rule pins_set_line_keep)
qed

lemma pins_access_allocate_sector [pins_simps]:
  assumes "access_allocate_sector ta t i mf = Some ta'"
  shows "pins ta' = pins ta"
proof -
  from assms obtain b ta1 where
    b: "blk_allocate_sector t (get_access_sector_mask mf) (m_lines ta ! i) = Some b"
    and s: "set_line i b ta1 = Some ta'" and p: "pins ta1 = pins ta"
    by (auto simp: access_allocate_sector_def bind_Some_iff get_block_Some Let_def split: if_splits)
  show ?thesis by (rule pins_set_line_keep [OF s p pending_allocate_sector [OF b]])
qed

lemma probe_miss_unpinned:
  assumes "tag_probe cfg ta addr idx sm wr = Some (MISS, i, ta')"
  shows "i < length (m_lines ta)" "\<not> blk_is_pinned (m_lines ta ! i)"
    "\<not> blk_is_reserved_line (m_lines ta ! i)"
proof -
  obtain si acc where seen: "probe_seen cfg ta (set_ways cfg si) acc"
    and range: "\<forall>j \<in> set (set_ways cfg si). j < length (m_lines ta)
       \<and> probe_match (cfg_tag cfg addr) sm wr (m_lines ta ! j) = Some None"
    and r: "if pa_all_reserved acc then MISS = RESERVATION_FAIL \<and> i = idx \<and> m_alloc_policy cfg = ON_MISS
       \<and> m_last_fail_reason ta' = (if pa_saw_pinned acc then LINE_PINNED_FAIL else LINE_ALLOC_FAIL)
     else MISS = MISS \<and> (case pa_invalid_line acc of Some j \<Rightarrow> i = j
                       | None \<Rightarrow> pa_valid_line acc = Some i)"
    using probe_not_found [OF assms] by metis
  from seen r have "i \<in> set (set_ways cfg si)" "eligible cfg ta (m_lines ta ! i)"
    by (auto simp: probe_seen_def Let_def split: if_splits option.splits)
  with range show "i < length (m_lines ta)" "\<not> blk_is_pinned (m_lines ta ! i)"
    "\<not> blk_is_reserved_line (m_lines ta ! i)" by (auto simp: eligible_def)
qed

text \<open>The probe inside an access, and what each outcome does next.\<close>

lemma tag_access_cases:
  assumes "tag_access cfg ta addr t idx wb ev mf = Some (st, i, wb', ev', ta')"
  obtains ta0 ta1 where "ta0 = ta\<lparr>ta_access := ta_access ta + 1, is_used := True\<rparr>"
    "tag_probe cfg ta0 addr idx (get_access_sector_mask mf) (get_is_write mf) = Some (st, i, ta1)"
    "st = HIT \<and> access_hit ta1 t i mf = Some ta' \<and> wb' = wb \<and> ev' = ev
     \<or> st = HIT_RESERVED \<and> access_hit (ta1\<lparr>ta_pending_hit := ta_pending_hit ta1 + 1\<rparr>) t i mf = Some ta'
         \<and> wb' = wb \<and> ev' = ev
     \<or> st = MISS \<and> m_alloc_policy cfg = ON_MISS
         \<and> access_allocate cfg (ta1\<lparr>ta_miss := ta_miss ta1 + 1\<rparr>) addr t i wb ev mf = Some (wb', ev', ta')
     \<or> st = MISS \<and> m_alloc_policy cfg \<noteq> ON_MISS \<and> ta' = ta1\<lparr>ta_miss := ta_miss ta1 + 1\<rparr>
         \<and> wb' = wb \<and> ev' = ev
     \<or> st = SECTOR_MISS \<and> m_cache_type cfg = SECTOR \<and> m_alloc_policy cfg = ON_MISS
         \<and> access_allocate_sector (ta1\<lparr>ta_sector_miss := ta_sector_miss ta1 + 1\<rparr>) t i mf = Some ta'
         \<and> wb' = wb \<and> ev' = ev
     \<or> st = SECTOR_MISS \<and> m_cache_type cfg = SECTOR \<and> m_alloc_policy cfg \<noteq> ON_MISS
         \<and> ta' = ta1\<lparr>ta_sector_miss := ta_sector_miss ta1 + 1\<rparr> \<and> wb' = wb \<and> ev' = ev
     \<or> st = RESERVATION_FAIL \<and> ta' = ta1\<lparr>ta_res_fail := ta_res_fail ta1 + 1\<rparr> \<and> wb' = wb \<and> ev' = ev"
proof -
  let ?ta0 = "ta\<lparr>ta_access := ta_access ta + 1, is_used := True\<rparr>"
  from assms obtain st1 i1 ta1 where
    p: "tag_probe cfg ?ta0 addr idx (get_access_sector_mask mf) (get_is_write mf) = Some (st1, i1, ta1)"
    by (auto simp: tag_access_def bind_Some_iff Let_def)
  show thesis
    by (rule that [of ?ta0 ta1]; use assms p in
        \<open>cases st1; simp add: tag_access_def Let_def bind_Some_iff split: if_splits; fastforce?\<close>)
qed

lemma pins_access [pins_simps]:
  assumes "tag_access cfg ta addr t idx wb ev mf = Some (st, i, wb', ev', ta')"
  shows "pins ta' = pins ta"
  using assms
proof (rule tag_access_cases, goal_cases)
  case (1 ta0 ta1)
  have e: "pins ta1 = pins ta" using pins_probe [OF 1(2)] by (simp add: 1(1))
  have "\<not> blk_is_pinned (m_lines ta1 ! i)" if "st = MISS"
    using probe_miss_unpinned(2) [of cfg ta0] 1(2) probe_tags(1) [OF 1(2)] that by fastforce
  with 1(3) e show ?case
    by (auto dest!: pins_access_hit pins_access_allocate_sector pins_access_allocate)
qed

lemma pins_access_no_wb [pins_simps]:
  "tag_access_no_wb cfg ta addr t idx mf = Some (st, i, ta') \<Longrightarrow> pins ta' = pins ta"
  by (auto simp: tag_access_no_wb_def bind_Some_iff split: prod.splits dest!: pins_access)

lemma pins_fill_block [pins_simps]: "fill_block ta i t sm bm = Some ta' \<Longrightarrow> pins ta' = pins ta"
proof -
  assume "fill_block ta i t sm bm = Some ta'"
  then obtain b ta1 where b: "blk_fill t sm bm (m_lines ta ! i) = Some b"
    and s: "set_line i b ta1 = Some ta'" and p: "pins ta1 = pins ta"
    by (auto simp: fill_block_def bind_Some_iff get_block_Some Let_def split: if_splits)
  show ?thesis by (rule pins_set_line_keep [OF s p pending_fill [OF b]])
qed

lemma pins_fill_index [pins_simps]:
  "tag_fill_index cfg ta i t mf = Some ta' \<Longrightarrow> pins ta' = pins ta"
  by (auto simp: tag_fill_index_def bind_Some_iff dest: pins_fill_block)

text \<open>The probe inside a fill, and the two steps after it.\<close>

lemma tag_fill_addr_cases:
  assumes "tag_fill_addr cfg ta addr t sm bm wr = Some ta'"
  obtains st i ta1 where "tag_probe cfg ta addr 0 sm wr = Some (st, i, ta1)"
    "st = RESERVATION_FAIL \<and> ta' = ta1
     \<or> st \<noteq> RESERVATION_FAIL \<and> (\<exists>b ta2.
         (if st = MISS then blk_allocate (cfg_tag cfg addr) (block_addr cfg addr) t sm (m_lines ta1 ! i)
          else if st = SECTOR_MISS then (if m_cache_type cfg = SECTOR
            then blk_allocate_sector t sm (m_lines ta1 ! i) else None)
          else Some (m_lines ta1 ! i)) = Some b
       \<and> i < length (m_lines ta1)
       \<and> set_line i b (if blk_is_modified_line (m_lines ta1 ! i) \<and> \<not> blk_is_modified_line b
                       then ta1\<lparr>m_dirty := m_dirty ta1 - 1\<rparr> else ta1) = Some ta2
       \<and> fill_block ta2 i t sm bm = Some ta')"
proof -
  from assms obtain st i ta1 where p: "tag_probe cfg ta addr 0 sm wr = Some (st, i, ta1)"
    by (auto simp: tag_fill_addr_def bind_Some_iff)
  show thesis
  proof (rule that [OF p])
    show "st = RESERVATION_FAIL \<and> ta' = ta1
     \<or> st \<noteq> RESERVATION_FAIL \<and> (\<exists>b ta2.
         (if st = MISS then blk_allocate (cfg_tag cfg addr) (block_addr cfg addr) t sm (m_lines ta1 ! i)
          else if st = SECTOR_MISS then (if m_cache_type cfg = SECTOR
            then blk_allocate_sector t sm (m_lines ta1 ! i) else None)
          else Some (m_lines ta1 ! i)) = Some b
       \<and> i < length (m_lines ta1)
       \<and> set_line i b (if blk_is_modified_line (m_lines ta1 ! i) \<and> \<not> blk_is_modified_line b
                       then ta1\<lparr>m_dirty := m_dirty ta1 - 1\<rparr> else ta1) = Some ta2
       \<and> fill_block ta2 i t sm bm = Some ta')"
    proof (cases "st = RESERVATION_FAIL")
      case True
      then show ?thesis using assms p by (simp add: tag_fill_addr_def)
    next
      case False
      from assms [unfolded tag_fill_addr_def p Let_def] False
      obtain b0 b ta2 where "get_block i ta1 = Some b0"
        "(if st = MISS then blk_allocate (cfg_tag cfg addr) (block_addr cfg addr) t sm b0
          else if st = SECTOR_MISS
          then do { cpp_assert (m_cache_type cfg = SECTOR); blk_allocate_sector t sm b0 }
          else Some b0) = Some b"
        "set_line i b (if blk_is_modified_line b0 \<and> \<not> blk_is_modified_line b
                       then ta1\<lparr>m_dirty := m_dirty ta1 - 1\<rparr> else ta1) = Some ta2"
        "fill_block ta2 i t sm bm = Some ta'"
        by (simp add: bind_Some_iff) blast
      with False show ?thesis
        by (cases "m_cache_type cfg = SECTOR") (auto simp: get_block_Some)
    qed
  qed
qed

lemma pins_fill_addr [pins_simps]:
  assumes "tag_fill_addr cfg ta addr t sm bm wr = Some ta'"
  shows "pins ta' = pins ta"
  using assms
proof (rule tag_fill_addr_cases, goal_cases)
  case (1 st i ta1)
  have e: "pins ta1 = pins ta" by (rule pins_probe [OF 1(1)])
  from 1(2) show ?case
  proof (elim disjE exE conjE)
    assume "ta' = ta1"
    then show ?thesis using e by simp
  next
    fix b ta2
    assume b: "(if st = MISS then blk_allocate (cfg_tag cfg addr) (block_addr cfg addr) t sm (m_lines ta1 ! i)
          else if st = SECTOR_MISS then (if m_cache_type cfg = SECTOR
            then blk_allocate_sector t sm (m_lines ta1 ! i) else None)
          else Some (m_lines ta1 ! i)) = Some b" and "i < length (m_lines ta1)"
      and s: "set_line i b (if blk_is_modified_line (m_lines ta1 ! i) \<and> \<not> blk_is_modified_line b
                       then ta1\<lparr>m_dirty := m_dirty ta1 - 1\<rparr> else ta1) = Some ta2"
      and f: "fill_block ta2 i t sm bm = Some ta'"
    have "st = MISS \<Longrightarrow> blk_pending (m_lines ta1 ! i) = 0"
      using 1(1) probe_miss_unpinned(2) [of cfg ta] probe_tags(1) [OF 1(1)]
      by (auto simp: block_pins.pinned_iff)
    with b have "blk_pending b = blk_pending (m_lines ta1 ! i)"
      by (auto split: if_splits dest: pending_allocate pending_allocate_sector)
    then have "pins ta2 = pins ta1" by (intro pins_set_line_keep [OF s]) simp_all
    then show ?thesis using pins_fill_block [OF f] e by simp
  qed
qed

section \<open>Flush and invalidate\<close>

lemma blk_invalidate_spec:
  "\<exists>b'. blk_invalidate b = Some b' \<and> blk_is_invalid_line b' \<and> blk_pending b' = blk_pending b
     \<and> blk_tag b' = blk_tag b"
proof (cases b)
  case (LineBlock l)
  then show ?thesis
    by (simp add: blk_invalidate_def sectors_eq blk_set_status_def blk_is_invalid_line_def
        blk_pending_def blk_tag_def)
next
  case (SectorBlock s)
  have "get_sector_index (one_sector 0) = Some 0" "get_sector_index (one_sector 1) = Some 1"
    "get_sector_index (one_sector 2) = Some 2" "get_sector_index (one_sector 3) = Some 3"
    by (simp_all add: sector_index_one SECTOR_CHUNCK_SIZE_def)
  then show ?thesis
    by (simp add: SectorBlock blk_invalidate_def sectors_eq blk_set_status_def
        blk_is_invalid_line_def sector_is_invalid_line_def blk_pending_def blk_tag_def)
qed

definition flush_block :: "cache_block \<Rightarrow> cache_block option" where
  "flush_block b = (if blk_is_modified_line b then blk_invalidate b else Some b)"

text \<open>The two loops, as rewrites of the first \<open>n\<close> lines.\<close>

lemma flush_loop:
  "(\<lambda>i ls. do { b \<leftarrow> nth_opt ls i;
      (if blk_is_modified_line b then do { b' \<leftarrow> blk_invalidate b; update_opt ls i b' } else Some ls) })
   = (\<lambda>i ls. do { b \<leftarrow> nth_opt ls i; b' \<leftarrow> flush_block b; update_opt ls i b' })"
proof (intro ext)
  fix i and ls :: "cache_block list"
  show "do { b \<leftarrow> nth_opt ls i;
      (if blk_is_modified_line b then do { b' \<leftarrow> blk_invalidate b; update_opt ls i b' } else Some ls) }
    = do { b \<leftarrow> nth_opt ls i; b' \<leftarrow> flush_block b; update_opt ls i b' }"
    by (cases "i < length ls"; cases "blk_invalidate (ls ! i)")
      (auto simp: flush_block_def nth_opt_def update_opt_def)
qed

lemma tag_flush_Some:
  assumes "tag_flush cfg ta = Some ta'" "is_used ta"
  obtains n where "get_num_lines cfg = Some n" "unat n \<le> length (m_lines ta)"
    "length (m_lines ta') = length (m_lines ta)" "m_dirty ta' = 0" "is_used ta' = False"
    "\<forall>i < unat n. flush_block (m_lines ta ! i) = Some (m_lines ta' ! i)"
    "\<forall>i. unat n \<le> i \<longrightarrow> m_lines ta' ! i = m_lines ta ! i"
proof -
  from assms obtain n ls where n: "get_num_lines cfg = Some n"
    and l: "fold_opt (\<lambda>i ls. do { b \<leftarrow> nth_opt ls i; b' \<leftarrow> flush_block b; update_opt ls i b' })
        [0..<unat n] (m_lines ta) = Some ls"
    and ta': "ta' = ta\<lparr>m_lines := ls, m_dirty := 0, is_used := False\<rparr>"
    by (auto simp: tag_flush_def bind_Some_iff flush_loop)
  from fold_opt_rewrite [OF l] show thesis by (intro that [OF n]) (auto simp: ta')
qed

lemma tag_invalidate_Some:
  assumes "tag_invalidate cfg ta = Some ta'"
  obtains n where "get_num_lines cfg = Some n" "unat n \<le> length (m_lines ta)"
    "length (m_lines ta') = length (m_lines ta)" "m_dirty ta' = 0" "is_used ta' = False"
    "\<forall>i < unat n. blk_invalidate (m_lines ta ! i) = Some (m_lines ta' ! i)"
    "\<forall>i. unat n \<le> i \<longrightarrow> m_lines ta' ! i = m_lines ta ! i"
proof -
  from assms obtain n ls where n: "get_num_lines cfg = Some n"
    and l: "fold_opt (\<lambda>i ls. do { b \<leftarrow> nth_opt ls i; b' \<leftarrow> blk_invalidate b; update_opt ls i b' })
        [0..<unat n] (m_lines ta) = Some ls"
    and ta': "ta' = ta\<lparr>m_lines := ls, m_dirty := 0, is_used := False\<rparr>"
    by (auto simp: tag_invalidate_def bind_Some_iff)
  from fold_opt_rewrite [OF l] show thesis by (intro that [OF n]) (auto simp: ta')
qed

lemma pins_flush [pins_simps]:
  assumes "tag_flush cfg ta = Some ta'"
  shows "pins ta' = pins ta"
proof (cases "is_used ta")
  case True
  from assms True show ?thesis
  proof (rule tag_flush_Some, goal_cases)
    case (1 n)
    show ?case
    proof (rule nth_equalityI)
      fix i assume "i < length (pins ta')"
      with 1 blk_invalidate_spec [of "m_lines ta ! i"] show "pins ta' ! i = pins ta ! i"
        by (cases "i < unat n") (auto simp: flush_block_def split: if_splits)
    qed (simp add: 1)
  qed
next
  case False
  with assms show ?thesis by (simp add: tag_flush_def)
qed

lemma pins_invalidate [pins_simps]:
  assumes "tag_invalidate cfg ta = Some ta'"
  shows "pins ta' = pins ta"
  using assms
proof (rule tag_invalidate_Some, goal_cases)
  case (1 n)
  show ?case
  proof (rule nth_equalityI)
    fix i assume "i < length (pins ta')"
    with 1 blk_invalidate_spec [of "m_lines ta ! i"] show "pins ta' ! i = pins ta ! i"
      by (cases "i < unat n") auto
  qed (simp add: 1)
qed

section \<open>The dirty counter\<close>

text \<open>\<open>m_dirty\<close> counts the modified lines.\<close>

definition dirty_ok :: "tag_array \<Rightarrow> bool" where
  "dirty_ok ta \<longleftrightarrow> m_dirty ta = of_nat (count_if blk_is_modified_line (m_lines ta))"

lemma dirty_counters [simp]:
  "dirty_ok (ta\<lparr>ta_access := a\<rparr>) = dirty_ok ta" "dirty_ok (ta\<lparr>ta_miss := a\<rparr>) = dirty_ok ta"
  "dirty_ok (ta\<lparr>ta_pending_hit := a\<rparr>) = dirty_ok ta" "dirty_ok (ta\<lparr>ta_res_fail := a\<rparr>) = dirty_ok ta"
  "dirty_ok (ta\<lparr>ta_sector_miss := a\<rparr>) = dirty_ok ta" "dirty_ok (ta\<lparr>is_used := u\<rparr>) = dirty_ok ta"
  "dirty_ok (ta\<lparr>m_last_fail_reason := x\<rparr>) = dirty_ok ta"
  by (simp_all add: dirty_ok_def)

abbreviation dirty_bit :: "cache_block \<Rightarrow> nat" where
  "dirty_bit b \<equiv> (if blk_is_modified_line b then 1 else 0)"

lemma dirty_set_line:
  assumes s: "set_line i b ta1 = Some ta'" and l: "m_lines ta1 = m_lines ta" and ok: "dirty_ok ta"
    and d: "m_dirty ta1 + of_nat (dirty_bit (m_lines ta ! i)) = m_dirty ta + of_nat (dirty_bit b)"
  shows "dirty_ok ta'"
proof -
  let ?c = "count_if blk_is_modified_line"
  from s l have i: "i < length (m_lines ta)" and ta': "m_lines ta' = (m_lines ta)[i := b]"
    "m_dirty ta' = m_dirty ta1" by (auto simp: set_line_Some)
  have "?c (m_lines ta') + dirty_bit (m_lines ta ! i) = ?c (m_lines ta) + dirty_bit b"
    unfolding ta' by (rule count_if_update [OF i])
  then have "(of_nat (?c (m_lines ta')) :: u32) + of_nat (dirty_bit (m_lines ta ! i))
      = of_nat (?c (m_lines ta)) + of_nat (dirty_bit b)"
    by (metis of_nat_add)
  with d ok have "m_dirty ta1 = of_nat (?c (m_lines ta'))"
    by (metis add_right_cancel dirty_ok_def)
  with ta' show ?thesis by (simp add: dirty_ok_def)
qed

lemma modified_set_last_access_time:
  "blk_set_last_access_time t sm b = Some b' \<Longrightarrow> blk_is_modified_line b' = blk_is_modified_line b"
  by (cases b) (auto simp: blk_set_last_access_time_def blk_is_modified_line_def
      sector_is_modified_line_def)

lemma modified_allocate_sector:
  "blk_allocate_sector t sm b = Some b' \<Longrightarrow> blk_is_modified_line b' \<Longrightarrow> blk_is_modified_line b"
  by (cases b) (auto simp: blk_allocate_sector_def blk_is_modified_line_def
      sector_is_modified_line_def sector_allocate_sector_def list_ex_iff
      split: option.splits if_splits)

lemma dirty_access:
  assumes "tag_access cfg ta addr t idx wb ev mf = Some (st, i, wb', ev', ta')" "dirty_ok ta"
  shows "dirty_ok ta'"
  using assms(1)
proof (rule tag_access_cases, goal_cases)
  case (1 ta0 ta1)
  have ok: "dirty_ok ta1"
    using assms(2) probe_tags(1,2) [OF 1(2)] by (simp add: 1(1) dirty_ok_def)
  have hit: "dirty_ok ta'" if "access_hit ta2 t i mf = Some ta'" "dirty_ok ta2" for ta2
    using that by (auto simp: access_hit_def bind_Some_iff get_block_Some
        dest!: modified_set_last_access_time elim!: dirty_set_line)
  have alloc: "dirty_ok ta'"
    if "access_allocate cfg ta2 addr t i wb ev mf = Some (wb', ev', ta')" "dirty_ok ta2" for ta2
  proof -
    from that(1) obtain b ta3 where
      b: "blk_allocate (cfg_tag cfg addr) (block_addr cfg addr) t (get_access_sector_mask mf)
        (m_lines ta2 ! i) = Some b" and s: "set_line i b ta3 = Some ta'" and l: "m_lines ta3 = m_lines ta2"
      and d: "m_dirty ta3 + of_nat (dirty_bit (m_lines ta2 ! i)) = m_dirty ta2"
      by (auto simp: access_allocate_def bind_Some_iff get_block_Some split: if_splits)
    show ?thesis
      by (rule dirty_set_line [OF s l that(2)]) (use d allocate_state(4) [OF b] in simp)
  qed
  have sector: "dirty_ok ta'" if "access_allocate_sector ta2 t i mf = Some ta'" "dirty_ok ta2" for ta2
  proof -
    from that(1) obtain b ta3 where
      b: "blk_allocate_sector t (get_access_sector_mask mf) (m_lines ta2 ! i) = Some b"
      and s: "set_line i b ta3 = Some ta'"
      and ta3: "ta3 = (if blk_is_modified_line (m_lines ta2 ! i) \<and> \<not> blk_is_modified_line b
                       then ta2\<lparr>m_dirty := m_dirty ta2 - 1\<rparr> else ta2)"
      by (auto simp: access_allocate_sector_def bind_Some_iff get_block_Some Let_def)
    show ?thesis
      by (rule dirty_set_line [OF s _ that(2)]) (use modified_allocate_sector [OF b] in \<open>auto simp: ta3\<close>)
  qed
  from 1(3) ok show ?case by (elim disjE conjE) (simp_all add: hit alloc sector)
qed

lemma modified_fill:
  assumes "blk_fill t sm bm b = Some b'" "blk_get_status sm b \<noteq> Some MODIFIED"
  shows "blk_is_modified_line b \<Longrightarrow> blk_is_modified_line b'"
proof -
  assume m: "blk_is_modified_line b"
  show "blk_is_modified_line b'"
  proof (cases b)
    case (LineBlock l)
    then show ?thesis using assms(2) m by (simp add: blk_get_status_def blk_is_modified_line_def)
  next
    case (SectorBlock s)
    with assms(1) obtain s' where s': "sector_fill t sm bm s = Some s'" and b': "b' = SectorBlock s'"
      by (auto simp: blk_fill_def)
    then obtain i where i: "get_sector_index sm = Some i"
      by (auto simp: sector_fill_def split: option.splits)
    from assms(2) i SectorBlock have "s_status s i \<noteq> MODIFIED" by (simp add: blk_get_status_def)
    with m SectorBlock sector_fill_state(1) [OF s' i] show ?thesis
      by (auto simp: b' blk_is_modified_line_def sector_is_modified_line_def list_ex_iff)
  qed
qed

lemma dirty_fill_block:
  assumes f: "fill_block ta i t sm bm = Some ta'" and ok: "dirty_ok ta"
    and st: "blk_get_status sm (m_lines ta ! i) \<noteq> Some MODIFIED"
  shows "dirty_ok ta'"
proof -
  from f obtain b ta1 where b: "blk_fill t sm bm (m_lines ta ! i) = Some b"
    and s: "set_line i b ta1 = Some ta'"
    and ta1: "ta1 = (if blk_is_modified_line b \<and> \<not> blk_is_modified_line (m_lines ta ! i)
                     then ta\<lparr>m_dirty := m_dirty ta + 1\<rparr> else ta)"
    by (auto simp: fill_block_def bind_Some_iff get_block_Some Let_def)
  show ?thesis
    by (rule dirty_set_line [OF s _ ok]) (use modified_fill [OF b st] in \<open>auto simp: ta1\<close>)
qed

lemma status_allocate_sector:
  "blk_allocate_sector t sm b = Some b' \<Longrightarrow> blk_get_status sm b' = Some RESERVED"
  by (cases b) (auto simp: blk_allocate_sector_def blk_get_status_def sector_allocate_sector_def
      split: option.splits if_splits)

lemma dirty_fill_addr:
  assumes f: "tag_fill_addr cfg ta addr t sm bm wr = Some ta'" and ok: "dirty_ok ta"
    and st: "\<And>st i ta1. tag_probe cfg ta addr 0 sm wr = Some (st, i, ta1) \<Longrightarrow> st = HIT \<Longrightarrow>
      blk_get_status sm (m_lines ta ! i) \<noteq> Some MODIFIED"
  shows "dirty_ok ta'"
  using f
proof (rule tag_fill_addr_cases, goal_cases)
  case (1 st i ta1)
  have ok1: "dirty_ok ta1" and l1: "m_lines ta1 = m_lines ta"
    using ok probe_tags(1,2) [OF 1(1)] by (simp_all add: dirty_ok_def)
  from 1(2) show ?case
  proof (elim disjE exE conjE)
    assume "ta' = ta1"
    then show ?thesis using ok1 by simp
  next
    fix b ta2
    assume b: "(if st = MISS then blk_allocate (cfg_tag cfg addr) (block_addr cfg addr) t sm (m_lines ta1 ! i)
          else if st = SECTOR_MISS then (if m_cache_type cfg = SECTOR
            then blk_allocate_sector t sm (m_lines ta1 ! i) else None)
          else Some (m_lines ta1 ! i)) = Some b" and "i < length (m_lines ta1)"
      and s: "set_line i b (if blk_is_modified_line (m_lines ta1 ! i) \<and> \<not> blk_is_modified_line b
                       then ta1\<lparr>m_dirty := m_dirty ta1 - 1\<rparr> else ta1) = Some ta2"
      and f: "fill_block ta2 i t sm bm = Some ta'" and nr: "st \<noteq> RESERVATION_FAIL"
    have "blk_is_modified_line b \<Longrightarrow> blk_is_modified_line (m_lines ta1 ! i)"
      using b by (auto split: if_splits dest: allocate_state(4) modified_allocate_sector)
    then have ok2: "dirty_ok ta2" by (intro dirty_set_line [OF s _ ok1]) auto
    have line: "m_lines ta2 ! i = b" using s by (auto simp: set_line_Some split: if_splits)
    have "blk_get_status sm b \<noteq> Some MODIFIED"
    proof (cases "st = MISS \<or> st = SECTOR_MISS")
      case True
      with b show ?thesis
        by (auto split: if_splits dest: allocate_state(3) status_allocate_sector)
    next
      case False
      have "st = HIT \<or> st = HIT_RESERVED"
        using 1(1) probe_found [OF 1(1)] probe_match_Some(5) False nr by metis
      moreover have "blk_get_status sm (m_lines ta ! i) = Some RESERVED" if "st = HIT_RESERVED"
        using 1(1) probe_found [OF 1(1)] probe_match_Some(2) that by (metis cache_request_status.distinct)
      ultimately show ?thesis using b False st [OF 1(1)] l1 by auto
    qed
    with f ok2 line show ?thesis by (auto intro: dirty_fill_block)
  qed
qed

section \<open>Properties\<close>

text \<open>C6: A probe that misses names a victim in the set of the address that is in range, not pinned,
  not reserved and replaceable, after no way of the set matched. It is an invalid line whenever
  the set has an eligible one, otherwise the eligible line with the least timestamp (last access
  for LRU, allocation for FIFO).\<close>

theorem probe_miss_victim:
  assumes "tag_probe cfg ta addr idx sm wr = Some (MISS, i, ta')"
  shows "\<exists>si. set_index cfg addr = Some si \<and> i \<in> set (set_ways cfg si)
    \<and> i < length (m_lines ta) \<and> eligible cfg ta (m_lines ta ! i)
    \<and> (\<forall>j \<in> set (set_ways cfg si). probe_match (cfg_tag cfg addr) sm wr (m_lines ta ! j) = Some None)
    \<and> (if \<exists>j \<in> set (set_ways cfg si). eligible cfg ta (m_lines ta ! j) \<and> blk_is_invalid_line (m_lines ta ! j)
       then blk_is_invalid_line (m_lines ta ! i)
       else \<forall>j \<in> set (set_ways cfg si). eligible cfg ta (m_lines ta ! j) \<longrightarrow>
          line_timestamp cfg (m_lines ta ! i) \<le> line_timestamp cfg (m_lines ta ! j))"
proof -
  obtain si acc where si: "set_index cfg addr = Some si" and seen: "probe_seen cfg ta (set_ways cfg si) acc"
    and none: "\<forall>j \<in> set (set_ways cfg si). j < length (m_lines ta)
       \<and> probe_match (cfg_tag cfg addr) sm wr (m_lines ta ! j) = Some None"
    and r: "\<not> pa_all_reserved acc" "case pa_invalid_line acc of Some j \<Rightarrow> i = j
                       | None \<Rightarrow> pa_valid_line acc = Some i"
    by (rule probe_not_found [OF assms]) (auto split: if_splits)
  show ?thesis
  proof (rule exI [of _ si], cases "pa_invalid_line acc")
    case None
    with seen si none r show "set_index cfg addr = Some si \<and> i \<in> set (set_ways cfg si)
    \<and> i < length (m_lines ta) \<and> eligible cfg ta (m_lines ta ! i)
    \<and> (\<forall>j \<in> set (set_ways cfg si). probe_match (cfg_tag cfg addr) sm wr (m_lines ta ! j) = Some None)
    \<and> (if \<exists>j \<in> set (set_ways cfg si). eligible cfg ta (m_lines ta ! j) \<and> blk_is_invalid_line (m_lines ta ! j)
       then blk_is_invalid_line (m_lines ta ! i)
       else \<forall>j \<in> set (set_ways cfg si). eligible cfg ta (m_lines ta ! j) \<longrightarrow>
          line_timestamp cfg (m_lines ta ! i) \<le> line_timestamp cfg (m_lines ta ! j))"
      by (auto simp: probe_seen_def Let_def)
  next
    case (Some j)
    with seen si none r show "set_index cfg addr = Some si \<and> i \<in> set (set_ways cfg si)
    \<and> i < length (m_lines ta) \<and> eligible cfg ta (m_lines ta ! i)
    \<and> (\<forall>j \<in> set (set_ways cfg si). probe_match (cfg_tag cfg addr) sm wr (m_lines ta ! j) = Some None)
    \<and> (if \<exists>j \<in> set (set_ways cfg si). eligible cfg ta (m_lines ta ! j) \<and> blk_is_invalid_line (m_lines ta ! j)
       then blk_is_invalid_line (m_lines ta ! i)
       else \<forall>j \<in> set (set_ways cfg si). eligible cfg ta (m_lines ta ! j) \<longrightarrow>
          line_timestamp cfg (m_lines ta ! i) \<le> line_timestamp cfg (m_lines ta ! j))"
      by (auto simp: probe_seen_def Let_def)
  qed
qed

lemma probe_miss_victim_witness:
  "eligible tiny_cfg (fresh_tags tiny_cfg) (m_lines (fresh_tags tiny_cfg) ! 1)"
proof -
  have "map_option (\<lambda>(st, i, ta). (st, i)) (tag_probe tiny_cfg (fresh_tags tiny_cfg) 256 0 (one_sector 0) False)
      = Some (MISS, 1)" by code_simp
  then obtain ta where "tag_probe tiny_cfg (fresh_tags tiny_cfg) 256 0 (one_sector 0) False
      = Some (MISS, 1, ta)" by auto
  from probe_miss_victim [OF this] show ?thesis by blast
qed

text \<open>C7: When a probe finds its line, that line is a way of the set with the tag of the address; the
  answer is a pending hit exactly for a reserved sector, a hit exactly for a valid sector or a
  modified one that may be read (or is written), and a sector miss otherwise.\<close>

theorem probe_found_status:
  assumes "tag_probe cfg ta addr idx sm wr = Some (st, i, ta')" "st \<noteq> MISS" "st \<noteq> RESERVATION_FAIL"
  shows "(\<exists>si. set_index cfg addr = Some si \<and> i \<in> set (set_ways cfg si))
    \<and> i < length (m_lines ta) \<and> blk_tag (m_lines ta ! i) = cfg_tag cfg addr
    \<and> (st = HIT_RESERVED \<longleftrightarrow> blk_get_status sm (m_lines ta ! i) = Some RESERVED)
    \<and> (st = HIT \<longleftrightarrow> blk_get_status sm (m_lines ta ! i) = Some VALID
        \<or> blk_get_status sm (m_lines ta ! i) = Some MODIFIED
          \<and> (wr \<or> blk_is_readable sm (m_lines ta ! i) = Some True))
    \<and> (st = SECTOR_MISS \<longleftrightarrow> blk_get_status sm (m_lines ta ! i) = Some INVALID
          \<and> blk_is_valid_line (m_lines ta ! i)
        \<or> blk_get_status sm (m_lines ta ! i) = Some MODIFIED \<and> \<not> wr
          \<and> blk_is_readable sm (m_lines ta ! i) = Some False)"
  using assms
proof (rule probe_found)
  fix si
  assume si: "set_index cfg addr = Some si" "i \<in> set (set_ways cfg si)" "i < length (m_lines ta)"
    and m: "probe_match (cfg_tag cfg addr) sm wr (m_lines ta ! i) = Some (Some st)"
  show ?thesis using si probe_match_Some [OF m] by blast
qed

definition one_valid_line :: tag_array where
  "one_valid_line = (fresh_tags tiny_cfg)\<lparr>m_lines := (m_lines (fresh_tags tiny_cfg))
     [2 := LineBlock (new_line_block\<lparr>m_tag := 128, m_block_addr := 128, l_status := VALID\<rparr>)]\<rparr>"

lemma probe_found_status_witness: "blk_tag (m_lines one_valid_line ! 2) = cfg_tag tiny_cfg 140"
proof -
  have "map_option (\<lambda>(st, i, ta). (st, i)) (tag_probe tiny_cfg one_valid_line 140 0 (one_sector 0) False)
      = Some (HIT, 2)" by code_simp
  then obtain ta where "tag_probe tiny_cfg one_valid_line 140 0 (one_sector 0) False
      = Some (HIT, 2, ta)" by auto
  from probe_found_status [OF this] show ?thesis by simp
qed

text \<open>A probe fails only under allocation on miss and only when every way of the set is pinned,
  reserved or too dirty to replace, and then names pinning as the reason exactly when some way is
  pinned. The index argument is left as it was.\<close>

theorem probe_fail_reason:
  assumes "tag_probe cfg ta addr idx sm wr = Some (RESERVATION_FAIL, i, ta')"
  shows "i = idx \<and> m_alloc_policy cfg = ON_MISS \<and> (\<exists>si. set_index cfg addr = Some si
    \<and> (\<forall>j \<in> set (set_ways cfg si). \<not> eligible cfg ta (m_lines ta ! j))
    \<and> m_last_fail_reason ta' = (if \<exists>j \<in> set (set_ways cfg si). blk_is_pinned (m_lines ta ! j)
        then LINE_PINNED_FAIL else LINE_ALLOC_FAIL))"
proof -
  obtain si acc where si: "set_index cfg addr = Some si" and seen: "probe_seen cfg ta (set_ways cfg si) acc"
    and r: "pa_all_reserved acc" "i = idx" "m_alloc_policy cfg = ON_MISS"
      "m_last_fail_reason ta' = (if pa_saw_pinned acc then LINE_PINNED_FAIL else LINE_ALLOC_FAIL)"
    by (rule probe_not_found [OF assms]) (auto split: if_splits)
  have "(\<forall>j \<in> set (set_ways cfg si). \<not> eligible cfg ta (m_lines ta ! j))"
    "pa_saw_pinned acc \<longleftrightarrow> (\<exists>j \<in> set (set_ways cfg si). blk_is_pinned (m_lines ta ! j))"
    using seen r(1) by (auto simp: probe_seen_def Let_def)
  with si r show ?thesis by auto
qed

definition pinned_set :: tag_array where
  "pinned_set = (fresh_tags tiny_cfg)\<lparr>m_lines := (m_lines (fresh_tags tiny_cfg))
     [0 := blk_pin (LineBlock new_line_block), 1 := LineBlock (new_line_block\<lparr>m_tag := 256, l_status := RESERVED\<rparr>)],
     m_last_fail_reason := LINE_PINNED_FAIL\<rparr>"

lemma probe_fail_reason_witness:
  "\<exists>si. set_index tiny_cfg 512 = Some si \<and> (\<forall>j \<in> set (set_ways tiny_cfg si).
     \<not> eligible tiny_cfg pinned_set (m_lines pinned_set ! j))"
proof -
  have "map_option (\<lambda>(st, i, ta). (st, i)) (tag_probe tiny_cfg pinned_set 512 7 (one_sector 0) False)
      = Some (RESERVATION_FAIL, 7)" by code_simp
  then obtain ta where "tag_probe tiny_cfg pinned_set 512 7 (one_sector 0) False
      = Some (RESERVATION_FAIL, 7, ta)" by auto
  from probe_fail_reason [OF this] show ?thesis by blast
qed

text \<open>C8: An access that misses under allocation on miss reports a write-back exactly when the victim
  was modified (or the caller's flag was already set), hands out the victim's address, size and
  masks, and leaves the line reserved under the new tag and unmodified.\<close>

theorem tag_access_miss_allocates:
  assumes "tag_access cfg ta addr t idx wb ev mf = Some (MISS, i, wb', ev', ta')"
    and "m_alloc_policy cfg = ON_MISS"
  shows "i < length (m_lines ta)
    \<and> wb' = (wb \<or> blk_is_modified_line (m_lines ta ! i))
    \<and> (ev' = (if blk_is_modified_line (m_lines ta ! i)
       then \<lparr>ev_block_addr = blk_block_addr (m_lines ta ! i), ev_modified_size = blk_modified_size (m_lines ta ! i),
             ev_byte_mask = blk_dirty_byte_mask (m_lines ta ! i), ev_sector_mask = blk_dirty_sector_mask (m_lines ta ! i)\<rparr>
       else ev))
    \<and> blk_tag (m_lines ta' ! i) = cfg_tag cfg addr \<and> blk_block_addr (m_lines ta' ! i) = block_addr cfg addr
    \<and> blk_get_status (get_access_sector_mask mf) (m_lines ta' ! i) = Some RESERVED
    \<and> \<not> blk_is_modified_line (m_lines ta' ! i)
    \<and> (\<forall>j. j \<noteq> i \<longrightarrow> m_lines ta' ! j = m_lines ta ! j)"
  using assms(1)
proof (rule tag_access_cases, goal_cases)
  case (1 ta0 ta1)
  have l: "m_lines ta1 = m_lines ta" using probe_tags(1) [OF 1(2)] by (simp add: 1(1))
  have "access_allocate cfg (ta1\<lparr>ta_miss := ta_miss ta1 + 1\<rparr>) addr t i wb ev mf = Some (wb', ev', ta')"
    using 1(3) assms(2) by auto
  then obtain b ta2 where i: "i < length (m_lines ta)"
    and b: "blk_allocate (cfg_tag cfg addr) (block_addr cfg addr) t (get_access_sector_mask mf)
        (m_lines ta ! i) = Some b"
    and s: "set_line i b ta2 = Some ta'" and l2: "m_lines ta2 = m_lines ta"
    and w: "wb' = (wb \<or> blk_is_modified_line (m_lines ta ! i))"
      "ev' = (if blk_is_modified_line (m_lines ta ! i)
       then \<lparr>ev_block_addr = blk_block_addr (m_lines ta ! i), ev_modified_size = blk_modified_size (m_lines ta ! i),
             ev_byte_mask = blk_dirty_byte_mask (m_lines ta ! i), ev_sector_mask = blk_dirty_sector_mask (m_lines ta ! i)\<rparr>
       else ev)"
    by (auto simp: access_allocate_def bind_Some_iff get_block_Some l split: if_splits)
  have "m_lines ta' = (m_lines ta)[i := b]" using s l2 by (auto simp: set_line_Some)
  with i w allocate_state [OF b] show ?case by auto
qed

definition dirty_line0 :: tag_array where
  "dirty_line0 = (fresh_tags tiny_cfg)\<lparr>m_lines := (m_lines (fresh_tags tiny_cfg))
     [0 := LineBlock (new_line_block\<lparr>m_tag := 256, m_block_addr := 256, l_status := MODIFIED\<rparr>),
      1 := LineBlock (new_line_block\<lparr>m_tag := 512, l_status := RESERVED\<rparr>)], m_dirty := 1\<rparr>"

lemma tag_access_miss_allocates_witness:
  "\<exists>i wb ev ta'. tag_access tiny_cfg dirty_line0 1024 5 0 False no_evicted (plain_mf (read_access 1024 32))
     = Some (MISS, i, wb, ev, ta') \<and> wb \<and> blk_tag (m_lines ta' ! i) = cfg_tag tiny_cfg 1024"
proof -
  have "map_option (\<lambda>(st, i, wb, r). (st, i, wb)) (tag_access tiny_cfg dirty_line0 1024 5 0 False no_evicted
      (plain_mf (read_access 1024 32))) = Some (MISS, 0, True)" by code_simp
  then obtain ev ta' where a: "tag_access tiny_cfg dirty_line0 1024 5 0 False no_evicted
      (plain_mf (read_access 1024 32)) = Some (MISS, 0, True, ev, ta')" by auto
  have "m_alloc_policy tiny_cfg = ON_MISS" by (simp add: tiny_cfg_def)
  from tag_access_miss_allocates [OF a this] a show ?thesis by blast
qed

text \<open>\<open>invalidate\<close> leaves every configured line invalid and \<open>flush\<close> of a used array invalidates exactly
  the modified ones; both clear the dirty counter and the used flag, and neither touches a pin or a
  line beyond the configured ones.\<close>

theorem flush_and_invalidate:
  shows "(tag_invalidate cfg ta = Some ta' \<longrightarrow> m_dirty ta' = 0 \<and> \<not> is_used ta' \<and> pins ta' = pins ta
      \<and> (\<exists>n. get_num_lines cfg = Some n \<and> (\<forall>i < unat n. blk_is_invalid_line (m_lines ta' ! i))
             \<and> (\<forall>i \<ge> unat n. m_lines ta' ! i = m_lines ta ! i)))
    \<and> (tag_flush cfg ta = Some ta'' \<longrightarrow> is_used ta \<longrightarrow> m_dirty ta'' = 0 \<and> \<not> is_used ta'' \<and> pins ta'' = pins ta
      \<and> (\<exists>n. get_num_lines cfg = Some n
             \<and> (\<forall>i < unat n. if blk_is_modified_line (m_lines ta ! i) then blk_is_invalid_line (m_lines ta'' ! i)
                              else m_lines ta'' ! i = m_lines ta ! i)
             \<and> (\<forall>i \<ge> unat n. m_lines ta'' ! i = m_lines ta ! i)))"
proof (intro conjI impI)
  assume inv: "tag_invalidate cfg ta = Some ta'"
  show "m_dirty ta' = 0" "\<not> is_used ta'" "pins ta' = pins ta"
    "\<exists>n. get_num_lines cfg = Some n \<and> (\<forall>i < unat n. blk_is_invalid_line (m_lines ta' ! i))
             \<and> (\<forall>i \<ge> unat n. m_lines ta' ! i = m_lines ta ! i)"
    using pins_invalidate [OF inv] inv
    by (auto elim!: tag_invalidate_Some) (metis blk_invalidate_spec option.inject)
next
  assume f: "tag_flush cfg ta = Some ta''" "is_used ta"
  show "m_dirty ta'' = 0" "\<not> is_used ta''" "pins ta'' = pins ta"
    using pins_flush [OF f(1)] f by (auto elim!: tag_flush_Some)
  from f show "\<exists>n. get_num_lines cfg = Some n
             \<and> (\<forall>i < unat n. if blk_is_modified_line (m_lines ta ! i) then blk_is_invalid_line (m_lines ta'' ! i)
                              else m_lines ta'' ! i = m_lines ta ! i)
             \<and> (\<forall>i \<ge> unat n. m_lines ta'' ! i = m_lines ta ! i)"
    by (rule tag_flush_Some) (auto simp: flush_block_def split: if_splits; metis blk_invalidate_spec option.inject)
qed

lemma flush_and_invalidate_witness:
  "\<exists>ta'. tag_invalidate tiny_cfg dirty_line0 = Some ta' \<and> m_dirty ta' = 0"
proof -
  have "map_option m_dirty (tag_invalidate tiny_cfg dirty_line0) = Some 0" by code_simp
  then obtain ta' where "tag_invalidate tiny_cfg dirty_line0 = Some ta'" by auto
  with flush_and_invalidate [of tiny_cfg dirty_line0 ta'] show ?thesis by blast
qed

end
