(* ===== verification/Protocol.thy ===== *)
theory Protocol
  imports TagFacts DataCache
begin

text \<open>
  The abstract specification of how a cache owns the tokens it accepted. A view keeps the
  pending-response counters of the lines, the map from tokens to pinned lines, the two response
  queues, the MSHR table and the block each outstanding fetch is for. \<open>vstep\<close> lists everything
  that may happen to it: a deferred hit, a merge, a miss, time passing, a fill, a delivery. The
  invariant \<open>view_inv\<close> holds in every state the steps reach; the operations of the caches are
  shown elsewhere to be runs of steps.
\<close>

record cache_view =
  v_pins :: "u32 list"
  v_pend :: "(mf_ref \<times> nat) list"
  v_hits :: "mf_ref list"
  v_ready :: "mf_ref list"
  v_ms :: mshr_table
  v_extra :: "(mf_ref \<times> new_addr_type) list"
  v_defer :: bool

definition view :: "'a baseline_cache_scheme \<Rightarrow> cache_view" where
  "view c = \<lparr>v_pins = pins (m_tag_array c), v_pend = m_pending_response_indices c,
     v_hits = map dr_mf (m_hit_response_queue c), v_ready = m_ready_response_queue c,
     v_ms = m_mshrs c, v_extra = map (\<lambda>(r, e). (r, ex_block_addr e)) (m_extra_mf_fields c),
     v_defer = m_defer_hit_response (m_config c)\<rparr>"

text \<open>The tokens a cache holds and still has to deliver.\<close>

definition tokens :: "cache_view \<Rightarrow> mf_ref multiset" where
  "tokens v = mset (v_hits v) + mset (v_ready v) + mshr_outstanding (v_ms v)"

definition v_pin :: "mf_ref \<Rightarrow> nat \<Rightarrow> cache_view \<Rightarrow> cache_view" where
  "v_pin r i v = v\<lparr>v_pins := (v_pins v)[i := v_pins v ! i + 1],
     v_pend := AList.update r i (v_pend v)\<rparr>"

definition v_unpin :: "mf_ref \<Rightarrow> cache_view \<Rightarrow> cache_view" where
  "v_unpin r v = (case map_of (v_pend v) r of None \<Rightarrow> v
     | Some i \<Rightarrow> v\<lparr>v_pins := (v_pins v)[i := v_pins v ! i - 1], v_pend := AList.delete r (v_pend v)\<rparr>)"

definition v_pin_if :: "mf_ref \<Rightarrow> nat \<Rightarrow> cache_view \<Rightarrow> cache_view" where
  "v_pin_if r i v = (if v_defer v then v_pin r i v else v)"

inductive vstep :: "cache_view \<Rightarrow> cache_view \<Rightarrow> bool" where
  hit: "\<lbrakk>v_defer v; r \<notin># tokens v; i < length (v_pins v)\<rbrakk>
    \<Longrightarrow> vstep v (v_pin r i (v\<lparr>v_hits := v_hits v @ [r]\<rparr>))"
| merge: "\<lbrakk>r \<notin># tokens v; v_defer v \<longrightarrow> i < length (v_pins v); mshr_probe (v_ms v) a;
    mshr_add a r m (v_ms v) = Some ms\<rbrakk>
    \<Longrightarrow> vstep v (v_pin_if r i (v\<lparr>v_ms := ms\<rparr>))"
| miss: "\<lbrakk>r \<notin># tokens v; v_defer v \<longrightarrow> i < length (v_pins v); \<not> mshr_probe (v_ms v) a;
    mshr_add a r m (v_ms v) = Some ms\<rbrakk>
    \<Longrightarrow> vstep v (v_pin_if r i (v\<lparr>v_ms := ms, v_extra := AList.update r a (v_extra v)\<rparr>))"
| tick: "\<lbrakk>mset hits + mset ready = mset (v_hits v) + mset (v_ready v); v_defer v\<rbrakk>
    \<Longrightarrow> vstep v (v\<lparr>v_hits := hits, v_ready := ready\<rparr>)"
| fill: "\<lbrakk>map_of (v_extra v) r = Some a; mshr_mark_ready a (v_ms v) = Some (b, ms)\<rbrakk>
    \<Longrightarrow> vstep v (v\<lparr>v_ms := ms, v_extra := AList.delete r (v_extra v)\<rparr>)"
| deliver_hit: "v_ready v = r # rest \<Longrightarrow> vstep v (v_unpin r (v\<lparr>v_ready := rest\<rparr>))"
| deliver_miss: "\<lbrakk>v_ready v = []; mshr_next_access (v_ms v) = Some (r, ms)\<rbrakk>
    \<Longrightarrow> vstep v (v_unpin r (v\<lparr>v_ms := ms\<rparr>))"

section \<open>The invariant\<close>

text \<open>The counter of each line is the number of pending tokens that pin it.\<close>

definition pins_match :: "u32 list \<Rightarrow> (mf_ref \<times> nat) list \<Rightarrow> bool" where
  "pins_match ps pend \<longleftrightarrow> distinct (map fst pend) \<and> (\<forall>i \<in> snd ` set pend. i < length ps)
     \<and> (\<forall>i < length ps. ps ! i = of_nat (count_val i pend))"

text \<open>Every block of the table is either being fetched, by one token, or ready.\<close>

definition blocks_ok :: "mshr_table \<Rightarrow> (mf_ref \<times> new_addr_type) list \<Rightarrow> bool" where
  "blocks_ok ms extra \<longleftrightarrow> mshr_inv ms \<and> distinct (map fst extra)
     \<and> (\<forall>(r, a) \<in> set extra. r \<in> set (mshr_waiting ms a))
     \<and> distinct (map snd extra @ m_current_response ms)
     \<and> set (map snd extra @ m_current_response ms) = {a. mshr_waiting ms a \<noteq> []}"

definition view_inv :: "cache_view \<Rightarrow> bool" where
  "view_inv v \<longleftrightarrow> pins_match (v_pins v) (v_pend v) \<and> blocks_ok (v_ms v) (v_extra v)
     \<and> (if v_defer v then mset (map fst (v_pend v)) = tokens v
        else v_pend v = [] \<and> v_hits v = [] \<and> v_ready v = [])"

subsection \<open>Pins\<close>

lemma pins_match_pin:
  assumes m: "pins_match ps pend" and r: "r \<notin> fst ` set pend" and i: "i < length ps"
  shows "pins_match (ps[i := ps ! i + 1]) (AList.update r i pend)"
proof -
  have "\<forall>j \<in> snd ` set (AList.update r i pend). j < length ps"
    by (rule entries_update) (use m i in \<open>auto simp: pins_match_def\<close>)
  with m r i show ?thesis
    by (simp add: pins_match_def distinct_update count_val_update_fresh nth_list_update)
qed

lemma pins_match_unpin:
  assumes m: "pins_match ps pend" and r: "map_of pend r = Some i"
  shows "pins_match (ps[i := ps ! i - 1]) (AList.delete r pend)" "i < length ps"
    "ps ! i = of_nat (count_val i pend)" "0 < count_val i pend"
proof -
  have d: "distinct (map fst pend)" using m by (simp add: pins_match_def)
  have "i \<in> snd ` set pend" using map_of_SomeD [OF r] by force
  then show i: "i < length ps" using m by (auto simp: pins_match_def)
  show p: "ps ! i = of_nat (count_val i pend)" using m i by (simp add: pins_match_def)
  show "0 < count_val i pend" using r by (rule count_val_pos)
  have "\<forall>j \<in> snd ` set (AList.delete r pend). j < length ps"
    by (rule entries_delete) (use m in \<open>simp add: pins_match_def\<close>)
  moreover have "ps[i := ps ! i - 1] ! j = of_nat (count_val j (AList.delete r pend))"
    if j: "j < length ps" for j
  proof -
    have c: "count_val j pend = count_val j (AList.delete r pend) + (if i = j then 1 else 0)"
      using count_val_delete [OF d r, of j] by simp
    have "ps ! j = of_nat (count_val j pend)" using m j by (simp add: pins_match_def)
    with c j show ?thesis by (cases "i = j") simp_all
  qed
  ultimately show "pins_match (ps[i := ps ! i - 1]) (AList.delete r pend)"
    using d by (simp add: pins_match_def distinct_delete)
qed

subsection \<open>Blocks\<close>

lemma waiting_outstanding:
  "r \<in> set (mshr_waiting ms a) \<Longrightarrow> r \<in># mshr_outstanding ms"
proof -
  assume r: "r \<in> set (mshr_waiting ms a)"
  then obtain e where e: "map_of (m_data ms) a = Some e" "r \<in> set (m_list e)"
    by (auto simp: mshr_waiting_def mshr_lookup_def new_mshr_entry_def split: option.splits)
  have "r \<in># (\<Sum>e \<leftarrow> d. mset (m_list (snd e)))" if "(a, e) \<in> set d" for d
    using that e(2) by (induction d) auto
  from this [OF map_of_SomeD [OF e(1)]] show ?thesis by (simp add: mshr_outstanding_def)
qed

lemma blocks_waiting: "blocks_ok ms extra \<Longrightarrow> (r, a) \<in> set extra \<Longrightarrow> r \<in># mshr_outstanding ms"
  by (auto simp: blocks_ok_def intro: waiting_outstanding)

lemma map_snd_update_fresh:
  "k \<notin> fst ` set al \<Longrightarrow> map snd (AList.update k v al) = map snd al @ [v]"
  by (induction al) auto

lemma set_update_fresh: "k \<notin> fst ` set al \<Longrightarrow> set (AList.update k v al) = insert (k, v) (set al)"
  by (induction al) auto

lemma snd_delete_distinct:
  assumes "distinct (map fst al)" "distinct (map snd al)" "map_of al k = Some v"
  shows "distinct (map snd (AList.delete k al)) \<and> snd ` set (AList.delete k al) = snd ` set al - {v}"
  using assms
proof (induction al)
  case Nil
  then show ?case by simp
next
  case (Cons p al)
  show ?case
  proof (cases "fst p = k")
    case True
    with Cons.prems have "AList.delete k al = al"
      by (auto simp: delete_notin_dom dom_map_of_conv_image_fst)
    with True Cons.prems show ?thesis by (cases p) auto
  next
    case False
    with Cons.prems have k: "map_of al k = Some v" by (cases p) simp
    with Cons have ih: "distinct (map snd (AList.delete k al))"
      "snd ` set (AList.delete k al) = snd ` set al - {v}" by auto
    have "v \<in> snd ` set al" using map_of_SomeD [OF k] by force
    then have "snd p \<noteq> v" using Cons.prems(2) by auto
    with ih False Cons.prems(2) show ?thesis by (cases p) auto
  qed
qed

lemma set_delete_subset: "set (AList.delete k al) \<subseteq> set al"
  by (induction al) auto

lemma blocks_merge:
  assumes ok: "blocks_ok ms extra" and p: "mshr_probe ms a" and add: "mshr_add a r m ms = Some ms'"
  shows "blocks_ok ms' extra"
proof -
  have inv: "mshr_inv ms" using ok by (simp add: blocks_ok_def)
  from mshr_add_spec [OF inv add] have s: "mshr_inv ms'"
    "mshr_waiting ms' = (mshr_waiting ms)(a := mshr_waiting ms a @ [r])"
    "m_current_response ms' = m_current_response ms" by auto
  have "mshr_waiting ms a \<noteq> []" using p inv by (simp add: mshr_waiting_nonempty)
  then have "{b. mshr_waiting ms' b \<noteq> []} = {b. mshr_waiting ms b \<noteq> []}" by (auto simp: s(2))
  with ok s show ?thesis by (auto simp: blocks_ok_def)
qed

lemma blocks_miss:
  assumes ok: "blocks_ok ms extra" and p: "\<not> mshr_probe ms a" and add: "mshr_add a r m ms = Some ms'"
    and r: "r \<notin># mshr_outstanding ms"
  shows "blocks_ok ms' (AList.update r a extra)"
proof -
  have inv: "mshr_inv ms" using ok by (simp add: blocks_ok_def)
  from mshr_add_spec [OF inv add] have s: "mshr_inv ms'"
    "mshr_waiting ms' = (mshr_waiting ms)(a := mshr_waiting ms a @ [r])"
    "m_current_response ms' = m_current_response ms" by auto
  have w: "mshr_waiting ms a = []" using p inv mshr_waiting_nonempty by blast
  have fresh: "r \<notin> fst ` set extra" using ok r blocks_waiting by fastforce
  have a: "a \<notin> set (map snd extra @ m_current_response ms)" using ok w by (auto simp: blocks_ok_def)
  have "{b. mshr_waiting ms' b \<noteq> []} = insert a {b. mshr_waiting ms b \<noteq> []}" by (auto simp: s(2))
  moreover have "\<forall>(q, b) \<in> set (AList.update r a extra). q \<in> set (mshr_waiting ms' b)"
    using ok a by (auto simp: set_update_fresh [OF fresh] s(2) blocks_ok_def)
  ultimately show ?thesis
    using ok a s(1,3) unfolding blocks_ok_def map_snd_update_fresh [OF fresh]
    by (auto simp: distinct_update)
qed

lemma blocks_fill:
  assumes ok: "blocks_ok ms extra" and r: "map_of extra r = Some a"
    and mark: "mshr_mark_ready a ms = Some (b, ms')"
  shows "blocks_ok ms' (AList.delete r extra)" "mshr_outstanding ms' = mshr_outstanding ms"
proof -
  have inv: "mshr_inv ms" using ok by (simp add: blocks_ok_def)
  have a: "a \<in> set (map snd extra)" using map_of_SomeD [OF r] by force
  with ok have "mshr_waiting ms a \<noteq> []" "a \<notin> set (m_current_response ms)"
    by (auto simp: blocks_ok_def)
  from mshr_mark_spec [OF inv this] mark have s: "mshr_inv ms'" "mshr_waiting ms' = mshr_waiting ms"
    "m_current_response ms' = m_current_response ms @ [a]" "mshr_outstanding ms' = mshr_outstanding ms"
    by auto
  show "mshr_outstanding ms' = mshr_outstanding ms" by (rule s(4))
  have d: "distinct (map fst extra)" "distinct (map snd extra)" using ok by (auto simp: blocks_ok_def)
  note del = snd_delete_distinct [OF d r]
  let ?new = "map snd (AList.delete r extra) @ m_current_response ms @ [a]"
  have "distinct (map snd extra @ m_current_response ms)" using ok unfolding blocks_ok_def by blast
  then have "distinct ?new" using del \<open>a \<notin> set (m_current_response ms)\<close> by auto
  moreover have "set ?new = set (map snd extra @ m_current_response ms)" using del a by auto
  then have "set ?new = {a. mshr_waiting ms a \<noteq> []}" using ok unfolding blocks_ok_def by blast
  moreover have "\<forall>(q, b) \<in> set extra. q \<in> set (mshr_waiting ms b)"
    using ok unfolding blocks_ok_def by blast
  then have "\<forall>(q, b) \<in> set (AList.delete r extra). q \<in> set (mshr_waiting ms b)"
    using set_delete_subset [of r extra] by blast
  ultimately show "blocks_ok ms' (AList.delete r extra)"
    using s(1) d(1) unfolding blocks_ok_def s(2,3) by (simp add: distinct_delete)
qed

lemma blocks_next:
  assumes ok: "blocks_ok ms extra" and nxt: "mshr_next_access ms = Some (r, ms')"
  shows "blocks_ok ms' extra" "mshr_outstanding ms = add_mset r (mshr_outstanding ms')"
proof -
  have inv: "mshr_inv ms" using ok by (simp add: blocks_ok_def)
  from nxt obtain a rest where cur: "m_current_response ms = a # rest"
    by (auto simp: mshr_next_access_def split: list.splits)
  from mshr_next_spec [OF inv cur] nxt obtain rs where
    s: "mshr_inv ms'" "mshr_waiting ms a = r # rs" "mshr_waiting ms' = (mshr_waiting ms)(a := rs)"
    "m_current_response ms' = (if rs = [] then rest else a # rest)"
    "mshr_outstanding ms = add_mset r (mshr_outstanding ms')" by auto
  show "mshr_outstanding ms = add_mset r (mshr_outstanding ms')" by (rule s(5))
  have f: "distinct (map fst extra)" "\<forall>(q, b) \<in> set extra. q \<in> set (mshr_waiting ms b)"
    and d: "distinct (map snd extra @ a # rest)"
    and w: "set (map snd extra @ a # rest) = {b. mshr_waiting ms b \<noteq> []}"
    using ok cur unfolding blocks_ok_def by auto
  have a: "a \<notin> snd ` set extra" "a \<notin> set rest" using d by auto
  have q: "\<forall>(q, b) \<in> set extra. q \<in> set (mshr_waiting ms' b)" using f(2) a(1) by (force simp: s(3))
  have d': "distinct (map snd extra @ m_current_response ms')" using d s(4) by auto
  have "{b. mshr_waiting ms' b \<noteq> []} =
      (if rs = [] then {b. mshr_waiting ms b \<noteq> []} - {a} else {b. mshr_waiting ms b \<noteq> []})"
    by (auto simp: s(2,3))
  then have "set (map snd extra @ m_current_response ms') = {b. mshr_waiting ms' b \<noteq> []}"
    using w [symmetric] a s(4) by auto
  then show "blocks_ok ms' extra" using s(1) f(1) q d' unfolding blocks_ok_def by blast
qed

subsection \<open>Steps\<close>

lemma image_keys_update_fresh:
  "k \<notin> fst ` set al \<Longrightarrow>
   image_mset fst (mset (AList.update k v al)) = add_mset k (image_mset fst (mset al))"
  using mset_keys_update_fresh [of k al v] by simp

lemma view_inv_pend:
  assumes "view_inv v" "v_defer v" "r \<notin># tokens v"
  shows "r \<notin> fst ` set (v_pend v)"
proof -
  have "mset (map fst (v_pend v)) = tokens v" using assms by (simp add: view_inv_def)
  then have "set_mset (tokens v) = fst ` set (v_pend v)" by (metis set_map set_mset_mset)
  with assms(3) show ?thesis by auto
qed

lemma view_inv_map_of:
  assumes "view_inv v" "v_defer v" "r \<in># tokens v"
  obtains i where "map_of (v_pend v) r = Some i"
proof -
  have "mset (map fst (v_pend v)) = tokens v" using assms by (simp add: view_inv_def)
  then have "set_mset (tokens v) = fst ` set (v_pend v)" by (metis set_map set_mset_mset)
  with assms(3) have "r \<in> fst ` set (v_pend v)" by simp
  then show thesis using that by (metis map_of_None_iff_fst not_None_eq)
qed

text \<open>Taking a token out of the tokens and of the pins together.\<close>

lemma view_inv_unpin:
  assumes inv: "view_inv v" and b: "blocks_ok ms (v_extra v)"
    and t: "tokens v = add_mset r (tokens (v\<lparr>v_ready := rest, v_ms := ms\<rparr>))"
    and nd: "\<not> v_defer v \<Longrightarrow> rest = []"
  shows "view_inv (v_unpin r (v\<lparr>v_ready := rest, v_ms := ms\<rparr>))"
proof (cases "v_defer v")
  case True
  have "r \<in># tokens v" using t by simp
  with inv True obtain i where i: "map_of (v_pend v) r = Some i" by (rule view_inv_map_of)
  have m: "pins_match (v_pins v) (v_pend v)" and k: "mset (map fst (v_pend v)) = tokens v"
    using inv True by (simp_all add: view_inv_def)
  have "r \<in> fst ` set (v_pend v)" using i by (metis map_of_None_iff_fst option.distinct(1))
  then have "add_mset r (mset (map fst (AList.delete r (v_pend v)))) = tokens v"
    using m k mset_keys_delete [of "v_pend v" r] by (simp add: pins_match_def)
  then have "mset (map fst (AList.delete r (v_pend v))) = tokens (v\<lparr>v_ready := rest, v_ms := ms\<rparr>)"
    using t by simp
  then show ?thesis
    using pins_match_unpin(1) [OF m i] b True
    by (simp add: view_inv_def v_unpin_def i tokens_def)
next
  case False
  then have p: "v_pend v = []" "v_hits v = []" "pins_match (v_pins v) (v_pend v)"
    using inv False by (auto simp: view_inv_def)
  with b nd False show ?thesis by (simp add: view_inv_def v_unpin_def)
qed

theorem vstep_inv: "vstep v v' \<Longrightarrow> view_inv v \<Longrightarrow> view_inv v'"
proof (induction rule: vstep.induct)
  case (hit v r i)
  then have "r \<notin> fst ` set (v_pend v)" by (simp add: view_inv_pend)
  with hit show ?case
    by (simp add: view_inv_def v_pin_def pins_match_pin image_keys_update_fresh tokens_def)
next
  case (merge r v i a m ms)
  have inv: "mshr_inv (v_ms v)" using merge by (simp add: view_inv_def blocks_ok_def)
  have o: "mshr_outstanding ms = add_mset r (mshr_outstanding (v_ms v))"
    using mshr_add_spec [OF inv merge(4)] by blast
  have b: "blocks_ok ms (v_extra v)" using merge by (auto simp: view_inv_def intro: blocks_merge)
  show ?case
  proof (cases "v_defer v")
    case True
    with merge have "r \<notin> fst ` set (v_pend v)" by (simp add: view_inv_pend)
    with True merge b o show ?thesis
      by (simp add: view_inv_def v_pin_if_def v_pin_def pins_match_pin image_keys_update_fresh tokens_def)
  next
    case False
    with merge(5) have "v_pend v = []" "v_hits v = []" "v_ready v = []"
        "pins_match (v_pins v) (v_pend v)" by (auto simp: view_inv_def)
    with False b show ?thesis by (simp add: view_inv_def v_pin_if_def)
  qed
next
  case (miss r v i a m ms)
  have inv: "mshr_inv (v_ms v)" using miss by (simp add: view_inv_def blocks_ok_def)
  have o: "mshr_outstanding ms = add_mset r (mshr_outstanding (v_ms v))"
    using mshr_add_spec [OF inv miss(4)] by blast
  have b: "blocks_ok ms (AList.update r a (v_extra v))"
    using miss by (auto simp: view_inv_def tokens_def intro: blocks_miss)
  show ?case
  proof (cases "v_defer v")
    case True
    with miss have "r \<notin> fst ` set (v_pend v)" by (simp add: view_inv_pend)
    with True miss b o show ?thesis
      by (simp add: view_inv_def v_pin_if_def v_pin_def pins_match_pin image_keys_update_fresh tokens_def)
  next
    case False
    with miss(5) have "v_pend v = []" "v_hits v = []" "v_ready v = []"
        "pins_match (v_pins v) (v_pend v)" by (auto simp: view_inv_def)
    with False b show ?thesis by (simp add: view_inv_def v_pin_if_def)
  qed
next
  case (tick hits ready v)
  then show ?case by (simp add: view_inv_def tokens_def)
next
  case (fill v r a b ms)
  then have "blocks_ok (v_ms v) (v_extra v)" by (simp add: view_inv_def)
  from blocks_fill [OF this fill(1,2)] fill(3) show ?case by (auto simp: view_inv_def tokens_def)
next
  case (deliver_hit v r rest)
  have "view_inv (v_unpin r (v\<lparr>v_ready := rest, v_ms := v_ms v\<rparr>))"
    by (rule view_inv_unpin)
      (use deliver_hit in \<open>auto simp: view_inv_def tokens_def split: if_splits\<close>)
  then show ?case by simp
next
  case (deliver_miss v r ms)
  then have b: "blocks_ok (v_ms v) (v_extra v)" by (simp add: view_inv_def)
  note nx = blocks_next [OF b deliver_miss(2)]
  have "view_inv (v_unpin r (v\<lparr>v_ready := [], v_ms := ms\<rparr>))"
    by (rule view_inv_unpin) (use deliver_miss nx in \<open>auto simp: tokens_def\<close>)
  moreover have "v\<lparr>v_ready := [], v_ms := ms\<rparr> = v\<lparr>v_ms := ms\<rparr>" using deliver_miss(1) by simp
  ultimately show ?case by simp
qed

lemma vsteps_inv: "vstep\<^sup>*\<^sup>* v v' \<Longrightarrow> view_inv v \<Longrightarrow> view_inv v'"
  by (induction rule: rtranclp_induct) (auto dest: vstep_inv)

end
