(* ===== verification/CacheFrame.thy ===== *)
theory CacheFrame
  imports Protocol
begin

text \<open>
  What the operations of \<open>baseline_cache\<close> and \<open>data_cache\<close> do to the view of a cache. \<open>quiet k\<close>:
  nothing changes but statistics, events, tokens' fields and at most \<open>k\<close> more entries of the miss
  queue. \<open>moves T k\<close>: the view changes by a run of the specification's steps, the tokens owed grow
  by \<open>T\<close>. The operations get one lemma each; the properties rest on them.
\<close>

section \<open>Frames\<close>

definition heap_le :: "mf_heap \<Rightarrow> mf_heap \<Rightarrow> bool" where
  "heap_le h h' \<longleftrightarrow> next_mf h \<le> next_mf h' \<and> (heap_ok h \<longrightarrow> heap_ok h')"

definition quiet :: "nat \<Rightarrow> 'a baseline_cache_scheme \<Rightarrow> 'a baseline_cache_scheme \<Rightarrow> bool" where
  "quiet k c c' \<longleftrightarrow> view c' = view c \<and> m_config c' = m_config c
     \<and> length (m_miss_queue c') \<le> length (m_miss_queue c) + k \<and> heap_le (g_heap c) (g_heap c')"

definition moves ::
  "mf_ref multiset \<Rightarrow> nat \<Rightarrow> 'a baseline_cache_scheme \<Rightarrow> 'a baseline_cache_scheme \<Rightarrow> bool" where
  "moves T k c c' \<longleftrightarrow> m_config c' = m_config c
     \<and> length (m_miss_queue c') \<le> length (m_miss_queue c) + k \<and> heap_le (g_heap c) (g_heap c')
     \<and> (view_inv (view c) \<longrightarrow>
         vstep\<^sup>*\<^sup>* (view c) (view c') \<and> tokens (view c') = tokens (view c) + T)"

lemma heap_le_refl [simp]: "heap_le h h"
  by (simp add: heap_le_def)

lemma heap_le_trans: "heap_le g h \<Longrightarrow> heap_le h k \<Longrightarrow> heap_le g k"
  by (auto simp: heap_le_def)

lemma heap_le_upd: "heap_upd r f h = Some h' \<Longrightarrow> heap_le h h'"
  by (auto simp: heap_le_def intro: heap_ok_upd)

lemma heap_le_new: "heap_le h (snd (heap_new mf h))"
  using heap_ok_new [of h mf] by (auto simp: heap_le_def heap_new_def)

lemma heap_le_delete: "heap_le h (heap_delete r h)"
  using heap_ok_delete [of h r] by (auto simp: heap_le_def heap_delete_def)

lemma quiet_refl [simp, intro]: "quiet k c c"
  by (simp add: quiet_def)

lemma quiet_trans: "quiet j a b \<Longrightarrow> quiet k b c \<Longrightarrow> quiet (j + k) a c"
  by (auto simp: quiet_def intro: heap_le_trans)

lemma quiet_trans0: "quiet 0 a b \<Longrightarrow> quiet k b c \<Longrightarrow> quiet k a c"
  using quiet_trans [of 0 a b k c] by simp

lemma quiet_config: "quiet k c c' \<Longrightarrow> m_config c' = m_config c"
  by (simp add: quiet_def)

lemma quiet_view: "quiet k c c' \<Longrightarrow> view c' = view c"
  by (simp add: quiet_def)

lemma quiet_moves: "quiet k c c' \<Longrightarrow> moves {#} k c c'"
  by (simp add: quiet_def moves_def)

lemma moves_refl [simp, intro]: "moves {#} k c c"
  by (simp add: moves_def)

lemma moves_mono: "moves T j a b \<Longrightarrow> j \<le> k \<Longrightarrow> moves T k a b"
  by (auto simp: moves_def)

lemma moves_trans:
  assumes "moves S j a b" "moves T k b c"
  shows "moves (S + T) (j + k) a c"
proof -
  have "vstep\<^sup>*\<^sup>* (view a) (view c) \<and> tokens (view c) = tokens (view a) + (S + T)"
    if inv: "view_inv (view a)"
  proof -
    have 1: "vstep\<^sup>*\<^sup>* (view a) (view b)" "tokens (view b) = tokens (view a) + S"
      using assms(1) inv by (auto simp: moves_def)
    have "view_inv (view b)" using vsteps_inv [OF 1(1) inv] .
    with assms(2) have "vstep\<^sup>*\<^sup>* (view b) (view c)" "tokens (view c) = tokens (view b) + T"
      by (auto simp: moves_def)
    with 1 show ?thesis by (metis rtranclp_trans add.assoc)
  qed
  with assms show ?thesis by (auto simp: moves_def intro: heap_le_trans)
qed

lemma moves_quiet: "moves T j a b \<Longrightarrow> quiet k b c \<Longrightarrow> moves T (j + k) a c"
  using moves_trans [of T j a b "{#}" k c] by (simp add: quiet_moves)

lemma quiet_then_moves: "quiet j a b \<Longrightarrow> moves T k b c \<Longrightarrow> moves T (j + k) a c"
  using moves_trans [of "{#}" j a b T k c] by (simp add: quiet_moves)

lemma moves_config: "moves T k c c' \<Longrightarrow> m_config c' = m_config c"
  by (simp add: moves_def)

section \<open>Operations that leave the view alone\<close>

lemma view_simps [simp]:
  "view (c\<lparr>m_stats := s\<rparr>) = view c" "view (c\<lparr>m_miss_queue := q\<rparr>) = view c"
  "view (c\<lparr>g_heap := h\<rparr>) = view c" "view (c\<lparr>g_events := e\<rparr>) = view c"
  "view (c\<lparr>m_bandwidth_management := bw\<rparr>) = view c"
  "view (c\<lparr>m_mshrs := ms\<rparr>) = (view c)\<lparr>v_ms := ms\<rparr>"
  "view (c\<lparr>m_ready_response_queue := q\<rparr>) = (view c)\<lparr>v_ready := q\<rparr>"
  by (simp_all add: view_def)

lemma view_creator [simp]: "view (c\<lparr>m_memfetch_creator := al\<rparr>) = view c"
  by (simp add: view_def)

lemma view_tags: "pins ta = pins (m_tag_array c) \<Longrightarrow> view (c\<lparr>m_tag_array := ta\<rparr>) = view c"
  by (simp add: view_def)

lemma quiet_tags: "pins ta = pins (m_tag_array c) \<Longrightarrow> quiet 0 c (c\<lparr>m_tag_array := ta\<rparr>)"
  by (simp add: quiet_def view_tags)

lemma quiet_bandwidth: "quiet 0 c (c\<lparr>m_bandwidth_management := bw\<rparr>)"
  by (simp add: quiet_def)

lemma quiet_upd_mf: "upd_mf r f c = Some c' \<Longrightarrow> quiet 0 c c'"
  by (auto simp: upd_mf_def quiet_def intro: heap_le_upd)

lemma quiet_push_event: "quiet 0 c (push_event e c)"
  by (simp add: push_event_def quiet_def)

lemma quiet_count_stats: "count_stats ty st sid c = Some c' \<Longrightarrow> quiet 0 c c'"
  by (auto simp: count_stats_def quiet_def)

lemma quiet_count_stats_pw: "count_stats_pw ty st sid c = Some c' \<Longrightarrow> quiet 0 c c'"
  by (auto simp: count_stats_pw_def quiet_def)

lemma quiet_count_fail: "count_fail mf why c = Some c' \<Longrightarrow> quiet 0 c c'"
  by (auto simp: count_fail_def quiet_def)

lemma quiet_count_outcome: "count_outcome mf p a c = Some c' \<Longrightarrow> quiet 0 c c'"
  by (auto simp: count_outcome_def Let_def bind_Some_iff
      intro: quiet_trans0 quiet_count_stats quiet_count_stats_pw)

lemma quiet_count_missing: "count_missing_resource n maddr mf c = Some c' \<Longrightarrow> quiet 0 c c'"
  by (auto simp: count_missing_resource_def Let_def dest: quiet_count_fail split: if_splits)

lemma quiet_charge: "charge_data_port r st c = Some c' \<Longrightarrow> quiet 0 c c'"
  by (auto simp: charge_data_port_def bind_Some_iff quiet_bandwidth)

lemma quiet_send_write: "send_write_request r ev t c = Some c' \<Longrightarrow> quiet 1 c c'"
proof -
  assume "send_write_request r ev t c = Some c'"
  then have "quiet 0 ((push_event ev c)\<lparr>m_miss_queue := m_miss_queue c @ [r]\<rparr>) c'"
    by (auto simp: send_write_request_def Let_def push_event_def dest: quiet_upd_mf)
  moreover have "quiet 1 c ((push_event ev c)\<lparr>m_miss_queue := m_miss_queue c @ [r]\<rparr>)"
    by (simp add: quiet_def push_event_def)
  ultimately show ?thesis using quiet_trans [of 1 c _ 0 c'] by simp
qed

lemma quiet_write_back:
  assumes "write_back r wb ev req t c = Some c'"
  shows "quiet (if m_write_policy (m_config c) = WRITE_THROUGH then 0 else 1) c c'"
proof (cases "wb \<and> m_write_policy (m_config c) \<noteq> WRITE_THROUGH")
  case True
  with assms obtain mf where mf: "get_mf r c = Some mf"
    by (auto simp: write_back_def bind_Some_iff)
  obtain w al h where al: "alloc_masked (ev_block_addr ev) (m_wrbk_type c) (get_access_warp_mask mf)
      (ev_byte_mask ev) (ev_sector_mask ev) (ev_modified_size ev) True (- 1) (- 1) (- 1) None
      (m_streamID mf) (m_memfetch_creator c) (g_heap c) = (w, al, h)"
    by (metis prod_cases3)
  from assms True obtain c1 c2 where
    1: "upd_mf w (set_chip (tlx_chip mf)) (c\<lparr>m_memfetch_creator := al, g_heap := h\<rparr>) = Some c1"
    and 2: "upd_mf w (set_partition (tlx_sub_partition mf)) c1 = Some c2"
    and 3: "send_write_request w req t c2 = Some c'"
    by (auto simp: write_back_def bind_Some_iff Let_def mf al)
  have "heap_le (g_heap c) h"
    using al by (auto simp: alloc_masked_def Let_def heap_new_def heap_le_def intro: heap_ok_new
        dest: heap_ok_new split: prod.splits simp: heap_ok_def less_Suc_eq)
  then have "quiet 0 c (c\<lparr>m_memfetch_creator := al, g_heap := h\<rparr>)" by (simp add: quiet_def)
  then have "quiet 1 c c'"
    by (rule quiet_trans0 [OF _ quiet_trans0 [OF quiet_upd_mf [OF 1]
          quiet_trans0 [OF quiet_upd_mf [OF 2] quiet_send_write [OF 3]]]])
  with True show ?thesis by simp
next
  case False
  with assms show ?thesis by (auto simp: write_back_def)
qed

lemma pins_mark_modified: "mark_modified i mf ta = Some ta' \<Longrightarrow> pins ta' = pins ta"
proof -
  assume "mark_modified i mf ta = Some ta'"
  then obtain b ta1 where b: "blk_set_status MODIFIED (get_access_sector_mask mf) (m_lines ta ! i) = Some b"
    and s: "set_line i (blk_set_byte_mask (get_access_byte_mask mf) b) ta1 = Some ta'"
    and p: "pins ta1 = pins ta"
    by (auto simp: mark_modified_def bind_Some_iff get_block_Some Let_def split: if_splits)
  show ?thesis by (rule pins_set_line_keep [OF s p]) (simp add: pending_set_status [OF b])
qed

lemma pins_update_readable: "update_m_readable mf i ta = Some ta' \<Longrightarrow> pins ta' = pins ta"
proof -
  assume "update_m_readable mf i ta = Some ta'"
  then obtain b where f: "fold_opt (\<lambda>i b.
        if bit (get_access_sector_mask mf) i \<and> sector_all_set (blk_dirty_byte_mask b) i
        then blk_set_m_readable True (get_access_sector_mask mf) b else Some b)
      sectors (m_lines ta ! i) = Some b" and s: "set_line i b ta = Some ta'"
    by (auto simp: update_m_readable_def bind_Some_iff get_block_Some)
  have "blk_pending b = blk_pending (m_lines ta ! i)"
    by (rule fold_opt_rule [where P = "\<lambda>b. blk_pending b = blk_pending (m_lines ta ! i)", OF f])
      (auto split: if_splits dest: pending_set_m_readable)
  then show ?thesis by (intro pins_set_line_keep [OF s]) simp_all
qed

lemmas pins_ops = pins_access pins_access_no_wb pins_fill_index pins_fill_addr pins_flush
  pins_invalidate pins_probe pins_mark_modified pins_update_readable

lemma quiet_request:
  "request_tag_access ba t i mf ro wb ev c = Some (j, wb', ev', c') \<Longrightarrow> quiet 0 c c'"
  by (auto simp: request_tag_access_def split: if_splits intro: quiet_tags dest: pins_access pins_access_no_wb)

lemma request_same: "request_tag_access ba t i mf ro wb ev c = Some (j, wb', ev', c') \<Longrightarrow>
    m_mshrs c' = m_mshrs c \<and> m_miss_queue c' = m_miss_queue c"
  by (auto simp: request_tag_access_def split: if_splits)

lemma quiet_flush: "flush c = Some c' \<Longrightarrow> quiet 0 c c'"
  by (auto simp: flush_def intro: quiet_tags dest: pins_flush)

lemma quiet_invalidate: "invalidate c = Some c' \<Longrightarrow> quiet 0 c c'"
  by (auto simp: invalidate_def intro: quiet_tags dest: pins_invalidate)

lemma quiet_force: "force_tag_access a t sm c = Some c' \<Longrightarrow> quiet 0 c c'"
  by (auto simp: force_tag_access_def intro: quiet_tags dest: pins_fill_addr)

end
