(* ===== verification/CacheMoves.thy ===== *)
theory CacheMoves
  imports CacheFrame
begin

text \<open>
  The operations that change the view: pinning, joining the MSHR table, deferred hits, delivery,
  the tick, the fill, and on top of them the handlers of the data cache and \<open>access\<close>.
\<close>

section \<open>Single steps\<close>

lemma pin_view:
  assumes "pin_response r i c = Some c'"
  shows "i < length (pins (m_tag_array c))" "view c' = v_pin r i (view c)"
    "m_config c' = m_config c" "m_miss_queue c' = m_miss_queue c" "g_heap c' = g_heap c"
    "m_hit_response_queue c' = m_hit_response_queue c"
  using assms
  by (auto simp: pin_response_def bind_Some_iff get_block_Some set_line_Some view_def v_pin_def
      pins_def map_update block_pins.pending_pin)

lemma unpin_view:
  assumes "unpin_response r c = Some c'"
  shows "view c' = v_unpin r (view c)" "m_config c' = m_config c" "m_miss_queue c' = m_miss_queue c"
    "g_heap c' = g_heap c"
  using assms
  by (auto simp: unpin_response_def bind_Some_iff get_block_Some set_line_Some view_def v_unpin_def
      pins_def map_update dest: block_pins.unpin_Some split: option.splits)

lemma join_view:
  assumes "join_mshr a r mf i c = Some c'"
  obtains ms where "mshr_add a r mf (m_mshrs c) = Some ms"
    "v_defer (view c) \<longrightarrow> i < length (v_pins (view c))"
    "view c' = v_pin_if r i ((view c)\<lparr>v_ms := ms\<rparr>)" "m_config c' = m_config c"
    "m_miss_queue c' = m_miss_queue c" "g_heap c' = g_heap c"
proof -
  from assms obtain ms where ms: "mshr_add a r mf (m_mshrs c) = Some ms"
    and j: "(if m_defer_hit_response (m_config c) then pin_response r i (c\<lparr>m_mshrs := ms\<rparr>)
             else Some (c\<lparr>m_mshrs := ms\<rparr>)) = Some c'"
    by (auto simp: join_mshr_def bind_Some_iff Let_def)
  have d: "v_defer (view c) = m_defer_hit_response (m_config c)" by (simp add: view_def)
  show thesis
  proof (cases "m_defer_hit_response (m_config c)")
    case True
    with j have p: "pin_response r i (c\<lparr>m_mshrs := ms\<rparr>) = Some c'" by simp
    from pin_view [OF p] show thesis
      by (intro that [OF ms]) (simp_all add: d v_pin_if_def True, simp add: view_def)
  next
    case False
    with j show thesis by (intro that [OF ms]) (auto simp: d v_pin_if_def)
  qed
qed

text \<open>One specification step, with its effect on the tokens, is a move.\<close>

lemma step_moves:
  assumes "view_inv (view c) \<Longrightarrow> vstep (view c) (view c')"
    and "view_inv (view c) \<Longrightarrow> tokens (view c') = tokens (view c) + T"
    and "m_config c' = m_config c" "length (m_miss_queue c') \<le> length (m_miss_queue c) + k"
    and "heap_le (g_heap c) (g_heap c')"
  shows "moves T k c c'"
  using assms by (auto simp: moves_def)

lemma tokens_pin [simp]: "tokens (v_pin r i v) = tokens v" "tokens (v_pin_if r i v) = tokens v"
  by (simp_all add: tokens_def v_pin_def v_pin_if_def)

lemma tokens_add:
  assumes "view_inv v" "mshr_add a r m (v_ms v) = Some ms"
  shows "tokens (v\<lparr>v_ms := ms\<rparr>) = tokens v + {#r#}"
proof -
  have "mshr_inv (v_ms v)" using assms(1) by (simp add: view_inv_def blocks_ok_def)
  from mshr.add_spec [OF this assms(2)] show ?thesis by (simp add: tokens_def)
qed

lemma enqueue_hit_moves:
  assumes e: "enqueue_hit_response r i c = Some c'" and d: "m_defer_hit_response (m_config c)"
    and r: "r \<notin># tokens (view c)"
  shows "moves {#r#} 0 c c'"
proof -
  from e obtain c1 n where p: "pin_response r i c = Some c1"
    and c': "c' = c1\<lparr>m_hit_response_queue :=
      m_hit_response_queue c1 @ [\<lparr>dr_mf = r, dr_remaining_cycles = n\<rparr>]\<rparr>"
    by (auto simp: enqueue_hit_response_def bind_Some_iff)
  note pv = pin_view [OF p]
  have "view c' = v_pin r i ((view c)\<lparr>v_hits := v_hits (view c) @ [r]\<rparr>)"
    using pv unfolding c' by (simp add: view_def v_pin_def)
  moreover have "vstep (view c) (v_pin r i ((view c)\<lparr>v_hits := v_hits (view c) @ [r]\<rparr>))"
    by (rule vstep.hit) (use d r pv(1) in \<open>simp_all add: view_def\<close>)
  ultimately show ?thesis
    by (intro step_moves) (simp_all add: pv c', simp add: tokens_def)
qed

text \<open>A read request is refused, merged into an outstanding miss, or sent on.\<close>

lemma merge_moves:
  assumes j: "join_mshr a r mf i c = Some c'" and p: "mshr_probe (m_mshrs c) a"
    and r: "r \<notin># tokens (view c)"
  shows "moves {#r#} 0 c c'"
  using j
proof (rule join_view, goal_cases)
  case (1 ms)
  have ms: "v_ms (view c) = m_mshrs c" by (simp add: view_def)
  have "vstep (view c) (v_pin_if r i ((view c)\<lparr>v_ms := ms\<rparr>))"
    using r 1 p by (intro vstep.merge) (auto simp: ms)
  with 1 show ?case by (intro step_moves) (simp_all add: tokens_add ms)
qed

lemma miss_moves:
  assumes j: "join_mshr a r mf i c = Some c'" and p: "\<not> mshr_probe (m_mshrs c) a"
    and r: "r \<notin># tokens (view c)"
  shows "moves {#r#} 1 c (c'\<lparr>m_extra_mf_fields := AList.update r (new_extra_mf_fields a b i d cfg)
    (m_extra_mf_fields c'), m_miss_queue := m_miss_queue c' @ [r]\<rparr>)" (is "moves _ _ _ ?c")
  using j
proof (rule join_view, goal_cases)
  case (1 ms)
  let ?v = "v_pin_if r i ((view c)\<lparr>v_ms := ms, v_extra := AList.update r a (v_extra (view c))\<rparr>)"
  have ms: "v_ms (view c) = m_mshrs c" by (simp add: view_def)
  have e: "map (\<lambda>(r, e). (r, ex_block_addr e)) (AList.update r (new_extra_mf_fields a b i d cfg) xs)
     = AList.update r a (map (\<lambda>(r, e). (r, ex_block_addr e)) xs)" for xs
    by (induction xs) (auto simp: new_extra_mf_fields_def)
  have "v_extra (view c') = v_extra (view c)"
    by (simp add: 1(3) v_pin_if_def v_pin_def)
  then have "view (c'\<lparr>m_extra_mf_fields := AList.update r (new_extra_mf_fields a b i d cfg)
      (m_extra_mf_fields c')\<rparr>) = (view c')\<lparr>v_extra := AList.update r a (v_extra (view c))\<rparr>"
    by (simp add: view_def e)
  also have "\<dots> = ?v" by (simp add: 1(3) v_pin_if_def v_pin_def)
  finally have v: "view (c'\<lparr>m_extra_mf_fields := AList.update r (new_extra_mf_fields a b i d cfg)
      (m_extra_mf_fields c')\<rparr>) = ?v" .
  have "vstep (view c) ?v" using r 1 p by (intro vstep.miss) (auto simp: ms)
  moreover have "tokens ?v = tokens (view c) + {#r#}" if "view_inv (view c)"
  proof -
    have "tokens ?v = tokens ((view c)\<lparr>v_ms := ms\<rparr>)" by (simp add: tokens_def v_pin_if_def v_pin_def)
    also have "\<dots> = tokens (view c) + {#r#}" using 1(1) by (intro tokens_add [OF that]) (simp add: ms)
    finally show ?thesis .
  qed
  ultimately show ?case using 1 by (intro step_moves) (simp_all add: v)
qed

lemma send_read_moves:
  assumes s: "send_read_request ba i r t False wb ev ro wa c = Some (d, wb', ev', c')"
    and r: "r \<notin># tokens (view c)"
  shows "moves (if d then {#r#} else {#}) 1 c c'"
proof -
  obtain mf where mf: "get_mf r c = Some mf" using s by (auto simp: send_read_request_def bind_Some_iff)
  define a where "a = mshr_addr (m_config c) (get_addr mf)"
  note s' = s [unfolded send_read_request_def mf bind.bind_lunit Let_def a_def [symmetric]]
  consider (merge) "mshr_probe (m_mshrs c) a \<and> \<not> mshr_full (m_mshrs c) a"
    | (miss) "\<not> mshr_probe (m_mshrs c) a \<and> \<not> mshr_full (m_mshrs c) a
        \<and> length (m_miss_queue c) < unat (m_miss_queue_size (m_config c))"
    | (refused) "mshr_full (m_mshrs c) a"
    | (stuck) "\<not> mshr_probe (m_mshrs c) a" "\<not> mshr_full (m_mshrs c) a"
       "\<not> length (m_miss_queue c) < unat (m_miss_queue_size (m_config c))"
    by blast
  then show ?thesis
  proof cases
    case merge
    with s' obtain idx c1 c2 where
      1: "request_tag_access ba t i mf ro wb ev c = Some (idx, wb', ev', c1)"
      and 2: "join_mshr a r mf idx c1 = Some c2"
      and 3: "count_stats (get_access_type mf) MSHR_HIT (m_streamID mf) c2 = Some c'" and d
      by (auto simp: bind_Some_iff)
    have "moves {#r#} 0 c1 c2"
      by (rule merge_moves [OF 2]) (use merge r quiet_request [OF 1] request_same [OF 1] in
          \<open>simp_all add: quiet_def\<close>)
    then have "moves {#r#} 0 c c'"
      using quiet_then_moves [OF quiet_request [OF 1]] moves_quiet [OF _ quiet_count_stats [OF 3]]
      by fastforce
    with \<open>d\<close> show ?thesis by (simp add: moves_mono [where j = 0])
  next
    case miss
    with s' obtain idx wb1 ev1 c1 c2 c4 c5 c6 atom where
      1: "request_tag_access ba t i mf ro wb ev c = Some (idx, wb1, ev1, c1)"
      and 2: "join_mshr a r mf idx c1 = Some c2"
      and 4: "upd_mf r (set_data_size atom) (c2\<lparr>m_extra_mf_fields := AList.update r
              (new_extra_mf_fields a (get_addr mf) idx (m_data_size mf) (m_config c2))
              (m_extra_mf_fields c2)\<rparr>) = Some c4"
      and 5: "upd_mf r (set_addr a) c4 = Some c5"
      and 6: "upd_mf r (set_mf_status (m_miss_queue_status c5))
               (c5\<lparr>m_miss_queue := m_miss_queue c5 @ [r]\<rparr>) = Some c6"
      and c': "c' = (if wa then c6 else push_event (mk_event READ_REQUEST_SENT) c6)" and d
      by (auto simp: bind_Some_iff)
    let ?c3 = "c2\<lparr>m_extra_mf_fields := AList.update r
              (new_extra_mf_fields a (get_addr mf) idx (m_data_size mf) (m_config c2))
              (m_extra_mf_fields c2)\<rparr>"
    have q: "quiet 0 (?c3\<lparr>m_miss_queue := m_miss_queue c2 @ [r]\<rparr>) (c5\<lparr>m_miss_queue := m_miss_queue c5 @ [r]\<rparr>)"
    proof -
      obtain h5 where "c5 = ?c3\<lparr>g_heap := h5\<rparr>"
        using 4 5 by (auto simp: upd_mf_def)
      with quiet_trans0 [OF quiet_upd_mf [OF 4] quiet_upd_mf [OF 5]] show ?thesis
        by (simp add: quiet_def)
    qed
    have "moves {#r#} 1 c1 (?c3\<lparr>m_miss_queue := m_miss_queue c2 @ [r]\<rparr>)"
      using miss_moves [OF 2] miss r quiet_request [OF 1] request_same [OF 1] by (simp add: quiet_def)
    then have "moves {#r#} 1 c (?c3\<lparr>m_miss_queue := m_miss_queue c2 @ [r]\<rparr>)"
      using quiet_then_moves [OF quiet_request [OF 1]] by fastforce
    moreover have "quiet 0 (?c3\<lparr>m_miss_queue := m_miss_queue c2 @ [r]\<rparr>) c'"
      using quiet_trans0 [OF q quiet_trans0 [OF quiet_upd_mf [OF 6]]] quiet_push_event
      by (auto simp: c')
    ultimately have "moves {#r#} 1 c c'" using moves_quiet by fastforce
    with \<open>d\<close> show ?thesis by simp
  next
    case refused
    with s' show ?thesis
      by (auto simp: bind_Some_iff split: if_splits
          intro: moves_mono [OF quiet_moves [OF quiet_count_fail]])
  next
    case stuck
    with s' show ?thesis by (auto split: if_splits)
  qed
qed

text \<open>With the resources present the request is accepted.\<close>

lemma send_read_accepts:
  assumes s: "send_read_request ba i r t False wb ev ro wa c = Some (d, wb', ev', c')"
    and mf: "get_mf r c = Some mf"
    and f: "\<not> fetch_resources_missing n (mshr_addr (m_config c) (get_addr mf)) c"
  shows d
  using s f mf
  by (auto simp: send_read_request_def bind_Some_iff fetch_resources_missing_def Let_def split: if_splits)

section \<open>Responses, time, fills\<close>

lemma tick_tokens:
  "tick_hit_queue es ready = Some (q, ready') \<Longrightarrow>
   mset (map dr_mf q) + mset ready' = mset (map dr_mf es) + mset ready"
  by (induction es ready arbitrary: q rule: tick_hit_queue.induct)
    (auto simp: Let_def split: if_splits)

lemma cycle_moves:
  assumes "cycle full push port c = Some (port', c')"
  shows "moves {#} 0 c c'"
proof -
  from assms obtain hits ready c2 bw s where
    t: "tick_hit_queue (m_hit_response_queue c) (m_ready_response_queue c) = Some (hits, ready)"
    and c2: "(case m_miss_queue c of [] \<Rightarrow> Some (port, c\<lparr>m_hit_response_queue := hits, m_ready_response_queue := ready\<rparr>)
          | r # rest \<Rightarrow> do {
                mf \<leftarrow> get_mf r (c\<lparr>m_hit_response_queue := hits, m_ready_response_queue := ready\<rparr>);
                (if \<not> full port (m_data_size mf) (get_is_write mf)
                 then Some (push r port, c\<lparr>m_hit_response_queue := hits, m_ready_response_queue := ready,
                   m_miss_queue := rest\<rparr>)
                 else Some (port, c\<lparr>m_hit_response_queue := hits, m_ready_response_queue := ready\<rparr>))
              }) = Some (port', c2)"
    and c': "c' = c2\<lparr>m_stats := s, m_bandwidth_management := bw\<rparr>"
    by (auto simp: cycle_def bind_Some_iff Let_def)
  have q: "view c2 = view (c\<lparr>m_hit_response_queue := hits, m_ready_response_queue := ready\<rparr>)"
    "m_config c2 = m_config c" "g_heap c2 = g_heap c" "length (m_miss_queue c2) \<le> length (m_miss_queue c)"
    using c2 by (auto simp: bind_Some_iff split: list.splits if_splits)
  define v' where "v' = (view c)\<lparr>v_hits := map dr_mf hits, v_ready := ready\<rparr>"
  have v: "view c' = v'" using q(1) by (simp add: c' v'_def view_def)
  have m: "mset (map dr_mf hits) + mset ready = mset (v_hits (view c)) + mset (v_ready (view c))"
    using tick_tokens [OF t] by (simp add: view_def)
  have "vstep\<^sup>*\<^sup>* (view c) v'" if inv: "view_inv (view c)"
  proof (cases "v_defer (view c)")
    case True
    from vstep.tick [OF m this] show ?thesis by (simp add: v'_def r_into_rtranclp)
  next
    case False
    with inv have "v_hits (view c) = []" "v_ready (view c) = []" by (auto simp: view_inv_def)
    moreover from this m have "map dr_mf hits = []" "ready = []" by auto
    ultimately have "v' = view c" by (simp add: v'_def)
    then show ?thesis by simp
  qed
  moreover have "tokens v' = tokens (view c)" using m by (simp add: v'_def tokens_def)
  ultimately have "view_inv (view c) \<longrightarrow>
      vstep\<^sup>*\<^sup>* (view c) (view c') \<and> tokens (view c') = tokens (view c)" unfolding v by blast
  then show ?thesis using q(2-4) by (simp add: moves_def c')
qed

lemma next_access_step:
  assumes n: "next_access c = Some (r, c')" and inv: "view_inv (view c)"
  shows "vstep (view c) (view c')" "tokens (view c) = add_mset r (tokens (view c'))"
    "m_config c' = m_config c" "m_miss_queue c' = m_miss_queue c" "g_heap c' = g_heap c"
proof -
  have u: "tokens (v_unpin q v) = tokens v" for q v
    by (simp add: v_unpin_def tokens_def split: option.splits)
  have "vstep (view c) (view c') \<and> tokens (view c) = add_mset r (tokens (view c')) \<and>
    m_config c' = m_config c \<and> m_miss_queue c' = m_miss_queue c \<and> g_heap c' = g_heap c"
  proof (cases "m_ready_response_queue c")
    case (Cons q rest)
    with n have q: "q = r" and un: "unpin_response r (c\<lparr>m_ready_response_queue := rest\<rparr>) = Some c'"
      by (auto simp: next_access_def bind_Some_iff)
    have ready: "v_ready (view c) = r # rest" using Cons q by (simp add: view_def)
    have "view c' = v_unpin r ((view c)\<lparr>v_ready := rest\<rparr>)" using unpin_view(1) [OF un] by simp
    moreover from vstep.deliver_hit [OF ready]
    have "vstep (view c) (v_unpin r ((view c)\<lparr>v_ready := rest\<rparr>))" .
    moreover have "tokens (view c) = add_mset r (tokens (v_unpin r ((view c)\<lparr>v_ready := rest\<rparr>)))"
      unfolding u using ready by (simp add: tokens_def)
    ultimately show "vstep (view c) (view c') \<and> tokens (view c) = add_mset r (tokens (view c')) \<and>
      m_config c' = m_config c \<and> m_miss_queue c' = m_miss_queue c \<and> g_heap c' = g_heap c"
      using unpin_view(2-4) [OF un] by simp
  next
    case Nil
    with n obtain ms where ms: "mshr_next_access (m_mshrs c) = Some (r, ms)"
      and un: "unpin_response r (c\<lparr>m_mshrs := ms\<rparr>) = Some c'"
      by (auto simp: next_access_def bind_Some_iff)
    have v: "v_ready (view c) = []" "v_ms (view c) = m_mshrs c" using Nil by (simp_all add: view_def)
    have ok: "blocks_ok (m_mshrs c) (v_extra (view c))" using inv v by (simp add: view_inv_def)
    have "view c' = v_unpin r ((view c)\<lparr>v_ms := ms\<rparr>)" using unpin_view(1) [OF un] by simp
    moreover have "vstep (view c) (v_unpin r ((view c)\<lparr>v_ms := ms\<rparr>))"
      by (rule vstep.deliver_miss) (simp_all add: v ms)
    moreover have "tokens (view c) = add_mset r (tokens (v_unpin r ((view c)\<lparr>v_ms := ms\<rparr>)))"
      unfolding u using blocks_next(2) [OF ok ms] by (simp add: tokens_def v)
    ultimately show "vstep (view c) (view c') \<and> tokens (view c) = add_mset r (tokens (view c')) \<and>
      m_config c' = m_config c \<and> m_miss_queue c' = m_miss_queue c \<and> g_heap c' = g_heap c"
      using unpin_view(2-4) [OF un] by simp
  qed
  then show "vstep (view c) (view c')" "tokens (view c) = add_mset r (tokens (view c'))"
    "m_config c' = m_config c" "m_miss_queue c' = m_miss_queue c" "g_heap c' = g_heap c"
    by blast+
qed

lemma map_update_proj:
  assumes "map_of xs k = Some e" "f e' = f e"
  shows "map (\<lambda>(r, e). (r, f e)) (AList.update k e' xs) = map (\<lambda>(r, e). (r, f e)) xs"
  using assms by (induction xs) auto

lemma map_delete_proj:
  "map (\<lambda>(r, e). (r, f e)) (AList.delete k xs) = AList.delete k (map (\<lambda>(r, e). (r, f e)) xs)"
  by (induction xs) auto

lemma map_of_proj: "map_of (map (\<lambda>(r, e). (r, f e)) xs) k = map_option f (map_of xs k)"
  by (induction xs) auto

lemma collect_quiet: "collect_sectors r c = Some (w, c') \<Longrightarrow> quiet 0 c c'"
  by (auto simp: collect_sectors_def bind_Some_iff Let_def quiet_def view_def heap_le_delete
      map_update_proj [where f = ex_block_addr])

lemma fill_original_moves:
  assumes f: "fill_original r t c = Some c'"
  shows "moves {#} 0 c c'"
proof -
  from f obtain e c1 c2 mf ta b ms ta' bw where e: "map_of (m_extra_mf_fields c) r = Some e"
    and 1: "upd_mf r (set_data_size (ex_data_size e)) c = Some c1"
    and 2: "upd_mf r (set_addr (ex_addr e)) c1 = Some c2"
    and ta: "(case m_alloc_policy (m_config c2) of
          ON_MISS \<Rightarrow> tag_fill_index (m_config c2) (m_tag_array c2) (ex_cache_index e) t mf
        | ON_FILL \<Rightarrow> tag_fill_addr (m_config c2) (m_tag_array c2) (ex_block_addr e) t
                      (get_access_sector_mask mf) (get_access_byte_mask mf) (get_is_write mf)
        | STREAMING \<Rightarrow> None) = Some ta"
    and ms: "mshr_mark_ready (ex_block_addr e) (m_mshrs c2) = Some (b, ms)"
    and ta': "(if b then do { cpp_assert (m_alloc_policy (m_config c2) = ON_MISS);
                        mark_modified (ex_cache_index e) mf ta }
              else Some ta) = Some ta'"
    and c': "c' = c2\<lparr>m_tag_array := ta', m_mshrs := ms,
         m_extra_mf_fields := AList.delete r (m_extra_mf_fields c2), m_bandwidth_management := bw\<rparr>"
    by (clarsimp simp: fill_original_def bind_Some_iff split del: if_split)
  have pt: "pins ta = pins (m_tag_array c2)"
    using ta by (cases "m_alloc_policy (m_config c2)") (auto dest: pins_fill_index pins_fill_addr)
  have pt': "pins ta' = pins ta"
    using ta' by (cases b) (auto simp: bind_Some_iff dest: pins_mark_modified)
  from 1 obtain h1 where h1: "c1 = c\<lparr>g_heap := h1\<rparr>" by (auto simp: upd_mf_def)
  from 2 obtain h where h: "c2 = c\<lparr>g_heap := h\<rparr>" by (auto simp: upd_mf_def h1)
  have le: "heap_le (g_heap c) h"
    using quiet_trans0 [OF quiet_upd_mf [OF 1] quiet_upd_mf [OF 2]] by (simp add: quiet_def h)
  note c2 = h le
  define v' where "v' = (view c)\<lparr>v_ms := ms, v_extra := AList.delete r (v_extra (view c))\<rparr>"
  have "view c' = v'" using pt pt' by (simp add: c' c2 v'_def view_def map_delete_proj)
  moreover have ex: "map_of (v_extra (view c)) r = Some (ex_block_addr e)"
    using e by (simp add: view_def map_of_proj)
  moreover have mk: "mshr_mark_ready (ex_block_addr e) (v_ms (view c)) = Some (b, ms)"
    using ms by (simp add: c2 view_def)
  moreover have "tokens v' = tokens (view c)" if "view_inv (view c)"
    using blocks_fill(2) [OF _ ex mk] that by (simp add: view_inv_def v'_def tokens_def)
  ultimately show ?thesis
    using vstep.fill [OF ex mk] c2(2) by (intro step_moves) (simp_all add: v'_def c' c2(1))
qed

lemma fill_moves:
  assumes "fill r t c = Some c'"
  shows "moves {#} 0 c c'"
proof (cases "m_mshr_type (m_config c) = SECTOR_ASSOC")
  case True
  with assms obtain w c1 where 1: "collect_sectors r c = Some (w, c1)"
    and 2: "(case w of None \<Rightarrow> Some c1 | Some orig \<Rightarrow> fill_original orig t c1) = Some c'"
    by (auto simp: fill_def bind_Some_iff)
  from 2 have "moves {#} 0 c1 c'" by (auto split: option.splits intro: fill_original_moves)
  from quiet_then_moves [OF collect_quiet [OF 1] this] show ?thesis by simp
next
  case False
  with assms show ?thesis by (auto simp: fill_def intro: fill_original_moves)
qed

end
