(* ===== verification/CacheAccess.thy ===== *)
theory CacheAccess
  imports CacheMoves
begin

text \<open>
  The accesses of the caches as moves: \<open>handled T c c'\<close> says that an operation owes the tokens \<open>T\<close>
  to its caller and appends no more to the miss queue than the queue has room for. One lemma per
  handler, then \<open>access\<close> itself, then the invariant of a whole cache.
\<close>

definition fits :: "nat \<Rightarrow> 'a baseline_cache_scheme \<Rightarrow> bool" where
  "fits k c \<longleftrightarrow> k = 0 \<or> length (m_miss_queue c) + k \<le> unat (m_miss_queue_size (m_config c))"

definition handled :: "mf_ref multiset \<Rightarrow> 'a baseline_cache_scheme \<Rightarrow> 'a baseline_cache_scheme \<Rightarrow> bool" where
  "handled T c c' \<longleftrightarrow> (\<exists>k. moves T k c c' \<and> fits k c)"

lemma fits_room: "\<not> miss_queue_full n c \<Longrightarrow> k \<le> Suc n \<Longrightarrow> fits k c"
  by (auto simp: fits_def miss_queue_full_def)

lemma handledI: "moves T k c c' \<Longrightarrow> fits k c \<Longrightarrow> handled T c c'"
  by (auto simp: handled_def)

lemma handled_quiet0: "quiet 0 c c' \<Longrightarrow> handled {#} c c'"
  by (auto simp: handled_def fits_def dest: quiet_moves)

lemma handled_then_quiet:
  assumes "handled T a b" "quiet 0 b c"
  shows "handled T a c"
  using assms moves_quiet [of T _ a b 0 c] by (auto simp: handled_def)

lemma quiet_then_handled:
  assumes "quiet 0 a b" "handled T b c" "m_miss_queue b = m_miss_queue a"
  shows "handled T a c"
proof -
  from assms(2) obtain k where k: "moves T k b c" "fits k b" by (auto simp: handled_def)
  have "moves T k a c" using quiet_then_moves [OF assms(1) k(1)] by simp
  moreover have "fits k a" using k(2) assms(1,3) by (simp add: fits_def quiet_def)
  ultimately show ?thesis by (rule handledI)
qed

lemma count_fail_handled:
  "map_option (\<lambda>c. (RESERVATION_FAIL, c)) (count_fail mf why c) = Some (st, c') \<Longrightarrow>
   st = RESERVATION_FAIL \<and> handled {#} c c'"
  by (auto intro: handled_quiet0 quiet_count_fail)

section \<open>Write hits\<close>

lemma write_hit_line_quiet:
  "write_hit_line addr i r t c = Some c' \<Longrightarrow> quiet 0 c c' \<and> m_miss_queue c' = m_miss_queue c"
  by (auto simp: write_hit_line_def bind_Some_iff intro!: quiet_tags
      dest!: pins_access_no_wb pins_mark_modified pins_update_readable)

lemma wr_hit_wb_handled:
  "wr_hit_wb addr i r t s c = Some (st, c') \<Longrightarrow> st = HIT \<and> handled {#} c c'"
  by (auto simp: wr_hit_wb_def dest: write_hit_line_quiet intro: handled_quiet0)

lemma wr_hit_wt_handled:
  assumes "wr_hit_wt addr i r t s c = Some (st, c')"
  shows "st \<in> {HIT, RESERVATION_FAIL} \<and> handled {#} c c'"
proof (cases "miss_queue_full 0 c")
  case True
  with assms show ?thesis
    by (auto simp: wr_hit_wt_def bind_Some_iff intro: handled_quiet0 quiet_count_fail)
next
  case False
  with assms obtain c1 ev where 1: "write_hit_line addr i r t c = Some c1"
    and 2: "send_write_request r ev t c1 = Some c'" and st: "st = HIT"
    by (auto simp: wr_hit_wt_def bind_Some_iff)
  have "quiet 1 c c'"
    by (rule quiet_trans0 [OF _ quiet_send_write [OF 2]]) (use write_hit_line_quiet [OF 1] in simp)
  with st show ?thesis
    by (auto intro!: handledI [OF quiet_moves fits_room [OF False]])
qed

lemma wr_hit_we_handled:
  assumes "wr_hit_we addr i r t s c = Some (st, c')"
  shows "st \<in> {HIT, RESERVATION_FAIL} \<and> handled {#} c c'"
proof (cases "miss_queue_full 0 c")
  case True
  with assms show ?thesis
    by (auto simp: wr_hit_we_def bind_Some_iff intro: handled_quiet0 quiet_count_fail)
next
  case False
  with assms obtain c1 ev mf b ta where 1: "send_write_request r ev t c = Some c1"
    and b: "blk_set_status INVALID (get_access_sector_mask mf) (m_lines (m_tag_array c1) ! i) = Some b"
    and ta: "set_line i b (m_tag_array c1) = Some ta" and c': "c' = c1\<lparr>m_tag_array := ta\<rparr>" and st: "st = HIT"
    by (auto simp: wr_hit_we_def bind_Some_iff get_block_Some)
  have "pins ta = pins (m_tag_array c1)"
    by (rule pins_set_line_keep [OF ta]) (simp_all add: pending_set_status [OF b])
  then have "quiet 0 c1 c'" unfolding c' by (rule quiet_tags)
  with quiet_trans [OF quiet_send_write [OF 1]] have "quiet 1 c c'" by fastforce
  with st show ?thesis by (auto intro!: handledI [OF quiet_moves fits_room [OF False]])
qed

lemma run_wr_hit_handled:
  assumes "run_wr_hit addr i r t s c = Some (st, c')"
  shows "st \<in> {HIT, RESERVATION_FAIL} \<and> handled {#} c c'"
proof (cases "m_wr_hit c")
  case WrHitWb
  with assms wr_hit_wb_handled show ?thesis by (fastforce simp: run_wr_hit_def)
next
  case WrHitWt
  with assms wr_hit_wt_handled show ?thesis by (simp add: run_wr_hit_def)
next
  case WrHitWe
  with assms wr_hit_we_handled show ?thesis by (simp add: run_wr_hit_def)
next
  case WrHitGlobalWeLocalWb
  with assms wr_hit_we_handled wr_hit_wb_handled show ?thesis
    by (fastforce simp: run_wr_hit_def wr_hit_global_we_local_wb_def bind_Some_iff split: if_splits)
qed

section \<open>Read misses\<close>

lemma write_back_after:
  assumes m: "moves T k c c1" and w: "write_back r wb ev req t c1 = Some c'"
  shows "moves T (Suc k) c c'" "m_write_policy (m_config c) = WRITE_THROUGH \<Longrightarrow> moves T k c c'"
proof -
  note q = quiet_write_back [OF w, unfolded moves_config [OF m]]
  show "moves T (Suc k) c c'"
    using moves_mono [OF moves_quiet [OF m q], of "Suc k"] by (simp split: if_splits)
  show "moves T k c c'" if "m_write_policy (m_config c) = WRITE_THROUGH"
    using moves_quiet [OF m q] that by simp
qed

lemma rd_miss_handled:
  assumes "rd_miss_base addr i r t s c = Some (st, c')" and r: "r \<notin># tokens (view c)"
  shows "st \<in> {MISS, RESERVATION_FAIL} \<and> handled (if st = MISS then {#r#} else {#}) c c'"
proof (cases "miss_queue_full 1 c")
  case True
  with assms show ?thesis
    by (auto simp: rd_miss_base_def bind_Some_iff intro: handled_quiet0 quiet_count_fail)
next
  case False
  with assms obtain d wb ev c1 where
    1: "send_read_request (block_addr (m_config c) addr) i r t False False no_evicted False False c
      = Some (d, wb, ev, c1)"
    and 2: "(if d then do { c \<leftarrow> write_back r wb ev (mk_event WRITE_BACK_REQUEST_SENT) t c1; Some (MISS, c) }
             else Some (RESERVATION_FAIL, c1)) = Some (st, c')"
    by (auto simp: rd_miss_base_def bind_Some_iff Let_def)
  note m = send_read_moves [OF 1 r]
  show ?thesis
  proof (cases d)
    case True
    with 2 obtain w: "write_back r wb ev (mk_event WRITE_BACK_REQUEST_SENT) t c1 = Some c'"
      and st: "st = MISS" by (auto simp: bind_Some_iff)
    from write_back_after(1) [OF m w] have "moves {#r#} 2 c c'" using True by (simp add: numeral_2_eq_2)
    with st show ?thesis by (auto intro!: handledI [OF _ fits_room [OF False]])
  next
    case no: False
    with 2 m have "moves {#} 1 c c'" "st = RESERVATION_FAIL" by auto
    then show ?thesis by (auto intro!: handledI [OF _ fits_room [OF False]])
  qed
qed

lemma rd_hit_handled: "rd_hit_base addr i r t s c = Some (st, c') \<Longrightarrow> st = HIT \<and> handled {#} c c'"
  by (auto simp: rd_hit_base_def isatomic_def bind_Some_iff dest: pins_access_no_wb
      intro!: handled_quiet0 quiet_tags)

section \<open>Write misses\<close>

text \<open>The token of a write-allocate fetch is new: no token the cache holds has its address.\<close>

definition fresh_in :: "mf_ref multiset \<Rightarrow> 'a baseline_cache_scheme \<Rightarrow> bool" where
  "fresh_in T c \<longleftrightarrow> (\<forall>r \<in># T. r < next_mf (g_heap c))"

lemma fresh_quiet: "fresh_in (tokens (view c)) c \<Longrightarrow> quiet k c c' \<Longrightarrow> fresh_in (tokens (view c')) c'"
  by (fastforce simp: fresh_in_def quiet_def heap_le_def)

lemma write_alloc_spec:
  assumes "write_alloc_request mf orig c = Some (n, c')"
  shows "n = next_mf (g_heap c)" "quiet 0 c c'" "m_miss_queue c' = m_miss_queue c"
    "next_mf (g_heap c') = Suc n"
  using assms heap_ok_new [of "g_heap c"]
  by (auto simp: write_alloc_request_def bind_Some_iff Let_def heap_new_def quiet_def heap_le_def)

lemma wr_miss_no_wa_handled:
  assumes "wr_miss_no_wa addr i r t s c = Some (st, c')"
  shows "st \<in> {MISS, RESERVATION_FAIL} \<and> handled {#} c c'"
proof (cases "miss_queue_full 0 c")
  case True
  with assms show ?thesis
    by (auto simp: wr_miss_no_wa_def bind_Some_iff intro: handled_quiet0 quiet_count_fail)
next
  case False
  with assms show ?thesis
    by (auto simp: wr_miss_no_wa_def bind_Some_iff dest: quiet_send_write
        intro!: handledI [OF quiet_moves fits_room [OF False]])
qed

text \<open>What a write miss owes: at most the token of the fetch it allocated.\<close>

definition alloc_token :: "mem_fetch \<Rightarrow> data_cache \<Rightarrow> mf_ref multiset" where
  "alloc_token mf c =
     (case m_wr_miss c of WrMissNoWa \<Rightarrow> {#} | WrMissWaNaive \<Rightarrow> {#next_mf (g_heap c)#}
      | WrMissWaFetchOnWrite \<Rightarrow>
          if map_option unat (get_atom_sz (m_config c)) = Some (mask_count (get_access_byte_mask mf))
          then {#} else {#next_mf (g_heap c)#}
      | WrMissWaLazyFetchOnRead \<Rightarrow> {#})"

definition write_owes ::
  "mf_ref multiset \<Rightarrow> cache_request_status \<Rightarrow> 'a baseline_cache_scheme \<Rightarrow> 'a baseline_cache_scheme \<Rightarrow> bool" where
  "write_owes T st c c' \<longleftrightarrow> st \<in> {MISS, RESERVATION_FAIL} \<and> handled (if st = MISS then T else {#}) c c'
     \<and> (st = MISS \<longrightarrow> (\<forall>r \<in># T. r < next_mf (g_heap c')))"

lemma next_mf_send: "send_write_request r ev t c = Some c' \<Longrightarrow> next_mf (g_heap c') = next_mf (g_heap c)"
  by (auto simp: send_write_request_def Let_def upd_mf_def push_event_def)

lemma alloc_read_moves:
  assumes f: "fresh_in (tokens (view c)) c"
    and a: "write_alloc_request mf orig c = Some (n, c1)"
    and s: "send_read_request ba i n t False False no_evicted False True c1 = Some (d, wb, ev, c2)"
  shows "moves (if d then {#next_mf (g_heap c)#} else {#}) 1 c c2"
    "next_mf (g_heap c) < next_mf (g_heap c2)"
proof -
  note w = write_alloc_spec [OF a]
  have "n \<notin># tokens (view c1)" using f w(1,2) by (auto simp: fresh_in_def quiet_def)
  from send_read_moves [OF s this] have m: "moves (if d then {#n#} else {#}) 1 c1 c2" .
  from quiet_then_moves [OF w(2) m] w(1) show "moves (if d then {#next_mf (g_heap c)#} else {#}) 1 c c2"
    by (simp only: add_0)
  have "next_mf (g_heap c1) \<le> next_mf (g_heap c2)" using m by (simp add: moves_def heap_le_def)
  then show "next_mf (g_heap c) < next_mf (g_heap c2)" using w by simp
qed

lemma moves_next: "moves T k c c' \<Longrightarrow> next_mf (g_heap c) \<le> next_mf (g_heap c')"
  by (simp add: moves_def heap_le_def)

lemma missing_room: "\<not> fetch_resources_missing n a c \<Longrightarrow> \<not> miss_queue_full n c"
  by (simp add: fetch_resources_missing_def Let_def)

lemma count_missing_handled:
  "map_option (\<lambda>c. (RESERVATION_FAIL, c)) (count_missing_resource n a mf c) = Some (st, c') \<Longrightarrow>
   st = RESERVATION_FAIL \<and> handled {#} c c'"
  by (auto intro: handled_quiet0 quiet_count_missing)

lemma wr_miss_naive_handled:
  assumes h: "wr_miss_wa_naive addr i r t s c = Some (st, c')" and f: "fresh_in (tokens (view c)) c"
  shows "write_owes {#next_mf (g_heap c)#} st c c'"
proof -
  obtain mf where mf: "get_mf r c = Some mf" using h by (auto simp: wr_miss_wa_naive_def bind_Some_iff)
  define a where "a = mshr_addr (m_config c) (get_addr mf)"
  show ?thesis
  proof (cases "fetch_resources_missing 2 a c")
    case True
    with h count_missing_handled [of 2 a mf c st c'] show ?thesis
      by (auto simp: wr_miss_wa_naive_def mf Let_def a_def write_owes_def)
  next
    case False
    note room = fits_room [OF missing_room [OF False]]
    from h False obtain ev c1 n c2 d wb evd c3 where
      1: "send_write_request r ev t c = Some c1"
      and 2: "write_alloc_request mf None c1 = Some (n, c2)"
      and 3: "send_read_request (block_addr (m_config c) addr) i n t False False no_evicted False True c2
        = Some (d, wb, evd, c3)"
      and 4: "(if d then do {
                 cpp_assert (wb \<and> m_write_policy (m_config (push_event (mk_event WRITE_ALLOCATE_SENT) c3))
                   \<noteq> WRITE_THROUGH \<longrightarrow> s = MISS);
                 c \<leftarrow> write_back r wb evd (mk_event_evicted WRITE_BACK_REQUEST_SENT evd) t
                        (push_event (mk_event WRITE_ALLOCATE_SENT) c3);
                 Some (MISS, c) }
               else Some (RESERVATION_FAIL, push_event (mk_event WRITE_ALLOCATE_SENT) c3)) = Some (st, c')"
      by (clarsimp simp: wr_miss_wa_naive_def bind_Some_iff mf Let_def a_def split del: if_split)
    note q1 = quiet_send_write [OF 1]
    note m = alloc_read_moves [OF fresh_quiet [OF f q1] 2 3, unfolded next_mf_send [OF 1]]
    let ?T = "if d then {#next_mf (g_heap c)#} else {#}" and ?p = "push_event (mk_event WRITE_ALLOCATE_SENT) c3"
    have m3: "moves ?T 2 c ?p"
      using moves_quiet [OF quiet_then_moves [OF q1 m(1)] quiet_push_event] by (simp only: one_add_one add_0_right)
    have nx: "next_mf (g_heap c) < next_mf (g_heap ?p)" using m(2) by (simp add: push_event_def)
    show ?thesis
    proof (cases d)
      case True
      with 4 obtain w: "write_back r wb evd (mk_event_evicted WRITE_BACK_REQUEST_SENT evd) t ?p = Some c'"
        and st: "st = MISS" by (auto simp: bind_Some_iff)
      from write_back_after(1) [OF m3 w] have "moves ?T 3 c c'" by (simp add: numeral_3_eq_3)
      moreover have "next_mf (g_heap c) < next_mf (g_heap c')"
        using nx quiet_write_back [OF w] by (auto simp: quiet_def heap_le_def)
      ultimately show ?thesis using True st
        by (auto simp: write_owes_def intro!: handledI [OF _ room])
    next
      case no: False
      with 4 m3 have "moves {#} 2 c c'" "st = RESERVATION_FAIL" by auto
      then show ?thesis by (auto simp: write_owes_def intro!: handledI [OF _ room])
    qed
  qed
qed

lemma pins_line_change:
  assumes "set_line i b ta = Some ta'" "blk_pending b = blk_pending (m_lines ta ! i)"
  shows "pins ta' = pins ta"
  by (rule pins_set_line_keep [OF assms(1) refl assms(2)])

lemma write_full_line_handled:
  assumes h: "write_full_line ba i r mf t c = Some (st, c')" and room: "\<not> miss_queue_full 0 c"
  shows "st \<in> {MISS, RESERVATION_FAIL} \<and> handled {#} c c'"
proof -
  from h obtain s idx wb ev ta1 ta2 ta3 where
    1: "tag_access (m_config c) (m_tag_array c) ba t i False no_evicted mf = Some (s, idx, wb, ev, ta1)"
    and 2: "mark_modified idx mf ta1 = Some ta2"
    and 3: "(if s = HIT_RESERVED
              then do {
                b \<leftarrow> get_block idx ta2;
                b \<leftarrow> blk_set_ignore_on_fill True (get_access_sector_mask mf) b;
                set_line idx b ta2
              } else Some ta2) = Some ta3"
    and 4: "(if s \<noteq> RESERVATION_FAIL then
          do {
            c \<leftarrow> write_back r wb ev (mk_event_evicted WRITE_BACK_REQUEST_SENT ev) t (c\<lparr>m_tag_array := ta3\<rparr>);
            Some (MISS, c)
          }
        else Some (RESERVATION_FAIL, c\<lparr>m_tag_array := ta3\<rparr>)) = Some (st, c')"
    by (clarsimp simp: write_full_line_def bind_Some_iff Let_def split del: if_split)
  have "pins ta3 = pins ta2"
    using 3 by (auto simp: bind_Some_iff get_block_Some dest: pending_set_ignore_on_fill
        intro!: pins_line_change split: if_splits)
  with pins_access [OF 1] pins_mark_modified [OF 2] have q: "quiet 0 c (c\<lparr>m_tag_array := ta3\<rparr>)"
    by (intro quiet_tags) simp
  show ?thesis
  proof (cases "s = RESERVATION_FAIL")
    case True
    with 4 q show ?thesis by (auto intro: handled_quiet0)
  next
    case False
    with 4 obtain w: "write_back r wb ev (mk_event_evicted WRITE_BACK_REQUEST_SENT ev) t
        (c\<lparr>m_tag_array := ta3\<rparr>) = Some c'" and st: "st = MISS"
      by (auto simp: bind_Some_iff)
    from write_back_after(1) [OF quiet_moves [OF q] w] st show ?thesis
      by (auto intro!: handledI [OF _ fits_room [OF room]])
  qed
qed

lemma same_mshrs [simp]: "c\<lparr>m_mshrs := m_mshrs c\<rparr> = c"
  by (cases c) simp

lemma rw_pending_same:
  "mshr_probe t a \<Longrightarrow> is_read_after_write_pending h a t = Some (b, t') \<Longrightarrow> t' = t"
  by (auto simp: is_read_after_write_pending_def Let_def)

lemma wr_miss_fetch_handled:
  assumes h: "wr_miss_wa_fetch_on_write addr i r t s c = Some (st, c')"
    and f: "fresh_in (tokens (view c)) c"
    and w: "m_wr_miss c = WrMissWaFetchOnWrite" and mf0: "get_mf r c = Some mf"
  shows "write_owes (alloc_token mf c) st c c'"
proof -
  obtain atom where mf: "get_mf r c = Some mf" "get_atom_sz (m_config c) = Some atom"
    using h mf0 by (auto simp: wr_miss_wa_fetch_on_write_def bind_Some_iff Let_def)
  have tok: "alloc_token mf c = (if mask_count (get_access_byte_mask mf) = unat atom then {#}
      else {#next_mf (g_heap c)#})" by (auto simp: alloc_token_def w mf)
  define a where "a = mshr_addr (m_config c) (get_addr mf)"
  consider (full) "mask_count (get_access_byte_mask mf) = unat atom"
    | (missing) "mask_count (get_access_byte_mask mf) \<noteq> unat atom" "fetch_resources_missing 1 a c"
    | (fetch) "mask_count (get_access_byte_mask mf) \<noteq> unat atom" "\<not> fetch_resources_missing 1 a c"
    by blast
  then show ?thesis
  proof cases
    case full
    with h have "(if miss_queue_full 0 c
           then map_option (\<lambda>c. (RESERVATION_FAIL, c)) (count_fail mf MISS_QUEUE_FULL c)
           else write_full_line (block_addr (m_config c) addr) i r mf t c) = Some (st, c')"
      by (simp add: wr_miss_wa_fetch_on_write_def mf Let_def)
    then show ?thesis
      using count_fail_handled [of mf MISS_QUEUE_FULL c st c'] write_full_line_handled full
      by (auto simp: write_owes_def tok split: if_splits)
  next
    case missing
    with h count_missing_handled [of 1 a mf c st c'] show ?thesis
      by (auto simp: wr_miss_wa_fetch_on_write_def mf Let_def a_def write_owes_def)
  next
    case fetch
    note room = fits_room [OF missing_room [OF fetch(2)]]
    let ?fetch = "\<lambda>c. do {
                 (n, c) \<leftarrow> write_alloc_request mf (Some r) c;
                 (do_miss, wb, evicted, c) \<leftarrow>
                   send_read_request (block_addr (m_config c) addr) i n t False False no_evicted False True c;
                 b \<leftarrow> get_block i (m_tag_array c);
                 b \<leftarrow> blk_set_modified_on_fill True (get_access_sector_mask mf) b;
                 ta \<leftarrow> set_line i (blk_set_byte_mask_on_fill True b) (m_tag_array c);
                 let c = push_event (mk_event WRITE_ALLOCATE_SENT) (c\<lparr>m_tag_array := ta\<rparr>);
                 (if do_miss then
                    do {
                      c \<leftarrow> write_back r wb evicted
                             (mk_event_evicted WRITE_BACK_REQUEST_SENT evicted) t c;
                      Some (MISS, c)
                    }
                  else Some (RESERVATION_FAIL, c))
               }"
    note h' = h [unfolded wr_miss_wa_fetch_on_write_def mf bind.bind_lunit Let_def, folded a_def]
    from h' fetch obtain rw ms where rw: "(if mshr_probe (m_mshrs c) a
              then is_read_after_write_pending (g_heap c) a (m_mshrs c)
              else Some (False, m_mshrs c)) = Some (rw, ms)"
      by (auto simp: bind_Some_iff split del: if_split)
    then have ms: "ms = m_mshrs c" using rw_pending_same by (auto split: if_splits)
    note h'' = h' [unfolded rw bind.bind_lunit ms prod.case]
    show ?thesis
    proof (cases "rw \<and> get_is_write mf")
      case True
      with h'' fetch count_fail_handled [of mf MSHR_RW_PENDING c st c'] show ?thesis
        by (auto simp: write_owes_def)
    next
      case False
      then have "(rw \<and> get_is_write mf) = False" by simp
      with h'' [unfolded same_mshrs] fetch obtain n c1 d wb ev c2 b ta where
        1: "write_alloc_request mf (Some r) c = Some (n, c1)"
        and 2: "send_read_request (block_addr (m_config c) addr) i n t False False no_evicted False True c1
            = Some (d, wb, ev, c2)"
        and b: "blk_set_modified_on_fill True (get_access_sector_mask mf) (m_lines (m_tag_array c2) ! i) = Some b"
        and ta: "set_line i (blk_set_byte_mask_on_fill True b) (m_tag_array c2) = Some ta"
        and 3: "(if d then
                    do {
                      c \<leftarrow> write_back r wb ev (mk_event_evicted WRITE_BACK_REQUEST_SENT ev) t
                        (push_event (mk_event WRITE_ALLOCATE_SENT) (c2\<lparr>m_tag_array := ta\<rparr>));
                      Some (MISS, c)
                    }
                  else Some (RESERVATION_FAIL,
                    push_event (mk_event WRITE_ALLOCATE_SENT) (c2\<lparr>m_tag_array := ta\<rparr>))) = Some (st, c')"
        by (simp only: if_False if_not_P) (clarsimp simp: bind_Some_iff get_block_Some split del: if_split)
      let ?T = "if d then {#next_mf (g_heap c)#} else {#}"
        and ?p = "push_event (mk_event WRITE_ALLOCATE_SENT) (c2\<lparr>m_tag_array := ta\<rparr>)"
      have "pins ta = pins (m_tag_array c2)"
        by (rule pins_line_change [OF ta]) (simp add: pending_set_modified_on_fill [OF b])
      then have q: "quiet 0 c2 ?p" using quiet_trans0 [OF quiet_tags quiet_push_event] by blast
      note m = alloc_read_moves [OF f 1 2]
      have m3: "moves ?T 1 c ?p" using moves_quiet [OF m(1) q] by (simp only: add_0_right)
      have nx: "next_mf (g_heap c) < next_mf (g_heap ?p)" using m(2) by (simp add: push_event_def)
      show ?thesis
      proof (cases d)
        case True
        with 3 obtain w: "write_back r wb ev (mk_event_evicted WRITE_BACK_REQUEST_SENT ev) t ?p = Some c'"
          and st: "st = MISS" by (auto simp: bind_Some_iff)
        from write_back_after(1) [OF m3 w] have "moves ?T 2 c c'" by (simp only: Suc_1)
        moreover have "next_mf (g_heap c) < next_mf (g_heap c')"
          using nx quiet_write_back [OF w] by (auto simp: quiet_def heap_le_def)
        ultimately show ?thesis using True st fetch(1)
          by (auto simp: write_owes_def tok intro!: handledI [OF _ room])
      next
        case no: False
        with 3 m3 have "moves {#} 1 c c'" "st = RESERVATION_FAIL" by auto
        then show ?thesis by (auto simp: write_owes_def intro!: handledI [OF _ room])
      qed
    qed
  qed
qed

lemma wr_miss_lazy_handled:
  assumes h: "wr_miss_wa_lazy_fetch_on_read addr i r t s c = Some (st, c')"
  shows "st \<in> {MISS, RESERVATION_FAIL} \<and> handled {#} c c'"
proof (cases "miss_queue_full 0 c")
  case True
  with h show ?thesis
    by (auto simp: wr_miss_wa_lazy_fetch_on_read_def bind_Some_iff Let_def
        intro: handled_quiet0 quiet_count_fail)
next
  case False
  let ?wt = "m_write_policy (m_config c) = WRITE_THROUGH"
  from h False obtain mf c1 s idx wb ev ta1 ta2 b b1 ta3 ta4 where
    1: "(if ?wt then send_write_request r (mk_event WRITE_REQUEST_SENT) t c else Some c) = Some c1"
    and 2: "tag_access (m_config c1) (m_tag_array c1) (block_addr (m_config c) addr) t i False
      no_evicted mf = Some (s, idx, wb, ev, ta1)"
    and 3: "mark_modified idx mf ta1 = Some ta2"
    and b: "(if s = HIT_RESERVED
                  then do {
                    b \<leftarrow> blk_set_ignore_on_fill True (get_access_sector_mask mf) (m_lines ta2 ! idx);
                    b \<leftarrow> blk_set_modified_on_fill True (get_access_sector_mask mf) b;
                    Some (blk_set_byte_mask_on_fill True b)
                  } else Some (m_lines ta2 ! idx)) = Some b"
    and b1: "\<exists>full. (if full
                  then blk_set_m_readable True (get_access_sector_mask mf) b
                  else do {
                    b \<leftarrow> blk_set_m_readable False (get_access_sector_mask mf) b;
                    (if s = HIT_RESERVED then blk_set_readable_on_fill True (get_access_sector_mask mf) b
                     else Some b)
                  }) = Some b1"
    and ta3: "set_line idx b1 ta2 = Some ta3" and 4: "update_m_readable mf idx ta3 = Some ta4"
    and 5: "(if s \<noteq> RESERVATION_FAIL then
               do {
                 c \<leftarrow> write_back r wb ev (mk_event_evicted WRITE_BACK_REQUEST_SENT ev) t
                   (c1\<lparr>m_tag_array := ta4\<rparr>);
                 Some (MISS, c)
               }
             else Some (RESERVATION_FAIL, c1\<lparr>m_tag_array := ta4\<rparr>)) = Some (st, c')"
    unfolding wr_miss_wa_lazy_fetch_on_read_def bind_Some_iff Let_def
    by (clarsimp simp: bind_Some_iff get_block_Some split del: if_split) blast
  have "blk_pending b = blk_pending (m_lines ta2 ! idx)"
    using b by (auto simp: bind_Some_iff dest!: pending_set_ignore_on_fill pending_set_modified_on_fill
        split: if_splits)
  moreover have "blk_pending b1 = blk_pending b"
    using b1 by (auto simp: bind_Some_iff dest!: pending_set_m_readable pending_set_readable_on_fill
        split: if_splits)
  ultimately have "pins ta3 = pins ta2" by (intro pins_line_change [OF ta3]) simp
  then have q: "quiet 0 c1 (c1\<lparr>m_tag_array := ta4\<rparr>)"
    using pins_access [OF 2] pins_mark_modified [OF 3] pins_update_readable [OF 4]
    by (intro quiet_tags) simp
  have q1: "quiet (if ?wt then 1 else 0) c c1" using 1 quiet_send_write by (auto split: if_splits)
  note q2 = quiet_trans [OF q1 q, unfolded add_0_right]
  note room = fits_room [OF False]
  show ?thesis
  proof (cases "s = RESERVATION_FAIL")
    case True
    with 5 have "st = RESERVATION_FAIL" "c' = c1\<lparr>m_tag_array := ta4\<rparr>" by auto
    with quiet_moves [OF q2] show ?thesis by (auto intro!: handledI [OF _ room] split: if_splits)
  next
    case no: False
    with 5 obtain w: "write_back r wb ev (mk_event_evicted WRITE_BACK_REQUEST_SENT ev) t
        (c1\<lparr>m_tag_array := ta4\<rparr>) = Some c'" and st: "st = MISS"
      by (auto simp: bind_Some_iff)
    have "moves {#} 1 c c'"
      using write_back_after [OF quiet_moves [OF q2] w] by (cases ?wt) simp_all
    with st show ?thesis by (auto intro!: handledI [OF _ room])
  qed
qed

lemma run_wr_miss_handled:
  assumes h: "run_wr_miss addr i r t s c = Some (st, c')" and f: "fresh_in (tokens (view c)) c"
    and mf: "get_mf r c = Some mf"
  shows "write_owes (alloc_token mf c) st c c'"
proof (cases "m_wr_miss c")
  case WrMissNoWa
  with h wr_miss_no_wa_handled [of addr i r t s c st c'] show ?thesis
    by (auto simp: run_wr_miss_def write_owes_def alloc_token_def)
next
  case WrMissWaNaive
  with h have "wr_miss_wa_naive addr i r t s c = Some (st, c')" by (simp add: run_wr_miss_def)
  from wr_miss_naive_handled [OF this f] show ?thesis by (simp add: alloc_token_def WrMissWaNaive)
next
  case WrMissWaFetchOnWrite
  with h have "wr_miss_wa_fetch_on_write addr i r t s c = Some (st, c')" by (simp add: run_wr_miss_def)
  from wr_miss_fetch_handled [OF this f WrMissWaFetchOnWrite mf] show ?thesis .
next
  case WrMissWaLazyFetchOnRead
  with h wr_miss_lazy_handled [of addr i r t s c st c'] show ?thesis
    by (auto simp: run_wr_miss_def write_owes_def alloc_token_def)
qed

section \<open>Dispatch\<close>

text \<open>The tokens an access adds to those the cache has to deliver.\<close>

definition accepted :: "mem_fetch \<Rightarrow> mf_ref \<Rightarrow> cache_request_status \<Rightarrow> data_cache \<Rightarrow> mf_ref multiset" where
  "accepted mf r st c =
     (if st = HIT then (if m_defer_hit_response (m_config c) then {#r#} else {#})
      else if st \<noteq> MISS then {#}
      else if get_is_write mf then alloc_token mf c else {#r#})"

lemma run_handler_handled:
  assumes h: "run_handler (get_is_write mf) s addr i r t c = Some (st, c')" and mf: "get_mf r c = Some mf"
    and r: "r \<notin># tokens (view c)" and f: "fresh_in (tokens (view c)) c"
  shows "(s = HIT \<longrightarrow> st \<in> {HIT, RESERVATION_FAIL} \<and> handled {#} c c')
    \<and> (s \<noteq> HIT \<longrightarrow> st \<in> {MISS, RESERVATION_FAIL} \<and> handled (accepted mf r st c) c c'
        \<and> (st = MISS \<and> get_is_write mf \<longrightarrow> (\<forall>r \<in># alloc_token mf c. r < next_mf (g_heap c'))))"
proof (cases "get_is_write mf")
  case True
  show ?thesis
  proof (cases "s = HIT")
    case True
    with h \<open>get_is_write mf\<close> mf run_wr_hit_handled show ?thesis by (simp add: run_handler_def)
  next
    case False
    show ?thesis
    proof (cases "s \<noteq> RESERVATION_FAIL \<or> m_write_alloc_policy (m_config c) = NO_WRITE_ALLOCATE")
      case True
      with h \<open>get_is_write mf\<close> mf \<open>s \<noteq> HIT\<close> have "run_wr_miss addr i r t s c = Some (st, c')"
        by (auto simp: run_handler_def)
      from run_wr_miss_handled [OF this f mf] show ?thesis
        using \<open>s \<noteq> HIT\<close> \<open>get_is_write mf\<close> by (auto simp: write_owes_def accepted_def)
    next
      case False
      with h \<open>get_is_write mf\<close> mf \<open>s \<noteq> HIT\<close> show ?thesis
        by (auto simp: run_handler_def accepted_def intro: handled_quiet0 quiet_count_fail)
    qed
  qed
next
  case False
  consider "s = HIT" | "s = RESERVATION_FAIL" | "s \<noteq> HIT" "s \<noteq> RESERVATION_FAIL" by blast
  then show ?thesis
  proof cases
    case 1
    with h False mf rd_hit_handled show ?thesis by (fastforce simp: run_handler_def)
  next
    case 2
    with h False mf show ?thesis
      by (auto simp: run_handler_def accepted_def intro: handled_quiet0 quiet_count_fail)
  next
    case 3
    with h False mf have "rd_miss_base addr i r t s c = Some (st, c')" by (simp add: run_handler_def)
    from rd_miss_handled [OF this r] 3 False show ?thesis by (auto simp: accepted_def)
  qed
qed

end
