(* ===== verification/CacheRuns.thy ===== *)
theory CacheRuns
  imports CacheAccess
begin

text \<open>
  Whole accesses and whole runs of a cache. \<open>cache_inv\<close> holds of every cache a client can bring
  about; \<open>cache_run\<close> is a client's history: accesses, ticks, fills, deliveries, flushes, with the
  tokens accepted and delivered.
\<close>

section \<open>A probe and the access that follows it\<close>

lemma probe_candidate_cong:
  "m_dirty ta2 = m_dirty ta \<Longrightarrow> probe_candidate cfg ta2 = probe_candidate cfg ta"
  by (intro ext) (simp add: probe_candidate_def replaceable_def dirty_line_percentage_def)

lemma probe_ways_cong:
  "m_lines ta2 = m_lines ta \<Longrightarrow> m_dirty ta2 = m_dirty ta \<Longrightarrow>
   probe_ways cfg ta2 tag sm wr is acc = probe_ways cfg ta tag sm wr is acc"
  by (induction "is" arbitrary: acc)
    (auto simp: probe_candidate_cong [of ta2 ta] split: bind_splits option.splits)

lemma probe_repeats:
  assumes p: "tag_probe cfg ta addr idx sm wr = Some (st, i, ta1)"
    and same: "m_lines ta2 = m_lines ta1" "m_dirty ta2 = m_dirty ta1"
  shows "\<exists>ta3. tag_probe cfg ta2 addr i sm wr = Some (st, i, ta3)"
proof -
  from p obtain si r where si: "set_index cfg addr = Some si"
    and r: "probe_ways cfg (ta\<lparr>m_last_fail_reason := LINE_ALLOC_FAIL\<rparr>) (cfg_tag cfg addr) sm wr
       (set_ways cfg si) probe_init = Some r" by (rule tag_probe_search)
  have "probe_ways cfg (ta2\<lparr>m_last_fail_reason := LINE_ALLOC_FAIL\<rparr>) (cfg_tag cfg addr) sm wr
       (set_ways cfg si) probe_init = Some r"
    unfolding r [symmetric] by (rule probe_ways_cong) (simp_all add: same probe_tags [OF p])
  with p si r show ?thesis
    by (cases r) (auto simp: tag_probe_def Let_def split: if_splits option.splits)
qed

lemma access_repeats:
  assumes p: "tag_probe cfg ta addr idx (get_access_sector_mask mf) (get_is_write mf) = Some (st, i, ta1)"
    and a: "tag_access cfg ta1 addr t i wb ev mf = Some (st', i', wb', ev', ta')"
  shows "st' = st" "i' = i"
proof -
  from a have "st' = st \<and> i' = i"
  proof (rule tag_access_cases, goal_cases)
    case (1 ta0 ta2)
    from probe_repeats [OF p, of ta0] 1(1,2) show ?case by auto
  qed
  then show "st' = st" "i' = i" by auto
qed

lemma access_no_wb_repeats:
  assumes "tag_probe cfg ta addr idx (get_access_sector_mask mf) (get_is_write mf) = Some (st, i, ta1)"
    and "tag_access_no_wb cfg ta1 addr t i mf = Some (st', i', ta')"
  shows "st' = st" "i' = i"
  using assms(2) access_repeats [OF assms(1)]
  by (auto simp: tag_access_no_wb_def bind_Some_iff)

section \<open>Accesses\<close>

lemma enqueue_after:
  assumes h: "handled {#} c c1" and e: "enqueue_hit_response r i c1 = Some c2"
    and d: "m_defer_hit_response (m_config c)" and r: "r \<notin># tokens (view c)" and inv: "view_inv (view c)"
  shows "handled {#r#} c c2"
proof -
  from h obtain k where k: "moves {#} k c c1" "fits k c" by (auto simp: handled_def)
  then have "tokens (view c1) = tokens (view c)" "m_config c1 = m_config c" using inv by (auto simp: moves_def)
  with enqueue_hit_moves [OF e] d r have "moves {#r#} 0 c1 c2" by simp
  from moves_trans [OF k(1) this] k(2) show ?thesis by (auto intro: handledI)
qed

lemma process_handled:
  assumes h: "process_tag_probe (get_is_write mf) s addr i r t c = Some (st, c')"
    and mf: "get_mf r c = Some mf" and r: "r \<notin># tokens (view c)"
    and f: "fresh_in (tokens (view c)) c" and inv: "view_inv (view c)"
  shows "handled (accepted mf r st c) c c'"
    "\<forall>q \<in># accepted mf r st c. q = r \<or> q < next_mf (g_heap c')"
proof -
  have "handled (accepted mf r st c) c c' \<and> (\<forall>q \<in># accepted mf r st c. q = r \<or> q < next_mf (g_heap c'))"
  proof (cases "s = HIT \<and> m_defer_hit_response (m_config c) \<and> hit_response_queue_full c")
    case True
    with h obtain c1 where "count_fail mf HIT_RESPONSE_QUEUE_FULL c = Some c1"
      "charge_data_port r RESERVATION_FAIL c1 = Some c'" "st = RESERVATION_FAIL"
      by (auto simp: process_tag_probe_def bind_Some_iff mf)
    then show ?thesis
      by (auto simp: accepted_def intro!: handled_quiet0 intro: quiet_trans0 quiet_count_fail quiet_charge)
  next
    case False
    with h obtain c1 c2 where 1: "run_handler (get_is_write mf) s addr i r t c = Some (st, c1)"
      and 2: "(if s = HIT \<and> m_defer_hit_response (m_config c1) \<and> st = HIT
                then enqueue_hit_response r i c1 else Some c1) = Some c2"
      and 3: "charge_data_port r st c2 = Some c'"
      by (clarsimp simp: process_tag_probe_def bind_Some_iff split del: if_split)
    note rh = run_handler_handled [OF 1 mf r f]
    note q3 = quiet_charge [OF 3]
    have nx: "next_mf (g_heap c2) \<le> next_mf (g_heap c')" using q3 by (simp add: quiet_def heap_le_def)
    show ?thesis
    proof (cases "s = HIT")
      case True
      with rh have st: "st \<in> {HIT, RESERVATION_FAIL}" and h1: "handled {#} c c1" by auto
      have cfg: "m_config c1 = m_config c" using h1 by (auto simp: handled_def moves_def)
      show ?thesis
      proof (cases "m_defer_hit_response (m_config c) \<and> st = HIT")
        case def: True
        with 2 True cfg have "enqueue_hit_response r i c1 = Some c2" by simp
        from enqueue_after [OF h1 this _ r inv] def have "handled {#r#} c c2" by simp
        from handled_then_quiet [OF this q3] def show ?thesis by (simp add: accepted_def)
      next
        case False
        with 2 cfg have "c2 = c1" by auto
        with handled_then_quiet [OF h1 q3 [unfolded \<open>c2 = c1\<close>]] False st show ?thesis
          by (auto simp: accepted_def)
      qed
    next
      case False
      with 2 have "c2 = c1" by simp
      with rh False have h2: "handled (accepted mf r st c) c c2" "st \<in> {MISS, RESERVATION_FAIL}"
        "st = MISS \<and> get_is_write mf \<longrightarrow> (\<forall>r \<in># alloc_token mf c. r < next_mf (g_heap c2))" by auto
      with handled_then_quiet [OF h2(1) q3] nx show ?thesis
        by (auto simp: accepted_def intro: less_le_trans split: if_splits)
    qed
  qed
  then show "handled (accepted mf r st c) c c'"
    "\<forall>q \<in># accepted mf r st c. q = r \<or> q < next_mf (g_heap c')" by blast+
qed

lemma accepted_tags [simp]: "accepted mf r st (c\<lparr>m_tag_array := ta\<rparr>) = accepted mf r st c"
  by (cases "m_wr_miss c") (auto simp: accepted_def alloc_token_def)

lemma data_access_handled:
  assumes h: "data_access addr r t c = Some (st, c')"
    and mf: "get_mf r c = Some mf" and r: "r \<notin># tokens (view c)"
    and f: "fresh_in (tokens (view c)) c" and inv: "view_inv (view c)"
  shows "handled (accepted mf r st c) c c'"
    "\<forall>q \<in># accepted mf r st c. q = r \<or> q < next_mf (g_heap c')"
proof -
  from h mf obtain s i ta c1 mf1 where
    p: "tag_probe (m_config c) (m_tag_array c) (block_addr (m_config c) addr) no_index
      (get_access_sector_mask mf) (get_is_write mf) = Some (s, i, ta)"
    and 1: "process_tag_probe (get_is_write mf) s addr i r t (c\<lparr>m_tag_array := ta\<rparr>) = Some (st, c1)"
    and 2: "count_outcome mf1 s st c1 = Some c'"
    by (auto simp: data_access_def bind_Some_iff Let_def)
  have v: "view (c\<lparr>m_tag_array := ta\<rparr>) = view c" by (rule view_tags [OF pins_probe [OF p]])
  note ph = process_handled [OF 1, unfolded v accepted_tags]
  have q: "quiet 0 c (c\<lparr>m_tag_array := ta\<rparr>)" by (rule quiet_tags [OF pins_probe [OF p]])
  have f': "fresh_in (tokens (view c)) (c\<lparr>m_tag_array := ta\<rparr>)" using f by (simp add: fresh_in_def)
  have mf': "get_mf r (c\<lparr>m_tag_array := ta\<rparr>) = Some mf" using mf by (simp add: get_mf_def)
  note ph = ph [OF mf' r f' inv]
  note q2 = quiet_count_outcome [OF 2]
  show "handled (accepted mf r st c) c c'"
    by (rule handled_then_quiet [OF quiet_then_handled [OF q ph(1)] q2]) simp
  show "\<forall>q \<in># accepted mf r st c. q = r \<or> q < next_mf (g_heap c')"
    using ph(2) q2 by (fastforce simp: quiet_def heap_le_def)
qed

text \<open>The read-only cache never writes, so it owes exactly the tokens it says it will answer.\<close>

definition ro_accepted :: "mf_ref \<Rightarrow> cache_request_status \<Rightarrow> 'a baseline_cache_scheme \<Rightarrow> mf_ref multiset" where
  "ro_accepted r st c =
     (if st = MISS \<or> st = HIT \<and> m_defer_hit_response (m_config c) then {#r#} else {#})"

lemma read_only_handled:
  assumes h: "read_only_access addr r t c = Some (st, c')"
    and r: "r \<notin># tokens (view c)" and inv: "view_inv (view c)"
  shows "handled (ro_accepted r st c) c c'" "st \<in> {HIT, MISS, RESERVATION_FAIL}"
proof -
  obtain mf where mf: "get_mf r c = Some mf" using h by (auto simp: read_only_access_def bind_Some_iff)
  let ?b = "block_addr (m_config c) addr"
  note h' = h [unfolded read_only_access_def mf bind.bind_lunit Let_def]
  from h' obtain s i ta where p: "tag_probe (m_config c) (m_tag_array c) ?b no_index
      (get_access_sector_mask mf) (get_is_write mf) = Some (s, i, ta)"
    by (auto simp: bind_Some_iff)
  let ?c = "c\<lparr>m_tag_array := ta\<rparr>"
  from h' p obtain c1 where 2: "count_outcome mf s st c1 = Some c'"
    and 1: "(if s = HIT then
            (if m_defer_hit_response (m_config c) \<and> hit_response_queue_full ?c then
               map_option (\<lambda>c. (RESERVATION_FAIL, c)) (count_fail mf HIT_RESPONSE_QUEUE_FULL ?c)
             else
               do {
                 (cache_status, idx, ta') \<leftarrow>
                   tag_access_no_wb (m_config c) ta ?b t i mf;
                 c \<leftarrow> (if m_defer_hit_response (m_config c) \<and> cache_status = HIT
                       then enqueue_hit_response r idx (c\<lparr>m_tag_array := ta'\<rparr>)
                       else Some (c\<lparr>m_tag_array := ta'\<rparr>));
                 Some (cache_status, c)
               })
          else if s \<noteq> RESERVATION_FAIL then
            (if \<not> miss_queue_full 0 ?c then
               do {
                 (do_miss, c) \<leftarrow> send_read_request_no_wb ?b i r t False True False ?c;
                 Some (if do_miss then MISS else RESERVATION_FAIL, c)
               }
             else map_option (\<lambda>c. (RESERVATION_FAIL, c)) (count_fail mf MISS_QUEUE_FULL ?c))
          else map_option (\<lambda>c. (RESERVATION_FAIL, c))
                 (count_fail mf (m_last_fail_reason ta) ?c)) = Some (st, c1)"
    by (clarsimp simp: bind_Some_iff split del: if_split cong: if_cong)
  have v: "view ?c = view c" by (rule view_tags [OF pins_probe [OF p]])
  have q: "quiet 0 c ?c" by (rule quiet_tags [OF pins_probe [OF p]])
  have "st \<in> {HIT, MISS, RESERVATION_FAIL} \<and> handled (ro_accepted r st c) ?c c1"
  proof (cases "s = HIT")
    case True
    show ?thesis
    proof (cases "m_defer_hit_response (m_config c) \<and> hit_response_queue_full ?c")
      case full: True
      with 1 True show ?thesis
        by (auto simp: ro_accepted_def intro: handled_quiet0 quiet_count_fail)
    next
      case room: False
      with 1 True obtain idx ta' where
        a: "tag_access_no_wb (m_config c) ta ?b t i mf = Some (st, idx, ta')"
        and e: "(if m_defer_hit_response (m_config c) \<and> st = HIT
            then enqueue_hit_response r idx (c\<lparr>m_tag_array := ta'\<rparr>) else Some (c\<lparr>m_tag_array := ta'\<rparr>)) = Some c1"
        by (clarsimp simp: bind_Some_iff split del: if_split)
      have st: "st = HIT" using access_no_wb_repeats(1) [OF p a] True by simp
      have "pins ta' = pins ta" by (rule pins_access_no_wb [OF a])
      then have "handled {#} ?c (?c\<lparr>m_tag_array := ta'\<rparr>)" by (intro handled_quiet0 quiet_tags) simp
      then have h1: "handled {#} ?c (c\<lparr>m_tag_array := ta'\<rparr>)" by simp
      show ?thesis
      proof (cases "m_defer_hit_response (m_config c)")
        case True
        with e st have "enqueue_hit_response r idx (c\<lparr>m_tag_array := ta'\<rparr>) = Some c1" by simp
        from enqueue_after [OF h1 this] True r inv have "handled {#r#} ?c c1" by (simp add: v)
        with st True show ?thesis by (simp add: ro_accepted_def)
      next
        case False
        with e h1 st show ?thesis by (simp add: ro_accepted_def)
      qed
    qed
  next
    case no: False
    show ?thesis
    proof (cases "s \<noteq> RESERVATION_FAIL \<and> \<not> miss_queue_full 0 ?c")
      case True
      with 1 no obtain d where s: "send_read_request_no_wb ?b i r t False True False ?c = Some (d, c1)"
        and st: "st = (if d then MISS else RESERVATION_FAIL)"
        by (auto simp: bind_Some_iff)
      from s obtain wb ev where
        s': "send_read_request ?b i r t False False no_evicted True False ?c = Some (d, wb, ev, c1)"
        by (auto simp: send_read_request_no_wb_def)
      have "moves (if d then {#r#} else {#}) 1 ?c c1" by (rule send_read_moves [OF s']) (simp add: v r)
      with True have "handled (if d then {#r#} else {#}) ?c c1"
        by (auto intro!: handledI [OF _ fits_room])
      with st show ?thesis by (simp add: ro_accepted_def split: if_splits)
    next
      case False
      with 1 no obtain why where "count_fail mf why ?c = Some c1" "st = RESERVATION_FAIL"
        by (cases "s = RESERVATION_FAIL") auto
      then show ?thesis by (auto simp: ro_accepted_def intro: handled_quiet0 quiet_count_fail)
    qed
  qed
  then have st: "st \<in> {HIT, MISS, RESERVATION_FAIL}" and h1: "handled (ro_accepted r st c) ?c c1" by auto
  show "st \<in> {HIT, MISS, RESERVATION_FAIL}" by (rule st)
  show "handled (ro_accepted r st c) c c'"
    by (rule handled_then_quiet [OF quiet_then_handled [OF q h1] quiet_count_outcome [OF 2]]) simp
qed

section \<open>The invariant of a cache\<close>

definition cache_inv :: "'a baseline_cache_scheme \<Rightarrow> bool" where
  "cache_inv c \<longleftrightarrow> view_inv (view c) \<and> heap_ok (g_heap c) \<and> fresh_in (tokens (view c)) c
     \<and> length (m_miss_queue c) \<le> unat (m_miss_queue_size (m_config c))"

lemma handled_inv:
  assumes "handled T c c'" "cache_inv c" "\<forall>q \<in># T. q < next_mf (g_heap c')"
  shows "cache_inv c'" "tokens (view c') = tokens (view c) + T" "m_config c' = m_config c"
    "vstep\<^sup>*\<^sup>* (view c) (view c')"
proof -
  from assms(1) obtain k where k: "moves T k c c'" "fits k c" by (auto simp: handled_def)
  have inv: "view_inv (view c)" using assms(2) by (simp add: cache_inv_def)
  with k(1) have s: "vstep\<^sup>*\<^sup>* (view c) (view c')" and t: "tokens (view c') = tokens (view c) + T"
    and cfg: "m_config c' = m_config c" and len: "length (m_miss_queue c') \<le> length (m_miss_queue c) + k"
    and h: "heap_le (g_heap c) (g_heap c')" by (auto simp: moves_def)
  show "tokens (view c') = tokens (view c) + T" by (rule t)
  show "m_config c' = m_config c" by (rule cfg)
  show "vstep\<^sup>*\<^sup>* (view c) (view c')" by (rule s)
  have "length (m_miss_queue c') \<le> unat (m_miss_queue_size (m_config c))"
    using len k(2) assms(2) by (auto simp: fits_def cache_inv_def)
  moreover have "fresh_in (tokens (view c')) c'"
    using assms(2,3) h by (fastforce simp: cache_inv_def fresh_in_def t heap_le_def)
  ultimately show "cache_inv c'"
    using vsteps_inv [OF s inv] assms(2) h by (simp add: cache_inv_def cfg heap_le_def)
qed

lemma quiet_inv:
  assumes "quiet 0 c c'" "cache_inv c"
  shows "cache_inv c'" "tokens (view c') = tokens (view c)" "m_config c' = m_config c"
  using handled_inv [OF handled_quiet0 [OF assms(1)] assms(2)] by auto

lemma token_allocated: "cache_inv c \<Longrightarrow> get_mf r c = Some mf \<Longrightarrow> r < next_mf (g_heap c)"
  by (auto simp: cache_inv_def heap_ok_def get_mf_def heap_get_def)

text \<open>The caches a constructor returns.\<close>

lemma pins_new: "new_tag_array cfg core ty = Some ta \<Longrightarrow> pins ta = replicate (length (m_lines ta)) 0"
  by (auto simp: new_tag_array_def pins_def Let_def bind_Some_iff blk_pending_def new_line_block_def
      new_sector_block_def split: cache_type.splits if_splits)

lemma new_baseline_inv:
  assumes n: "new_baseline_cache cfg core ty st lvl h = Some c" and h: "heap_ok h"
    and merge: "0 < m_mshr_max_merge cfg"
  shows "view_inv (view c)" "tokens (view c) = {#}" "m_miss_queue c = []" "m_config c = cfg"
    "g_heap c = h"
proof -
  from n obtain ta where ta: "new_tag_array cfg core ty = Some ta" and c: "m_tag_array c = ta"
    "m_config c = cfg" "m_mshrs c = new_mshr_table (m_mshr_entries cfg) (m_mshr_max_merge cfg)"
    "m_miss_queue c = []" "m_extra_mf_fields c = []" "m_hit_response_queue c = []"
    "m_ready_response_queue c = []" "m_pending_response_indices c = []" "g_heap c = h"
    by (auto simp: new_baseline_cache_def bind_Some_iff)
  show "m_miss_queue c = []" "m_config c = cfg" "g_heap c = h" using c by simp_all
  have "pins_match (pins ta) []" using pins_new [OF ta] by (auto simp: pins_match_def)
  moreover have "blocks_ok (m_mshrs c) []"
    by (simp add: blocks_ok_def c mshr_inv_new [OF merge])
      (simp add: new_mshr_table_def mshr_waiting_def mshr_lookup_def new_mshr_entry_def)
  moreover show t: "tokens (view c) = {#}"
    by (simp add: tokens_def view_def c) (simp add: new_mshr_table_def mshr_outstanding_def)
  ultimately show "view_inv (view c)" by (simp add: view_inv_def t) (simp add: view_def c)
qed

lemma new_data_inv:
  assumes n: "new_data_cache cfg core ty cr st wa wrbk lvl h = Some c" and h: "heap_ok h"
    and merge: "0 < m_mshr_max_merge cfg"
  shows "cache_inv c" "tokens (view c) = {#}" "m_config c = cfg" "g_heap c = h"
proof -
  from n obtain b x where b: "new_baseline_cache cfg core ty st lvl h = Some b"
    and c: "c = baseline_cache.extend b x" by (auto simp: new_data_cache_def bind_Some_iff)
  have v: "view c = view b" by (simp add: c view_def baseline_cache.defs)
  note nb = new_baseline_inv [OF b h merge]
  show "tokens (view c) = {#}" by (simp add: v nb)
  show "m_config c = cfg" using nb by (simp add: c baseline_cache.defs)
  have "m_miss_queue c = []" using nb by (simp add: c baseline_cache.defs)
  moreover show "g_heap c = h" using nb by (simp add: c baseline_cache.defs)
  ultimately show "cache_inv c" using nb h by (simp add: cache_inv_def v fresh_in_def)
qed

section \<open>Runs\<close>

text \<open>
  A client's history from a cache \<open>c0\<close>: \<open>A\<close> are the tokens the cache has accepted, \<open>D\<close> the ones it has
  handed back. A token is not offered again while the cache holds it. The last three rules are the
  client's own: it allocates tokens, frees those the cache no longer owes, and empties the event list.
\<close>

inductive cache_run :: "data_cache \<Rightarrow> mf_ref multiset \<Rightarrow> mf_ref multiset \<Rightarrow> data_cache \<Rightarrow> bool"
  for c0 where
  start: "cache_run c0 {#} {#} c0"
| access: "\<lbrakk>cache_run c0 A D c; get_mf r c = Some mf; r \<notin># tokens (view c);
    data_access addr r t c = Some (st, c')\<rbrakk> \<Longrightarrow> cache_run c0 (A + accepted mf r st c) D c'"
| tick: "\<lbrakk>cache_run c0 A D c; cycle port_full port_push p c = Some (p', c')\<rbrakk> \<Longrightarrow> cache_run c0 A D c'"
| filled: "\<lbrakk>cache_run c0 A D c; fill r t c = Some c'\<rbrakk> \<Longrightarrow> cache_run c0 A D c'"
| deliver: "\<lbrakk>cache_run c0 A D c; next_access c = Some (r, c')\<rbrakk> \<Longrightarrow> cache_run c0 A (add_mset r D) c'"
| flushed: "\<lbrakk>cache_run c0 A D c; flush c = Some c'\<rbrakk> \<Longrightarrow> cache_run c0 A D c'"
| invalidated: "\<lbrakk>cache_run c0 A D c; invalidate c = Some c'\<rbrakk> \<Longrightarrow> cache_run c0 A D c'"
| forced: "\<lbrakk>cache_run c0 A D c; force_tag_access addr t sm c = Some c'\<rbrakk> \<Longrightarrow> cache_run c0 A D c'"
| alloc: "cache_run c0 A D c \<Longrightarrow> cache_run c0 A D (c\<lparr>g_heap := snd (heap_new mf (g_heap c))\<rparr>)"
| free: "cache_run c0 A D c \<Longrightarrow> cache_run c0 A D (c\<lparr>g_heap := heap_delete r (g_heap c)\<rparr>)"
| events: "cache_run c0 A D c \<Longrightarrow> cache_run c0 A D (c\<lparr>g_events := []\<rparr>)"

lemma moves_inv:
  assumes "moves {#} 0 c c'" "cache_inv c"
  shows "cache_inv c'" "tokens (view c') = tokens (view c)" "m_config c' = m_config c"
proof -
  have h: "handled {#} c c'" using assms(1) by (auto simp: fits_def intro: handledI)
  show "cache_inv c'" "tokens (view c') = tokens (view c)" "m_config c' = m_config c"
    using handled_inv [OF h assms(2)] by auto
qed

lemma access_inv:
  assumes i: "cache_inv c" and mf: "get_mf r c = Some mf" and r: "r \<notin># tokens (view c)"
    and a: "data_access addr r t c = Some (st, c')"
  shows "cache_inv c'" "tokens (view c') = tokens (view c) + accepted mf r st c" "m_config c' = m_config c"
    "vstep\<^sup>*\<^sup>* (view c) (view c')"
proof -
  have f: "fresh_in (tokens (view c)) c" and v: "view_inv (view c)" using i by (simp_all add: cache_inv_def)
  note h = data_access_handled [OF a mf r f v]
  have "next_mf (g_heap c) \<le> next_mf (g_heap c')" using h(1) by (auto simp: handled_def dest: moves_next)
  with h(2) token_allocated [OF i mf] have "\<forall>q \<in># accepted mf r st c. q < next_mf (g_heap c')"
    by (metis less_le_trans)
  from handled_inv [OF h(1) i this] show "cache_inv c'"
    "tokens (view c') = tokens (view c) + accepted mf r st c" "m_config c' = m_config c"
    "vstep\<^sup>*\<^sup>* (view c) (view c')" by auto
qed

lemma deliver_inv:
  assumes i: "cache_inv c" and n: "next_access c = Some (r, c')"
  shows "cache_inv c'" "tokens (view c) = add_mset r (tokens (view c'))" "m_config c' = m_config c"
proof -
  have v: "view_inv (view c)" using i by (simp add: cache_inv_def)
  note s = next_access_step [OF n v]
  show "tokens (view c) = add_mset r (tokens (view c'))" "m_config c' = m_config c" using s by auto
  show "cache_inv c'" using i vstep_inv [OF s(1) v] s by (simp add: cache_inv_def fresh_in_def)
qed

lemma run_inv:
  assumes "cache_run c0 A D c" "cache_inv c0"
  shows "cache_inv c \<and> A + tokens (view c0) = D + tokens (view c) \<and> m_config c = m_config c0"
  using assms
proof (induction rule: cache_run.induct)
  case start
  then show ?case by simp
next
  case (access A D c r mf addr t st c')
  with access_inv [of c r mf addr t st c'] show ?case by (simp add: ac_simps)
next
  case (tick A D c p p' c')
  with moves_inv [OF cycle_moves [OF tick(2)]] show ?case by simp
next
  case (filled A D c r t c')
  with moves_inv [OF fill_moves [OF filled(2)]] show ?case by simp
next
  case (deliver A D c r c')
  with deliver_inv [of c r c'] show ?case by simp
next
  case (flushed A D c c')
  with quiet_inv [OF quiet_flush [OF flushed(2)]] show ?case by simp
next
  case (invalidated A D c c')
  with quiet_inv [OF quiet_invalidate [OF invalidated(2)]] show ?case by simp
next
  case (forced A D c addr t sm c')
  with quiet_inv [OF quiet_force [OF forced(2)]] show ?case by simp
next
  case (alloc A D c mf)
  have "quiet 0 c (c\<lparr>g_heap := snd (heap_new mf (g_heap c))\<rparr>)" by (simp add: quiet_def heap_le_new)
  with alloc quiet_inv show ?case by fastforce
next
  case (free A D c r)
  have "quiet 0 c (c\<lparr>g_heap := heap_delete r (g_heap c)\<rparr>)" by (simp add: quiet_def heap_le_delete)
  with free quiet_inv show ?case by fastforce
next
  case (events A D c)
  have "quiet 0 c (c\<lparr>g_events := []\<rparr>)" by (simp add: quiet_def)
  with events quiet_inv show ?case by fastforce
qed

text \<open>Delivery does not trip the assertion of \<open>decrement_pending_response\<close>.\<close>

lemma next_access_defined:
  assumes i: "cache_inv c" and ready: "access_ready c" and small: "length (m_pending_response_indices c) < 2 ^ 32"
  shows "\<exists>r c'. next_access c = Some (r, c')"
proof -
  have v: "view_inv (view c)" using i by (simp add: cache_inv_def)
  then have pm: "pins_match (pins (m_tag_array c)) (m_pending_response_indices c)"
    by (simp add: view_inv_def view_def)
  have un: "unpin_response r c1 \<noteq> None"
    if "m_tag_array c1 = m_tag_array c" "m_pending_response_indices c1 = m_pending_response_indices c" for r c1
  proof (cases "map_of (m_pending_response_indices c) r")
    case None
    with that show ?thesis by (simp add: unpin_response_def)
  next
    case (Some i)
    note p = pins_match_unpin [OF pm Some]
    have "i < length (m_lines (m_tag_array c))" using p(2) by simp
    moreover have "count_val i (m_pending_response_indices c) < 2 ^ 32"
      using small count_val_le [of i "m_pending_response_indices c"] by simp
    then have "blk_is_pinned (m_lines (m_tag_array c) ! i)"
      using p(3,4) calculation by (intro block_pins.pinned_of_nat) auto
    then have "\<exists>b. blk_unpin (m_lines (m_tag_array c) ! i) = Some b" using block_pins.unpin_held block_pins.pinned_iff by blast
    ultimately show ?thesis
      using that Some by (auto simp: unpin_response_def get_block_def set_line_def)
  qed
  show ?thesis
  proof (cases "m_ready_response_queue c")
    case (Cons r rest)
    with un [of "c\<lparr>m_ready_response_queue := rest\<rparr>" r] ready show ?thesis
      by (auto simp: next_access_def)
  next
    case Nil
    have inv: "mshr_inv (m_mshrs c)" using v by (simp add: view_inv_def view_def blocks_ok_def)
    from Nil ready obtain a rest where "m_current_response (m_mshrs c) = a # rest"
      by (auto simp: access_ready_def mshr_access_ready_def neq_Nil_conv)
    from mshr.next_spec [OF inv this] obtain r ms where ms: "mshr_next_access (m_mshrs c) = Some (r, ms)"
      by blast
    with un [of "c\<lparr>m_mshrs := ms\<rparr>" r] Nil ready show ?thesis
      by (auto simp: next_access_def)
  qed
qed

end
