(* ===== verification/CacheProps.thy ===== *)
theory CacheProps
  imports CacheRuns Samples
begin

text \<open>
  The properties of the data and read-only caches over whole histories, with a concrete history
  for their witnesses: a read that misses, its fill, its delivery, on a cache of two sets and two
  ways.
\<close>

section \<open>A concrete history\<close>

definition sample_cache :: data_cache where
  "sample_cache = the (new_l1_cache tiny_cfg 0 0 \<lparr>allocated = []\<rparr> IN_L1D_MISS_QUEUE L1_GPU_CACHE
     (snd (heap_new (plain_mf (read_access 0 32)) empty_heap)))"

definition sample_missed :: data_cache where
  "sample_missed = snd (the (data_access 0 0 1 sample_cache))"

definition sample_filled :: data_cache where
  "sample_filled = the (fill 0 5 sample_missed)"

lemma sample_cache_new: "new_l1_cache tiny_cfg 0 0 \<lparr>allocated = []\<rparr> IN_L1D_MISS_QUEUE L1_GPU_CACHE
     (snd (heap_new (plain_mf (read_access 0 32)) empty_heap)) = Some sample_cache"
proof -
  have "new_l1_cache tiny_cfg 0 0 \<lparr>allocated = []\<rparr> IN_L1D_MISS_QUEUE L1_GPU_CACHE
     (snd (heap_new (plain_mf (read_access 0 32)) empty_heap)) \<noteq> None" by code_simp
  then show ?thesis by (simp add: sample_cache_def)
qed

lemma sample_access: "data_access 0 0 1 sample_cache = Some (MISS, sample_missed)"
proof -
  have "map_option fst (data_access 0 0 1 sample_cache) = Some MISS" by code_simp
  then show ?thesis by (auto simp: sample_missed_def)
qed

lemma sample_fill: "fill 0 5 sample_missed = Some sample_filled"
proof -
  have "fill 0 5 sample_missed \<noteq> None" by code_simp
  then show ?thesis by (simp add: sample_filled_def)
qed

lemma sample_next: "map_option fst (next_access sample_filled) = Some 0"
  by code_simp

lemma sample_tokens: "tokens (view sample_cache) = {#}" "cache_inv sample_cache"
  "m_config sample_cache = tiny_cfg"
  "g_heap sample_cache = snd (heap_new (plain_mf (read_access 0 32)) empty_heap)"
  using new_data_inv [OF sample_cache_new [unfolded new_l1_cache_def] heap_ok_new [OF heap_ok_empty]]
  by (simp_all add: tiny_cfg_def)

lemma sample_mf: "get_mf 0 sample_cache = Some (plain_mf (read_access 0 32))"
  by (simp add: get_mf_def heap_get_def sample_tokens(4)) (simp add: heap_new_def empty_heap_def)

lemma sample_history:
  "cache_run sample_cache {#0#} {#} sample_missed" "cache_run sample_cache {#0#} {#} sample_filled"
proof -
  have "accepted (plain_mf (read_access 0 32)) 0 MISS sample_cache = {#0#}"
    by (simp add: accepted_def plain_mf_def new_mem_fetch_def read_access_def new_mem_access_def)
  with cache_run.access [OF cache_run.start sample_mf _ sample_access]
  show m: "cache_run sample_cache {#0#} {#} sample_missed" by (simp add: sample_tokens)
  show "cache_run sample_cache {#0#} {#} sample_filled" by (rule cache_run.filled [OF m sample_fill])
qed

section \<open>Properties\<close>

text \<open>C1: Exactly once. In every history of a data cache that starts with a constructor, the tokens the
  cache has accepted (read misses, deferred hits, fetches it allocated for write misses) are the ones
  it has handed back by \<open>next_access\<close> together with the ones it still holds, each as often as it was
  accepted: no token is lost, duplicated or invented.\<close>

theorem tokens_exactly_once:
  assumes "new_data_cache cfg core ty cr st wa wrbk lvl h = Some c0" "heap_ok h"
    "0 < m_mshr_max_merge cfg" "cache_run c0 A D c"
  shows "A = D + tokens (view c) \<and> D \<subseteq># A"
  using run_inv [OF assms(4) new_data_inv(1) [OF assms(1-3)]] new_data_inv(2) [OF assms(1-3)]
  by auto

theorem tokens_exactly_once_witness:
  "{#0#} = {#} + tokens (view sample_filled) \<and> {#} \<subseteq># ({#0#} :: nat multiset)"
  using tokens_exactly_once [OF sample_cache_new [unfolded new_l1_cache_def]
      heap_ok_new [OF heap_ok_empty] _ sample_history(2)]
  by (simp add: tiny_cfg_def)

text \<open>C2: The ledger of pins. After any history the pending-response counter of every line is the number
  of tokens recorded as pinned to that line, and with deferred responses the recorded tokens are exactly
  those the cache still owes, so a line with an undelivered response cannot be unpinned or
  over-counted.\<close>

theorem pin_ledger:
  assumes "new_data_cache cfg core ty cr st wa wrbk lvl h = Some c0" "heap_ok h"
    "0 < m_mshr_max_merge cfg" "cache_run c0 A D c"
  shows "(\<forall>i < length (m_lines (m_tag_array c)).
      blk_pending (m_lines (m_tag_array c) ! i) = of_nat (count_val i (m_pending_response_indices c)))
    \<and> (if m_defer_hit_response cfg
       then mset (map fst (m_pending_response_indices c)) = tokens (view c)
       else m_pending_response_indices c = [])"
proof -
  note n = new_data_inv [OF assms(1-3)]
  have "view_inv (view c)" "m_config c = cfg"
    using run_inv [OF assms(4) n(1)] n(3) by (auto simp: cache_inv_def)
  then have "pins_match (pins (m_tag_array c)) (m_pending_response_indices c)"
    "if m_defer_hit_response cfg then mset (map fst (m_pending_response_indices c)) = tokens (view c)
     else m_pending_response_indices c = []"
    by (auto simp: view_inv_def view_def split: if_splits)
  then show ?thesis by (simp add: pins_match_def)
qed

theorem pin_ledger_witness:
  "mset (map fst (m_pending_response_indices sample_missed)) = tokens (view sample_missed)"
  using pin_ledger [OF sample_cache_new [unfolded new_l1_cache_def]
      heap_ok_new [OF heap_ok_empty] _ sample_history(1)]
  by (simp add: tiny_cfg_def)

text \<open>C5: The miss queue never holds more than its configured number of tokens, whatever the write
  policies: every handler checks for the slots it uses, its write-back and its fetch included.\<close>

theorem miss_queue_bounded:
  assumes "new_data_cache cfg core ty cr st wa wrbk lvl h = Some c0" "heap_ok h"
    "0 < m_mshr_max_merge cfg" "cache_run c0 A D c"
  shows "length (m_miss_queue c) \<le> unat (m_miss_queue_size cfg)"
  using run_inv [OF assms(4) new_data_inv(1) [OF assms(1-3)]] new_data_inv(3) [OF assms(1-3)]
  by (auto simp: cache_inv_def)

theorem miss_queue_bounded_witness: "length (m_miss_queue sample_missed) \<le> 4"
  using miss_queue_bounded [OF sample_cache_new [unfolded new_l1_cache_def]
      heap_ok_new [OF heap_ok_empty] _ sample_history(1)]
  by (simp add: tiny_cfg_def)

text \<open>C3: Refinement. An access of a data cache is a run of the specification's steps between the views
  of the two states: what it pins, merges, queues and fetches is one of the steps \<open>hit\<close>, \<open>merge\<close>,
  \<open>miss\<close>, or nothing when the access is refused; and the tokens owed grow by those it accepts.\<close>

theorem access_refines:
  assumes "cache_inv c" "get_mf r c = Some mf" "r \<notin># tokens (view c)"
    "data_access addr r t c = Some (st, c')"
  shows "vstep\<^sup>*\<^sup>* (view c) (view c') \<and> tokens (view c') = tokens (view c) + accepted mf r st c
    \<and> (st = RESERVATION_FAIL \<longrightarrow> tokens (view c') = tokens (view c)) \<and> cache_inv c'"
  using access_inv [OF assms] by (auto simp: accepted_def)

theorem access_refines_witness: "vstep\<^sup>*\<^sup>* (view sample_cache) (view sample_missed)"
  using access_refines [OF sample_tokens(2) sample_mf _ sample_access] by (simp add: sample_tokens)

text \<open>C4: Delivery is safe. When \<open>access_ready\<close> holds, \<open>next_access\<close> returns a token the cache owes and
  the assertion that the line's counter is positive cannot fail; the token leaves the books. The bound
  on the number of pending responses is the range of the 32-bit counter.\<close>

theorem delivery_safe:
  assumes "cache_inv c" "access_ready c" "length (m_pending_response_indices c) < 2 ^ 32"
  shows "\<exists>r c'. next_access c = Some (r, c') \<and> tokens (view c) = add_mset r (tokens (view c'))
    \<and> cache_inv c' \<and> vstep (view c) (view c')"
proof -
  from next_access_defined [OF assms] obtain r c' where n: "next_access c = Some (r, c')" by blast
  have "view_inv (view c)" using assms(1) by (simp add: cache_inv_def)
  with n deliver_inv [OF assms(1) n] next_access_step(1) [OF n] show ?thesis by blast
qed

theorem delivery_safe_witness:
  "\<exists>r c'. next_access sample_filled = Some (r, c') \<and>
     tokens (view sample_filled) = add_mset r (tokens (view c'))"
proof -
  have i: "cache_inv sample_filled" using run_inv [OF sample_history(2) sample_tokens(2)] by simp
  have r: "access_ready sample_filled" by code_simp
  have l: "length (m_pending_response_indices sample_filled) = 1" by code_simp
  show ?thesis using delivery_safe [OF i r] l by auto
qed

text \<open>Read-only cache. An access answers HIT, MISS or RESERVATION_FAIL; it owes its token exactly
  when it says MISS or, with deferred responses, HIT, and a refusal owes nothing.\<close>

theorem read_only_accounting:
  assumes "cache_inv c" "get_mf r c = Some mf" "r \<notin># tokens (view c)"
    "read_only_access addr r t c = Some (st, c')"
  shows "st \<in> {HIT, MISS, RESERVATION_FAIL} \<and> cache_inv c' \<and> tokens (view c') = tokens (view c) +
    (if st = MISS \<or> st = HIT \<and> m_defer_hit_response (m_config c) then {#r#} else {#})"
proof -
  have v: "view_inv (view c)" using assms(1) by (simp add: cache_inv_def)
  note h = read_only_handled [OF assms(4,3) v]
  have "next_mf (g_heap c) \<le> next_mf (g_heap c')" using h(1) by (auto simp: handled_def dest: moves_next)
  with token_allocated [OF assms(1,2)] have "\<forall>q \<in># ro_accepted r st c. q < next_mf (g_heap c')"
    by (simp add: ro_accepted_def)
  from handled_inv [OF h(1) assms(1) this] h(2) show ?thesis by (auto simp: ro_accepted_def)
qed

definition sample_ro :: baseline_cache where
  "sample_ro = the (new_baseline_cache ro_cfg 0 0 IN_L1D_MISS_QUEUE L1_GPU_CACHE
     (snd (heap_new (plain_mf (read_access 0 32)) empty_heap)))"

theorem read_only_accounting_witness:
  "\<exists>c'. read_only_access 0 0 1 sample_ro = Some (MISS, c') \<and> tokens (view c') = {#0#}"
proof -
  have "new_baseline_cache ro_cfg 0 0 IN_L1D_MISS_QUEUE L1_GPU_CACHE
     (snd (heap_new (plain_mf (read_access 0 32)) empty_heap)) \<noteq> None" by code_simp
  then have n: "new_baseline_cache ro_cfg 0 0 IN_L1D_MISS_QUEUE L1_GPU_CACHE
     (snd (heap_new (plain_mf (read_access 0 32)) empty_heap)) = Some sample_ro"
    by (simp add: sample_ro_def)
  note i = new_baseline_inv [OF n heap_ok_new [OF heap_ok_empty]]
  have m: "0 < m_mshr_max_merge ro_cfg" by (simp add: ro_cfg_def tiny_cfg_def)
  have inv: "cache_inv sample_ro" using i [OF m] heap_ok_new [OF heap_ok_empty]
    by (simp add: cache_inv_def fresh_in_def)
  have mf: "get_mf 0 sample_ro = Some (plain_mf (read_access 0 32))" using i(5) [OF m]
    by (simp add: get_mf_def heap_get_def heap_new_def empty_heap_def)
  have "map_option fst (read_only_access 0 0 1 sample_ro) = Some MISS" by code_simp
  then obtain c' where a: "read_only_access 0 0 1 sample_ro = Some (MISS, c')" by auto
  from read_only_accounting [OF inv mf _ a] a show ?thesis by (simp add: i [OF m])
qed

section \<open>Refusals and latencies\<close>

text \<open>C10: A read miss is refused exactly when a resource is missing. \<open>rd_miss_base\<close> answers
  RESERVATION_FAIL if the miss queue has no two free slots (the fetch and a possible write-back) or the
  MSHR table has no room for the block, and MISS otherwise.\<close>

theorem read_miss_refusal:
  assumes h: "rd_miss_base addr i r t s c = Some (st, c')" and mf: "get_mf r c = Some mf"
  shows "st = (if miss_queue_full 1 c \<or> mshr_full (m_mshrs c) (mshr_addr (m_config c) (get_addr mf))
               then RESERVATION_FAIL else MISS)"
proof (cases "miss_queue_full 1 c")
  case True
  with h mf show ?thesis by (auto simp: rd_miss_base_def)
next
  case False
  then have room: "length (m_miss_queue c) < unat (m_miss_queue_size (m_config c))"
    by (simp add: miss_queue_full_def)
  from h False mf obtain d wb ev c1 where
    s: "send_read_request (block_addr (m_config c) addr) i r t False False no_evicted False False c
      = Some (d, wb, ev, c1)" and st: "st = (if d then MISS else RESERVATION_FAIL)"
    by (auto simp: rd_miss_base_def bind_Some_iff Let_def split: if_splits)
  have "d \<longleftrightarrow> \<not> mshr_full (m_mshrs c) (mshr_addr (m_config c) (get_addr mf))"
    using s mf room by (auto simp: send_read_request_def bind_Some_iff Let_def split: if_splits)
  with st False show ?thesis by simp
qed

theorem read_miss_refusal_witness:
  "\<exists>st c'. rd_miss_base 0 0 0 1 MISS sample_cache = Some (st, c') \<and> st = MISS"
proof -
  have "rd_miss_base 0 0 0 1 MISS sample_cache \<noteq> None" by code_simp
  then obtain st c' where h: "rd_miss_base 0 0 0 1 MISS sample_cache = Some (st, c')" by auto
  have "\<not> (miss_queue_full 1 sample_cache \<or> mshr_full (m_mshrs sample_cache)
      (mshr_addr (m_config sample_cache) (get_addr (plain_mf (read_access 0 32)))))" by code_simp
  with read_miss_refusal [OF h sample_mf] h show ?thesis by auto
qed

text \<open>One tick, as comprehensions.\<close>

definition dec_entry :: "delayed_response_entry \<Rightarrow> delayed_response_entry" where
  "dec_entry e = e\<lparr>dr_remaining_cycles := dr_remaining_cycles e - 1\<rparr>"

lemma tick_spec:
  "\<forall>e \<in> set es. dr_remaining_cycles e \<noteq> 0 \<Longrightarrow>
   tick_hit_queue es ready = Some (map dec_entry (filter (\<lambda>e. dr_remaining_cycles e \<noteq> 1) es),
     ready @ map dr_mf (filter (\<lambda>e. dr_remaining_cycles e = 1) es))"
  by (induction es ready rule: tick_hit_queue.induct) (auto simp: dec_entry_def Let_def)

fun ticks :: "nat \<Rightarrow> delayed_response_entry list \<Rightarrow> mf_ref list
    \<Rightarrow> (delayed_response_entry list \<times> mf_ref list) option" where
  "ticks 0 es ready = Some (es, ready)"
| "ticks (Suc k) es ready = (case tick_hit_queue es ready of None \<Rightarrow> None | Some (es', r') \<Rightarrow> ticks k es' r')"

lemma unat_pred: "(x :: u32) \<noteq> 0 \<Longrightarrow> unat (x - 1) = unat x - 1"
  by (rule unat_minus_one)

lemma word_one_iff: "(x :: u32) = 1 \<longleftrightarrow> unat x = 1"
  by (simp add: word_unat_eq_iff)

text \<open>C11: A deferred hit becomes ready after exactly its latency. After \<open>k\<close> ticks the hit response queue
  holds, in order, the entries whose latency exceeds \<open>k\<close>, each counted down by \<open>k\<close>. The others have
  joined the ready queue behind what was there, each once: first those of latency 1, then those of
  latency 2 and so on, and those of equal latency in the order of the hits. No assertion fails.\<close>

theorem deferred_hit_latency:
  assumes "\<forall>e \<in> set es. 0 < dr_remaining_cycles e"
  shows "ticks k es ready = Some
      (map (\<lambda>e. e\<lparr>dr_remaining_cycles := dr_remaining_cycles e - of_nat k\<rparr>)
         (filter (\<lambda>e. k < unat (dr_remaining_cycles e)) es),
       ready @ concat (map (\<lambda>n. map dr_mf (filter (\<lambda>e. unat (dr_remaining_cycles e) = n) es)) [1..<Suc k]))"
  using assms
proof (induction k arbitrary: es ready)
  case 0
  then show ?case by (auto simp: word_less_nat_alt filter_id_conv)
next
  case (Suc k)
  let ?r = "\<lambda>e. dr_remaining_cycles e" and ?d = "\<lambda>k e. e\<lparr>dr_remaining_cycles := dr_remaining_cycles e - of_nat k\<rparr>"
  let ?es = "map dec_entry (filter (\<lambda>e. ?r e \<noteq> 1) es)" and ?now = "map dr_mf (filter (\<lambda>e. ?r e = 1) es)"
  let ?at = "\<lambda>es n. map dr_mf (filter (\<lambda>e. unat (?r e) = n) es)"
  have pos: "\<forall>e \<in> set es. ?r e \<noteq> 0" using Suc.prems by auto
  have u: "unat (?r (dec_entry e)) = unat (?r e) - 1" if "e \<in> set es" for e
    using pos that by (simp add: dec_entry_def unat_pred)
  have pos': "0 < unat (?r e)" if "e \<in> set es" for e using pos that by (simp add: unat_gt_0)
  have later: "filter (\<lambda>e. P (unat (?r e))) ?es = map dec_entry (filter (\<lambda>e. P (unat (?r e) - 1) \<and> ?r e \<noteq> 1) es)" for P
    using u by (auto simp: filter_map intro!: arg_cong [where f = "map dec_entry"] filter_cong)
  have "\<forall>e \<in> set ?es. 0 < ?r e"
    using u pos' by (fastforce simp: word_less_nat_alt word_one_iff)
  from Suc.IH [OF this, of "ready @ ?now"] have
    rs: "ticks k ?es (ready @ ?now) = Some (map (?d k) (filter (\<lambda>e. k < unat (?r e)) ?es),
      (ready @ ?now) @ concat (map (?at ?es) [1..<Suc k]))" .
  have "filter (\<lambda>e. k < unat (?r e) - 1 \<and> ?r e \<noteq> 1) es = filter (\<lambda>e. Suc k < unat (?r e)) es"
    by (rule filter_cong) (use pos' in \<open>auto simp: word_one_iff\<close>)
  then have q: "map (?d k) (filter (\<lambda>e. k < unat (?r e)) ?es) = map (?d (Suc k)) (filter (\<lambda>e. Suc k < unat (?r e)) es)"
    unfolding later [of "\<lambda>n. k < n"] by (simp add: dec_entry_def algebra_simps)
  have "?at ?es n = ?at es (Suc n)" if "1 \<le> n" for n
  proof -
    have "filter (\<lambda>e. unat (?r e) - 1 = n \<and> ?r e \<noteq> 1) es = filter (\<lambda>e. unat (?r e) = Suc n) es"
      by (rule filter_cong) (use that in \<open>auto simp: word_one_iff\<close>)
    then show ?thesis unfolding later [of "\<lambda>m. m = n"] by (simp add: dec_entry_def comp_def)
  qed
  then have "map (?at ?es) [1..<Suc k] = map (?at es) (map Suc [1..<Suc k])" by auto
  moreover have "[1..<Suc (Suc k)] = 1 # map Suc [1..<Suc k]" by (simp add: map_Suc_upt upt_conv_Cons del: upt_Suc)
  moreover have "?now = ?at es 1" by (simp add: word_one_iff)
  ultimately have "?now @ concat (map (?at ?es) [1..<Suc k]) = concat (map (?at es) [1..<Suc (Suc k)])"
    by (simp only: list.map concat.simps)
  with rs q show ?case by (simp add: tick_spec [OF pos] del: upt_Suc)
qed

theorem deferred_hit_latency_witness:
  "ticks 2 [\<lparr>dr_mf = 6, dr_remaining_cycles = 2\<rparr>, \<lparr>dr_mf = 7, dr_remaining_cycles = 1\<rparr>, \<lparr>dr_mf = 8, dr_remaining_cycles = 2\<rparr>,
      \<lparr>dr_mf = 9, dr_remaining_cycles = 3\<rparr>] [5]
     = Some ([\<lparr>dr_mf = 9, dr_remaining_cycles = 1\<rparr>], [5, 7, 6, 8])"
proof -
  have "[1..<Suc 2] = [1, 2]" by code_simp
  with deferred_hit_latency [of "[\<lparr>dr_mf = 6, dr_remaining_cycles = 2\<rparr>, \<lparr>dr_mf = 7, dr_remaining_cycles = 1\<rparr>,
      \<lparr>dr_mf = 8, dr_remaining_cycles = 2\<rparr>, \<lparr>dr_mf = 9, dr_remaining_cycles = 3\<rparr>]" 2 "[5]"]
  show ?thesis by simp
qed

end
