(* ===== verification/MemoryFacts.thy ===== *)
theory MemoryFacts
  imports MemorySystem CacheProps
begin

text \<open>
  Properties of the two-level system: draining the ready responses ends, a read returns the bytes of
  the level that serves it, and the history in which a write is lost.
\<close>

section \<open>Draining\<close>

lemma fuel_step:
  assumes i: "cache_inv c" and n: "next_access c = Some (r, c')"
  shows "ready_fuel c = Suc (ready_fuel c')"
    "length (m_pending_response_indices c') \<le> length (m_pending_response_indices c)"
proof -
  have h: "m_hit_response_queue c' = m_hit_response_queue c"
    and p: "length (m_pending_response_indices c') \<le> length (m_pending_response_indices c)"
    using n by (auto simp: next_access_def unpin_response_def bind_Some_iff length_delete_le
        split: list.splits option.splits)
  have e: "size (tokens (view x)) = length (m_hit_response_queue x) + ready_fuel x" for x :: "'a baseline_cache_scheme"
  proof -
    have "size (\<Sum>e \<leftarrow> d. mset (m_list (snd e))) = (\<Sum>e \<leftarrow> d. length (m_list (snd e)))"
      for d :: "(new_addr_type \<times> mshr_entry) list" by (induction d) simp_all
    then show ?thesis by (simp add: tokens_def view_def ready_fuel_def mshr_outstanding_def)
  qed
  have "size (tokens (view c)) = Suc (size (tokens (view c')))" using deliver_inv(2) [OF i n] by simp
  then show "ready_fuel c = Suc (ready_fuel c')" by (simp add: e h)
  show "length (m_pending_response_indices c') \<le> length (m_pending_response_indices c)" by (rule p)
qed

lemma drain_ready_ends:
  assumes "cache_inv c" "length (m_pending_response_indices c) < 2 ^ 32"
  shows "\<exists>c'. drain_ready (ready_fuel c) c = Some c' \<and> \<not> access_ready c' \<and> cache_inv c'"
  using assms
proof (induction "ready_fuel c" arbitrary: c)
  case 0
  have "\<not> access_ready c"
  proof
    assume "access_ready c"
    from next_access_defined [OF 0(2) this 0(3)] fuel_step(1) [OF 0(2)] 0(1) show False by auto
  qed
  with 0(1,2) show ?case by (auto simp: 0(1) [symmetric])
next
  case (Suc n)
  show ?case
  proof (cases "access_ready c")
    case False
    with Suc(3) show ?thesis by (auto simp: Suc(2) [symmetric])
  next
    case True
    from next_access_defined [OF Suc(3) True Suc(4)] obtain r c1 where n: "next_access c = Some (r, c1)" by auto
    note f = fuel_step [OF Suc(3) n]
    have 1: "n = ready_fuel c1" "cache_inv c1" "length (m_pending_response_indices c1) < 2 ^ 32"
      using f Suc(2,4) deliver_inv(1) [OF Suc(3) n] by auto
    from Suc(1) [OF 1] show ?thesis using True n 1(1) by (auto simp: Suc(2) [symmetric])
  qed
qed

text \<open>C28: The loop \<open>while (access_ready()) next_access()\<close> that ends every read terminates without
  tripping an assertion: as many turns as there are responses waiting suffice, and afterwards nothing is
  ready.\<close>

theorem drain_terminates:
  assumes "cache_inv c" "length (m_pending_response_indices c) < 2 ^ 32"
  shows "\<exists>c'. drain_ready (ready_fuel c) c = Some c' \<and> \<not> access_ready c' \<and> cache_inv c'"
  using assms by (rule drain_ready_ends)

theorem drain_terminates_witness: "\<exists>c'. drain_ready (ready_fuel sample_filled) sample_filled = Some c'"
proof -
  have i: "cache_inv sample_filled" using run_inv [OF sample_history(2) sample_tokens(2)] by simp
  have "length (m_pending_response_indices sample_filled) = 1" by code_simp
  with drain_terminates [OF i] show ?thesis by auto
qed

section \<open>Reads\<close>

text \<open>The status of the access with which \<open>read\<close> asks its cache for the bytes.\<close>

definition read_status :: "new_addr_type \<Rightarrow> u32 \<Rightarrow> time \<Rightarrow> two_level \<Rightarrow> cache_request_status option" where
  "read_status addr sz t sys = (let (r, h) = heap_new (new_mem_fetch
       (new_mem_access GLOBAL_ACC_R addr sz False 0 0 (one_sector 0)) (Some (new_warp_inst\<lparr>m_is_load := True\<rparr>))
       0 0 0 0 0 None None) (g_heap (sys_cache sys))
     in map_option fst (read_only_access addr r t ((sys_cache sys)\<lparr>g_heap := h, g_events := []\<rparr>)))"

text \<open>C19: What a read returns, by the status of the cache access it makes. \<open>HIT\<close> and \<open>HIT_RESERVED\<close> are
  reported as hits: the bytes are those of the line in the L1 store if it is there, else of the DRAM
  store, and the L1 store stays. Every other status is reported as a miss. \<open>MISS\<close> and \<open>SECTOR_MISS\<close>
  return the bytes of the DRAM store, copy the whole line into the L1 store and leave no request at the
  memory port; a refused access returns zeros and the L1 store stays. The answer always has the
  requested length and the DRAM store never changes.\<close>

theorem read_returns_line:
  assumes "sys_read addr sz t sys = Some (is_hit, bs, sys')" "get_line_sz (m_config (sys_cache sys)) = Some ls"
  shows "\<exists>st. read_status addr sz t sys = Some st \<and> is_hit = (st \<in> {HIT, HIT_RESERVED})
    \<and> dram_data sys' = dram_data sys \<and> length bs = unat sz \<and>
    (let b = line_base ls addr; k = line_offset ls addr; n = unat ls; part = slice k (unat sz);
         fetched = ds_read b n (dram_data sys)
     in if st \<in> {HIT, HIT_RESERVED}
        then l1_data sys' = l1_data sys \<and>
          part (if ds_contains b (l1_data sys) then ds_read b n (l1_data sys) else fetched) = Some bs
        else if st \<in> {MISS, SECTOR_MISS}
        then part fetched = Some bs \<and> ds_write b fetched (length fetched) (l1_data sys) = Some (l1_data sys')
          \<and> port_queue (dram_if sys') = []
        else bs = replicate (unat sz) 0 \<and> l1_data sys' = l1_data sys)"
proof -
  let ?b = "line_base ls addr" and ?k = "line_offset ls addr"
  from assms obtain st r h c1 port c2 s3 c4 where
    req: "heap_new (new_mem_fetch (new_mem_access GLOBAL_ACC_R addr sz False 0 0 (one_sector 0))
       (Some (new_warp_inst\<lparr>m_is_load := True\<rparr>)) 0 0 0 0 0 None None) (g_heap (sys_cache sys)) = (r, h)" and
    acc: "read_only_access addr r t ((sys_cache sys)\<lparr>g_heap := h, g_events := []\<rparr>) = Some (st, c1)" and
    3: "(if st = HIT \<or> st = HIT_RESERVED then
            map_option (\<lambda>bs. (True, bs, sys\<lparr>dram_if := port, sys_cache := c2\<rparr>))
              (serve_hit ?b ?k (unat sz) (unat ls) (sys\<lparr>dram_if := port, sys_cache := c2\<rparr>))
          else if st = MISS \<or> st = SECTOR_MISS then
            map_option (\<lambda>(bs, sys). (False, bs, sys))
              (serve_miss ?b ?k (unat sz) (unat ls) t (sys\<lparr>dram_if := port, sys_cache := c2\<rparr>))
          else Some (False, replicate (unat sz) 0, sys\<lparr>dram_if := port, sys_cache := c2\<rparr>))
        = Some (is_hit, bs, s3)" and s': "sys' = s3\<lparr>sys_cache := c4\<rparr>"
    by (clarsimp simp: sys_read_def bind_Some_iff Let_def split: prod.splits split del: if_split cong: if_cong)
  have st: "read_status addr sz t sys = Some st" by (simp add: read_status_def req acc)
  have len: "slice k n xs = Some ys \<Longrightarrow> length ys = n" for k n and xs ys :: "byte list"
    by (auto simp: slice_def split: if_splits)
  from 3 have "is_hit = (st \<in> {HIT, HIT_RESERVED}) \<and> dram_data sys' = dram_data sys \<and> length bs = unat sz"
    by (auto simp: s' serve_hit_def serve_miss_def bind_Some_iff Let_def dest: len split: if_splits)
  moreover from 3 have "if st \<in> {HIT, HIT_RESERVED}
        then l1_data sys' = l1_data sys \<and> slice ?k (unat sz) (if ds_contains ?b (l1_data sys)
          then ds_read ?b (unat ls) (l1_data sys) else ds_read ?b (unat ls) (dram_data sys)) = Some bs
        else if st \<in> {MISS, SECTOR_MISS}
        then slice ?k (unat sz) (ds_read ?b (unat ls) (dram_data sys)) = Some bs
          \<and> ds_write ?b (ds_read ?b (unat ls) (dram_data sys)) (length (ds_read ?b (unat ls) (dram_data sys))) (l1_data sys)
              = Some (l1_data sys')
          \<and> port_queue (dram_if sys') = []
        else bs = replicate (unat sz) 0 \<and> l1_data sys' = l1_data sys"
    by (auto simp: s' serve_hit_def serve_miss_def bind_Some_iff Let_def split: if_splits)
  ultimately show ?thesis unfolding Let_def using st by blast
qed

definition ro_system :: two_level where
  "ro_system = the (new_two_level blank_cfg ''N:2:8:2,L:R:m:N:L,A:2:2,4:4,8'')"

theorem read_returns_line_witness:
  "\<exists>st bs sys'. sys_read 0 4 1 ro_system = Some (False, bs, sys') \<and> length bs = 4
     \<and> read_status 0 4 1 ro_system = Some st \<and> st = MISS \<and> port_queue (dram_if sys') = []
     \<and> slice (line_offset 8 0) 4 (ds_read (line_base 8 0) 8 (dram_data ro_system)) = Some bs"
proof -
  have "map_option fst (sys_read 0 4 1 ro_system) = Some False" by code_simp
  then obtain bs sys' where r: "sys_read 0 4 1 ro_system = Some (False, bs, sys')" by auto
  have "get_line_sz (m_config (sys_cache ro_system)) = Some 8" "read_status 0 4 1 ro_system = Some MISS" by code_simp+
  with read_returns_line [OF r this(1)] r show ?thesis by (auto simp: Let_def)
qed

text \<open>
  A write goes to the L1 store only, and a later read that misses copies the DRAM line over it: the
  written bytes are gone.
\<close>

theorem write_then_read_loses_data:
  "(case sys_write 0 [1, 2, 3, 4] 4 ro_system of None \<Rightarrow> None
    | Some s \<Rightarrow> map_option (\<lambda>(hit, bs, s'). (hit, bs)) (sys_read 0 4 1 s)) = Some (False, [0, 0, 0, 0])"
  by code_simp

end
