(* ===== verification/CacheFindings.thy ===== *)
theory CacheFindings
  imports CacheFrame Samples
begin

text \<open>
  Where the code does something it does not mean to: a fill that ends the program under allocation on
  fill, an eviction that leaves the dirty counter, a fill that overwrites a full write, dirty bytes that
  survive the replacement of their line. Each is stated for every cache in the situation, and the
  witnesses reach the situation from the constructor.
\<close>

definition local_write :: "new_addr_type \<Rightarrow> u32 \<Rightarrow> byte_mask \<Rightarrow> mem_access_t" where
  "local_write addr sz bm = new_mem_access LOCAL_ACC_W addr sz True 0 bm (one_sector 0)"

text \<open>Tokens 0, 1, 2 of the histories: a read, a local write and a global write of line 0.\<close>

definition three_tokens :: mf_heap where
  "three_tokens = snd (heap_new (plain_mf (write_access 0 32 (mask 32)))
     (snd (heap_new (plain_mf (local_write 0 32 (mask 32)))
       (snd (heap_new (plain_mf (read_access 0 32)) empty_heap)))))"

definition start_with :: "cache_config \<Rightarrow> mf_heap \<Rightarrow> data_cache" where
  "start_with cfg h = the (new_l1_cache cfg 0 0 \<lparr>allocated = []\<rparr> IN_L1D_MISS_QUEUE L1_GPU_CACHE h)"

text \<open>The modified lines of a cache.\<close>

definition modified_lines :: "tag_array \<Rightarrow> nat" where
  "modified_lines ta = count_if blk_is_modified_line (m_lines ta)"

lemma modified_lines_drop:
  assumes "set_line i b ta1 = Some ta'" "m_lines ta1 = m_lines ta"
    "blk_is_modified_line (m_lines ta ! i)" "\<not> blk_is_modified_line b"
  shows "Suc (modified_lines ta') = modified_lines ta"
  using assms count_if_update [of i "m_lines ta" blk_is_modified_line b]
  by (simp add: set_line_Some modified_lines_def)

section \<open>Allocation on fill with deferred responses\<close>

text \<open>
  A read miss pins the line the probe chose, although nothing is allocated before the fill; the fill
  probes again, finds the only way pinned, and the assertion that this happens only under ON_MISS fails.
\<close>

lemma probe_match_pin: "probe_match tag sm wr (blk_pin b) = probe_match tag sm wr b"
  by (cases b) (simp_all add: probe_match_def blk_pin_def pin_base_def Let_def blk_tag_def blk_get_status_def
      blk_is_valid_line_def blk_is_readable_def blk_is_invalid_line_def sector_is_invalid_line_def split: cache_block_state.split)

text \<open>What a missing probe says of the ways of the set.\<close>

definition no_way_matches :: "cache_config \<Rightarrow> tag_array \<Rightarrow> new_addr_type \<Rightarrow> sector_mask \<Rightarrow> bool \<Rightarrow> bool" where
  "no_way_matches cfg ta addr sm wr \<longleftrightarrow> (\<exists>si. set_index cfg addr = Some si \<and> (\<forall>j \<in> set (set_ways cfg si).
     j < length (m_lines ta) \<and> probe_match (cfg_tag cfg addr) sm wr (m_lines ta ! j) = Some None))"

lemma probe_miss_no_way:
  assumes "tag_probe cfg ta addr idx sm wr = Some (MISS, i, ta')"
  shows "no_way_matches cfg ta addr sm wr"
proof (rule probe_not_found [OF assms], goal_cases)
  case (2 si acc)
  then show ?case by (auto simp: no_way_matches_def)
qed simp

text \<open>If no way matches, a probe without ON_MISS can only miss, with an unpinned way of the set.\<close>

lemma probe_again:
  assumes "no_way_matches cfg ta addr sm wr" "tag_probe cfg ta addr idx sm wr = Some (st, i, ta')"
    "m_alloc_policy cfg \<noteq> ON_MISS"
  shows "st = MISS \<and> (\<exists>si. set_index cfg addr = Some si \<and> i \<in> set (set_ways cfg si)) \<and> \<not> blk_is_pinned (m_lines ta ! i)"
proof (cases "st = MISS \<or> st = RESERVATION_FAIL")
  case True
  show ?thesis
  proof (rule probe_not_found [OF assms(2) True], goal_cases)
    case (1 si acc)
    with assms(3) have m: "st = MISS" and acc: "\<not> pa_all_reserved acc" by (auto split: if_splits)
    with 1 have "i \<in> set (set_ways cfg si)" by (auto simp: probe_seen_def Let_def split: option.splits)
    with 1 m probe_miss_unpinned(2) [OF assms(2) [unfolded m]] show ?case by blast
  qed
next
  case False
  then have st: "st \<noteq> MISS" "st \<noteq> RESERVATION_FAIL" by auto
  show ?thesis
    by (rule probe_found [OF assms(2) st]) (use assms(1) in \<open>auto simp: no_way_matches_def\<close>)
qed

lemma tag_access_on_fill_miss:
  assumes "tag_access cfg ta addr t idx wb ev mf = Some (st, i, wb', ev', ta')" "m_alloc_policy cfg \<noteq> ON_MISS"
    and "no_way_matches cfg ta addr (get_access_sector_mask mf) (get_is_write mf)"
  shows "m_lines ta' = m_lines ta \<and> wb' = wb \<and> (\<exists>si. set_index cfg addr = Some si \<and> i \<in> set (set_ways cfg si))
    \<and> \<not> blk_is_pinned (m_lines ta ! i)"
  using assms(1)
proof (rule tag_access_cases, goal_cases)
  case (1 ta0 ta1)
  have "no_way_matches cfg ta0 addr (get_access_sector_mask mf) (get_is_write mf)"
    using assms(3) by (simp add: no_way_matches_def 1(1))
  note p = probe_again [OF this 1(2) assms(2)]
  with 1(3) assms(2) probe_tags(1) [OF 1(2)] show ?case by (auto simp: 1(1))
qed

lemma fill_addr_pinned_out:
  assumes "no_way_matches cfg ta addr sm wr" "m_alloc_policy cfg \<noteq> ON_MISS"
    "\<And>si j. set_index cfg addr = Some si \<Longrightarrow> j \<in> set (set_ways cfg si) \<Longrightarrow> blk_is_pinned (m_lines ta ! j)"
  shows "tag_fill_addr cfg ta addr t sm bm wr = None"
proof (rule ccontr)
  assume "tag_fill_addr cfg ta addr t sm bm wr \<noteq> None"
  then obtain ta' where "tag_fill_addr cfg ta addr t sm bm wr = Some ta'" by blast
  then obtain st i ta1 where "tag_probe cfg ta addr 0 sm wr = Some (st, i, ta1)" by (rule tag_fill_addr_cases)
  from probe_again [OF assms(1) this assms(2)] assms(3) show False by blast
qed

text \<open>What a read request for a block without MSHR leaves behind.\<close>

lemma upd_mf_spec:
  assumes "upd_mf r f c = Some c'"
  shows "m_tag_array c' = m_tag_array c" "m_extra_mf_fields c' = m_extra_mf_fields c" "m_config c' = m_config c"
    "\<exists>mf. get_mf r c = Some mf \<and> get_mf r c' = Some (f mf)"
  using assms by (auto simp: upd_mf_def heap_upd_def get_mf_def heap_get_def split: option.splits)

lemma get_mf_simps [simp]:
  "get_mf r (c\<lparr>m_extra_mf_fields := e\<rparr>) = get_mf r c" "get_mf r (c\<lparr>m_miss_queue := q\<rparr>) = get_mf r c"
  "get_mf r (push_event ev c) = get_mf r c" "get_mf r (c\<lparr>m_tag_array := ta\<rparr>) = get_mf r c"
  "get_mf r (c\<lparr>m_stats := st\<rparr>) = get_mf r c" "get_mf r (c\<lparr>m_bandwidth_management := bw\<rparr>) = get_mf r c"
  "get_mf r (c\<lparr>m_mshrs := ms\<rparr>) = get_mf r c" "get_mf r (c\<lparr>m_pending_response_indices := pr\<rparr>) = get_mf r c"
  by (simp_all add: get_mf_def push_event_def)

lemma first_miss_pins:
  assumes s: "send_read_request ba i r t False False no_evicted False False c = Some (True, wb, ev, c')"
    and mf: "get_mf r c = Some mf" and no: "\<not> mshr_probe (m_mshrs c) (mshr_addr (m_config c) (get_addr mf))"
    and dh: "m_defer_hit_response (m_config c)"
  obtains st j ta mf' where "tag_access (m_config c) (m_tag_array c) ba t i False no_evicted mf = Some (st, j, wb, ev, ta)"
    "j < length (m_lines ta)" "m_lines (m_tag_array c') = (m_lines ta)[j := blk_pin (m_lines ta ! j)]"
    "map_of (m_extra_mf_fields c') r = Some (new_extra_mf_fields (mshr_addr (m_config c) (get_addr mf)) (get_addr mf) j
       (m_data_size mf) (m_config c))" "m_config c' = m_config c"
    "get_mf r c' = Some mf'" "get_access_sector_mask mf' = get_access_sector_mask mf" "get_is_write mf' = get_is_write mf"
proof -
  define a where "a = mshr_addr (m_config c) (get_addr mf)"
  note s' = s [unfolded send_read_request_def mf bind.bind_lunit Let_def a_def [symmetric]]
  have miss: "\<not> mshr_full (m_mshrs c) a \<and> length (m_miss_queue c) < unat (m_miss_queue_size (m_config c))"
    using s' no by (auto simp: a_def bind_Some_iff split: if_splits)
  with s' no obtain j c1 c2 c4 c5 c6 atom where
    1: "request_tag_access ba t i mf False False no_evicted c = Some (j, wb, ev, c1)"
    and 2: "join_mshr a r mf j c1 = Some c2"
    and 4: "upd_mf r (set_data_size atom) (c2\<lparr>m_extra_mf_fields := AList.update r
              (new_extra_mf_fields a (get_addr mf) j (m_data_size mf) (m_config c2))
              (m_extra_mf_fields c2)\<rparr>) = Some c4"
    and 5: "upd_mf r (set_addr a) c4 = Some c5"
    and 6: "upd_mf r (set_mf_status (m_miss_queue_status c5))
             (c5\<lparr>m_miss_queue := m_miss_queue c5 @ [r]\<rparr>) = Some c6"
    and c': "c' = push_event (mk_event READ_REQUEST_SENT) c6"
    by (auto simp: bind_Some_iff a_def)
  from 1 obtain st ta where acc: "tag_access (m_config c) (m_tag_array c) ba t i False no_evicted mf = Some (st, j, wb, ev, ta)"
    and c1: "c1 = c\<lparr>m_tag_array := ta\<rparr>" by (auto simp: request_tag_access_def)
  from 2 dh have j: "j < length (m_lines ta)"
    and l: "m_lines (m_tag_array c2) = (m_lines ta)[j := blk_pin (m_lines ta ! j)]"
    and cfg: "m_config c2 = m_config c" and get: "get_mf r c2 = Some mf"
    using mf by (auto simp: join_mshr_def c1 Let_def pin_response_def bind_Some_iff get_block_Some set_line_Some)
  note u4 = upd_mf_spec [OF 4] and u5 = upd_mf_spec [OF 5] and u6 = upd_mf_spec [OF 6]
  have c6: "m_tag_array c6 = m_tag_array c2" "m_config c6 = m_config c"
    "m_extra_mf_fields c6 = AList.update r (new_extra_mf_fields a (get_addr mf) j (m_data_size mf) (m_config c)) (m_extra_mf_fields c2)"
    using u4(1-3) u5(1-3) u6(1-3) by (simp_all add: cfg)
  have "get_mf r c6 = Some (set_mf_status (m_miss_queue_status c5) (set_addr a (set_data_size atom mf)))"
    using u4(4) u5(4) u6(4) get by auto
  then have "get_mf r c' = Some (set_mf_status (m_miss_queue_status c5) (set_addr a (set_data_size atom mf)))"
    by (simp add: c' get_mf_def push_event_def)
  note step = that [OF acc j _ _ _ this]
  show thesis
    by (rule step) (simp_all add: c' push_event_def c6 l a_def update_conv' mf_setter_defs)
qed

text \<open>C25: Under allocation on fill with deferred responses, a direct-mapped cache of whole lines rejects the fill
  of every read miss it accepts. If the line is in no way of its set and has no MSHR yet, the access that
  answers \<open>MISS\<close> pins the only way of the set; the fill of the request then finds no way to allocate and
  the assertion that this only happens under ON_MISS ends the program.\<close>

theorem on_fill_pins_itself_out:
  assumes cfg: "m_alloc_policy (m_config c) = ON_FILL" "unat (m_assoc (m_config c)) = 1" "m_defer_hit_response (m_config c)"
      "m_atom_sz (m_config c) = m_line_sz (m_config c)" "m_mshr_type (m_config c) \<noteq> SECTOR_ASSOC"
    and read: "get_mf r c = Some mf" "\<not> get_is_write mf"
    and absent: "tag_probe (m_config c) (m_tag_array c) (block_addr (m_config c) (get_addr mf)) no_index
        (get_access_sector_mask mf) False = Some (MISS, i, ta)"
      "\<not> mshr_probe (m_mshrs c) (mshr_addr (m_config c) (get_addr mf))"
    and miss: "data_access (get_addr mf) r t c = Some (MISS, c')"
  shows "blk_is_pinned (m_lines (m_tag_array c') ! i) \<and> waiting_for_fill r c' \<and> fill r t' c' = None"
proof -
  let ?cfg = "m_config c" and ?c0 = "c\<lparr>m_tag_array := ta\<rparr>" and ?a = "block_addr (m_config c) (get_addr mf)"
  have addr: "mshr_addr ?cfg (get_addr mf) = ?a" by (simp add: mshr_addr_def block_addr_def cfg(4))
  have on: "m_alloc_policy ?cfg \<noteq> ON_MISS" by (simp add: cfg(1))
  from miss read absent(1) obtain c1 c2 where
    h: "rd_miss_base (get_addr mf) i r t MISS ?c0 = Some (MISS, c1)"
    and ch: "charge_data_port r MISS c1 = Some c2" and co: "\<exists>mf. count_outcome mf MISS MISS c2 = Some c'"
    by (auto simp: data_access_def process_tag_probe_def run_handler_def bind_Some_iff Let_def)
  from h obtain wb ev c3 where
    s: "send_read_request ?a i r t False False no_evicted False False ?c0 = Some (True, wb, ev, c3)"
    and w: "write_back r wb ev (mk_event WRITE_BACK_REQUEST_SENT) t c3 = Some c1"
    using read(1) by (auto simp: rd_miss_base_def bind_Some_iff Let_def split: if_splits)
  have no: "no_way_matches ?cfg (m_tag_array c) ?a (get_access_sector_mask mf) False"
    by (rule probe_miss_no_way [OF absent(1)])
  note l0 = probe_tags(1) [OF absent(1)]
  have no0: "no_way_matches ?cfg ta ?a (get_access_sector_mask mf) (get_is_write mf)"
    using no l0 read(2) by (simp add: no_way_matches_def)
  have pre: "get_mf r ?c0 = Some mf" "\<not> mshr_probe (m_mshrs ?c0) (mshr_addr (m_config ?c0) (get_addr mf))"
    "m_defer_hit_response (m_config ?c0)" using read(1) absent(2) cfg(3) by simp_all
  obtain st j ta1 mf' where x: "tag_access (m_config ?c0) (m_tag_array ?c0) ?a t i False no_evicted mf = Some (st, j, wb, ev, ta1)"
    "j < length (m_lines ta1)" "m_lines (m_tag_array c3) = (m_lines ta1)[j := blk_pin (m_lines ta1 ! j)]"
    "map_of (m_extra_mf_fields c3) r = Some (new_extra_mf_fields (mshr_addr (m_config ?c0) (get_addr mf)) (get_addr mf) j
       (m_data_size mf) (m_config ?c0))" "m_config c3 = m_config ?c0" "get_mf r c3 = Some mf'"
    "get_access_sector_mask mf' = get_access_sector_mask mf" "get_is_write mf' = get_is_write mf"
    by (rule first_miss_pins [OF s pre])
  have acc: "tag_access ?cfg ta ?a t i False no_evicted mf = Some (st, j, wb, ev, ta1)" "j < length (m_lines ta1)"
    using x(1,2) by simp_all
  have c3: "m_lines (m_tag_array c3) = (m_lines ta1)[j := blk_pin (m_lines ta1 ! j)]"
      "map_of (m_extra_mf_fields c3) r = Some (new_extra_mf_fields ?a (get_addr mf) j (m_data_size mf) ?cfg)"
      "m_config c3 = ?cfg" "get_mf r c3 = Some mf'"
      "get_access_sector_mask mf' = get_access_sector_mask mf" "get_is_write mf' = get_is_write mf"
    using x(3-8) by (simp_all add: addr)
  note a = tag_access_on_fill_miss [OF acc(1) on no0]
  with w have c1: "c1 = c3" by (simp add: write_back_def)
  from ch co have c': "m_tag_array c' = m_tag_array c3" "m_extra_mf_fields c' = m_extra_mf_fields c3"
    "m_config c' = ?cfg" "get_mf r c' = Some mf'" "m_mshrs c' = m_mshrs c3"
    using c3(3,4) unfolding c1
    by (auto simp: charge_data_port_def count_outcome_def count_stats_def count_stats_pw_def bind_Some_iff Let_def)
  from a obtain si where si: "set_index ?cfg ?a = Some si" "j \<in> set (set_ways ?cfg si)" by blast
  have ways: "set (set_ways ?cfg si) = {j}" using si(2) by (simp add: set_ways_def cfg(2))
  have unpinned: "\<not> blk_is_pinned (m_lines ta1 ! j)" using a by simp
  have pinned: "blk_is_pinned (blk_pin (m_lines ta1 ! j))"
    using unpinned by (cases "m_lines ta1 ! j") (simp_all add: blk_is_pinned_def blk_pin_def is_pinned_base_def pin_base_def Let_def)
  have none: "no_way_matches ?cfg (m_tag_array c3) ?a (get_access_sector_mask mf') (get_is_write mf')"
    using no0 acc(2) a by (auto simp: no_way_matches_def si(1) ways c3(1,5,6) probe_match_pin)
  have fa: "tag_fill_addr ?cfg (m_tag_array c3) ?a t' (get_access_sector_mask mf') bm (get_is_write mf') = None" for bm
    by (rule fill_addr_pinned_out [OF none on]) (use pinned acc(2) in \<open>auto simp: si(1) ways c3(1)\<close>)
  have "fill r t' c' = None"
    using c' c3(2,5,6) fa
    by (auto simp: fill_def cfg(1,5) fill_original_def new_extra_mf_fields_def bind_eq_None_conv upd_mf_def heap_upd_def
        get_mf_def heap_get_def mf_setter_defs
        split: option.splits)
  moreover have "i = j"
  proof -
    from probe_again [OF no absent(1) on] ways si(1) show ?thesis by auto
  qed
  ultimately show ?thesis using pinned acc(2) c3(2) by (simp add: c'(1,2) c3(1) waiting_for_fill_def)
qed

definition fill_cfg :: cache_config where
  "fill_cfg = tiny_cfg\<lparr>m_assoc := 1, original_m_assoc := 1, m_alloc_policy := ON_FILL,
     m_write_policy := WRITE_THROUGH, m_write_alloc_policy := NO_WRITE_ALLOCATE\<rparr>"

theorem on_fill_pins_itself_out_witness:
  "\<exists>c. data_access 0 0 1 (start_with fill_cfg three_tokens) = Some (MISS, c) \<and> waiting_for_fill 0 c \<and> fill 0 5 c = None"
proof -
  let ?c = "start_with fill_cfg three_tokens"
  have "map_option fst (data_access 0 0 1 ?c) = Some MISS" by code_simp
  then obtain c where c: "data_access 0 0 1 ?c = Some (MISS, c)" by auto
  have "map_option (\<lambda>(st, i, ta). st) (tag_probe (m_config ?c) (m_tag_array ?c) 0 no_index (one_sector 0) False) = Some MISS"
    by code_simp
  then obtain i ta where p: "tag_probe (m_config ?c) (m_tag_array ?c) 0 no_index (one_sector 0) False = Some (MISS, i, ta)"
    by auto
  have g: "get_mf 0 ?c = Some (plain_mf (read_access 0 32))" by code_simp
  have m: "\<not> mshr_probe (m_mshrs ?c) (mshr_addr (m_config ?c) 0)" by code_simp
  have cfg: "m_config ?c = fill_cfg" by code_simp
  have mf: "get_addr (plain_mf (read_access 0 32)) = 0" "get_access_sector_mask (plain_mf (read_access 0 32)) = one_sector 0"
    "\<not> get_is_write (plain_mf (read_access 0 32))" by code_simp+
  have z: "block_addr (m_config ?c) 0 = 0" by (simp add: block_addr_def)
  have f: "m_alloc_policy (m_config ?c) = ON_FILL" "unat (m_assoc (m_config ?c)) = 1" "m_defer_hit_response (m_config ?c)"
    "m_atom_sz (m_config ?c) = m_line_sz (m_config ?c)" "m_mshr_type (m_config ?c) \<noteq> SECTOR_ASSOC"
    by (simp_all only: cfg) (simp_all add: fill_cfg_def tiny_cfg_def)
  have "waiting_for_fill 0 c \<and> fill 0 5 c = None"
    using on_fill_pins_itself_out [OF f g mf(3), unfolded mf z, OF p m c] by blast
  with c show ?thesis by blast
qed

section \<open>Evicting a dirty line on a global write\<close>

text \<open>
  Local write-back, global write-evict: a global write that hits a line made dirty by a local write
  invalidates it without the write-back and without decrementing \<open>m_dirty\<close>.
\<close>

text \<open>C26: The dirty counter does not follow the evictions of a write. In every cache of whole lines, under local
  write-back and global write-evict, a global write that hits a modified line leaves one modified line
  less and \<open>m_dirty\<close> as it was; the write itself is all that goes to the miss queue, the dirty bytes are
  not written back.\<close>

theorem evict_leaves_dirty_count:
  assumes "wr_hit_global_we_local_wb addr i r t st c = Some (HIT, c')"
    and "get_mf r c = Some mf" "get_access_type mf = GLOBAL_ACC_W"
    and "blk_is_modified_line (m_lines (m_tag_array c) ! i)" "\<not> is_sector_block (m_lines (m_tag_array c) ! i)"
  shows "m_dirty (m_tag_array c') = m_dirty (m_tag_array c)
    \<and> Suc (modified_lines (m_tag_array c')) = modified_lines (m_tag_array c)
    \<and> m_miss_queue c' = m_miss_queue c @ [r]"
proof -
  from assms(1-3) obtain c1 b ta where w: "send_write_request r (mk_event WRITE_REQUEST_SENT) t c = Some c1"
    and b: "blk_set_status INVALID (get_access_sector_mask mf) (m_lines (m_tag_array c1) ! i) = Some b"
    and s: "set_line i b (m_tag_array c1) = Some ta" and c': "c' = c1\<lparr>m_tag_array := ta\<rparr>"
    by (auto simp: wr_hit_global_we_local_wb_def wr_hit_we_def bind_Some_iff get_block_Some split: if_splits)
  from w have c1: "m_tag_array c1 = m_tag_array c" "m_miss_queue c1 = m_miss_queue c @ [r]"
    by (auto simp: send_write_request_def Let_def upd_mf_def push_event_def)
  from b assms(5) have "\<not> blk_is_modified_line b"
    by (cases "m_lines (m_tag_array c) ! i") (auto simp: c1(1) blk_set_status_def blk_is_modified_line_def)
  from modified_lines_drop [OF s [unfolded c1(1)] refl assms(4) this] s c1 show ?thesis
    by (simp add: c' set_line_Some)
qed

definition local_cfg :: cache_config where
  "local_cfg = tiny_cfg\<lparr>m_write_policy := LOCAL_WB_GLOBAL_WT\<rparr>"

text \<open>A read, its fill and a local write of line 0.\<close>

definition local_dirty :: "data_cache option" where
  "local_dirty = do {
     (st, c) \<leftarrow> data_access 0 0 1 (start_with local_cfg three_tokens);
     c \<leftarrow> fill 0 5 c;
     (st, c) \<leftarrow> data_access 0 1 6 c;
     Some c }"

text \<open>The line that the read allocated, as the global write finds it.\<close>

definition ready_to_evict :: "data_cache \<Rightarrow> bool" where
  "ready_to_evict c \<longleftrightarrow> m_dirty (m_tag_array c) = 1 \<and> blk_is_modified_line (m_lines (m_tag_array c) ! 1)
     \<and> \<not> is_sector_block (m_lines (m_tag_array c) ! 1) \<and> map_option get_access_type (get_mf 2 c) = Some GLOBAL_ACC_W
     \<and> map_option fst (wr_hit_global_we_local_wb 0 1 2 7 HIT c) = Some HIT"

theorem evict_leaves_dirty_count_witness:
  "\<exists>c c'. local_dirty = Some c \<and> wr_hit_global_we_local_wb 0 1 2 7 HIT c = Some (HIT, c')
     \<and> m_dirty (m_tag_array c') = 1 \<and> Suc (modified_lines (m_tag_array c')) = modified_lines (m_tag_array c)"
proof -
  have "(case local_dirty of None \<Rightarrow> False | Some c \<Rightarrow> ready_to_evict c)" by code_simp
  then obtain c where c: "local_dirty = Some c" "ready_to_evict c" by (auto split: option.splits)
  then obtain c' mf where h: "wr_hit_global_we_local_wb 0 1 2 7 HIT c = Some (HIT, c')"
    and mf: "get_mf 2 c = Some mf" "get_access_type mf = GLOBAL_ACC_W" by (auto simp: ready_to_evict_def)
  from evict_leaves_dirty_count [OF h mf] c(2)
  have "m_dirty (m_tag_array c') = 1" "Suc (modified_lines (m_tag_array c')) = modified_lines (m_tag_array c)"
    by (simp_all add: ready_to_evict_def)
  with c(1) h show ?thesis by blast
qed

section \<open>Fetch on write\<close>

text \<open>
  A write of a whole line that is being fetched marks it MODIFIED and asks the fill to keep the status;
  the fill does not look, the line becomes VALID and the counter stays one too high.
\<close>









section \<open>Replacing a line\<close>

text \<open>\<open>line_cache_block::allocate\<close> leaves the dirty byte mask and the readable flag of the old line.\<close>

theorem allocate_keeps_dirty_bytes:
  "m_dirty_byte_mask (line_allocate tag ba t l) = m_dirty_byte_mask l
   \<and> l_readable (line_allocate tag ba t l) = l_readable l"
  by (simp add: line_allocate_def)

end
