(* ===== verification/DirtyFacts.thy ===== *)
theory DirtyFacts
  imports TagFacts BaselineCache
begin

text \<open>
  The dirty counter of \<open>tag_array\<close> over histories. The constructor allocates \<open>get_max_num_lines()\<close>
  lines, of which only the first \<open>get_num_lines()\<close> are ever used; \<open>flush\<close> and \<open>invalidate\<close> visit only these
  and clear the counter. The count is right because no other line is ever modified.
\<close>

section \<open>Configured lines\<close>

text \<open>Every index that a probe names is below the number of configured lines.\<close>

lemma way_index_configured:
  assumes "set_index cfg addr = Some si" "j \<in> set (set_ways cfg si)"
    and "unat (m_nset cfg) * unat (m_assoc cfg) < 2 ^ 32"
  shows "j < unat (m_nset cfg * m_assoc cfg)"
proof -
  from assms(1) have "si < m_nset cfg" by (auto simp: set_index_def hash_function_def bind_Some_iff Let_def)
  then have s: "Suc (unat si) \<le> unat (m_nset cfg)" by (simp add: word_less_nat_alt)
  from assms(2) obtain w where w: "w < unat (m_assoc cfg)" "j = unat (si * m_assoc cfg + of_nat w)"
    by (auto simp: set_ways_def way_index_def)
  have le: "unat si * unat (m_assoc cfg) + w < unat (m_nset cfg) * unat (m_assoc cfg)"
    using mult_le_mono1 [OF s, of "unat (m_assoc cfg)"] w(1) by simp
  have "si * m_assoc cfg + of_nat w = (of_nat (unat si * unat (m_assoc cfg) + w) :: u32)" by simp
  then have "unat (si * m_assoc cfg + of_nat w) = unat si * unat (m_assoc cfg) + w"
    using assms(3) le by (simp only: unat_of_nat) simp
  moreover have "unat (m_nset cfg * m_assoc cfg) = unat (m_nset cfg) * unat (m_assoc cfg)"
    using assms(3) by (subst unat_mult_lem [symmetric]) simp
  ultimately show ?thesis using w(2) le by simp
qed

lemma probe_configured:
  assumes "tag_probe cfg ta addr idx sm wr = Some (st, i, ta')" "st \<noteq> RESERVATION_FAIL"
    and "unat (m_nset cfg) * unat (m_assoc cfg) < 2 ^ 32"
  shows "i < unat (m_nset cfg * m_assoc cfg)"
proof (cases "st = MISS")
  case True
  then have "st = MISS \<or> st = RESERVATION_FAIL" by simp
  with assms(1) show ?thesis
  proof (rule probe_not_found, goal_cases)
    case (1 si acc)
    then have "i \<in> set (set_ways cfg si)"
      using True by (auto simp: probe_seen_def Let_def split: if_splits option.splits)
    with 1(1) show ?case by (rule way_index_configured) (rule assms(3))
  qed
next
  case False
  from probe_found [OF assms(1) False assms(2)] obtain si where
    "set_index cfg addr = Some si" "i \<in> set (set_ways cfg si)" by blast
  then show ?thesis by (rule way_index_configured) (rule assms(3))
qed

text \<open>Two arrays whose lines differ at most among the first \<open>n\<close>.\<close>

definition same_above :: "nat \<Rightarrow> tag_array \<Rightarrow> tag_array \<Rightarrow> bool" where
  "same_above n ta ta' \<longleftrightarrow> drop n (m_lines ta') = drop n (m_lines ta)"

lemma same_above_trans: "same_above n a b \<Longrightarrow> same_above n b c \<Longrightarrow> same_above n a c"
  by (simp add: same_above_def)

lemma same_above_lines: "m_lines b = m_lines a \<Longrightarrow> same_above n a b"
  by (simp add: same_above_def)

lemma same_above_set_line: "set_line i b ta = Some ta' \<Longrightarrow> i < n \<Longrightarrow> same_above n ta ta'"
  by (auto simp: same_above_def set_line_Some)

text \<open>Every operation writes only to lines that a probe or its caller names.\<close>

lemma access_same_above:
  assumes "tag_access cfg ta addr t idx wb ev mf = Some (st, i, wb', ev', ta')"
    and "unat (m_nset cfg) * unat (m_assoc cfg) < 2 ^ 32"
  shows "same_above (unat (m_nset cfg * m_assoc cfg)) ta ta'"
  using assms(1)
proof (rule tag_access_cases, goal_cases)
  case (1 ta0 ta1)
  let ?n = "unat (m_nset cfg * m_assoc cfg)"
  have l: "m_lines ta1 = m_lines ta" using probe_tags(1) [OF 1(2)] by (simp add: 1(1))
  have i: "i < ?n" if "st \<noteq> RESERVATION_FAIL" by (rule probe_configured [OF 1(2) that assms(2)])
  have step: "same_above ?n ta ta'" if "set_line i b ta2 = Some ta'" "m_lines ta2 = m_lines ta" "st \<noteq> RESERVATION_FAIL" for b ta2
    using same_above_set_line [OF that(1) i [OF that(3)]] that(2) by (simp add: same_above_def)
  from 1(3) show ?case
    by (elim disjE conjE)
      (auto simp: access_hit_def access_allocate_def access_allocate_sector_def bind_Some_iff Let_def same_above_lines l
        split: if_splits intro: step)
qed

lemma fill_block_same_above: "fill_block ta i t sm bm = Some ta' \<Longrightarrow> i < n \<Longrightarrow> same_above n ta ta'"
  by (auto simp: fill_block_def bind_Some_iff Let_def same_above_def set_line_Some split: if_splits)

lemma fill_addr_same_above:
  assumes "tag_fill_addr cfg ta addr t sm bm wr = Some ta'" "unat (m_nset cfg) * unat (m_assoc cfg) < 2 ^ 32"
  shows "same_above (unat (m_nset cfg * m_assoc cfg)) ta ta'"
  using assms(1)
proof (rule tag_fill_addr_cases, goal_cases)
  case (1 st i ta1)
  let ?n = "unat (m_nset cfg * m_assoc cfg)"
  have l: "m_lines ta1 = m_lines ta" using probe_tags(1) [OF 1(1)] by simp
  from 1(2) show ?case
  proof (elim disjE exE conjE)
    assume "ta' = ta1"
    then show ?thesis by (simp add: same_above_lines l)
  next
    fix b ta2
    assume s: "set_line i b (if blk_is_modified_line (m_lines ta1 ! i) \<and> \<not> blk_is_modified_line b
                       then ta1\<lparr>m_dirty := m_dirty ta1 - 1\<rparr> else ta1) = Some ta2"
      and f: "fill_block ta2 i t sm bm = Some ta'" and nr: "st \<noteq> RESERVATION_FAIL"
    have i: "i < ?n" by (rule probe_configured [OF 1(1) nr assms(2)])
    have "same_above ?n ta1 ta2" using same_above_set_line [OF s i] by (simp add: same_above_def split: if_splits)
    from same_above_trans [OF this fill_block_same_above [OF f i]] show ?thesis by (simp add: same_above_def l)
  qed
qed

section \<open>Histories\<close>

text \<open>
  The operations of a tag array, and what the write handlers do to a line they keep. The excluded case
  is a fill of a sector that is modified already, which a full write to a line being fetched leads to.
\<close>

datatype tag_step =
    TagAccess new_addr_type time nat bool evicted_block_info mem_fetch
  | TagFillAddr new_addr_type time sector_mask byte_mask bool
  | TagFillIndex nat time mem_fetch
  | TagMarkModified nat mem_fetch
  | TagFlush
  | TagInvalidate

fun run_tag_step :: "cache_config \<Rightarrow> tag_step \<Rightarrow> tag_array \<Rightarrow> tag_array option" where
  "run_tag_step cfg (TagAccess addr t idx wb ev mf) ta = map_option (\<lambda>(_, _, _, _, ta'). ta') (tag_access cfg ta addr t idx wb ev mf)"
| "run_tag_step cfg (TagFillAddr addr t sm bm wr) ta = tag_fill_addr cfg ta addr t sm bm wr"
| "run_tag_step cfg (TagFillIndex i t mf) ta = tag_fill_index cfg ta i t mf"
| "run_tag_step cfg (TagMarkModified i mf) ta = mark_modified i mf ta"
| "run_tag_step cfg TagFlush ta = tag_flush cfg ta"
| "run_tag_step cfg TagInvalidate ta = tag_invalidate cfg ta"

fun fills_modified :: "cache_config \<Rightarrow> tag_step \<Rightarrow> tag_array \<Rightarrow> bool" where
  "fills_modified cfg (TagFillAddr addr t sm bm wr) ta = (case tag_probe cfg ta addr 0 sm wr of
     Some (HIT, i, _) \<Rightarrow> blk_get_status sm (m_lines ta ! i) = Some MODIFIED | _ \<Rightarrow> False)"
| "fills_modified cfg (TagFillIndex i t mf) ta = (blk_get_status (get_access_sector_mask mf) (m_lines ta ! i) = Some MODIFIED)"
| "fills_modified cfg step ta = False"

fun names_configured :: "cache_config \<Rightarrow> tag_step \<Rightarrow> bool" where
  "names_configured cfg (TagFillIndex i t mf) = (i < unat (m_nset cfg * m_assoc cfg))"
| "names_configured cfg (TagMarkModified i mf) = (i < unat (m_nset cfg * m_assoc cfg))"
| "names_configured cfg step = True"

text \<open>A history in which no step fills a modified sector and every given index is that of a configured line.\<close>

fun run_history :: "cache_config \<Rightarrow> tag_step list \<Rightarrow> tag_array \<Rightarrow> tag_array option" where
  "run_history cfg [] ta = Some ta"
| "run_history cfg (s # ss) ta = (if fills_modified cfg s ta \<or> \<not> names_configured cfg s then None
     else do { ta \<leftarrow> run_tag_step cfg s ta; run_history cfg ss ta })"

definition dirty_inv :: "cache_config \<Rightarrow> tag_array \<Rightarrow> bool" where
  "dirty_inv cfg ta \<longleftrightarrow> dirty_ok ta
     \<and> (\<forall>b \<in> set (drop (unat (m_nset cfg * m_assoc cfg)) (m_lines ta)). \<not> blk_is_modified_line b)"

lemma mark_modified_dirty:
  assumes "mark_modified i mf ta = Some ta'" "dirty_ok ta"
  shows "dirty_ok ta'"
proof -
  from assms(1) obtain b ta1 where b: "blk_set_status MODIFIED (get_access_sector_mask mf) (m_lines ta ! i) = Some b"
    and s: "set_line i (blk_set_byte_mask (get_access_byte_mask mf) b) ta1 = Some ta'"
    and ta1: "ta1 = (if \<not> blk_is_modified_line (m_lines ta ! i) then inc_dirty ta else ta)"
    by (auto simp: mark_modified_def bind_Some_iff get_block_Some Let_def)
  have "blk_is_modified_line (blk_set_byte_mask m b)" for m
    using b by (cases "m_lines ta ! i")
      (auto simp: blk_set_status_def blk_set_byte_mask_def blk_is_modified_line_def sector_is_modified_line_def
        or_byte_mask_def list_ex_iff split: option.splits intro: bexI [OF _ sector_index_in])
  then show ?thesis
    by (intro dirty_set_line [OF s _ assms(2)]) (auto simp: ta1 inc_dirty_def)
qed

lemma modified_line_not_invalid: "blk_is_invalid_line b \<Longrightarrow> \<not> blk_is_modified_line b"
  by (cases b) (auto simp: blk_is_invalid_line_def blk_is_modified_line_def sector_is_invalid_line_def
      sector_is_modified_line_def list_all_iff list_ex_iff)

text \<open>A loop that leaves no configured line modified.\<close>

lemma dirty_cleared:
  assumes "dirty_inv cfg ta" "get_num_lines cfg = Some n" "m_dirty ta' = 0" "unat n \<le> length (m_lines ta)"
    "length (m_lines ta') = length (m_lines ta)"
    "\<forall>i < unat n. \<not> blk_is_modified_line (m_lines ta' ! i)" "\<forall>i. unat n \<le> i \<longrightarrow> m_lines ta' ! i = m_lines ta ! i"
  shows "dirty_inv cfg ta'"
proof -
  have n: "n = m_nset cfg * m_assoc cfg" using assms(2) by (simp add: get_num_lines_def split: if_splits)
  have rest: "drop (unat n) (m_lines ta') = drop (unat n) (m_lines ta)"
    by (rule nth_equalityI) (use assms(5,7) in auto)
  have "\<not> blk_is_modified_line (m_lines ta' ! i)" if "i < length (m_lines ta')" for i
  proof (cases "i < unat n")
    case False
    with that assms(5) have "m_lines ta ! i \<in> set (drop (unat n) (m_lines ta))"
      by (auto simp: in_set_conv_nth intro!: exI [of _ "i - unat n"])
    with False assms(1,7) show ?thesis by (simp add: dirty_inv_def n)
  qed (use assms(6) in simp)
  then have "count_if blk_is_modified_line (m_lines ta') = 0" by (auto simp: count_if_zero in_set_conv_nth)
  with assms(1,3) rest show ?thesis by (simp add: dirty_inv_def dirty_ok_def n)
qed

lemma tag_step_dirty:
  assumes "dirty_inv cfg ta" "\<not> fills_modified cfg s ta" "names_configured cfg s" "run_tag_step cfg s ta = Some ta'"
    and bound: "unat (m_nset cfg) * unat (m_assoc cfg) < 2 ^ 32"
  shows "dirty_inv cfg ta'"
proof -
  have lift: ?thesis if "dirty_ok ta'" "same_above (unat (m_nset cfg * m_assoc cfg)) ta ta'"
    using that assms(1) by (simp add: dirty_inv_def same_above_def)
  have ok: "dirty_ok ta" using assms(1) by (simp add: dirty_inv_def)
  show ?thesis
  proof (cases s)
    case (TagAccess addr t idx wb ev mf)
    with assms(4) obtain st i wb' ev' where a: "tag_access cfg ta addr t idx wb ev mf = Some (st, i, wb', ev', ta')" by auto
    show ?thesis by (rule lift [OF dirty_access [OF a ok] access_same_above [OF a bound]])
  next
    case (TagFillAddr addr t sm bm wr)
    with assms(4) have f: "tag_fill_addr cfg ta addr t sm bm wr = Some ta'" by simp
    have "dirty_ok ta'" by (rule dirty_fill_addr [OF f ok]) (use assms(2) TagFillAddr in auto)
    then show ?thesis by (rule lift) (rule fill_addr_same_above [OF f bound])
  next
    case (TagFillIndex i t mf)
    with assms(4) have f: "fill_block ta i t (get_access_sector_mask mf) (get_access_byte_mask mf) = Some ta'"
      by (auto simp: tag_fill_index_def bind_Some_iff)
    have "dirty_ok ta'" by (rule dirty_fill_block [OF f ok]) (use assms(2) TagFillIndex in simp)
    then show ?thesis by (rule lift) (rule fill_block_same_above [OF f], use assms(3) TagFillIndex in simp)
  next
    case (TagMarkModified i mf)
    with assms(4) have m: "mark_modified i mf ta = Some ta'" by simp
    from this obtain b ta1 where "set_line i b ta1 = Some ta'" "m_lines ta1 = m_lines ta"
      by (auto simp: mark_modified_def bind_Some_iff Let_def inc_dirty_def split: if_splits)
    with same_above_set_line [of i b ta1 ta'] assms(3) TagMarkModified
    have "same_above (unat (m_nset cfg * m_assoc cfg)) ta ta'" by (simp add: same_above_def)
    then show ?thesis by (rule lift [OF mark_modified_dirty [OF m ok]])
  next
    case TagFlush
    show ?thesis
    proof (cases "is_used ta")
      case True
      from assms(4) TagFlush have "tag_flush cfg ta = Some ta'" by simp
      from this True show ?thesis
      proof (rule tag_flush_Some, goal_cases)
        case (1 n)
        have "\<not> blk_is_modified_line (m_lines ta' ! i)" if "i < unat n" for i
        proof -
          from 1(6) that have "flush_block (m_lines ta ! i) = Some (m_lines ta' ! i)" by blast
          with blk_invalidate_spec [of "m_lines ta ! i"] show ?thesis
            by (auto simp: flush_block_def split: if_splits dest: modified_line_not_invalid)
        qed
        with 1 show ?case by (intro dirty_cleared [OF assms(1) 1(1)]) auto
      qed
    qed (use assms(1,4) TagFlush in \<open>simp add: tag_flush_def\<close>)
  next
    case TagInvalidate
    with assms(4) have "tag_invalidate cfg ta = Some ta'" by simp
    then show ?thesis
    proof (rule tag_invalidate_Some, goal_cases)
      case (1 n)
      have "\<not> blk_is_modified_line (m_lines ta' ! i)" if "i < unat n" for i
        using 1(6) that blk_invalidate_spec [of "m_lines ta ! i"] by (auto dest: modified_line_not_invalid)
      with 1 show ?case by (intro dirty_cleared [OF assms(1) 1(1)]) auto
    qed
  qed
qed

lemma run_history_dirty:
  assumes "run_history cfg steps ta = Some ta'" "dirty_inv cfg ta" "unat (m_nset cfg) * unat (m_assoc cfg) < 2 ^ 32"
  shows "dirty_inv cfg ta'"
  using assms(1,2)
proof (induction steps arbitrary: ta)
  case (Cons s ss)
  then obtain ta1 where ta1: "\<not> fills_modified cfg s ta" "names_configured cfg s" "run_tag_step cfg s ta = Some ta1"
    "run_history cfg ss ta1 = Some ta'" by (auto simp: bind_Some_iff split: if_splits)
  from tag_step_dirty [OF Cons.prems(2) ta1(1-3) assms(3)] Cons.IH [OF ta1(4)] show ?case by blast
qed simp

text \<open>C9: \<open>m_dirty\<close> is the number of modified lines in every history of a tag array from its constructor on:
  accesses, fills by address and by index, the marking of written lines, flushes and invalidations, in any
  order. All modified lines are among the configured ones, which \<open>flush\<close> and \<open>invalidate\<close> visit, although the
  constructor allocates more. A history may not fill a sector that is modified already (there the counter
  can go wrong, see \<open>CacheFindings\<close>), and the indices it is given are those of configured lines.\<close>

theorem dirty_counter_kept:
  assumes "new_tag_array cfg core type_id = Some ta0" "run_history cfg steps ta0 = Some ta"
    and bound: "unat (m_nset cfg) * unat (m_assoc cfg) < 2 ^ 32"
  shows "m_dirty ta = of_nat (count_if blk_is_modified_line (m_lines ta))
    \<and> (\<forall>i < length (m_lines ta). blk_is_modified_line (m_lines ta ! i) \<longrightarrow> i < unat (m_nset cfg * m_assoc cfg))"
proof -
  have "\<not> blk_is_modified_line b" if "b \<in> set (m_lines ta0)" for b
    using assms(1) that by (auto simp: new_tag_array_def blk_is_modified_line_def new_line_block_def new_sector_block_def
        sector_is_modified_line_def list_ex_iff split: cache_type.splits)
  then have none: "\<forall>b \<in> set (m_lines ta0). \<not> blk_is_modified_line b" by blast
  then have "count_if blk_is_modified_line (m_lines ta0) = 0" by (simp add: count_if_zero)
  moreover have "m_dirty ta0 = 0" using assms(1) by (auto simp: new_tag_array_def)
  ultimately have "dirty_inv cfg ta0" using none by (auto simp: dirty_inv_def dirty_ok_def dest: in_set_dropD)
  from run_history_dirty [OF assms(2) this bound] have inv: "dirty_inv cfg ta" .
  have "i < unat (m_nset cfg * m_assoc cfg)" if i: "i < length (m_lines ta)" "blk_is_modified_line (m_lines ta ! i)" for i
  proof (rule ccontr)
    assume "\<not> i < unat (m_nset cfg * m_assoc cfg)"
    then have "m_lines ta ! i \<in> set (drop (unat (m_nset cfg * m_assoc cfg)) (m_lines ta))"
      using i(1) by (auto simp: in_set_conv_nth intro!: exI [of _ "i - unat (m_nset cfg * m_assoc cfg)"])
    with inv i(2) show False by (simp add: dirty_inv_def)
  qed
  with inv show ?thesis by (simp add: dirty_inv_def dirty_ok_def)
qed

text \<open>Two misses of a set, their fills and writes to both lines, with sixteen lines allocated and four
  configured; then a third miss, which evicts one of them, or a flush.\<close>

definition sample_history :: "tag_step list" where
  "sample_history = [TagAccess 1024 1 0 False no_evicted (plain_mf (read_access 1024 32)),
     TagFillIndex 1 2 (plain_mf (read_access 1024 32)), TagMarkModified 1 (plain_mf (write_access 1024 32 1)),
     TagAccess 2048 3 0 False no_evicted (plain_mf (read_access 2048 32)),
     TagFillAddr 2048 4 (one_sector 0) 0 False, TagMarkModified 0 (plain_mf (write_access 2048 32 1))]"

definition sample_tags :: "tag_step list \<Rightarrow> tag_array option" where
  "sample_tags steps = do { ta \<leftarrow> new_tag_array tiny_cfg 0 0; run_history tiny_cfg steps ta }"

lemma dirty_counter_kept_witness:
  "\<exists>ta ta1 ta2. sample_tags sample_history = Some ta \<and> length (m_lines ta) = 16 \<and> m_dirty ta = 2
    \<and> (of_nat (count_if blk_is_modified_line (m_lines ta)) :: u32) = 2
    \<and> sample_tags (sample_history @ [TagAccess 3072 7 0 False no_evicted (plain_mf (read_access 3072 32))]) = Some ta1
    \<and> (of_nat (count_if blk_is_modified_line (m_lines ta1)) :: u32) = 1
    \<and> sample_tags (sample_history @ [TagFlush]) = Some ta2 \<and> (of_nat (count_if blk_is_modified_line (m_lines ta2)) :: u32) = 0"
proof -
  have runs: "map_option (\<lambda>ta. (length (m_lines ta), m_dirty ta)) (sample_tags sample_history) = Some (16, 2)"
    "map_option m_dirty (sample_tags (sample_history @ [TagAccess 3072 7 0 False no_evicted (plain_mf (read_access 3072 32))])) = Some 1"
    "map_option m_dirty (sample_tags (sample_history @ [TagFlush])) = Some 0" by code_simp+
  have bound: "unat (m_nset tiny_cfg) * unat (m_assoc tiny_cfg) < 2 ^ 32" by (simp add: tiny_cfg_def)
  have counted: "of_nat (count_if blk_is_modified_line (m_lines ta)) = m_dirty ta" if "sample_tags steps = Some ta" for steps ta
  proof -
    from that obtain ta0 where "new_tag_array tiny_cfg 0 0 = Some ta0" "run_history tiny_cfg steps ta0 = Some ta"
      by (auto simp: sample_tags_def bind_Some_iff)
    from dirty_counter_kept [OF this bound] show ?thesis by simp
  qed
  from runs show ?thesis by (auto simp: counted)
qed

end
