(* ===== verification/TexFifo.thy ===== *)
theory TexFifo
  imports Prelude
begin

text \<open>
  \<open>tex_cache::fifo<T>\<close>: the ring buffer behind the four queues of the texture cache, with 32-bit
  head, tail and count. The slots start with what \<open>new T[size]\<close> left there, the argument
  \<open>memory\<close>. The locale states what the texture cache relies on, a bounded queue; the ring is
  shown to implement it, its contents being the list read from the tail.
\<close>

record 'a fifo =
  m_head :: u32
  m_tail :: u32
  m_num :: u32
  m_max_num :: u32
  m_size :: u32
  fifo_data :: "'a list"

definition new_fifo :: "u32 \<Rightarrow> (nat \<Rightarrow> 'a) \<Rightarrow> 'a fifo" where
  "new_fifo n memory = \<lparr>m_head = 0, m_tail = 0, m_num = 0, m_max_num = 0, m_size = n,
     fifo_data = map memory [0..<unat n]\<rparr>"

definition fifo_full :: "'a fifo \<Rightarrow> bool" where
  "fifo_full q = (m_num q = m_size q)"

definition fifo_empty :: "'a fifo \<Rightarrow> bool" where
  "fifo_empty q = (m_num q = 0)"

definition fifo_inc_head :: "'a fifo \<Rightarrow> 'a fifo option" where
  "fifo_inc_head q =
     do {
       h \<leftarrow> mod_u32 (m_head q + 1) (m_size q);
       let q = q\<lparr>m_head := h, m_num := m_num q + 1\<rparr>;
       Some (if m_num q > m_max_num q then q\<lparr>m_max_num := m_num q\<rparr> else q)
     }"

definition fifo_inc_tail :: "'a fifo \<Rightarrow> 'a fifo option" where
  "fifo_inc_tail q =
     do {
       cpp_assert (m_num q > 0);
       t \<leftarrow> mod_u32 (m_tail q + 1) (m_size q);
       Some (q\<lparr>m_tail := t, m_num := m_num q - 1\<rparr>)
     }"

definition fifo_push :: "'a \<Rightarrow> 'a fifo \<Rightarrow> (nat \<times> 'a fifo) option" where
  "fifo_push e q =
     do {
       cpp_assert (\<not> fifo_full q);
       d \<leftarrow> update_opt (fifo_data q) (unat (m_head q)) e;
       q' \<leftarrow> fifo_inc_head (q\<lparr>fifo_data := d\<rparr>);
       Some (unat (m_head q), q')
     }"

definition fifo_pop :: "'a fifo \<Rightarrow> ('a \<times> 'a fifo) option" where
  "fifo_pop q =
     do {
       cpp_assert (\<not> fifo_empty q);
       result \<leftarrow> nth_opt (fifo_data q) (unat (m_tail q));
       q' \<leftarrow> fifo_inc_tail q;
       Some (result, q')
     }"

definition fifo_peek_at :: "nat \<Rightarrow> 'a fifo \<Rightarrow> 'a option" where
  "fifo_peek_at i q =
     do {
       cpp_assert (i < unat (m_size q));
       nth_opt (fifo_data q) i
     }"

text \<open>A write through the reference that the other overload of \<open>peek(index)\<close> returns.\<close>

definition fifo_poke_at :: "nat \<Rightarrow> 'a \<Rightarrow> 'a fifo \<Rightarrow> 'a fifo option" where
  "fifo_poke_at i e q =
     do {
       cpp_assert (i < unat (m_size q));
       d \<leftarrow> update_opt (fifo_data q) i e;
       Some (q\<lparr>fifo_data := d\<rparr>)
     }"

definition fifo_peek :: "'a fifo \<Rightarrow> 'a option" where
  "fifo_peek q = nth_opt (fifo_data q) (unat (m_tail q))"

definition next_pop_index :: "'a fifo \<Rightarrow> nat" where
  "next_pop_index q = unat (m_tail q)"

section \<open>The contract\<close>

text \<open>
  A bounded queue. Whatever the implementation, the elements come out in the order they went in:
  running a list of operations on the implementation and on a plain list gives the same results.
\<close>

locale bounded_queue =
  fixes inv :: "'q \<Rightarrow> bool"
    and contents :: "'q \<Rightarrow> 'e list"
    and bound :: "'q \<Rightarrow> nat"
    and is_full :: "'q \<Rightarrow> bool"
    and is_empty :: "'q \<Rightarrow> bool"
    and push :: "'e \<Rightarrow> 'q \<Rightarrow> (nat \<times> 'q) option"
    and pop :: "'q \<Rightarrow> ('e \<times> 'q) option"
    and front :: "'q \<Rightarrow> 'e option"
  assumes full_iff: "inv q \<Longrightarrow> is_full q \<longleftrightarrow> length (contents q) = bound q"
    and empty_iff: "inv q \<Longrightarrow> is_empty q \<longleftrightarrow> contents q = []"
    and bounded: "inv q \<Longrightarrow> length (contents q) \<le> bound q"
    and push_full: "is_full q \<Longrightarrow> push e q = None"
    and push_room: "inv q \<Longrightarrow> \<not> is_full q \<Longrightarrow> \<exists>i q'. push e q = Some (i, q') \<and> inv q'
      \<and> contents q' = contents q @ [e] \<and> bound q' = bound q"
    and pop_empty: "is_empty q \<Longrightarrow> pop q = None"
    and pop_head: "inv q \<Longrightarrow> contents q = e # es \<Longrightarrow> \<exists>q'. pop q = Some (e, q') \<and> inv q'
      \<and> contents q' = es \<and> bound q' = bound q"
    and front_head: "inv q \<Longrightarrow> contents q = e # es \<Longrightarrow> front q = Some e"
begin

lemma push_Some:
  assumes "inv q" "push e q = Some (i, q')"
  shows "inv q'" "contents q' = contents q @ [e]" "bound q' = bound q" "\<not> is_full q"
proof -
  show nf: "\<not> is_full q" using assms(2) push_full [of q e] by auto
  from push_room [OF assms(1) nf, of e] assms(2)
  show "inv q'" "contents q' = contents q @ [e]" "bound q' = bound q" by auto
qed

lemma pop_Some:
  assumes "inv q" "pop q = Some (e, q')"
  shows "inv q'" "contents q = e # contents q'" "bound q' = bound q"
proof -
  have "\<not> is_empty q" using assms(2) pop_empty [of q] by auto
  then obtain x xs where x: "contents q = x # xs" using empty_iff [OF assms(1)]
    by (cases "contents q") auto
  from pop_head [OF assms(1) x] assms(2)
  show "inv q'" "contents q = e # contents q'" "bound q' = bound q" by (auto simp: x)
qed

lemma front_Some: "inv q \<Longrightarrow> \<not> is_empty q \<Longrightarrow> front q = Some (hd (contents q))"
  using empty_iff [of q] front_head [of q] by (cases "contents q") auto

end

section \<open>The ring implements it\<close>

definition fifo_list :: "'a fifo \<Rightarrow> 'a list" where
  "fifo_list q = map (\<lambda>i. fifo_data q ! ((unat (m_tail q) + i) mod unat (m_size q)))
                     [0..<unat (m_num q)]"

definition fifo_inv :: "'a fifo \<Rightarrow> bool" where
  "fifo_inv q \<longleftrightarrow> length (fifo_data q) = unat (m_size q) \<and> 0 < unat (m_size q)
     \<and> unat (m_tail q) < unat (m_size q) \<and> unat (m_num q) \<le> unat (m_size q)
     \<and> unat (m_head q) = (unat (m_tail q) + unat (m_num q)) mod unat (m_size q)"

lemma mod_offset_inj:
  assumes eq: "(t + i) mod n = (t + j) mod n" and "i \<le> j" "j < (n :: nat)"
  shows "i = j"
proof -
  have "n dvd (t + j) - (t + i)" using eq [symmetric] \<open>i \<le> j\<close> by (simp add: mod_eq_dvd_iff_nat)
  then have "n dvd j - i" by simp
  then have "\<not> 0 < j - i" using \<open>j < n\<close> by (meson dvd_imp_le le_less_trans diff_le_self less_le_not_le)
  with \<open>i \<le> j\<close> show ?thesis by simp
qed

lemma slot_differs: "i < k \<Longrightarrow> k < n \<Longrightarrow> (t + k) mod n \<noteq> (t + i) mod (n :: nat)"
  using mod_offset_inj [of t i n k] by auto

lemma unat_inc:
  fixes a b :: u32
  assumes "unat a < unat b"
  shows "unat (a + 1) = unat a + 1" "unat ((a + 1) mod b) = (unat a + 1) mod unat b" "b \<noteq> 0"
proof -
  have "unat b < 2 ^ LENGTH(32)" by (rule unsigned_less)
  then have "unat a + 1 < 2 ^ 32" using assms by simp
  then show "unat (a + 1) = unat a + 1" by (simp add: unat_word_ariths)
  then show "unat ((a + 1) mod b) = (unat a + 1) mod unat b" by (simp add: unat_mod)
  show "b \<noteq> 0" using assms by auto
qed

lemma unat_dec: "0 < unat (a :: u32) \<Longrightarrow> unat (a - 1) = unat a - 1"
  by (subst unat_minus_one) auto

lemma fifo_push_spec:
  assumes inv: "fifo_inv q" and room: "\<not> fifo_full q"
  shows "\<exists>i q'. fifo_push e q = Some (i, q') \<and> fifo_inv q' \<and> fifo_list q' = fifo_list q @ [e]
    \<and> unat (m_size q') = unat (m_size q)"
proof -
  let ?n = "unat (m_size q)" and ?k = "unat (m_num q)" and ?t = "unat (m_tail q)"
  have "?k \<noteq> ?n" using room by (simp add: fifo_full_def word_unat_eq_iff)
  moreover have "?k \<le> ?n" using inv by (simp add: fifo_inv_def)
  ultimately have k: "?k < ?n" by simp
  have h: "unat (m_head q) = (?t + ?k) mod ?n" and d: "length (fifo_data q) = ?n" and n: "0 < ?n"
    using inv by (simp_all add: fifo_inv_def)
  then have hn: "unat (m_head q) < ?n" by simp
  define q' where "q' = (let q1 = q\<lparr>fifo_data := (fifo_data q)[unat (m_head q) := e],
      m_head := (m_head q + 1) mod m_size q, m_num := m_num q + 1\<rparr>
    in if m_num q1 > m_max_num q1 then q1\<lparr>m_max_num := m_num q1\<rparr> else q1)"
  have f: "m_size q' = m_size q" "m_tail q' = m_tail q" "m_num q' = m_num q + 1"
    "m_head q' = (m_head q + 1) mod m_size q" "fifo_data q' = (fifo_data q)[unat (m_head q) := e]"
    by (simp_all add: q'_def Let_def)
  have push: "fifo_push e q = Some (unat (m_head q), q')"
    using room hn unat_inc(3) [OF hn] d
    by (simp add: fifo_push_def fifo_inc_head_def mod_u32_def q'_def Let_def)
  have u: "unat (m_num q + 1) = ?k + 1" by (rule unat_inc(1) [OF k])
  have inv': "fifo_inv q'"
    using inv k h by (simp add: fifo_inv_def f u unat_inc(2) [OF hn] mod_Suc_eq)
  have "fifo_list q' = fifo_list q @ [e]"
  proof (rule nth_equalityI)
    show "length (fifo_list q') = length (fifo_list q @ [e])" by (simp add: fifo_list_def f u)
    fix i assume "i < length (fifo_list q')"
    then have i: "i < ?k + 1" by (simp add: fifo_list_def f u)
    show "fifo_list q' ! i = (fifo_list q @ [e]) ! i"
    proof (cases "i = ?k")
      case True
      then show ?thesis using hn d h by (simp add: fifo_list_def f u nth_append)
    next
      case False
      with i have i: "i < ?k" by simp
      from slot_differs [OF i k, of ?t] i k show ?thesis
        by (simp add: fifo_list_def f u nth_append h)
    qed
  qed
  with push inv' show ?thesis by (simp add: f)
qed

lemma fifo_pop_spec:
  assumes inv: "fifo_inv q" and e: "fifo_list q = e # es"
  shows "\<exists>q'. fifo_pop q = Some (e, q') \<and> fifo_inv q' \<and> fifo_list q' = es
    \<and> unat (m_size q') = unat (m_size q)" "fifo_peek q = Some e"
proof -
  let ?n = "unat (m_size q)" and ?k = "unat (m_num q)" and ?t = "unat (m_tail q)"
  have len: "length (fifo_list q) = ?k" by (simp add: fifo_list_def)
  have k: "0 < ?k" "length es = ?k - 1" using e len by auto
  have d: "length (fifo_data q) = ?n" and t: "?t < ?n" and kn: "?k \<le> ?n" using inv by (simp_all add: fifo_inv_def)
  have "fifo_list q ! 0 = fifo_data q ! ?t" using k t by (simp add: fifo_list_def)
  then have hd: "fifo_data q ! ?t = e" by (simp add: e)
  show "fifo_peek q = Some e" using d t hd by (simp add: fifo_peek_def)
  define q' where "q' = q\<lparr>m_tail := (m_tail q + 1) mod m_size q, m_num := m_num q - 1\<rparr>"
  have pos: "m_num q > 0" using k(1) by (simp add: word_less_nat_alt)
  have ne: "m_num q \<noteq> 0" using pos by auto
  have pop: "fifo_pop q = Some (e, q')"
    using d t hd unat_inc(3) [OF t] pos ne
    by (simp add: fifo_pop_def fifo_empty_def fifo_inc_tail_def mod_u32_def q'_def)
  have u: "unat (m_num q - 1) = ?k - 1" by (rule unat_dec [OF k(1)])
  have "unat (m_head q) = (?t + 1 + (?k - 1)) mod ?n" using inv k(1) by (simp add: fifo_inv_def)
  then have inv': "fifo_inv q'"
    using inv kn by (simp add: fifo_inv_def q'_def unat_inc(2) [OF t] u mod_add_left_eq)
  have "fifo_list q' = es"
  proof (rule nth_equalityI)
    show "length (fifo_list q') = length es" by (simp add: fifo_list_def q'_def u k)
    fix i assume "i < length (fifo_list q')"
    then have i: "Suc i < ?k" by (simp add: fifo_list_def q'_def u)
    have "es ! i = fifo_list q ! Suc i" by (simp add: e)
    with i show "fifo_list q' ! i = es ! i"
      by (simp add: fifo_list_def q'_def u unat_inc(2) [OF t] mod_add_left_eq less_diff_conv)
  qed
  with pop inv' show "\<exists>q'. fifo_pop q = Some (e, q') \<and> fifo_inv q' \<and> fifo_list q' = es
    \<and> unat (m_size q') = unat (m_size q)" by (simp add: q'_def)
qed

interpretation ring: bounded_queue fifo_inv fifo_list "\<lambda>q. unat (m_size q)" fifo_full fifo_empty
  fifo_push fifo_pop fifo_peek
proof unfold_locales
  fix q :: "'a fifo" and e :: 'a and es
  have len: "length (fifo_list q) = unat (m_num q)" by (simp add: fifo_list_def)
  show "fifo_full q \<longleftrightarrow> length (fifo_list q) = unat (m_size q)"
    by (simp add: len fifo_full_def word_unat_eq_iff)
  show "fifo_empty q \<longleftrightarrow> fifo_list q = []"
    by (simp add: fifo_empty_def length_0_conv [symmetric] len unat_eq_0 del: length_0_conv)
  show "fifo_inv q \<Longrightarrow> length (fifo_list q) \<le> unat (m_size q)" by (simp add: len fifo_inv_def)
  show "fifo_full q \<Longrightarrow> fifo_push e q = None" by (simp add: fifo_push_def cpp_assert_def)
  show "fifo_empty q \<Longrightarrow> fifo_pop q = None" by (simp add: fifo_pop_def cpp_assert_def)
  show "fifo_inv q \<Longrightarrow> \<not> fifo_full q \<Longrightarrow> \<exists>i q'. fifo_push e q = Some (i, q') \<and> fifo_inv q'
      \<and> fifo_list q' = fifo_list q @ [e] \<and> unat (m_size q') = unat (m_size q)"
    by (rule fifo_push_spec)
  show "fifo_inv q \<Longrightarrow> fifo_list q = e # es \<Longrightarrow> \<exists>q'. fifo_pop q = Some (e, q') \<and> fifo_inv q'
      \<and> fifo_list q' = es \<and> unat (m_size q') = unat (m_size q)"
    by (rule fifo_pop_spec(1))
  show "fifo_inv q \<Longrightarrow> fifo_list q = e # es \<Longrightarrow> fifo_peek q = Some e" by (rule fifo_pop_spec(2))
qed

lemma fifo_inv_new:
  assumes "0 < n"
  shows "fifo_inv (new_fifo n memory)" "fifo_list (new_fifo n memory) = []"
  using assms by (simp_all add: fifo_inv_def new_fifo_def fifo_list_def word_less_nat_alt)

text \<open>A write in place changes the slot it names and nothing else.\<close>

lemma fifo_poke:
  assumes "fifo_inv q" "fifo_poke_at i e q = Some q'"
  shows "fifo_inv q'" "length (fifo_list q') = length (fifo_list q)"
    "j < length (fifo_list q) \<Longrightarrow> fifo_list q' ! j =
      (if (unat (m_tail q) + j) mod unat (m_size q) = i then e else fifo_list q ! j)"
  using assms by (auto simp: fifo_poke_at_def bind_Some_iff fifo_inv_def fifo_list_def nth_list_update)

section \<open>Programs over a queue\<close>

text \<open>A client's sequence of pushes and pops, run on the ring and on a bounded list.\<close>

datatype 'a queue_op = Push 'a | Pop

fun ring_run :: "'a queue_op list \<Rightarrow> 'a fifo \<Rightarrow> ('a list \<times> 'a fifo) option" where
  "ring_run [] q = Some ([], q)"
| "ring_run (Push e # ops) q = (case fifo_push e q of None \<Rightarrow> None | Some (i, q') \<Rightarrow> ring_run ops q')"
| "ring_run (Pop # ops) q = (case fifo_pop q of None \<Rightarrow> None
     | Some (e, q') \<Rightarrow> map_option (\<lambda>(out, q''). (e # out, q'')) (ring_run ops q'))"

fun list_run :: "nat \<Rightarrow> 'a queue_op list \<Rightarrow> 'a list \<Rightarrow> ('a list \<times> 'a list) option" where
  "list_run n [] xs = Some ([], xs)"
| "list_run n (Push e # ops) xs = (if length xs = n then None else list_run n ops (xs @ [e]))"
| "list_run n (Pop # ops) xs = (case xs of [] \<Rightarrow> None
     | x # rest \<Rightarrow> map_option (\<lambda>(out, ys). (x # out, ys)) (list_run n ops rest))"

lemma ring_run_list:
  "fifo_inv q \<Longrightarrow> map_option (\<lambda>(out, q'). (out, fifo_list q')) (ring_run ops q)
     = list_run (unat (m_size q)) ops (fifo_list q)"
proof (induction ops arbitrary: q)
  case Nil
  then show ?case by simp
next
  case (Cons x ops)
  show ?case
  proof (cases x)
    case (Push e)
    show ?thesis
    proof (cases "fifo_full q")
      case True
      with Push show ?thesis
        using ring.push_full [OF True, of e] ring.full_iff [OF Cons.prems] by simp
    next
      case False
      from ring.push_room [OF Cons.prems False, of e] obtain i q' where
        "fifo_push e q = Some (i, q')" "fifo_inv q'" "fifo_list q' = fifo_list q @ [e]"
        "unat (m_size q') = unat (m_size q)" by blast
      with Push False Cons.IH [of q'] ring.full_iff [OF Cons.prems] show ?thesis by simp
    qed
  next
    case Pop
    show ?thesis
    proof (cases "fifo_list q")
      case Nil
      with ring.empty_iff [OF Cons.prems] ring.pop_empty have "fifo_pop q = None" by blast
      with Pop Nil show ?thesis by simp
    next
      case (Cons e es)
      from ring.pop_head [OF Cons.prems Cons] obtain q' where
        "fifo_pop q = Some (e, q')" "fifo_inv q'" "fifo_list q' = es"
        "unat (m_size q') = unat (m_size q)" by blast
      with Pop Cons Cons.IH [of q'] show ?thesis
        by (cases "ring_run ops q'"; cases "list_run (unat (m_size q)) ops es") auto
    qed
  qed
qed

text \<open>C14: The ring buffer of the texture cache is a bounded FIFO queue: any sequence of pushes and pops
  on a new ring of size \<open>n\<close> returns the same elements, fails at the same operation (a push when full, a
  pop when empty) and leaves the same contents as on a list of at most \<open>n\<close> elements, for every wrap of
  the 32-bit head and tail.\<close>

theorem ring_refines_queue:
  assumes "0 < n"
  shows "map_option (\<lambda>(out, q). (out, fifo_list q)) (ring_run ops (new_fifo n memory))
    = list_run (unat n) ops []"
proof -
  have "m_size (new_fifo n memory) = n" by (simp add: new_fifo_def)
  then show ?thesis
    using ring_run_list [OF fifo_inv_new(1) [OF assms], of ops memory]
    by (simp add: fifo_inv_new(2) [OF assms])
qed

theorem ring_refines_queue_witness:
  "map_option fst (ring_run [Push 1, Push (2 :: nat), Pop, Push 3, Pop, Pop] (new_fifo 2 (\<lambda>_. 0)))
     = Some [1, 2, 3]"
proof -
  have "map_option (\<lambda>(out, q). (out, fifo_list q))
      (ring_run [Push 1, Push (2 :: nat), Pop, Push 3, Pop, Pop] (new_fifo 2 (\<lambda>_. 0)))
    = list_run (unat (2 :: u32)) [Push 1, Push 2, Pop, Push 3, Pop, Pop] []"
    by (rule ring_refines_queue) simp
  then show ?thesis by (auto simp: map_option_case split: option.splits prod.splits)
qed

end
