(* ===== verification/TexCache.thy ===== *)
theory TexCache
  imports TexFifo BaselineCache
begin

text \<open>
  \<open>tex_cache\<close>: the prefetching texture cache. An accepted request enters the fragment queue in
  program order; a miss also enters the reorder buffer and the request queue, and its line is
  marked valid at once. \<open>cycle\<close> moves the head of the fragment queue to the result queue, for a
  miss only when the reorder buffer says that its data has come back. The ring buffers are those
  of \<open>TexFifo\<close>; statistics are those of \<open>cache_stats\<close>.
\<close>

record fragment_entry =
  fe_request :: mf_ref
  fe_cache_index :: nat
  fe_miss :: bool
  fe_data_size :: u32

record rob_entry =
  rob_ready :: bool
  rob_time :: time
  rob_index :: nat
  rob_request :: mf_ref
  rob_block_addr :: new_addr_type

definition new_rob_entry :: "nat \<Rightarrow> mf_ref \<Rightarrow> new_addr_type \<Rightarrow> rob_entry" where
  "new_rob_entry i mf a =
     \<lparr>rob_ready = False, rob_time = 0, rob_index = i, rob_request = mf, rob_block_addr = a\<rparr>"

record data_block =
  db_valid :: bool
  db_block_addr :: new_addr_type

record tex_extra_mf_fields =
  tx_valid :: bool
  tx_rob_index :: nat
  tx_pending_read :: u32

definition new_tex_extra_mf_fields :: "nat \<Rightarrow> cache_config \<Rightarrow> tex_extra_mf_fields" where
  "new_tex_extra_mf_fields i cfg = \<lparr>tx_valid = True, tx_rob_index = i,
     tx_pending_read = (if m_mshr_type cfg = SECTOR_TEX_FIFO
                        then m_line_sz cfg div of_nat SECTOR_SIZE else 0)\<rparr>"

record tex_cache =
  t_config :: cache_config
  m_tags :: tag_array
  m_fragment_fifo :: "fragment_entry fifo"
  m_request_fifo :: "mf_ref fifo"
  m_rob :: "rob_entry fifo"
  m_cache :: "data_block list"
  m_result_fifo :: "mf_ref fifo"
  m_request_queue_status :: mem_fetch_status
  m_rob_status :: mem_fetch_status
  t_stats :: cache_stats
  t_extra_mf_fields :: "(mf_ref \<times> tex_extra_mf_fields) list"
  t_heap :: mf_heap
  t_events :: "cache_event list"

text \<open>The constructor; the slots of the rings hold what the allocation left there.\<close>

definition new_tex_cache ::
  "cache_config \<Rightarrow> int \<Rightarrow> int \<Rightarrow> mem_fetch_status \<Rightarrow> mem_fetch_status
   \<Rightarrow> (nat \<Rightarrow> fragment_entry) \<Rightarrow> (nat \<Rightarrow> mf_ref) \<Rightarrow> (nat \<Rightarrow> rob_entry) \<Rightarrow> (nat \<Rightarrow> new_addr_type)
   \<Rightarrow> mf_heap \<Rightarrow> tex_cache option" where
  "new_tex_cache cfg core_id type_id request_status rob_status mem_f mem_r mem_rob mem_a heap =
     do {
       ta \<leftarrow> new_tag_array cfg core_id type_id;
       cpp_assert (m_mshr_type cfg = TEX_FIFO \<or> m_mshr_type cfg = SECTOR_TEX_FIFO);
       cpp_assert (m_write_policy cfg = READ_ONLY);
       cpp_assert (m_alloc_policy cfg = ON_MISS);
       n \<leftarrow> get_num_lines cfg;
       Some \<lparr>t_config = cfg, m_tags = ta,
         m_fragment_fifo = new_fifo (m_fragment_fifo_entries cfg) mem_f,
         m_request_fifo = new_fifo (m_request_fifo_entries cfg) mem_r,
         m_rob = new_fifo (m_rob_entries cfg) mem_rob,
         m_cache = map (\<lambda>i. \<lparr>db_valid = False, db_block_addr = mem_a i\<rparr>) [0..<unat n],
         m_result_fifo = new_fifo (m_result_fifo_entries cfg) mem_r,
         m_request_queue_status = request_status, m_rob_status = rob_status,
         t_stats = new_cache_stats, t_extra_mf_fields = [], t_heap = heap, t_events = []\<rparr>
     }"

definition tex_get_mf :: "mf_ref \<Rightarrow> tex_cache \<Rightarrow> mem_fetch option" where
  "tex_get_mf r c = heap_get (t_heap c) r"

definition tex_upd_mf ::
  "mf_ref \<Rightarrow> (mem_fetch \<Rightarrow> mem_fetch) \<Rightarrow> tex_cache \<Rightarrow> tex_cache option" where
  "tex_upd_mf r f c = map_option (\<lambda>h. c\<lparr>t_heap := h\<rparr>) (heap_upd r f (t_heap c))"

definition tex_count_outcome ::
  "mem_fetch \<Rightarrow> cache_request_status \<Rightarrow> cache_request_status \<Rightarrow> cache_stats \<Rightarrow> cache_stats option" where
  "tex_count_outcome mf probe_status access_status s =
     do {
       let st = int (cache_request_status_num (select_stats_status probe_status access_status));
       s \<leftarrow> inc_stats (int (mem_access_type_num (get_access_type mf))) st (m_streamID mf) s;
       inc_stats_pw (int (mem_access_type_num (get_access_type mf))) st (m_streamID mf) s
     }"

section \<open>Access\<close>

text \<open>The part of \<open>access\<close> for a miss: a reorder slot, the request and the line made valid.\<close>

definition tex_send_miss ::
  "new_addr_type \<Rightarrow> nat \<Rightarrow> mf_ref \<Rightarrow> time \<Rightarrow> tex_cache \<Rightarrow> tex_cache option" where
  "tex_send_miss baddr cache_index r t c =
     do {
       (slot, rob) \<leftarrow> fifo_push (new_rob_entry cache_index r baddr) (m_rob c);
       let c = c\<lparr>m_rob := rob, t_extra_mf_fields :=
         AList.update r (new_tex_extra_mf_fields slot (t_config c)) (t_extra_mf_fields c)\<rparr>;
       line_sz \<leftarrow> get_line_sz (t_config c);
       c \<leftarrow> tex_upd_mf r (set_data_size line_sz) c;
       mf \<leftarrow> tex_get_mf r c;
       ta \<leftarrow> tag_fill_index (t_config c) (m_tags c) cache_index t mf;
       (i, rq) \<leftarrow> fifo_push r (m_request_fifo c);
       c \<leftarrow> tex_upd_mf r (set_mf_status (m_request_queue_status c))
              (c\<lparr>m_tags := ta, m_request_fifo := rq\<rparr>);
       Some (c\<lparr>t_events := t_events c @ [mk_event READ_REQUEST_SENT]\<rparr>)
     }"

definition tex_access ::
  "new_addr_type \<Rightarrow> mf_ref \<Rightarrow> time \<Rightarrow> tex_cache \<Rightarrow> (cache_request_status \<times> tex_cache) option" where
  "tex_access addr r t c =
     (if fifo_full (m_fragment_fifo c) \<or> fifo_full (m_request_fifo c) \<or> fifo_full (m_rob c)
      then Some (RESERVATION_FAIL, c)
      else
        do {
          mf \<leftarrow> tex_get_mf r c;
          line_sz \<leftarrow> get_line_sz (t_config c);
          cpp_assert (m_data_size mf \<le> line_sz);
          let baddr = block_addr (t_config c) addr;
          (status, idx, ta) \<leftarrow> tag_access_no_wb (t_config c) (m_tags c) baddr t (unat (- 1 :: u32)) mf;
          cpp_assert (status \<noteq> RESERVATION_FAIL);
          cpp_assert (status \<noteq> HIT_RESERVED);
          (i, ff) \<leftarrow> fifo_push \<lparr>fe_request = r, fe_cache_index = idx, fe_miss = (status = MISS),
                                fe_data_size = m_data_size mf\<rparr> (m_fragment_fifo c);
          let c = c\<lparr>m_tags := ta, m_fragment_fifo := ff\<rparr>;
          c \<leftarrow> (if status = MISS then tex_send_miss baddr idx r t c else Some c);
          let cache_status = (if status = MISS then MISS else HIT_RESERVED);
          s \<leftarrow> tex_count_outcome mf status cache_status (t_stats c);
          Some (cache_status, c\<lparr>t_stats := s\<rparr>)
        })"

section \<open>Cycle\<close>

definition tex_send_request ::
  "('p \<Rightarrow> u32 \<Rightarrow> bool \<Rightarrow> bool) \<Rightarrow> (mf_ref \<Rightarrow> 'p \<Rightarrow> 'p) \<Rightarrow> 'p \<Rightarrow> tex_cache \<Rightarrow> ('p \<times> tex_cache) option" where
  "tex_send_request full push port c =
     (if fifo_empty (m_request_fifo c) then Some (port, c)
      else
        do {
          r \<leftarrow> fifo_peek (m_request_fifo c);
          mf \<leftarrow> tex_get_mf r c;
          (if \<not> full port (m_ctrl_size mf) False then
             do {
               (r', rq) \<leftarrow> fifo_pop (m_request_fifo c);
               Some (push r port, c\<lparr>m_request_fifo := rq\<rparr>)
             }
           else Some (port, c))
        })"

definition tex_finish_miss :: "fragment_entry \<Rightarrow> tex_cache \<Rightarrow> tex_cache option" where
  "tex_finish_miss e c =
     do {
       r \<leftarrow> fifo_peek_at (next_pop_index (m_rob c)) (m_rob c);
       cpp_assert (rob_request r = fe_request e);
       (if rob_ready r then
          do {
            cpp_assert (rob_index r = fe_cache_index e);
            blocks \<leftarrow> update_opt (m_cache c) (rob_index r)
                        \<lparr>db_valid = True, db_block_addr = rob_block_addr r\<rparr>;
            (i, res) \<leftarrow> fifo_push (fe_request e) (m_result_fifo c);
            (r', rob) \<leftarrow> fifo_pop (m_rob c);
            (e', ff) \<leftarrow> fifo_pop (m_fragment_fifo c);
            Some (c\<lparr>m_cache := blocks, m_result_fifo := res, m_rob := rob, m_fragment_fifo := ff\<rparr>)
          }
        else Some c)
     }"

definition tex_finish_hit :: "fragment_entry \<Rightarrow> tex_cache \<Rightarrow> tex_cache option" where
  "tex_finish_hit e c =
     do {
       b \<leftarrow> nth_opt (m_cache c) (fe_cache_index e);
       cpp_assert (db_valid b);
       mf \<leftarrow> tex_get_mf (fe_request e) c;
       cpp_assert (db_block_addr b = block_addr (t_config c) (get_addr mf));
       (i, res) \<leftarrow> fifo_push (fe_request e) (m_result_fifo c);
       (e', ff) \<leftarrow> fifo_pop (m_fragment_fifo c);
       Some (c\<lparr>m_result_fifo := res, m_fragment_fifo := ff\<rparr>)
     }"

definition tex_cycle ::
  "('p \<Rightarrow> u32 \<Rightarrow> bool \<Rightarrow> bool) \<Rightarrow> (mf_ref \<Rightarrow> 'p \<Rightarrow> 'p) \<Rightarrow> 'p \<Rightarrow> tex_cache \<Rightarrow> ('p \<times> tex_cache) option" where
  "tex_cycle full push port c =
     do {
       (port, c) \<leftarrow> tex_send_request full push port c;
       (if \<not> fifo_empty (m_fragment_fifo c) \<and> \<not> fifo_full (m_result_fifo c) then
          do {
            e \<leftarrow> fifo_peek (m_fragment_fifo c);
            c \<leftarrow> (if fe_miss e then tex_finish_miss e c else tex_finish_hit e c);
            Some (port, c)
          }
        else Some (port, c))
     }"

section \<open>Fill and the rest\<close>

definition tex_collect_sectors ::
  "mf_ref \<Rightarrow> tex_cache \<Rightarrow> (mf_ref option \<times> tex_cache) option" where
  "tex_collect_sectors r c =
     do {
       mf \<leftarrow> tex_get_mf r c;
       orig \<leftarrow> original_mf mf;
       e \<leftarrow> map_of (t_extra_mf_fields c) orig;
       let n = tx_pending_read e - 1;
       let c = c\<lparr>t_extra_mf_fields := AList.update orig (e\<lparr>tx_pending_read := n\<rparr>) (t_extra_mf_fields c),
                 t_heap := heap_delete r (t_heap c)\<rparr>;
       Some (if n > 0 then None else Some orig, c)
     }"

definition tex_fill_original :: "mf_ref \<Rightarrow> time \<Rightarrow> tex_cache \<Rightarrow> tex_cache option" where
  "tex_fill_original r t c =
     do {
       e \<leftarrow> map_of (t_extra_mf_fields c) r;
       cpp_assert (tx_valid e);
       cpp_assert (\<not> fifo_empty (m_rob c));
       c \<leftarrow> tex_upd_mf r (set_mf_status (m_rob_status c)) c;
       mf \<leftarrow> tex_get_mf r c;
       entry \<leftarrow> fifo_peek_at (tx_rob_index e) (m_rob c);
       cpp_assert (\<not> rob_ready entry);
       rob \<leftarrow> fifo_poke_at (tx_rob_index e) (entry\<lparr>rob_ready := True, rob_time := t\<rparr>) (m_rob c);
       cpp_assert (rob_block_addr entry = block_addr (t_config c) (get_addr mf));
       Some (c\<lparr>m_rob := rob, t_extra_mf_fields := AList.delete r (t_extra_mf_fields c)\<rparr>)
     }"

definition tex_fill :: "mf_ref \<Rightarrow> time \<Rightarrow> tex_cache \<Rightarrow> tex_cache option" where
  "tex_fill r t c =
     (if m_mshr_type (t_config c) = SECTOR_TEX_FIFO then
        do {
          (whole, c) \<leftarrow> tex_collect_sectors r c;
          (case whole of None \<Rightarrow> Some c | Some orig \<Rightarrow> tex_fill_original orig t c)
        }
      else tex_fill_original r t c)"

definition tex_access_ready :: "tex_cache \<Rightarrow> bool" where
  "tex_access_ready c = (\<not> fifo_empty (m_result_fifo c))"

definition tex_next_access :: "tex_cache \<Rightarrow> (mf_ref \<times> tex_cache) option" where
  "tex_next_access c =
     map_option (\<lambda>(r, q). (r, c\<lparr>m_result_fifo := q\<rparr>)) (fifo_pop (m_result_fifo c))"

definition tex_invalidate :: "tex_cache \<Rightarrow> tex_cache option" where
  "tex_invalidate c =
     do {
       ta \<leftarrow> tag_invalidate (t_config c) (m_tags c);
       n \<leftarrow> get_num_lines (t_config c);
       blocks \<leftarrow> fold_opt (\<lambda>i bs. update_opt bs i \<lparr>db_valid = False, db_block_addr = 0\<rparr>)
                   [0..<unat n] (m_cache c);
       Some (c\<lparr>m_tags := ta, m_cache := blocks\<rparr>)
     }"

definition tex_queues_empty :: "tex_cache \<Rightarrow> bool" where
  "tex_queues_empty c = (fifo_empty (m_fragment_fifo c) \<and> fifo_empty (m_request_fifo c)
     \<and> fifo_empty (m_rob c) \<and> fifo_empty (m_result_fifo c) \<and> t_extra_mf_fields c = [])"

definition tex_no_pending_accesses :: "tex_cache \<Rightarrow> bool" where
  "tex_no_pending_accesses c = (fifo_empty (m_fragment_fifo c) \<and> fifo_empty (m_request_fifo c)
     \<and> fifo_empty (m_rob c) \<and> fifo_empty (m_result_fifo c))"

definition tex_final_state_clean :: "tex_cache \<Rightarrow> bool option" where
  "tex_final_state_clean c =
     (if \<not> tex_no_pending_accesses c then Some False
      else
        do {
          clean \<leftarrow> tag_final_state_clean (t_config c) (m_tags c);
          (if \<not> clean then Some False
           else
             do {
               n \<leftarrow> get_num_lines (t_config c);
               (if list_ex db_valid (take (unat n) (m_cache c)) then Some False
                else if unat n \<le> length (m_cache c) then Some True else None)
             })
        })"

record texture_queue_watermark_stats =
  tw_fragment_fifo :: u32
  tw_request_fifo :: u32
  tw_rob :: u32
  tw_result_fifo :: u32
  tw_extra_mf_fields :: u32
  tw_line_refcount :: u32

definition tex_queue_watermarks :: "tex_cache \<Rightarrow> texture_queue_watermark_stats" where
  \<comment> \<open>\<open>m_max_extra_mf_fields_size\<close> is never written: it keeps its initial zero\<close>
  "tex_queue_watermarks c = \<lparr>tw_fragment_fifo = m_max_num (m_fragment_fifo c),
     tw_request_fifo = m_max_num (m_request_fifo c), tw_rob = m_max_num (m_rob c),
     tw_result_fifo = m_max_num (m_result_fifo c), tw_extra_mf_fields = 0, tw_line_refcount = 0\<rparr>"

end
