(* ===== verification/StatsFacts.thy ===== *)
theory StatsFacts
  imports CacheStats
begin

text \<open>
  Properties of the statistics: recording an outcome changes one cell by one, and the totals count
  every recorded outcome once. The last section shows what the sums of two objects do to the
  per-window tables.
\<close>

section \<open>One outcome\<close>

text \<open>The value of a cell, zero for a stream that has no table yet.\<close>

definition cell :: "stat_map \<Rightarrow> u64 \<Rightarrow> nat \<Rightarrow> nat \<Rightarrow> u64" where
  "cell m sid ty st = (case map_of m sid of None \<Rightarrow> 0 | Some t \<Rightarrow> t ty st)"

lemma cell_inc:
  "cell (inc_cell row col sid m) = (cell m)(sid := (cell m sid)(row := (cell m sid row)(col := cell m sid row col + 1)))"
  by (auto simp: cell_def inc_cell_def Let_def map_of_update fun_eq_iff split: option.splits)

lemma sum_list_delta: "distinct xs \<Longrightarrow> (\<Sum>x \<leftarrow> xs. if x = a then f x else (g x :: u64))
    = (\<Sum>x \<leftarrow> xs. g x) + (if a \<in> set xs then f a - g a else 0)"
  by (induction xs) auto

lemma table_sum_inc:
  assumes "row < NUM_MEM_ACCESS_TYPE" "col < cols"
  shows "table_sum cols P (t(row := (t row)(col := t row col + 1)))
    = table_sum cols P t + (if P row col then 1 else 0)"
proof -
  let ?t = "t(row := (t row)(col := t row col + 1))"
  let ?g = "\<lambda>t ty. \<Sum>st \<leftarrow> [0..<cols]. if P ty st then t ty st else 0"
  have r: "?g ?t row = ?g t row + (if P row col then 1 else 0)"
  proof -
    have "?g ?t row = (\<Sum>st \<leftarrow> [0..<cols]. if st = col then (if P row st then t row col + 1 else 0)
        else (if P row st then t row st else 0))"
      by (intro arg_cong [where f = sum_list] map_cong) auto
    also have "\<dots> = ?g t row + (if P row col then 1 else 0)"
      using assms(2) by (subst sum_list_delta) auto
    finally show ?thesis .
  qed
  have "table_sum cols P ?t = (\<Sum>ty \<leftarrow> [0..<NUM_MEM_ACCESS_TYPE]. if ty = row then ?g ?t row else ?g t ty)"
    unfolding table_sum_def by (intro arg_cong [where f = sum_list] map_cong) (auto cong: if_cong)
  also have "\<dots> = table_sum cols P t + (?g ?t row - ?g t row)"
    using assms(1) unfolding table_sum_def by (subst sum_list_delta [where f = "\<lambda>_. ?g ?t row"]) simp_all
  finally show ?thesis unfolding r by simp
qed

lemma table_sum_zero [simp]: "table_sum cols P (\<lambda>_ _. 0) = 0"
proof -
  have "(\<Sum>st \<leftarrow> [0..<cols]. if P ty st then 0 else (0 :: u64)) = 0" for ty by simp
  then show ?thesis by (simp add: table_sum_def)
qed

lemma stat_sum_update:
  "map_of m sid = Some t \<Longrightarrow> stat_sum cols P (AList.update sid t' m)
     = stat_sum cols P m + (table_sum cols P t' - table_sum cols P t)"
  by (induction m) (auto simp: stat_sum_def)

lemma stat_sum_fresh:
  "map_of m sid = None \<Longrightarrow> stat_sum cols P (AList.update sid t m) = stat_sum cols P m + table_sum cols P t"
  by (induction m) (auto simp: stat_sum_def split: if_splits)

lemma stat_sum_inc:
  assumes "row < NUM_MEM_ACCESS_TYPE" "col < cols"
  shows "stat_sum cols P (inc_cell row col sid m) = stat_sum cols P m + (if P row col then 1 else 0)"
proof (cases "map_of m sid")
  case None
  then show ?thesis using table_sum_inc [OF assms, of P "\<lambda>_ _. 0"]
    by (simp add: inc_cell_def Let_def map_of_update stat_sum_fresh)
next
  case (Some t)
  then show ?thesis by (simp add: inc_cell_def Let_def stat_sum_update table_sum_inc [OF assms])
qed

section \<open>Properties\<close>

text \<open>Recording an outcome is exact: with a valid type and outcome \<open>inc_stats\<close> succeeds, the cell of
  that stream, type and outcome grows by one and no other cell of any table changes; with an invalid
  type or outcome it ends the program.\<close>

theorem inc_stats_exact:
  "(if check_valid ty st then
      \<exists>s'. inc_stats ty st sid s = Some s'
        \<and> stats_at ty st False sid s' = Some (cell (st_stats s) sid (nat ty) (nat st) + 1)
        \<and> (\<forall>q a b. q \<noteq> sid \<or> a \<noteq> nat ty \<or> b \<noteq> nat st \<longrightarrow> cell (st_stats s') q a b = cell (st_stats s) q a b)
        \<and> st_stats_pw s' = st_stats_pw s \<and> st_fail_stats s' = st_fail_stats s
    else inc_stats ty st sid s = None)"
proof (cases "check_valid ty st")
  case True
  let ?m = "inc_cell (nat ty) (nat st) sid (st_stats s)"
  have "\<exists>t. map_of ?m sid = Some t" by (simp add: inc_cell_def Let_def map_of_update)
  then have "map_option (\<lambda>t. t (nat ty) (nat st)) (map_of ?m sid) = Some (cell ?m sid (nat ty) (nat st))"
    by (auto simp: cell_def)
  with True show ?thesis by (auto simp: inc_stats_def stats_at_def cell_inc)
next
  case False
  then show ?thesis by (simp add: inc_stats_def)
qed

theorem inc_stats_exact_witness:
  "check_valid 0 1 \<and> (\<exists>s'. inc_stats 0 1 7 new_cache_stats = Some s' \<and> stats_at 0 1 False 7 s' = Some 1)"
  using inc_stats_exact [of 0 1 7 new_cache_stats]
  by (auto simp: check_valid_def NUM_MEM_ACCESS_TYPE_def NUM_CACHE_REQUEST_STATUS_def new_cache_stats_def cell_def)

text \<open>C17: The totals count every recorded outcome once. After a valid \<open>inc_stats\<close> of outcome \<open>st\<close> for
  any access type and stream, the total of accesses grows by one exactly for the four outcomes that are
  accesses, misses for MISS and SECTOR_MISS, pending hits for HIT_RESERVED, reservation failures for
  RESERVATION_FAIL, and nothing else changes.\<close>

theorem totals_count_once:
  assumes "inc_stats (int (mem_access_type_num ty)) (int (cache_request_status_num st)) sid s = Some s'"
  shows "get_sub_stats s' = (get_sub_stats s)\<lparr>
     accesses := accesses (get_sub_stats s) + (if st \<in> {HIT, MISS, SECTOR_MISS, HIT_RESERVED} then 1 else 0),
     misses := misses (get_sub_stats s) + (if st \<in> {MISS, SECTOR_MISS} then 1 else 0),
     pending_hits := pending_hits (get_sub_stats s) + (if st = HIT_RESERVED then 1 else 0),
     res_fails := res_fails (get_sub_stats s) + (if st = RESERVATION_FAIL then 1 else 0)\<rparr>"
proof -
  have v: "cache_request_status_num st < NUM_CACHE_REQUEST_STATUS"
    using assms by (auto simp: inc_stats_def check_valid_def split: if_splits)
  have s': "s' = s\<lparr>st_stats := inc_cell (mem_access_type_num ty) (cache_request_status_num st) sid (st_stats s)\<rparr>"
    using assms by (auto simp: inc_stats_def split: if_splits)
  show ?thesis
    by (simp add: s' get_sub_stats_def Let_def stat_sum_inc [OF mem_access_type_num_less v] is_status_def)
      (cases st; simp)
qed

theorem totals_count_once_witness:
  "\<exists>s'. inc_stats 0 (int (cache_request_status_num MISS)) 3 new_cache_stats = Some s'
     \<and> misses (get_sub_stats s') = misses (get_sub_stats new_cache_stats) + 1"
proof -
  obtain s' where s: "inc_stats (int (mem_access_type_num GLOBAL_ACC_R)) (int (cache_request_status_num MISS)) 3
      new_cache_stats = Some s'"
    by (simp add: inc_stats_def check_valid_def NUM_MEM_ACCESS_TYPE_def NUM_CACHE_REQUEST_STATUS_def)
  from totals_count_once [OF s] s show ?thesis by auto
qed

section \<open>Sums of two objects\<close>

text \<open>
  \<open>operator+=\<close> reads the totals of its argument when it accumulates the per-window tables: adding
  an object whose window is empty but whose totals are not changes a window.
\<close>

definition one_hit :: stat_map where
  "one_hit = inc_cell 0 0 0 []"

definition old_window :: cache_stats where
  "old_window = new_cache_stats\<lparr>st_stats := inc_cell 0 0 0 one_hit, st_stats_pw := one_hit\<rparr>"

theorem window_sum_reads_totals:
  "map_option (\<lambda>s. cell (st_stats_pw s) 0 0 0) (stats_add_assign old_window old_window) = Some 3
   \<and> cell (st_stats_pw old_window) 0 0 0 + cell (st_stats_pw old_window) 0 0 0 = 2"
  by code_simp

text \<open>\<open>operator+\<close> and \<open>operator+=\<close> of the per-window record leave the hits out.\<close>

theorem window_record_drops_hits:
  "read_hits (sub_stats_pw_add a b) = 0" "write_hits (sub_stats_pw_add a b) = 0"
  "read_hits (sub_stats_pw_add_assign a b) = read_hits a"
  "write_hits (sub_stats_pw_add_assign a b) = write_hits a"
  by (simp_all add: sub_stats_pw_add_def clear_sub_stats_pw_def sub_stats_pw_add_assign_def)

end
