(* ===== verification/ConfigFacts.thy ===== *)
theory ConfigFacts
  imports Samples
begin

text \<open>
  What \<open>cache_config::init\<close> establishes, and that the set index of an accepted configuration is
  always a set of the cache.
\<close>

section \<open>Accepted configurations\<close>

text \<open>
  What \<open>init\<close> checks or computes of an enabled configuration: no \<open>STREAMING\<close> left, no write-back with
  allocation on fill, no partial-write policy with allocation on fill, sectors of 32 bytes in lines of
  128, a data port that divides the line, the logarithms of the sizes. The number of sets is not among
  the checks (\<open>init_leaves_sets_unchecked\<close> below).
\<close>

definition config_wf :: "cache_config \<Rightarrow> bool" where
  "config_wf c \<longleftrightarrow> m_valid c \<and> m_alloc_policy c \<noteq> STREAMING
     \<and> (m_alloc_policy c = ON_FILL \<longrightarrow> m_write_policy c \<noteq> WRITE_BACK
         \<and> m_write_alloc_policy c \<notin> {FETCH_ON_WRITE, LAZY_FETCH_ON_READ})
     \<and> (m_cache_type c = SECTOR \<longrightarrow> m_line_sz c = 128 \<and> m_atom_sz c = 32)
     \<and> (m_cache_type c = NORMAL \<longrightarrow> m_atom_sz c = m_line_sz c)
     \<and> m_data_port_width c \<noteq> 0 \<and> m_line_sz c mod m_data_port_width c = 0
     \<and> m_line_sz_log2 c = LOGB2 (unat (m_line_sz c)) \<and> m_nset_log2 c = LOGB2 (unat (m_nset c))
     \<and> original_m_assoc c = m_assoc c \<and> m_sector_sz_log2 c = 5"

lemma assign_rest_same [simp]:
  "m_valid (assign_rest r c) = m_valid c" "m_alloc_policy (assign_rest r c) = m_alloc_policy c"
  "m_write_policy (assign_rest r c) = m_write_policy c" "m_cache_type (assign_rest r c) = m_cache_type c"
  "m_write_alloc_policy (assign_rest r c) = m_write_alloc_policy c" "m_line_sz (assign_rest r c) = m_line_sz c"
  "m_atom_sz (assign_rest r c) = m_atom_sz c" "m_line_sz_log2 (assign_rest r c) = m_line_sz_log2 c"
  "m_nset (assign_rest r c) = m_nset c" "m_nset_log2 (assign_rest r c) = m_nset_log2 c"
  "m_assoc (assign_rest r c) = m_assoc c" "original_m_assoc (assign_rest r c) = original_m_assoc c"
  "m_sector_sz_log2 (assign_rest r c) = m_sector_sz_log2 c"
  by (simp_all add: assign_rest_def split: list.split scan_val.split)

lemma line_of_sectors:
  fixes x :: u32
  assumes "x div 32 = 4" "x mod 32 = 0"
  shows "x = 128"
  using div_mult_mod_eq [of x 32] assms by simp

lemma config_of_tokens_wf:
  assumes "config_of_tokens c0 st ntok ct nset line_sz assoc rp wp ap wap sif mt entries merge rest = Some c"
  shows "config_wf c"
proof -
  from assms obtain cty rpv wpv al mv wav b b' r i where
    b: "b = assign_rest rest (c0\<lparr>cache_status := st, m_nset := nset,
         m_line_sz := line_sz, m_assoc := assoc, m_mshr_entries := entries,
         m_mshr_max_merge := merge, m_cache_type := cty,
         m_replacement_policy := rpv, m_write_policy := wpv,
         m_alloc_policy := (if al = STREAMING then ON_FILL else al),
         m_is_streaming := (m_is_streaming c0 \<or> al = STREAMING), m_mshr_type := mv,
         m_line_sz_log2 := LOGB2 (unat line_sz), m_nset_log2 := LOGB2 (unat nset),
         m_valid := True,
         m_atom_sz := (if cty = SECTOR then of_nat SECTOR_SIZE else line_sz),
         m_sector_sz_log2 := LOGB2 SECTOR_SIZE, original_m_assoc := assoc,
         m_write_alloc_policy := wav\<rparr>)"
    and ok: "\<not> invalid_combination b"
    and b': "b' = (if m_data_port_width b = 0 then b\<lparr>m_data_port_width := line_sz\<rparr> else b)"
    and r: "mod_u32 line_sz (m_data_port_width b') = Some r" "r = 0"
    and c: "c = b'\<lparr>m_set_index_function := i\<rparr>"
    unfolding config_of_tokens_def Let_def bind_Some_iff cpp_assert_Some option.inject
    by (elim exE conjE) (rule that [OF refl _ refl], assumption+, rule sym, assumption)
  have f: "m_valid b" "m_alloc_policy b \<noteq> STREAMING" "m_line_sz b = line_sz"
    "m_atom_sz b = (if m_cache_type b = SECTOR then of_nat SECTOR_SIZE else line_sz)"
    "m_line_sz_log2 b = LOGB2 (unat line_sz)" "m_nset_log2 b = LOGB2 (unat (m_nset b))"
    "original_m_assoc b = m_assoc b" "m_sector_sz_log2 b = LOGB2 SECTOR_SIZE"
    by (simp_all add: b)
  have sz: "LOGB2 SECTOR_SIZE = 5" by code_simp
  have d: "m_data_port_width b' \<noteq> 0" "line_sz mod m_data_port_width b' = 0" using r by simp_all
  have s: "m_line_sz b = 128 \<and> m_atom_sz b = 32" if "m_cache_type b = SECTOR"
    using ok that line_of_sectors [of "m_line_sz b"]
    by (simp add: invalid_combination_def SECTOR_SIZE_def SECTOR_CHUNCK_SIZE_def f(4))
  have p: "m_write_policy b \<noteq> WRITE_BACK" "m_write_alloc_policy b \<notin> {FETCH_ON_WRITE, LAZY_FETCH_ON_READ}"
    if "m_alloc_policy b = ON_FILL"
    using ok that by (auto simp: invalid_combination_def)
  show ?thesis
    using f d s p sz unfolding config_wf_def c b' by (cases "m_data_port_width b = 0") simp_all
qed

text \<open>C15: What \<open>init\<close> guarantees of a string it accepts. The configuration is valid; streaming has become
  allocation on fill; allocation on fill comes with neither write-back nor a policy for partial writes; a
  sector cache has lines of 128 bytes and sectors of 32, any other cache fetches whole lines; the data
  port is not empty and divides the line; the logarithms are those of the line size, the number of sets
  and the sector size; the original associativity is the one read. Nothing is guaranteed of the number
  of sets. The one string that yields something else is \<open>none\<close>, which disables the cache.\<close>

theorem init_well_formed:
  assumes "config_init c0 s st = Some c"
  shows "config_wf c \<or> s = ''none'' \<and> m_disabled c"
  using assms config_of_tokens_wf
  by (auto simp: config_init_def Let_def split: list.splits scan_val.splits if_splits)

theorem init_well_formed_witness: "config_wf tiny_cfg"
  using init_well_formed [OF tiny_cfg_parsed] by simp

section \<open>Set indices\<close>

lemma fermi_lower: "(ucast (x AND 0x1F :: u64) :: u32) < 32"
proof -
  have "x AND 0x1F \<le> 0x1F" by (rule word_and_le1)
  then have "unat (x AND 0x1F) \<le> 31" by (simp add: word_le_nat_alt)
  then show ?thesis by (simp add: word_less_nat_alt unsigned_ucast_eq take_bit_eq_mod)
qed

lemma masked_shift:
  fixes x m :: u64
  assumes "unat m div 2 ^ k \<le> b" "b < 2 ^ 32"
  shows "unat (ucast (drop_bit k (x AND m)) :: u32) \<le> b"
proof -
  have "x AND m \<le> m" by (rule word_and_le1)
  then have "unat (x AND m) div 2 ^ k \<le> unat m div 2 ^ k" by (simp add: word_le_nat_alt div_le_mono)
  then have "unat (drop_bit k (x AND m)) \<le> b"
    using assms(1) by (subst unat_drop_bit_eq) (simp add: drop_bit_eq_div)
  then show ?thesis using assms(2) by (simp add: unsigned_ucast_eq take_bit_eq_mod)
qed

lemma word_less_pow_iff: "unat (x :: u32) < 2 ^ n \<longleftrightarrow> take_bit n x = x"
  by (simp add: word_unat_eq_iff unsigned_take_bit_eq take_bit_nat_eq_self_iff)

lemma small_or: "unat (x :: u32) < 2 ^ n \<Longrightarrow> unat y < 2 ^ n \<Longrightarrow> unat (x OR y) < 2 ^ n"
  by (simp add: word_less_pow_iff take_bit_or)

lemma small_xor: "unat (x :: u32) < 2 ^ n \<Longrightarrow> unat y < 2 ^ n \<Longrightarrow> unat (x XOR y) < 2 ^ n"
  by (simp add: word_less_pow_iff take_bit_xor)

lemma fermi_hash_range:
  assumes "nset = 32 \<or> nset = 64"
  shows "fermi_hash addr nset k < nset"
proof -
  let ?l = "ucast (drop_bit k addr AND 0x1F) :: u32"
  let ?u = "(ucast (drop_bit 13 (addr AND 0xE000)) OR ucast (drop_bit 14 (addr AND 0x20000)))
    OR ucast (drop_bit 15 (addr AND 0x80000)) :: u32"
  have l: "unat ?l < 2 ^ 5" using fermi_lower [of "drop_bit k addr"] by (simp add: word_less_nat_alt)
  have "unat (ucast (drop_bit 13 (addr AND 0xE000)) :: u32) \<le> 7"
    "unat (ucast (drop_bit 14 (addr AND 0x20000)) :: u32) \<le> 8"
    "unat (ucast (drop_bit 15 (addr AND 0x80000)) :: u32) \<le> 16"
    by (rule masked_shift; simp)+
  then have "unat ?u < 2 ^ 5" by (intro small_or) simp_all
  with l have s: "unat (?l XOR ?u) < 2 ^ 5" by (rule small_xor)
  have "unat (ucast (drop_bit 7 (addr AND 0x1000)) :: u32) \<le> 32" by (rule masked_shift; simp)
  then have "unat ((?l XOR ?u) OR ucast (drop_bit 7 (addr AND 0x1000))) < 2 ^ 6"
    using s by (intro small_or) simp_all
  with s assms show ?thesis by (auto simp: fermi_hash_def Let_def word_less_nat_alt)
qed

lemma set_index_bound:
  assumes "m_nset c \<noteq> 0" "m_set_index_function c = FERMI_HASH_SET_FUNCTION \<longrightarrow> m_nset c = 32 \<or> m_nset c = 64"
  shows "\<exists>si. set_index c addr = Some si \<and> si < m_nset c"
proof -
  have e: "(ucast (x AND ucast (m_nset c - 1) :: u64) :: u32) < m_nset c" for x :: u64
  proof -
    have "(ucast (x AND ucast (m_nset c - 1) :: u64) :: u32) = ucast x AND (m_nset c - 1)"
      by (rule bit_word_eqI) (simp add: bit_simps)
    then show ?thesis using and_pred_less [OF assms(1)] by simp
  qed
  have b: "bitwise_hash_function h i (m_nset c) < m_nset c" for h i
    using e [of "ucast i XOR h"] by (simp add: bitwise_hash_function_def)
  have p: "ipoly_hash_function h i (m_nset c) < m_nset c" for h i
    by (simp add: ipoly_hash_function_def Let_def and_pred_less [OF assms(1)])
  have z: "0 < m_nset c" using assms(1) by (simp add: word_gt_0)
  show ?thesis
    using assms fermi_hash_range [of "m_nset c"]
    by (cases "m_set_index_function c") (simp_all add: set_index_def hash_function_def Let_def e b p z)
qed

text \<open>C16: The set index is in range. For a cache with at least one set, and 32 or 64 sets when the Fermi
  hash is chosen, every address has a set index below the number of sets under each of the five index
  functions, so the assertion at the end of \<open>hash_function\<close> never fails.\<close>

theorem set_index_in_range:
  assumes "m_nset c \<noteq> 0" "m_set_index_function c = FERMI_HASH_SET_FUNCTION \<longrightarrow> m_nset c = 32 \<or> m_nset c = 64"
  shows "\<exists>si. set_index c addr = Some si \<and> si < m_nset c"
  using assms by (rule set_index_bound)

theorem set_index_in_range_witness: "\<exists>si. set_index tiny_cfg 0x1234 = Some si \<and> si < 2"
  using set_index_in_range [where c = tiny_cfg and addr = "0x1234"] by (simp add: tiny_cfg_def)

text \<open>
  The two conditions are exactly what is needed: outside them no address has a set index. \<open>init\<close> checks
  neither, so it accepts a cache without sets and a Fermi hash over two sets, and the first access of
  such a cache trips the assertion.
\<close>

theorem set_index_undefined_iff:
  "set_index c addr = None \<longleftrightarrow>
     m_nset c = 0 \<or> m_set_index_function c = FERMI_HASH_SET_FUNCTION \<and> m_nset c \<notin> {32, 64}"
proof
  show "m_nset c = 0 \<or> m_set_index_function c = FERMI_HASH_SET_FUNCTION \<and> m_nset c \<notin> {32, 64}"
    if "set_index c addr = None" using that set_index_bound [of c addr] by force
qed (auto simp: set_index_def hash_function_def Let_def bind_eq_None_conv)

theorem init_leaves_sets_unchecked:
  "\<exists>c d. config_init blank_cfg ''N:0:8:2,L:R:m:N:L,A:2:2,4:4,8'' FuncCachePreferNone = Some c \<and> set_index c addr = None
     \<and> config_init blank_cfg ''N:2:8:2,L:R:m:N:H,A:2:2,4:4,8'' FuncCachePreferNone = Some d \<and> set_index d addr = None"
proof -
  have "(case config_init blank_cfg ''N:0:8:2,L:R:m:N:L,A:2:2,4:4,8'' FuncCachePreferNone of None \<Rightarrow> False
      | Some c \<Rightarrow> m_nset c = 0)"
    "(case config_init blank_cfg ''N:2:8:2,L:R:m:N:H,A:2:2,4:4,8'' FuncCachePreferNone of None \<Rightarrow> False
      | Some c \<Rightarrow> m_nset c = 2 \<and> m_set_index_function c = FERMI_HASH_SET_FUNCTION)" by code_simp+
  then show ?thesis by (auto simp: set_index_undefined_iff split: option.splits)
qed

end
