(* ===== verification/ReplBase.thy ===== *)
theory ReplBase
  imports Prelude
begin

text \<open>
  What the replacement policies of the gem5 cache share (\<open>replacement_policies/base.hh\<close> and
  \<open>replaceable_entry.hh\<close>). An entry pointer is a natural number and the replacement data that
  the entries hold is a function from entries; a call that reads \<open>curTick()\<close> or the random
  generator takes what it reads as an environment. The contract \<open>replacement_policy\<close> is what a
  tag store relies on; \<open>policy_ops\<close> is the virtual interface as a record of operations, for the code
  that holds a policy object of any class.
\<close>

type_synonym tick = u64
type_synonym entry = nat

text \<open>What a call may read from the outside: \<open>curTick()\<close> and one value of \<open>rand()\<close>.\<close>

record rp_env =
  rp_now :: tick
  rp_rand :: u32

text \<open>
  \<open>Random::random(min, max)\<close> of the stub, for \<open>unsigned\<close>: the width of the range is converted to
  \<open>int\<close>, and the remainder by zero traps.
\<close>

definition random_range :: "u32 \<Rightarrow> u32 \<Rightarrow> u32 \<Rightarrow> u32 option" where
  "random_range draw lo hi =
     (let width = sint (hi - lo + 1) in
      if width = 0 then None else Some (lo + word_of_int (sint draw mod abs width)))"

text \<open>The loop that keeps the best candidate seen so far.\<close>

fun scan_best :: "('e \<Rightarrow> 'e \<Rightarrow> bool) \<Rightarrow> 'e \<Rightarrow> 'e list \<Rightarrow> 'e" where
  "scan_best better v [] = v"
| "scan_best better v (c # cs) = scan_best better (if better c v then c else v) cs"

lemma scan_best_in: "scan_best better v cs \<in> set (v # cs)"
proof (induction cs arbitrary: v)
  case Nil
  then show ?case by simp
next
  case (Cons c cs)
  from Cons.IH [of "if better c v then c else v"] show ?case by (auto split: if_splits)
qed

lemma scan_best_in_cands: "scan_best better c (c # cs) \<in> set (c # cs)"
  using scan_best_in [of better c "c # cs"] by auto

text \<open>When "not better" is transitive, no candidate is better than the one the scan returns.\<close>

lemma scan_best_optimal:
  assumes "\<And>a b. better a b \<Longrightarrow> \<not> better b a"
    and "\<And>a b c. \<not> better b a \<Longrightarrow> \<not> better c b \<Longrightarrow> \<not> better c a"
    and "x \<in> set (v # cs)"
  shows "\<not> better x (scan_best better v cs)"
  using assms(3)
proof (induction cs arbitrary: v x)
  case Nil
  with assms(1) show ?case by auto
next
  case (Cons c cs)
  let ?v = "if better c v then c else v"
  let ?r = "scan_best better ?v cs"
  from assms(1) have "\<not> better v ?v" "\<not> better c ?v" by auto
  moreover have "\<not> better ?v ?r" using Cons.IH [of ?v ?v] by simp
  ultimately have "\<not> better v ?r" "\<not> better c ?r" using assms(2) [of ?v ?r] by blast+
  with Cons.IH [of x ?v] Cons.prems show ?case by auto
qed

text \<open>With a comparison by a key the scan returns an element with the least key.\<close>

lemma scan_min_le:
  fixes key :: "'e \<Rightarrow> 'k :: linorder"
  assumes "x \<in> set (v # cs)"
  shows "key (scan_best (\<lambda>c v. key c < key v) v cs) \<le> key x"
  using scan_best_optimal [OF _ _ assms, of "\<lambda>c v. key c < key v"] by fastforce

text \<open>Among those with the least key it returns the first.\<close>

lemma scan_min_first:
  fixes key :: "'e \<Rightarrow> 'k :: linorder"
  assumes "m \<in> key ` set (v # cs)" "\<forall>y \<in> set (v # cs). m \<le> key y"
  shows "Some (scan_best (\<lambda>c v. key c < key v) v cs) = find (\<lambda>y. key y = m) (v # cs)"
  using assms
proof (induction cs arbitrary: v)
  case Nil
  then show ?case by auto
next
  case (Cons c cs)
  consider (new) "key c < key v" | (old) "key v = m" | (neither) "\<not> key c < key v" "key v \<noteq> m" by auto
  then show ?case
  proof cases
    case new
    with Cons.prems have "key v \<noteq> m" by auto
    with Cons.prems new Cons.IH [of c] show ?thesis by auto
  next
    case old
    with Cons.prems have "\<not> key c < key v" by auto
    with old Cons.prems Cons.IH [of v] show ?thesis by auto
  next
    case neither
    with Cons.prems have "key c \<noteq> m" by auto
    with neither Cons.prems Cons.IH [of v] show ?thesis by auto
  qed
qed

section \<open>The contract of a policy\<close>

text \<open>
  What a tag store asks of its policy: a victim among the candidates whenever there are any and
  the policy's own state is sound for them, and operations that keep that state sound.
\<close>

locale replacement_policy =
  fixes invalidate :: "entry \<Rightarrow> 's \<Rightarrow> 's option"
    and touch :: "'env \<Rightarrow> entry \<Rightarrow> 's \<Rightarrow> 's option"
    and reset :: "'env \<Rightarrow> entry \<Rightarrow> 's \<Rightarrow> 's option"
    and victim :: "'env \<Rightarrow> entry list \<Rightarrow> 's \<Rightarrow> (entry \<times> 's) option"
    and sound :: "entry list \<Rightarrow> 's \<Rightarrow> bool"
  assumes victim_in: "victim env cs s = Some (v, s') \<Longrightarrow> v \<in> set cs"
    and victim_found: "sound cs s \<Longrightarrow> cs \<noteq> [] \<Longrightarrow> \<exists>v s'. victim env cs s = Some (v, s')"
    and victim_sound: "sound ds s \<Longrightarrow> victim env cs s = Some (v, s') \<Longrightarrow> sound ds s'"
    and invalidate_sound: "sound cs s \<Longrightarrow> e \<in> set cs \<Longrightarrow> \<exists>s'. invalidate e s = Some s' \<and> sound cs s'"
    and touch_sound: "sound cs s \<Longrightarrow> e \<in> set cs \<Longrightarrow> \<exists>s'. touch env e s = Some s' \<and> sound cs s'"
    and reset_sound: "sound cs s \<Longrightarrow> e \<in> set cs \<Longrightarrow> \<exists>s'. reset env e s = Some s' \<and> sound cs s'"

text \<open>A policy object, as the virtual functions that its clients call.\<close>

record ('env, 's) policy_ops =
  op_invalidate :: "entry \<Rightarrow> 's \<Rightarrow> 's option"
  op_touch :: "'env \<Rightarrow> entry \<Rightarrow> 's \<Rightarrow> 's option"
  op_reset :: "'env \<Rightarrow> entry \<Rightarrow> 's \<Rightarrow> 's option"
  op_victim :: "'env \<Rightarrow> entry list \<Rightarrow> 's \<Rightarrow> (entry \<times> 's) option"
  op_instantiate :: "entry \<Rightarrow> 's \<Rightarrow> 's option"

section \<open>Policies that order entries by a stamp\<close>

text \<open>
  The abstract state: the entries in the order of their last renewal, oldest first. An entry that
  was never renewed or has been invalidated is not listed, and is preferred as a victim.
\<close>

definition renew_last :: "'e \<Rightarrow> 'e list \<Rightarrow> 'e list" where
  "renew_last e order = filter (\<lambda>x. x \<noteq> e) order @ [e]"

definition drop_entry :: "'e \<Rightarrow> 'e list \<Rightarrow> 'e list" where
  "drop_entry e order = filter (\<lambda>x. x \<noteq> e) order"

definition oldest :: "'e list \<Rightarrow> 'e list \<Rightarrow> 'e option" where
  "oldest order cs =
     (case find (\<lambda>c. c \<notin> set order) cs of
        Some c \<Rightarrow> Some c
      | None \<Rightarrow> find (\<lambda>x. x \<in> set cs) order)"

definition newest :: "'e list \<Rightarrow> 'e list \<Rightarrow> 'e option" where
  "newest order cs =
     (case find (\<lambda>c. c \<notin> set order) cs of
        Some c \<Rightarrow> Some c
      | None \<Rightarrow> find (\<lambda>x. x \<in> set cs) (rev order))"

text \<open>The stamps represent an order: listed entries have growing stamps, the others the stamp 0.\<close>

definition stamp_order :: "('e \<Rightarrow> tick) \<Rightarrow> 'e list \<Rightarrow> bool" where
  "stamp_order stamp order \<longleftrightarrow>
     sorted_wrt (\<lambda>a b. stamp a < stamp b) order \<and> (\<forall>e. e \<in> set order \<longleftrightarrow> stamp e \<noteq> 0)"

lemma stamp_order_empty: "stamp_order (\<lambda>_. 0) []"
  by (simp add: stamp_order_def)

text \<open>Removing an entry from the list lets its stamp change.\<close>

lemma stamps_without:
  assumes "sorted_wrt (\<lambda>a b. stamp a < stamp b) order"
  shows "sorted_wrt (\<lambda>a b. (stamp(e := t)) a < ((stamp(e := t)) b :: tick)) (filter (\<lambda>x. x \<noteq> e) order)"
  using assms by (induction order) auto

lemma stamp_order_drop:
  "stamp_order stamp order \<Longrightarrow> stamp_order (stamp(e := 0)) (drop_entry e order)"
  using stamps_without [of stamp order e 0] by (auto simp: stamp_order_def drop_entry_def)

lemma stamp_order_renew:
  assumes "stamp_order stamp order" "\<forall>x. stamp x < t"
  shows "stamp_order (stamp(e := t)) (renew_last e order)"
proof -
  from assms(2) have "t \<noteq> 0" by (metis word_not_simps(1))
  with assms stamps_without [of stamp order e t] show ?thesis
    by (auto simp: stamp_order_def renew_last_def sorted_wrt_append)
qed

lemma find_SomeD: "find P xs = Some y \<Longrightarrow> P y \<and> y \<in> set xs"
  by (auto simp: find_Some_iff)

text \<open>The first candidate with the least stamp is the oldest one.\<close>

lemma stamp_order_find_least:
  assumes "sorted_wrt (\<lambda>a b. stamp a < (stamp b :: tick)) order" "find (\<lambda>x. x \<in> C) order = Some e"
    and "x \<in> C" "x \<in> set order" "x \<noteq> e"
  shows "stamp e < stamp x"
  using assms by (induction order) (auto split: if_splits)

lemma stamp_order_find_greatest:
  assumes "sorted_wrt (\<lambda>a b. stamp a < (stamp b :: tick)) order" "find (\<lambda>x. x \<in> C) (rev order) = Some e"
    and "x \<in> C" "x \<in> set order" "x \<noteq> e"
  shows "stamp x < stamp e"
proof -
  from assms(1) have "sorted_wrt (\<lambda>a b. stamp b < stamp a) (rev order)" by (simp add: sorted_wrt_rev)
  with assms(2-) show ?thesis
  proof (induction "rev order" arbitrary: order)
    case Nil
    then show ?case by simp
  next
    case (Cons y ys)
    from Cons.hyps(2) have o: "order = rev ys @ [y]" by (metis rev.simps(2) rev_rev_ident)
    show ?case
    proof (cases "y \<in> C")
      case True
      with Cons.prems o show ?thesis by auto
    next
      case False
      with Cons.prems o show ?thesis by (intro Cons.hyps(1) [of "rev ys"]) auto
    qed
  qed
qed

lemma scan_min_oldest:
  assumes "stamp_order stamp order"
  shows "Some (scan_best (\<lambda>c v. stamp c < stamp v) c (c # cs)) = oldest order (c # cs)"
proof (cases "find (\<lambda>c. c \<notin> set order) (c # cs)")
  case (Some e)
  then have "stamp e = 0" "e \<in> set (c # cs)"
    using assms find_SomeD [OF Some] by (simp_all add: stamp_order_def)
  then have "0 \<in> stamp ` set (c # c # cs)" by force
  from scan_min_first [OF this]
  have "Some (scan_best (\<lambda>c v. stamp c < stamp v) c (c # cs)) = find (\<lambda>y. stamp y = 0) (c # c # cs)" by simp
  also have "\<dots> = Some e" using Some assms by (auto simp: stamp_order_def split: if_splits)
  finally show ?thesis using Some by (simp add: oldest_def del: find.simps)
next
  case None
  then have listed: "set (c # cs) \<subseteq> set order" using iffD1 [OF find_None_iff None] by blast
  then obtain e where e: "find (\<lambda>x. x \<in> set (c # cs)) order = Some e"
    by (cases "find (\<lambda>x. x \<in> set (c # cs)) order") (auto simp: find_None_iff)
  then have in_e: "e \<in> set (c # cs)" by (auto simp: find_Some_iff)
  have less: "stamp e < stamp x" if "x \<in> set (c # cs)" "x \<noteq> e" for x
    using stamp_order_find_least [OF _ e that(1)] that listed assms by (auto simp: stamp_order_def)
  have "scan_best (\<lambda>c v. stamp c < stamp v) c (c # cs) = e"
  proof (rule ccontr)
    assume "\<not> ?thesis"
    with less scan_best_in_cands [of "\<lambda>c v. stamp c < stamp v" c cs] 
    have "stamp e < stamp (scan_best (\<lambda>c v. stamp c < stamp v) c (c # cs))" by blast
    moreover have "stamp (scan_best (\<lambda>c v. stamp c < stamp v) c (c # cs)) \<le> stamp e"
      using scan_min_le [of e c "c # cs" stamp] in_e by auto
    ultimately show False by simp
  qed
  with None e show ?thesis by (simp add: oldest_def del: find.simps)
qed

end
