(* ===== verification/StampPolicies.thy ===== *)
theory StampPolicies
  imports ReplBase
begin

text \<open>
  The replacement policies that keep one number per entry: LRU with BIP and WeightedLRU on top of
  it, MRU, FIFO, LFU and Random (the files of the same names under \<open>replacement_policies/\<close>). The
  structures that inherit from another policy's data are record extensions. Each policy is an
  instance of the contract \<open>replacement_policy\<close>.
\<close>

section \<open>LRU\<close>

record lru_data =
  last_touch :: tick

definition new_lru_data :: lru_data where
  "new_lru_data = \<lparr>last_touch = 0\<rparr>"

definition lru_invalidate :: "entry \<Rightarrow> (entry \<Rightarrow> 'a lru_data_scheme) \<Rightarrow> entry \<Rightarrow> 'a lru_data_scheme" where
  "lru_invalidate e d = d(e := (d e)\<lparr>last_touch := 0\<rparr>)"

definition lru_touch :: "rp_env \<Rightarrow> entry \<Rightarrow> (entry \<Rightarrow> 'a lru_data_scheme) \<Rightarrow> entry \<Rightarrow> 'a lru_data_scheme" where
  "lru_touch env e d = d(e := (d e)\<lparr>last_touch := rp_now env\<rparr>)"

definition lru_reset :: "rp_env \<Rightarrow> entry \<Rightarrow> (entry \<Rightarrow> 'a lru_data_scheme) \<Rightarrow> entry \<Rightarrow> 'a lru_data_scheme" where
  "lru_reset env e d = d(e := (d e)\<lparr>last_touch := rp_now env\<rparr>)"

fun lru_victim :: "entry list \<Rightarrow> (entry \<Rightarrow> 'a lru_data_scheme) \<Rightarrow> entry option" where
  "lru_victim [] d = None"
| "lru_victim (c # cs) d =
     Some (scan_best (\<lambda>c v. last_touch (d c) < last_touch (d v)) c (c # cs))"

section \<open>BIP: an inserted entry is recent only with probability \<open>btp\<close> percent\<close>

definition bip_reset ::
  "u32 \<Rightarrow> rp_env \<Rightarrow> entry \<Rightarrow> (entry \<Rightarrow> 'a lru_data_scheme) \<Rightarrow> (entry \<Rightarrow> 'a lru_data_scheme) option" where
  "bip_reset btp env e d = do {
     r \<leftarrow> random_range (rp_rand env) 1 100;
     Some (if r \<le> btp then d(e := (d e)\<lparr>last_touch := rp_now env\<rparr>)
           else d(e := (d e)\<lparr>last_touch := 1\<rparr>)) }"

section \<open>Weighted LRU\<close>

text \<open>\<open>last_occ_ptr\<close> is an \<open>int\<close>.\<close>

record weighted_lru_data = lru_data +
  last_occ_ptr :: u32

definition new_weighted_lru_data :: weighted_lru_data where
  "new_weighted_lru_data = \<lparr>last_touch = 0, last_occ_ptr = 0\<rparr>"

definition weighted_touch ::
  "rp_env \<Rightarrow> entry \<Rightarrow> u32 \<Rightarrow> (entry \<Rightarrow> weighted_lru_data) \<Rightarrow> entry \<Rightarrow> weighted_lru_data" where
  "weighted_touch env e occupancy d =
     (let d' = lru_touch env e d in d'(e := (d' e)\<lparr>last_occ_ptr := occupancy\<rparr>))"

definition weighted_better :: "(entry \<Rightarrow> weighted_lru_data) \<Rightarrow> entry \<Rightarrow> entry \<Rightarrow> bool" where
  "weighted_better d c v =
     (if sint (last_occ_ptr (d c)) < sint (last_occ_ptr (d v)) then True
      else if last_occ_ptr (d c) = last_occ_ptr (d v) then last_touch (d c) < last_touch (d v)
      else False)"

fun weighted_victim :: "entry list \<Rightarrow> (entry \<Rightarrow> weighted_lru_data) \<Rightarrow> entry option" where
  "weighted_victim [] d = None"
| "weighted_victim (c # cs) d = Some (scan_best (weighted_better d) c (c # cs))"

section \<open>MRU\<close>

record mru_data =
  mru_last_touch :: tick

definition new_mru_data :: mru_data where
  "new_mru_data = \<lparr>mru_last_touch = 0\<rparr>"

definition mru_invalidate :: "entry \<Rightarrow> (entry \<Rightarrow> mru_data) \<Rightarrow> entry \<Rightarrow> mru_data" where
  "mru_invalidate e d = d(e := (d e)\<lparr>mru_last_touch := 0\<rparr>)"

definition mru_touch :: "rp_env \<Rightarrow> entry \<Rightarrow> (entry \<Rightarrow> mru_data) \<Rightarrow> entry \<Rightarrow> mru_data" where
  "mru_touch env e d = d(e := (d e)\<lparr>mru_last_touch := rp_now env\<rparr>)"

definition mru_reset :: "rp_env \<Rightarrow> entry \<Rightarrow> (entry \<Rightarrow> mru_data) \<Rightarrow> entry \<Rightarrow> mru_data" where
  "mru_reset env e d = d(e := (d e)\<lparr>mru_last_touch := rp_now env\<rparr>)"

text \<open>The loop stops at the first candidate that was never touched.\<close>

fun mru_scan :: "(entry \<Rightarrow> mru_data) \<Rightarrow> entry \<Rightarrow> entry list \<Rightarrow> entry" where
  "mru_scan d v [] = v"
| "mru_scan d v (c # cs) =
     (if mru_last_touch (d c) = 0 then c
      else mru_scan d (if mru_last_touch (d v) < mru_last_touch (d c) then c else v) cs)"

fun mru_victim :: "entry list \<Rightarrow> (entry \<Rightarrow> mru_data) \<Rightarrow> entry option" where
  "mru_victim [] d = None"
| "mru_victim (c # cs) d = Some (mru_scan d c (c # cs))"

section \<open>LFU\<close>

record lfu_data =
  ref_count :: u32

definition new_lfu_data :: lfu_data where
  "new_lfu_data = \<lparr>ref_count = 0\<rparr>"

definition lfu_invalidate :: "entry \<Rightarrow> (entry \<Rightarrow> lfu_data) \<Rightarrow> entry \<Rightarrow> lfu_data" where
  "lfu_invalidate e d = d(e := (d e)\<lparr>ref_count := 0\<rparr>)"

definition lfu_touch :: "entry \<Rightarrow> (entry \<Rightarrow> lfu_data) \<Rightarrow> entry \<Rightarrow> lfu_data" where
  "lfu_touch e d = d(e := (d e)\<lparr>ref_count := ref_count (d e) + 1\<rparr>)"

definition lfu_reset :: "entry \<Rightarrow> (entry \<Rightarrow> lfu_data) \<Rightarrow> entry \<Rightarrow> lfu_data" where
  "lfu_reset e d = d(e := (d e)\<lparr>ref_count := 1\<rparr>)"

fun lfu_victim :: "entry list \<Rightarrow> (entry \<Rightarrow> lfu_data) \<Rightarrow> entry option" where
  "lfu_victim [] d = None"
| "lfu_victim (c # cs) d =
     Some (scan_best (\<lambda>c v. ref_count (d c) < ref_count (d v)) c (c # cs))"

section \<open>FIFO\<close>

record fifo_data =
  tick_inserted :: tick

text \<open>\<open>timeTicks\<close> belongs to the policy object; its constructor does not set it.\<close>

record 'd fifo_policy =
  time_ticks :: tick
  fifo_repl :: "entry \<Rightarrow> 'd"

definition new_fifo_data :: fifo_data where
  "new_fifo_data = \<lparr>tick_inserted = 0\<rparr>"

definition fifo_invalidate ::
  "entry \<Rightarrow> ('a fifo_data_scheme) fifo_policy \<Rightarrow> ('a fifo_data_scheme) fifo_policy" where
  "fifo_invalidate e p = p\<lparr>fifo_repl := (fifo_repl p)(e := (fifo_repl p e)\<lparr>tick_inserted := 0\<rparr>)\<rparr>"

definition fifo_touch ::
  "entry \<Rightarrow> ('a fifo_data_scheme) fifo_policy \<Rightarrow> ('a fifo_data_scheme) fifo_policy" where
  "fifo_touch e p = p"

definition fifo_reset ::
  "entry \<Rightarrow> ('a fifo_data_scheme) fifo_policy \<Rightarrow> ('a fifo_data_scheme) fifo_policy" where
  "fifo_reset e p =
     (let t = time_ticks p + 1 in
      p\<lparr>time_ticks := t, fifo_repl := (fifo_repl p)(e := (fifo_repl p e)\<lparr>tick_inserted := t\<rparr>)\<rparr>)"

fun fifo_victim :: "entry list \<Rightarrow> ('a fifo_data_scheme) fifo_policy \<Rightarrow> entry option" where
  "fifo_victim [] p = None"
| "fifo_victim (c # cs) p =
     Some (scan_best (\<lambda>c v. tick_inserted (fifo_repl p c) < tick_inserted (fifo_repl p v)) c (c # cs))"

section \<open>Random\<close>

record random_data =
  repl_valid :: bool

definition new_random_data :: random_data where
  "new_random_data = \<lparr>repl_valid = False\<rparr>"

definition random_invalidate :: "entry \<Rightarrow> (entry \<Rightarrow> random_data) \<Rightarrow> entry \<Rightarrow> random_data" where
  "random_invalidate e d = d(e := (d e)\<lparr>repl_valid := False\<rparr>)"

definition random_touch :: "entry \<Rightarrow> (entry \<Rightarrow> random_data) \<Rightarrow> entry \<Rightarrow> random_data" where
  "random_touch e d = d"

definition random_reset :: "entry \<Rightarrow> (entry \<Rightarrow> random_data) \<Rightarrow> entry \<Rightarrow> random_data" where
  "random_reset e d = d(e := (d e)\<lparr>repl_valid := True\<rparr>)"

definition random_victim :: "rp_env \<Rightarrow> entry list \<Rightarrow> (entry \<Rightarrow> random_data) \<Rightarrow> entry option" where
  "random_victim env cs d =
     (if cs = [] then None
      else do {
        r \<leftarrow> random_range (rp_rand env) 0 (of_nat (length cs - 1));
        v \<leftarrow> nth_opt cs (unat r);
        Some (case find (\<lambda>c. \<not> repl_valid (d c)) cs of Some c \<Rightarrow> c | None \<Rightarrow> v) })"

section \<open>Every policy meets the contract\<close>

lemma weighted_better_optimal:
  assumes "x \<in> set (v # cs)"
  shows "\<not> weighted_better d x (scan_best (weighted_better d) v cs)"
  by (rule scan_best_optimal [OF _ _ assms])
    (auto simp: weighted_better_def signed_word_eqI split: if_splits)

lemma mru_scan_in: "mru_scan d v cs \<in> set (v # cs)"
proof (induction cs arbitrary: v)
  case Nil
  then show ?case by simp
next
  case (Cons c cs)
  from Cons.IH [of "if mru_last_touch (d v) < mru_last_touch (d c) then c else v"]
  show ?case by (auto split: if_splits)
qed

text \<open>A draw from \<open>0\<close> to \<open>n - 1\<close> is below \<open>n\<close>, as long as the width fits an \<open>int\<close>.\<close>

lemma random_range_below:
  assumes "0 < n" "n < 2 ^ 31"
  shows "\<exists>r. random_range draw 0 (of_nat (n - 1)) = Some r \<and> unat r < n"
proof -
  have "(of_nat (n - 1) + 1 :: u32) = of_nat n"
    using assms(1) by (metis Suc_diff_1 of_nat_Suc add.commute)
  moreover have "sint (of_nat n :: u32) = int n"
    using assms(2) by (simp add: signed_of_nat signed_take_bit_int_eq_self)
  ultimately have w: "sint (of_nat (n - 1) - 0 + 1 :: u32) = int n" by simp
  define m where "m = sint draw mod int n"
  have m: "0 \<le> m" "m < int n" using assms(1) by (simp_all add: m_def)
  have "unat (word_of_int m :: u32) = nat m"
    using m assms(2) by (simp add: unsigned_of_int take_bit_int_eq_self)
  then show ?thesis using w m assms(1) by (simp add: random_range_def m_def [symmetric])
qed

lemma random_victim_in: "random_victim env cs d = Some v \<Longrightarrow> v \<in> set cs"
  by (cases "find (\<lambda>c. \<not> repl_valid (d c)) cs")
    (auto simp: random_victim_def bind_Some_iff dest: find_SomeD split: if_splits)

lemma random_victim_found:
  assumes "cs \<noteq> []" "length cs < 2 ^ 31"
  shows "\<exists>v. random_victim env cs d = Some v"
proof -
  from assms have "0 < length cs" by simp
  from random_range_below [OF this assms(2)] obtain r where
    "random_range (rp_rand env) 0 (of_nat (length cs - 1)) = Some r" "unat r < length cs" by blast
  then show ?thesis using assms(1) by (simp add: random_victim_def del: of_nat_diff)
qed

text \<open>The victims of the other policies, and the contract itself.\<close>

lemma lru_victim_in: "lru_victim cs d = Some v \<Longrightarrow> v \<in> set cs"
  by (cases cs) (use scan_best_in_cands in fastforce)+

lemma weighted_victim_in: "weighted_victim cs d = Some v \<Longrightarrow> v \<in> set cs"
  by (cases cs) (use scan_best_in_cands in fastforce)+

lemma lfu_victim_in: "lfu_victim cs d = Some v \<Longrightarrow> v \<in> set cs"
  by (cases cs) (use scan_best_in_cands in fastforce)+

lemma fifo_victim_in: "fifo_victim cs p = Some v \<Longrightarrow> v \<in> set cs"
  by (cases cs) (use scan_best_in_cands in fastforce)+

lemma mru_victim_in: "mru_victim cs d = Some v \<Longrightarrow> v \<in> set cs"
  by (cases cs) (use mru_scan_in in fastforce)+

lemma victim_ex:
  assumes "cs \<noteq> []"
  shows "\<exists>v. lru_victim cs d = Some v" "\<exists>v. weighted_victim cs w = Some v" "\<exists>v. lfu_victim cs f = Some v"
    "\<exists>v. fifo_victim cs p = Some v" "\<exists>v. mru_victim cs m = Some v"
  using assms by (cases cs; simp)+

lemmas victim_facts = lru_victim_in weighted_victim_in lfu_victim_in fifo_victim_in mru_victim_in
  random_victim_in victim_ex random_victim_found

interpretation lru: replacement_policy
  "\<lambda>e d. Some (lru_invalidate e d)" "\<lambda>env e d. Some (lru_touch env e d)"
  "\<lambda>env e d. Some (lru_reset env e d)" "\<lambda>env cs d. map_option (\<lambda>v. (v, d)) (lru_victim cs d)"
  "\<lambda>cs d. True"
  by unfold_locales (auto simp: victim_facts)

interpretation bip: replacement_policy
  "\<lambda>e d. Some (lru_invalidate e d)" "\<lambda>env e d. Some (lru_touch env e d)"
  "bip_reset btp" "\<lambda>env cs d. map_option (\<lambda>v. (v, d)) (lru_victim cs d)"
  "\<lambda>cs d. True"
  by unfold_locales (auto simp: victim_facts bip_reset_def random_range_def Let_def)

interpretation weighted: replacement_policy
  "\<lambda>e d. Some (lru_invalidate e d)" "\<lambda>env e d. Some (lru_touch env e d)"
  "\<lambda>env e d. Some (lru_reset env e d)" "\<lambda>env cs d. map_option (\<lambda>v. (v, d)) (weighted_victim cs d)"
  "\<lambda>cs d. True"
  by unfold_locales (auto simp: victim_facts)

interpretation mru: replacement_policy
  "\<lambda>e d. Some (mru_invalidate e d)" "\<lambda>env e d. Some (mru_touch env e d)"
  "\<lambda>env e d. Some (mru_reset env e d)" "\<lambda>env cs d. map_option (\<lambda>v. (v, d)) (mru_victim cs d)"
  "\<lambda>cs d. True"
  by unfold_locales (auto simp: victim_facts)

interpretation lfu: replacement_policy
  "\<lambda>e d. Some (lfu_invalidate e d)" "\<lambda>env e d. Some (lfu_touch e d)"
  "\<lambda>env e d. Some (lfu_reset e d)" "\<lambda>env cs d. map_option (\<lambda>v. (v, d)) (lfu_victim cs d)"
  "\<lambda>cs d. True"
  by unfold_locales (auto simp: victim_facts)

interpretation fifo: replacement_policy
  "\<lambda>e p. Some (fifo_invalidate e p)" "\<lambda>env e p. Some (fifo_touch e p)"
  "\<lambda>env e p. Some (fifo_reset e p)" "\<lambda>env cs p. map_option (\<lambda>v. (v, p)) (fifo_victim cs p)"
  "\<lambda>cs p. True"
  by unfold_locales (auto simp: victim_facts)

interpretation random: replacement_policy
  "\<lambda>e d. Some (random_invalidate e d)" "\<lambda>env e d. Some (random_touch e d)"
  "\<lambda>env e d. Some (random_reset e d)" "\<lambda>env cs d. map_option (\<lambda>v. (v, d)) (random_victim env cs d)"
  "\<lambda>cs d. length cs < 2 ^ 31"
  by unfold_locales (auto simp: victim_facts)

text \<open>LRU as a policy object.\<close>

definition lru_ops :: "(rp_env, entry \<Rightarrow> lru_data) policy_ops" where
  "lru_ops = \<lparr>op_invalidate = (\<lambda>e d. Some (lru_invalidate e d)), op_touch = (\<lambda>env e d. Some (lru_touch env e d)),
     op_reset = (\<lambda>env e d. Some (lru_reset env e d)),
     op_victim = (\<lambda>env cs d. map_option (\<lambda>v. (v, d)) (lru_victim cs d)),
     op_instantiate = (\<lambda>e d. Some (d(e := new_lru_data)))\<rparr>"

end
