(* ===== verification/RecencyFacts.thy ===== *)
theory RecencyFacts
  imports StampPolicies
begin

text \<open>
  LRU and FIFO implement one abstract machine: a list of entries, oldest first, from which the
  victim is the first candidate that is not listed and otherwise the oldest listed one. The locale
  \<open>stamp_policy\<close> carries the argument for any policy that stores growing stamps.
\<close>

datatype rp_op = Invalidate entry | Touch entry | Reset entry

text \<open>The abstract machines: an access moves the entry to the end, or only an insertion does.\<close>

fun recency :: "rp_op \<Rightarrow> entry list \<Rightarrow> entry list" where
  "recency (Invalidate e) order = drop_entry e order"
| "recency (Touch e) order = renew_last e order"
| "recency (Reset e) order = renew_last e order"

fun insertion_order :: "rp_op \<Rightarrow> entry list \<Rightarrow> entry list" where
  "insertion_order (Invalidate e) order = drop_entry e order"
| "insertion_order (Touch e) order = order"
| "insertion_order (Reset e) order = renew_last e order"

locale stamp_policy =
  fixes stamp :: "'s \<Rightarrow> entry \<Rightarrow> tick"
    and clear :: "entry \<Rightarrow> 's \<Rightarrow> 's"
    and renew :: "rp_env \<Rightarrow> entry \<Rightarrow> 's \<Rightarrow> 's"
    and next_stamp :: "rp_env \<Rightarrow> 's \<Rightarrow> tick"
    and victim :: "entry list \<Rightarrow> 's \<Rightarrow> entry option"
  assumes stamp_clear: "stamp (clear e s) = (stamp s)(e := 0)"
    and stamp_renew: "stamp (renew env e s) = (stamp s)(e := next_stamp env s)"
    and victim_Nil: "victim [] s = None"
    and victim_Cons: "victim (c # cs) s = Some (scan_best (\<lambda>c v. stamp s c < stamp s v) c (c # cs))"
begin

lemma order_clear:
  "stamp_order (stamp s) order \<Longrightarrow> stamp_order (stamp (clear e s)) (drop_entry e order)"
  by (simp add: stamp_clear stamp_order_drop)

lemma order_renew:
  "stamp_order (stamp s) order \<Longrightarrow> \<forall>x. stamp s x < next_stamp env s \<Longrightarrow>
   stamp_order (stamp (renew env e s)) (renew_last e order)"
  by (simp add: stamp_renew stamp_order_renew)

lemma victim_oldest:
  assumes "stamp_order (stamp s) order"
  shows "victim cs s = oldest order cs"
proof (cases cs)
  case Nil
  have "find (\<lambda>_. False) order = None" by (simp add: find_None_iff)
  with Nil show ?thesis by (simp add: victim_Nil oldest_def)
next
  case (Cons c ds)
  with scan_min_oldest [OF assms, of c ds] show ?thesis by (simp add: victim_Cons del: scan_best.simps)
qed

text \<open>The victim is unaffected by the entries outside the candidates: they only take part in order.\<close>

lemma cleared_is_victim:
  assumes "stamp_order (stamp s) order" "e \<in> set cs" "set cs \<subseteq> set order"
  shows "victim cs (clear e s) = Some e"
proof -
  have "find (\<lambda>c. c \<notin> set (drop_entry e order)) cs = Some e"
    using assms(2,3) by (induction cs) (auto simp: drop_entry_def)
  with victim_oldest [OF order_clear [OF assms(1)], of cs e] show ?thesis by (simp add: oldest_def)
qed

end

interpretation lru_stamps: stamp_policy
  "\<lambda>d e. last_touch (d e)" lru_invalidate lru_touch "\<lambda>env d. rp_now env" lru_victim
  by unfold_locales (auto simp: lru_invalidate_def lru_touch_def simp del: scan_best.simps)

interpretation fifo_stamps: stamp_policy
  "\<lambda>p e. tick_inserted (fifo_repl p e)" fifo_invalidate "\<lambda>env. fifo_reset"
  "\<lambda>env p. time_ticks p + 1" fifo_victim
  by unfold_locales (auto simp: fifo_invalidate_def fifo_reset_def Let_def simp del: scan_best.simps)

section \<open>Runs of a policy object\<close>

fun lru_op :: "rp_env \<times> rp_op \<Rightarrow> (entry \<Rightarrow> lru_data) \<Rightarrow> entry \<Rightarrow> lru_data" where
  "lru_op (env, Invalidate e) d = lru_invalidate e d"
| "lru_op (env, Touch e) d = lru_touch env e d"
| "lru_op (env, Reset e) d = lru_reset env e d"

definition lru_run :: "(rp_env \<times> rp_op) list \<Rightarrow> entry \<Rightarrow> lru_data" where
  "lru_run h = fold lru_op h (\<lambda>_. new_lru_data)"

fun fifo_op :: "rp_op \<Rightarrow> fifo_data fifo_policy \<Rightarrow> fifo_data fifo_policy" where
  "fifo_op (Invalidate e) p = fifo_invalidate e p"
| "fifo_op (Touch e) p = fifo_touch e p"
| "fifo_op (Reset e) p = fifo_reset e p"

definition fifo_run :: "tick \<Rightarrow> rp_op list \<Rightarrow> fifo_data fifo_policy" where
  "fifo_run t0 h = fold fifo_op h \<lparr>time_ticks = t0, fifo_repl = (\<lambda>_. new_fifo_data)\<rparr>"

lemma lru_reset_touch: "lru_reset = lru_touch"
  by (rule ext)+ (simp add: lru_reset_def lru_touch_def)

lemma lru_op_order:
  assumes "stamp_order (\<lambda>e. last_touch (d e)) order" "\<forall>x. last_touch (d x) \<le> t" "t < rp_now env"
  shows "stamp_order (\<lambda>e. last_touch (lru_op (env, oper) d e)) (recency oper order)
    \<and> (\<forall>x. last_touch (lru_op (env, oper) d x) \<le> rp_now env)"
proof -
  from assms(2,3) have lt: "\<forall>x. last_touch (d x) < rp_now env" using order_le_less_trans by blast
  show ?thesis
    using lt lru_stamps.order_clear [OF assms(1)] lru_stamps.order_renew [OF assms(1), of env]
    by (cases oper) (auto simp: lru_reset_touch lru_touch_def lru_invalidate_def less_imp_le)
qed

lemma lru_fold_order:
  assumes "stamp_order (\<lambda>e. last_touch (d e)) order" "\<forall>x. last_touch (d x) \<le> t"
    and "sorted_wrt (<) (t # map (\<lambda>(env, oper). rp_now env) h)"
  shows "stamp_order (\<lambda>e. last_touch (fold lru_op h d e)) (fold recency (map snd h) order)"
  using assms
proof (induction h arbitrary: d order t)
  case Nil
  then show ?case by simp
next
  case (Cons a h)
  obtain env oper where a: "a = (env, oper)" by (cases a)
  with Cons.prems have "t < rp_now env" by simp
  note step = lru_op_order [OF Cons.prems(1,2) this, of oper]
  with Cons.IH [of "lru_op a d" "recency oper order" "rp_now env"] Cons.prems(3) a show ?case by simp
qed

lemma fifo_op_order:
  assumes "stamp_order (\<lambda>e. tick_inserted (fifo_repl p e)) order"
    and "\<forall>x. tick_inserted (fifo_repl p x) \<le> time_ticks p" "unat (time_ticks p) + 1 < 2 ^ 64"
  shows "stamp_order (\<lambda>e. tick_inserted (fifo_repl (fifo_op oper p) e)) (insertion_order oper order)
    \<and> (\<forall>x. tick_inserted (fifo_repl (fifo_op oper p) x) \<le> time_ticks (fifo_op oper p))
    \<and> unat (time_ticks (fifo_op oper p)) \<le> unat (time_ticks p) + 1"
proof -
  have next_tick: "unat (time_ticks p + 1) = unat (time_ticks p) + 1"
    using assms(3) by (simp add: unat_word_ariths)
  then have gt: "time_ticks p < time_ticks p + 1" by (simp add: word_less_nat_alt)
  with assms(2) have lt: "\<forall>x. tick_inserted (fifo_repl p x) < time_ticks p + 1"
    using order_le_less_trans by blast
  show ?thesis
  proof (cases oper)
    case (Invalidate e)
    with assms(2) fifo_stamps.order_clear [OF assms(1), of e] show ?thesis by (simp add: fifo_invalidate_def)
  next
    case (Touch e)
    with assms show ?thesis by (simp add: fifo_touch_def)
  next
    case (Reset e)
    with lt next_tick fifo_stamps.order_renew [OF assms(1) lt, of e] show ?thesis
      by (simp add: fifo_reset_def Let_def less_imp_le)
  qed
qed

lemma fifo_fold_order:
  assumes "stamp_order (\<lambda>e. tick_inserted (fifo_repl p e)) order"
    and "\<forall>x. tick_inserted (fifo_repl p x) \<le> time_ticks p" "unat (time_ticks p) + length h < 2 ^ 64"
  shows "stamp_order (\<lambda>e. tick_inserted (fifo_repl (fold fifo_op h p) e)) (fold insertion_order h order)"
  using assms
proof (induction h arbitrary: p order)
  case Nil
  then show ?case by simp
next
  case (Cons oper h)
  from Cons.prems have "unat (time_ticks p) + 1 < 2 ^ 64" by simp
  note step = fifo_op_order [OF Cons.prems(1,2) this, of oper]
  with Cons.IH [of "fifo_op oper p" "insertion_order oper order"] Cons.prems(3) show ?case by simp
qed

text \<open>MRU takes the newest listed candidate, or the first that is not listed.\<close>

lemma mru_scan_newest:
  assumes "stamp_order (\<lambda>e. mru_last_touch (d e)) order"
  shows "mru_victim cs d = newest order cs"
proof (cases "find (\<lambda>c. c \<notin> set order) cs")
  case (Some e)
  have "mru_scan d v cs = e" for v
    using Some assms by (induction cs arbitrary: v) (auto simp: stamp_order_def split: if_splits)
  with Some show ?thesis by (cases cs) (auto simp: newest_def)
next
  case None
  have listed: "set cs \<subseteq> set order" using iffD1 [OF find_None_iff None] by blast
  show ?thesis
  proof (cases cs)
    case Nil
    have "find (\<lambda>_. False) (rev order) = None" by (simp add: find_None_iff)
    with Nil show ?thesis by (simp add: newest_def)
  next
    case (Cons c ds)
    then obtain e where e: "find (\<lambda>x. x \<in> set cs) (rev order) = Some e"
      using listed by (cases "find (\<lambda>x. x \<in> set cs) (rev order)") (auto simp: find_None_iff)
    have in_e: "e \<in> set cs" using find_SomeD [OF e] by simp
    have less: "mru_last_touch (d x) < mru_last_touch (d e)" if "x \<in> set cs" "x \<noteq> e" for x
        using stamp_order_find_greatest [OF _ e that(1), of "\<lambda>e. mru_last_touch (d e)"] that listed assms
      by (auto simp: stamp_order_def)
    have nz: "mru_last_touch (d x) \<noteq> 0" if "x \<in> set cs" for x
      using listed that assms by (auto simp: stamp_order_def)
    have "mru_scan d v xs = e" if "e = v \<or> e \<in> set xs" "v \<in> set cs" "set xs \<subseteq> set cs" for v xs
      using that
    proof (induction xs arbitrary: v)
      case Nil
      then show ?case by simp
    next
      case (Cons x xs)
      let ?v = "if mru_last_touch (d v) < mru_last_touch (d x) then x else v"
      have "\<not> mru_last_touch (d e) < mru_last_touch (d x)"
        using less [of x] Cons.prems(3) by (cases "x = e") auto
      moreover have "v \<noteq> e \<longrightarrow> mru_last_touch (d v) < mru_last_touch (d e)"
        using less [of v] Cons.prems(2) by blast
      ultimately have "e = ?v \<or> e \<in> set xs" using Cons.prems(1) by auto
      moreover have "?v \<in> set cs" "mru_last_touch (d x) \<noteq> 0" using Cons.prems(2,3) nz by auto
      ultimately show ?case using Cons.IH [of ?v] Cons.prems(3) by simp
    qed
    from this [of c cs] Cons in_e have "mru_scan d c cs = e" by (simp del: mru_scan.simps)
    with Cons e None show ?thesis by (simp add: newest_def del: mru_scan.simps)
  qed
qed

section \<open>Properties\<close>

abbreviation at_tick :: "tick \<Rightarrow> rp_env" where
  "at_tick t \<equiv> \<lparr>rp_now = t, rp_rand = 0\<rparr>"

text \<open>C20: LRU keeps recency. After any history of touches, resets and invalidations at growing ticks the
  victim among the candidates is the one of the abstract list in which a touched or reset entry moves
  to the back and an invalidated one is removed: the first candidate that is not in the list, else the
  earliest of the list.\<close>

theorem lru_refines_recency:
  assumes "sorted_wrt (<) (0 # map (\<lambda>(env, oper). rp_now env) h)"
  shows "lru_victim cs (lru_run h) = oldest (fold recency (map snd h) []) cs"
  using lru_stamps.victim_oldest [OF lru_fold_order [of "\<lambda>_. new_lru_data" "[]" 0 h]] assms
  by (simp add: lru_run_def new_lru_data_def stamp_order_empty)

theorem lru_refines_recency_witness:
  "lru_victim [4, 7, 9] (lru_run [(at_tick 10, Reset 9), (at_tick 20, Reset 7),
     (at_tick 30, Reset 4), (at_tick 40, Touch 9)]) = Some 7"
  using lru_refines_recency [of
      "[(at_tick 10, Reset 9), (at_tick 20, Reset 7), (at_tick 30, Reset 4), (at_tick 40, Touch 9)]"
      "[4, 7, 9]"]
  by (simp add: renew_last_def oldest_def)

text \<open>FIFO keeps insertion order. After any history that does not wrap the 64-bit counter the victim
  is the candidate that a queue of the resets would give, touches having no effect.\<close>

theorem fifo_refines_queue:
  assumes "unat t0 + length h < 2 ^ 64"
  shows "fifo_victim cs (fifo_run t0 h) = oldest (fold insertion_order h []) cs"
  using fifo_stamps.victim_oldest [OF fifo_fold_order [of "\<lparr>time_ticks = t0, fifo_repl = (\<lambda>_. new_fifo_data)\<rparr>" "[]" h]] assms
  by (simp add: fifo_run_def new_fifo_data_def stamp_order_empty)

theorem fifo_refines_queue_witness:
  "fifo_victim [4, 7, 9] (fifo_run 0 [Reset 9, Reset 7, Touch 9, Reset 4, Touch 9]) = Some 9"
  using fifo_refines_queue [of 0 "[Reset 9, Reset 7, Touch 9, Reset 4, Touch 9]" "[4, 7, 9]"]
  by (simp add: renew_last_def oldest_def)

end
