(* ===== verification/SecondChance.thy ===== *)
theory SecondChance
  imports RecencyFacts
begin

text \<open>
  The second-chance policy (\<open>second_chance_rp.cc\<close>), a FIFO whose entries carry a flag, and its
  relation to the clock algorithm: one call of \<open>getVictim\<close> passes over the flagged entries in
  insertion order, clears them and moves them to the end, and takes the first that is not flagged.
\<close>

record second_data = fifo_data +
  has_second_chance :: bool

definition new_second_data :: second_data where
  "new_second_data = \<lparr>tick_inserted = 0, has_second_chance = False\<rparr>"

definition set_chance :: "entry \<Rightarrow> bool \<Rightarrow> second_data fifo_policy \<Rightarrow> second_data fifo_policy" where
  "set_chance e b p = p\<lparr>fifo_repl := (fifo_repl p)(e := (fifo_repl p e)\<lparr>has_second_chance := b\<rparr>)\<rparr>"

definition use_second_chance :: "entry \<Rightarrow> second_data fifo_policy \<Rightarrow> second_data fifo_policy" where
  "use_second_chance e p = set_chance e False (fifo_reset e p)"

definition second_invalidate :: "entry \<Rightarrow> second_data fifo_policy \<Rightarrow> second_data fifo_policy" where
  "second_invalidate e p = set_chance e False (fifo_invalidate e p)"

definition second_touch :: "entry \<Rightarrow> second_data fifo_policy \<Rightarrow> second_data fifo_policy" where
  "second_touch e p = set_chance e True (fifo_touch e p)"

definition second_reset :: "entry \<Rightarrow> second_data fifo_policy \<Rightarrow> second_data fifo_policy" where
  "second_reset e p = set_chance e False (fifo_reset e p)"

abbreviation chance :: "second_data fifo_policy \<Rightarrow> entry \<Rightarrow> bool" where
  "chance p e \<equiv> has_second_chance (fifo_repl p e)"

lemma chance_use [simp]: "chance (use_second_chance v p) e \<longleftrightarrow> e \<noteq> v \<and> chance p e"
  by (simp add: use_second_chance_def set_chance_def fifo_reset_def Let_def)

text \<open>The second loop of \<open>getVictim\<close>; every turn but the last clears a flag of a candidate.\<close>

function second_search ::
  "entry list \<Rightarrow> second_data fifo_policy \<Rightarrow> (entry \<times> second_data fifo_policy) option" where
  "second_search cs p =
     (case fifo_victim cs p of
        None \<Rightarrow> None
      | Some v \<Rightarrow> if chance p v then second_search cs (use_second_chance v p) else Some (v, p))"
  by pat_completeness auto

termination
proof (relation "measure (\<lambda>(cs, p). card {c \<in> set cs. chance p c})", goal_cases)
  case 1
  then show ?case by simp
next
  case (2 cs p v)
  from 2(1) have v: "v \<in> set cs" by (rule fifo_victim_in)
  have "{c \<in> set cs. chance (use_second_chance v p) c} = {c \<in> set cs. chance p c} - {v}"
    by auto
  moreover from v 2(2) have "v \<in> {c \<in> set cs. chance p c}" by simp
  ultimately have "{c \<in> set cs. chance (use_second_chance v p) c} \<subset> {c \<in> set cs. chance p c}" by blast
  then show ?case by (auto intro!: psubset_card_mono)
qed

declare second_search.simps [simp del]

fun second_victim ::
  "entry list \<Rightarrow> second_data fifo_policy \<Rightarrow> (entry \<times> second_data fifo_policy) option" where
  "second_victim [] p = None"
| "second_victim (c # cs) p =
     (case find (\<lambda>c. tick_inserted (fifo_repl p c) = 0 \<and> \<not> chance p c) (c # cs) of
        Some v \<Rightarrow> Some (v, p)
      | None \<Rightarrow> second_search (c # cs) p)"

section \<open>The contract\<close>

lemma second_search_in: "second_search cs p = Some (v, p') \<Longrightarrow> v \<in> set cs"
proof (induction cs p rule: second_search.induct)
  case (1 cs p)
  from 1(2) show ?case
    by (subst (asm) second_search.simps) (auto split: option.splits if_splits dest: 1(1) fifo_victim_in)
qed

lemma second_search_found: "cs \<noteq> [] \<Longrightarrow> \<exists>v p'. second_search cs p = Some (v, p')"
proof (induction cs p rule: second_search.induct)
  case (1 cs p)
  from 1(2) obtain v where v: "fifo_victim cs p = Some v" using victim_ex(4) by blast
  with 1 show ?case by (subst second_search.simps) auto
qed

interpretation second_chance: replacement_policy
  "\<lambda>e p. Some (second_invalidate e p)" "\<lambda>env e p. Some (second_touch e p)"
  "\<lambda>env e p. Some (second_reset e p)" "\<lambda>env. second_victim" "\<lambda>cs p. True"
proof unfold_locales
  fix cs p v p'
  assume "second_victim cs p = Some (v, p')"
  then show "v \<in> set cs"
    by (cases cs) (auto split: option.splits if_splits dest: find_SomeD second_search_in)
next
  fix cs :: "entry list" and p
  assume "cs \<noteq> []"
  then obtain c ds where "cs = c # ds" by (cases cs) auto
  then show "\<exists>v p'. second_victim cs p = Some (v, p')"
    using second_search_found [of cs p] by (auto split: option.splits)
qed auto

section \<open>The clock\<close>

text \<open>The candidates that one call passes over, and the victim, on the abstract order.\<close>

definition clock_passed :: "(entry \<Rightarrow> bool) \<Rightarrow> entry list \<Rightarrow> entry list \<Rightarrow> entry list" where
  "clock_passed flagged cs order = takeWhile flagged (filter (\<lambda>e. e \<in> set cs) order)"

definition clock_victim :: "(entry \<Rightarrow> bool) \<Rightarrow> entry list \<Rightarrow> entry list \<Rightarrow> entry option" where
  "clock_victim flagged cs order =
     (case find (\<lambda>e. \<not> flagged e) (filter (\<lambda>e. e \<in> set cs) order) of
        Some v \<Rightarrow> Some v
      | None \<Rightarrow> find (\<lambda>e. e \<in> set cs) order)"

abbreviation stamps :: "'a fifo_data_scheme fifo_policy \<Rightarrow> entry \<Rightarrow> tick" where
  "stamps p \<equiv> \<lambda>e. tick_inserted (fifo_repl p e)"

lemma stamps_set_chance [simp]: "stamps (set_chance e b p) = stamps p"
  "time_ticks (set_chance e b p) = time_ticks p"
  by (auto simp: set_chance_def)

interpretation second_stamps: stamp_policy
  stamps second_invalidate "\<lambda>env. second_reset" "\<lambda>env p. time_ticks p + 1" fifo_victim
  by unfold_locales
    (auto simp: second_invalidate_def second_reset_def fifo_stamps.stamp_clear fifo_stamps.stamp_renew
      simp del: scan_best.simps)

lemma filter_cands_Cons:
  assumes "find (\<lambda>e. e \<in> C) order = Some v" "distinct order"
  shows "\<exists>rest. filter (\<lambda>e. e \<in> C) order = v # rest
    \<and> filter (\<lambda>e. e \<in> C) (renew_last v order) = rest @ [v] \<and> v \<notin> set rest"
  using assms
proof (induction order)
  case Nil
  then show ?case by simp
next
  case (Cons x order)
  show ?case
  proof (cases "x \<in> C")
    case True
    with Cons.prems have "v = x" "v \<notin> set order" by auto
    then have "filter (\<lambda>e. e \<noteq> v) order = order" by (auto intro: filter_True)
    with True \<open>v = x\<close> \<open>v \<notin> set order\<close> show ?thesis by (auto simp: renew_last_def)
  next
    case False
    with Cons show ?thesis by (auto simp: renew_last_def split: if_splits)
  qed
qed

lemma growing_distinct: "sorted_wrt (\<lambda>a b. stamp a < (stamp b :: tick)) order \<Longrightarrow> distinct order"
  by (induction order) auto

lemma stamp_order_distinct: "stamp_order stamp order \<Longrightarrow> distinct order"
  by (auto simp: stamp_order_def intro: growing_distinct)

lemma second_reset_use: "second_reset = use_second_chance"
  by (rule ext)+ (simp add: second_reset_def use_second_chance_def)

text \<open>One turn of the loop rotates the abstract order.\<close>

lemma clock_turn:
  assumes "find (\<lambda>e. e \<in> set cs) order = Some v" "distinct order" "flagged v"
  shows "clock_passed flagged cs order = v # clock_passed (flagged(v := False)) cs (renew_last v order)"
    and "clock_victim flagged cs order = clock_victim (flagged(v := False)) cs (renew_last v order)"
proof -
  from filter_cands_Cons [OF assms(1,2)] obtain rest where
    rest: "filter (\<lambda>e. e \<in> set cs) order = v # rest"
      "filter (\<lambda>e. e \<in> set cs) (renew_last v order) = rest @ [v]" "v \<notin> set rest" by blast
  have tw: "takeWhile (flagged(v := False)) (rest @ [v]) = takeWhile flagged rest"
    using rest(3) by (induction rest) auto
  show "clock_passed flagged cs order = v # clock_passed (flagged(v := False)) cs (renew_last v order)"
    using rest(1,2) assms(3) tw by (simp add: clock_passed_def del: takeWhile_append)
  have "find (\<lambda>e. \<not> (flagged(v := False)) e) (rest @ [v])
      = (case find (\<lambda>e. \<not> flagged e) rest of Some u \<Rightarrow> Some u | None \<Rightarrow> Some v)"
    using rest(3) by (induction rest) auto
  then show "clock_victim flagged cs order = clock_victim (flagged(v := False)) cs (renew_last v order)"
    using rest(1,2) assms(1,3) by (simp add: clock_victim_def split: option.splits)
qed

lemma oldest_listed:
  assumes "set cs \<subseteq> set order"
  shows "oldest order cs = find (\<lambda>e. e \<in> set cs) order"
proof -
  have "find (\<lambda>c. c \<notin> set order) cs = None" using assms by (auto simp: find_None_iff)
  then show ?thesis by (simp add: oldest_def)
qed

text \<open>
  The loop as the clock. The new order has the passed entries at the end; the counter has room for
  one renewal per flagged candidate.
\<close>

lemma second_search_clock:
  assumes "second_search cs p = Some (v, p')" "stamp_order (stamps p) order" "set cs \<subseteq> set order"
    and "\<forall>e. stamps p e \<le> time_ticks p" "unat (time_ticks p) + card {c \<in> set cs. chance p c} < 2 ^ 64"
  shows "clock_victim (chance p) cs order = Some v
    \<and> stamp_order (stamps p') (fold renew_last (clock_passed (chance p) cs order) order)
    \<and> (\<forall>e. chance p' e \<longleftrightarrow> chance p e \<and> e \<notin> set (clock_passed (chance p) cs order))"
  using assms
proof (induction cs p arbitrary: order rule: second_search.induct)
  case (1 cs p)
  note ordered = 1(3) and listed = 1(4)
  have dist: "distinct order" using ordered by (rule stamp_order_distinct)
  from 1(2) obtain u where u: "fifo_victim cs p = Some u"
    by (subst (asm) second_search.simps) (auto split: option.splits)
  with second_stamps.victim_oldest [OF ordered, of cs] oldest_listed [OF listed]
  have found: "find (\<lambda>e. e \<in> set cs) order = Some u" by simp
  obtain rest where rest: "filter (\<lambda>e. e \<in> set cs) order = u # rest"
    using filter_cands_Cons [OF found dist] by blast
  show ?case
  proof (cases "chance p u")
    case False
    with 1(2) u have "v = u" "p' = p" by (simp_all add: second_search.simps)
    with False rest ordered show ?thesis by (simp add: clock_victim_def clock_passed_def)
  next
    case True
    let ?q = "use_second_chance u p"
    from 1(2) u True have q: "second_search cs ?q = Some (v, p')"
      by (subst (asm) second_search.simps) simp
    have u_in: "u \<in> set cs" using u by (rule fifo_victim_in)
    have flags: "{c \<in> set cs. chance ?q c} = {c \<in> set cs. chance p c} - {u}" by auto
    have one: "0 < card {c \<in> set cs. chance p c}"
      using u_in True by (auto simp: card_gt_0_iff)
    have tick: "time_ticks ?q = time_ticks p + 1"
      by (simp add: use_second_chance_def fifo_reset_def Let_def)
    have untick: "unat (time_ticks p + 1) = unat (time_ticks p) + 1"
      using 1(6) one by (simp add: unat_word_ariths)
    then have "time_ticks p < time_ticks p + 1" by (simp add: word_less_nat_alt)
    with 1(5) have lt: "\<forall>e. stamps p e < time_ticks p + 1" using order_le_less_trans by blast
    have st: "stamps ?q = (stamps p)(u := time_ticks p + 1)"
      using second_stamps.stamp_renew [of u p] by (simp add: second_reset_use)
    have ord': "stamp_order (stamps ?q) (renew_last u order)"
      using second_stamps.order_renew [OF ordered lt, of u] by (simp add: second_reset_use)
    have le': "\<forall>e. stamps ?q e \<le> time_ticks ?q"
    proof
      fix e
      from fun_cong [OF st, of e] lt tick show "stamps ?q e \<le> time_ticks ?q"
        by (cases "e = u") (simp_all add: less_imp_le)
    qed
    have room: "unat (time_ticks ?q) + card {c \<in> set cs. chance ?q c} < 2 ^ 64"
      using 1(6) tick untick one flags u_in True by (simp add: card_Diff_singleton)
    have listed': "set cs \<subseteq> set (renew_last u order)" using listed by (auto simp: renew_last_def)
    have upd: "chance ?q = (chance p)(u := False)" by (auto simp: fun_eq_iff)
    from 1(1) [OF u True q ord' listed' le' room]
    show ?thesis unfolding upd clock_turn(1) [of cs order u "chance p", OF found dist True]
        clock_turn(2) [of cs order u "chance p", OF found dist True]
      by auto
  qed
qed

section \<open>Properties\<close>

definition sample_clock :: "second_data fifo_policy" where
  "sample_clock = second_touch 2 (second_touch 1 (fold second_reset [1, 2, 3]
     \<lparr>time_ticks = 0, fifo_repl = (\<lambda>_. new_second_data)\<rparr>))"

text \<open>C21: The search of SecondChance ends and is the clock algorithm. For candidates that are all in the
  queue it returns a victim; the victim is the first candidate in queue order without a second chance,
  or the first of all; exactly the candidates before it lose their chance and move to the back.\<close>

theorem second_chance_is_clock:
  assumes "stamp_order (stamps p) order" "set cs \<subseteq> set order" "cs \<noteq> []"
    and "\<forall>e. stamps p e \<le> time_ticks p" "unat (time_ticks p) + card {c \<in> set cs. chance p c} < 2 ^ 64"
  shows "\<exists>v p'. second_victim cs p = Some (v, p')
    \<and> clock_victim (chance p) cs order = Some v
    \<and> stamp_order (stamps p') (fold renew_last (clock_passed (chance p) cs order) order)
    \<and> (\<forall>e. chance p' e \<longleftrightarrow> chance p e \<and> e \<notin> set (clock_passed (chance p) cs order))"
proof -
  from assms(3) obtain c ds where cs: "cs = c # ds" by (cases cs) auto
  from assms(1,2) have none: "find (\<lambda>c. stamps p c = 0 \<and> \<not> chance p c) cs = None"
    by (auto simp: find_None_iff stamp_order_def)
  from second_search_found [OF assms(3)] obtain v p' where s: "second_search cs p = Some (v, p')" by blast
  with none cs have "second_victim cs p = Some (v, p')" by simp
  with second_search_clock [OF s assms(1,2,4,5)] show ?thesis by blast
qed

theorem second_chance_is_clock_witness:
  "\<exists>v p'. second_victim [1, 2, 3] sample_clock = Some (v, p') \<and> v = 3 \<and> \<not> chance p' 1 \<and> \<not> chance p' 2
    \<and> stamp_order (stamps p') [3, 1, 2]"
proof -
  have s: "stamps sample_clock = (\<lambda>_. 0)(1 := 1, 2 := 2, 3 := 3)" "time_ticks sample_clock = 3"
    by (simp_all add: sample_clock_def second_reset_def second_touch_def fifo_touch_def set_chance_def
        fifo_reset_def new_second_data_def fun_eq_iff)
  have f: "chance sample_clock = (\<lambda>e. e = 1 \<or> e = 2)"
    by (auto simp: sample_clock_def second_reset_def second_touch_def fifo_touch_def set_chance_def
        fifo_reset_def new_second_data_def fun_eq_iff)
  have o: "stamp_order (stamps sample_clock) [1, 2, 3]" by (auto simp: s stamp_order_def)
  have "card {c \<in> set [1, 2, 3]. chance sample_clock c} \<le> card {1, 2, 3 :: nat}"
    by (intro card_mono) auto
  then have c: "unat (time_ticks sample_clock) + card {c \<in> set [1, 2, 3]. chance sample_clock c} < 2 ^ 64"
    by (simp add: s)
  have "\<forall>e. stamps sample_clock e \<le> time_ticks sample_clock"
    by (simp add: fun_cong [OF s(1)] s(2) word_le_nat_alt)
  from second_chance_is_clock [OF o _ _ this c] obtain v p' where r:
    "second_victim [1, 2, 3] sample_clock = Some (v, p')"
    "clock_victim (chance sample_clock) [1, 2, 3] [1, 2, 3] = Some v"
    "stamp_order (stamps p') (fold renew_last (clock_passed (chance sample_clock) [1, 2, 3] [1, 2, 3]) [1, 2, 3])"
    "\<forall>e. chance p' e \<longleftrightarrow> chance sample_clock e \<and> e \<notin> set (clock_passed (chance sample_clock) [1, 2, 3] [1, 2, 3])"
    by auto
  have "clock_passed (chance sample_clock) [1, 2, 3] [1, 2, 3] = [1, 2]"
    "clock_victim (chance sample_clock) [1, 2, 3] [1, 2, 3] = Some 3"
    by (simp_all add: f clock_victim_def clock_passed_def)
  moreover have "fold renew_last [1, 2] [1, 2, 3] = [3, 1, 2 :: nat]" by (simp add: renew_last_def)
  ultimately have "v = 3" "stamp_order (stamps p') [3, 1, 2]" "\<not> chance p' 1 \<and> \<not> chance p' 2"
    using r by simp_all
  with r(1) show ?thesis by blast
qed

end
