(* ===== verification/SatCounter.thy ===== *)
theory SatCounter
  imports Float32
begin

text \<open>
  The saturating counters of the gem5 stubs (\<open>GenericSatCounter\<close> in \<open>base/sat_counter.hh\<close>), at
  the width of their type parameter. Arguments of type \<open>long long\<close> are integers in its range.
\<close>

record 'c sat_counter =
  initial_val :: 'c
  max_val :: 'c
  counter :: 'c

text \<open>\<open>1ULL << bits\<close> has no defined value for \<open>bits\<close> of 64 or more.\<close>

definition new_sat :: "u32 \<Rightarrow> 'w :: len word \<Rightarrow> 'w word sat_counter option" where
  "new_sat bits initial =
     (if unat bits < 64
      then Some \<lparr>initial_val = initial, max_val = ucast (push_bit (unat bits) 1 - 1 :: u64), counter = initial\<rparr>
      else None)"

definition sat_inc :: "'w :: len word sat_counter \<Rightarrow> 'w word sat_counter" where
  "sat_inc s = (if counter s < max_val s then s\<lparr>counter := counter s + 1\<rparr> else s)"

definition sat_dec :: "'w :: len word sat_counter \<Rightarrow> 'w word sat_counter" where
  "sat_dec s = (if 0 < counter s then s\<lparr>counter := counter s - 1\<rparr> else s)"

text \<open>Shifts, by an amount the promoted type allows.\<close>

definition sat_shr :: "nat \<Rightarrow> 'w :: len word sat_counter \<Rightarrow> 'w word sat_counter option" where
  "sat_shr n s = (if n < max 32 LENGTH('w) then Some (s\<lparr>counter := drop_bit n (counter s)\<rparr>) else None)"

definition sat_shl :: "nat \<Rightarrow> 'w :: len word sat_counter \<Rightarrow> 'w word sat_counter option" where
  "sat_shl n s =
     (if n < max 32 LENGTH('w) then
        let c = push_bit n (counter s) in
        Some (s\<lparr>counter := if max_val s < c then max_val s else c\<rparr>)
      else None)"

text \<open>\<open>+=\<close> and \<open>-=\<close>: the amount is truncated to the counter's type, a negative one changes sides.\<close>

definition sat_up :: "'w :: len word \<Rightarrow> 'w word sat_counter \<Rightarrow> 'w word sat_counter" where
  "sat_up v s =
     (if v \<le> max_val s - counter s then s\<lparr>counter := counter s + v\<rparr> else s\<lparr>counter := max_val s\<rparr>)"

definition sat_down :: "'w :: len word \<Rightarrow> 'w word sat_counter \<Rightarrow> 'w word sat_counter" where
  "sat_down v s = (if v < counter s then s\<lparr>counter := counter s - v\<rparr> else s\<lparr>counter := 0\<rparr>)"

definition sat_add :: "int \<Rightarrow> 'w :: len word sat_counter \<Rightarrow> 'w word sat_counter" where
  "sat_add v s = (if 0 \<le> v then sat_up (word_of_int v) s else sat_down (word_of_int (- v)) s)"

definition sat_sub :: "int \<Rightarrow> 'w :: len word sat_counter \<Rightarrow> 'w word sat_counter" where
  "sat_sub v s = (if 0 \<le> v then sat_down (word_of_int v) s else sat_up (word_of_int (- v)) s)"

definition sat_reset :: "'w :: len word sat_counter \<Rightarrow> 'w word sat_counter" where
  "sat_reset s = s\<lparr>counter := initial_val s\<rparr>"

definition sat_reset_to :: "'w :: len word \<Rightarrow> 'w word sat_counter \<Rightarrow> 'w word sat_counter" where
  "sat_reset_to v s = s\<lparr>initial_val := v, counter := v\<rparr>"

text \<open>The ratio as a \<open>double\<close>; both operands are exact for types of at most 53 bits.\<close>

definition calc_saturation :: "'w :: len word sat_counter \<Rightarrow> f32" where
  "calc_saturation s =
     (if 0 < max_val s then f64_quot (uint (counter s)) (uint (max_val s)) else \<lparr>mantissa = 0, expo = 0\<rparr>)"

definition is_saturated :: "'w :: len word sat_counter \<Rightarrow> bool" where
  "is_saturated s \<longleftrightarrow> counter s = max_val s"

text \<open>\<open>saturate\<close> returns how far the counter was from its maximum.\<close>

definition saturate :: "'w :: len word sat_counter \<Rightarrow> 'w word \<times> 'w word sat_counter" where
  "saturate s = (max_val s - counter s, s\<lparr>counter := max_val s\<rparr>)"

section \<open>The counter stays within its bounds\<close>

definition sat_wf :: "'w :: len word sat_counter \<Rightarrow> bool" where
  "sat_wf s \<longleftrightarrow> counter s \<le> max_val s \<and> initial_val s \<le> max_val s"

lemma unat_less_Suc: "a < b \<Longrightarrow> unat (a + 1) = Suc (unat a)" for a b :: "'w :: len word"
proof -
  assume "a < b"
  then have "unat a < unat b" by (simp add: word_less_nat_alt)
  then have "Suc (unat a) < 2 ^ LENGTH('w)" using unsigned_less [of b, where ?'a = nat] by linarith
  then show ?thesis by (simp add: unat_word_ariths)
qed

lemma drop_bit_le: "drop_bit n a \<le> a" for a :: "'w :: len word"
proof -
  have "unat (drop_bit n a) = unat a div 2 ^ n" by (metis unat_drop_bit_eq drop_bit_eq_div)
  then show ?thesis by (metis word_le_nat_alt div_le_dividend)
qed

lemma sat_inc_wf: "sat_wf s \<Longrightarrow> sat_wf (sat_inc s)"
  by (auto simp: sat_wf_def sat_inc_def word_le_nat_alt word_less_nat_alt unat_less_Suc)

lemma sat_dec_le: "counter (sat_dec s) \<le> counter s"
  by (cases "counter s = 0") (auto simp: sat_dec_def word_le_nat_alt unat_minus_one)

lemma sat_dec_wf: "sat_wf s \<Longrightarrow> sat_wf (sat_dec s)"
  using sat_dec_le [of s] by (auto simp: sat_wf_def sat_dec_def split: if_splits)

lemma sat_shr_wf: "sat_wf s \<Longrightarrow> sat_shr n s = Some t \<Longrightarrow> sat_wf t"
  by (auto simp: sat_wf_def sat_shr_def intro: order_trans [OF drop_bit_le] split: if_splits)

lemma sat_shl_wf: "sat_wf s \<Longrightarrow> sat_shl n s = Some t \<Longrightarrow> sat_wf t"
  by (auto simp: sat_wf_def sat_shl_def Let_def split: if_splits)

lemma sat_up_wf: "sat_wf s \<Longrightarrow> sat_wf (sat_up v s)"
  by (auto simp: sat_wf_def sat_up_def word_le_nat_alt unat_sub_if' unat_word_ariths
      intro: order_trans [OF mod_less_eq_dividend])

lemma sat_down_wf: "sat_wf s \<Longrightarrow> sat_wf (sat_down v s)"
  by (auto simp: sat_wf_def sat_down_def word_le_nat_alt word_less_nat_alt unat_sub_if')

lemma sat_add_wf: "sat_wf s \<Longrightarrow> sat_wf (sat_add v s)" "sat_wf s \<Longrightarrow> sat_wf (sat_sub v s)"
  by (simp_all add: sat_add_def sat_sub_def sat_up_wf sat_down_wf)

lemma sat_reset_wf: "sat_wf s \<Longrightarrow> sat_wf (sat_reset s)"
  by (simp add: sat_wf_def sat_reset_def)

lemma saturate_wf: "sat_wf s \<Longrightarrow> sat_wf (snd (saturate s))"
  by (simp add: sat_wf_def saturate_def)

lemma new_sat_wf: "new_sat bits 0 = Some s \<Longrightarrow> sat_wf s"
  by (auto simp: new_sat_def sat_wf_def split: if_splits)

lemmas sat_wf_intros = sat_inc_wf sat_dec_wf sat_shr_wf sat_shl_wf sat_up_wf sat_down_wf sat_add_wf
  sat_reset_wf saturate_wf

text \<open>No operation but the assignment changes the maximum.\<close>

lemma sat_max [simp]:
  "max_val (sat_inc s) = max_val s" "max_val (sat_dec s) = max_val s" "max_val (sat_up v s) = max_val s"
  "max_val (sat_down v s) = max_val s" "max_val (sat_add i s) = max_val s" "max_val (sat_sub i s) = max_val s"
  "max_val (sat_reset s) = max_val s" "max_val (snd (saturate s)) = max_val s"
  by (simp_all add: sat_inc_def sat_dec_def sat_up_def sat_down_def sat_add_def sat_sub_def sat_reset_def saturate_def)

text \<open>An amount that fits the type is added exactly, up to the maximum.\<close>

lemma sat_add_exact:
  fixes s :: "'w :: len word sat_counter"
  assumes "sat_wf s" "0 \<le> v" "v < 2 ^ LENGTH('w)"
  shows "unat (counter (sat_add v s)) = min (unat (max_val s)) (unat (counter s) + nat v)"
proof -
  have v: "unat (word_of_int v :: 'w word) = nat v"
    using assms(2,3) by (simp add: unsigned_of_int take_bit_int_eq_self)
  have le: "unat (counter s) \<le> unat (max_val s)" using assms(1) by (simp add: sat_wf_def word_le_nat_alt)
  have gap: "unat (max_val s - counter s) = unat (max_val s) - unat (counter s)"
    using le by (simp add: unat_sub word_le_nat_alt)
  show ?thesis
  proof (cases "(word_of_int v :: 'w word) \<le> max_val s - counter s")
    case True
    with v gap le have "unat (counter s) + nat v \<le> unat (max_val s)" by (simp add: word_le_nat_alt)
    moreover from this have "unat (counter s) + nat v < 2 ^ LENGTH('w)"
      using unsigned_less [of "max_val s", where ?'a = nat] by linarith
    ultimately show ?thesis using True assms(2) v by (simp add: sat_add_def sat_up_def unat_word_ariths)
  next
    case False
    with v gap le have "unat (max_val s) < unat (counter s) + nat v" by (simp add: word_le_nat_alt)
    with False assms(2) show ?thesis by (simp add: sat_add_def sat_up_def)
  qed
qed

end
