(* ===== verification/Rrip.thy ===== *)
theory Rrip
  imports ReplBase SatCounter
begin

text \<open>
  The re-reference interval policies of the gem5 cache: BRRIP (\<open>brrip_rp.cc\<close>) and SHiP
  (\<open>ship_rp.cc\<close>), with the 8-bit saturating counters they use. The victim search of BRRIP, which
  computes the number of ageing steps at once, is proved equal to the step by step search of the
  RRIP policy.
\<close>

type_synonym u8 = "8 word"
type_synonym sat8 = "u8 sat_counter"

section \<open>BRRIP\<close>

record brrip_data =
  rrpv :: sat8
  brrip_valid :: bool

record brrip_params =
  rrpv_bits :: u32
  hit_priority :: bool
  brrip_btp :: u32

text \<open>The constructor refuses a counter of no bits; an entry starts at 0 and invalid.\<close>

definition new_brrip :: "u32 \<Rightarrow> bool \<Rightarrow> u32 \<Rightarrow> brrip_params option" where
  "new_brrip bits hp btp =
     (if bits = 0 then None else Some \<lparr>rrpv_bits = bits, hit_priority = hp, brrip_btp = btp\<rparr>)"

definition new_brrip_data :: "brrip_params \<Rightarrow> brrip_data option" where
  "new_brrip_data P = map_option (\<lambda>s. \<lparr>rrpv = s, brrip_valid = False\<rparr>) (new_sat (rrpv_bits P) 0)"

definition upd_rrpv ::
  "(sat8 \<Rightarrow> sat8) \<Rightarrow> entry \<Rightarrow> (entry \<Rightarrow> 'a brrip_data_scheme) \<Rightarrow> entry \<Rightarrow> 'a brrip_data_scheme" where
  "upd_rrpv f e d = d(e := (d e)\<lparr>rrpv := f (rrpv (d e))\<rparr>)"

definition brrip_invalidate ::
  "entry \<Rightarrow> (entry \<Rightarrow> 'a brrip_data_scheme) \<Rightarrow> entry \<Rightarrow> 'a brrip_data_scheme" where
  "brrip_invalidate e d = d(e := (d e)\<lparr>brrip_valid := False\<rparr>)"

definition brrip_touch ::
  "brrip_params \<Rightarrow> entry \<Rightarrow> (entry \<Rightarrow> 'a brrip_data_scheme) \<Rightarrow> entry \<Rightarrow> 'a brrip_data_scheme" where
  "brrip_touch P e d = (if hit_priority P then upd_rrpv sat_reset e d else upd_rrpv sat_dec e d)"

definition brrip_reset ::
  "brrip_params \<Rightarrow> rp_env \<Rightarrow> entry \<Rightarrow> (entry \<Rightarrow> 'a brrip_data_scheme) \<Rightarrow> (entry \<Rightarrow> 'a brrip_data_scheme) option" where
  "brrip_reset P env e d =
     (let d = upd_rrpv (\<lambda>s. snd (saturate s)) e d in do {
        r \<leftarrow> random_range (rp_rand env) 1 100;
        let d = (if r \<le> brrip_btp P then upd_rrpv sat_dec e d else d) in
        Some (d(e := (d e)\<lparr>brrip_valid := True\<rparr>)) })"

text \<open>The search: \<open>Inl\<close> an invalid entry, which ends it, or \<open>Inr\<close> the first with the largest value.\<close>

fun brrip_scan :: "(entry \<Rightarrow> 'a brrip_data_scheme) \<Rightarrow> entry \<Rightarrow> u8 \<Rightarrow> entry list \<Rightarrow> entry + entry" where
  "brrip_scan d v vr [] = Inr v"
| "brrip_scan d v vr (c # cs) =
     (if \<not> brrip_valid (d c) then Inl c
      else if vr < counter (rrpv (d c)) then brrip_scan d c (counter (rrpv (d c))) cs
      else brrip_scan d v vr cs)"

fun brrip_victim ::
  "entry list \<Rightarrow> (entry \<Rightarrow> 'a brrip_data_scheme) \<Rightarrow> (entry \<times> (entry \<Rightarrow> 'a brrip_data_scheme)) option" where
  "brrip_victim [] d = None"
| "brrip_victim (c # cs) d =
     (case brrip_scan d c (counter (rrpv (d c))) (c # cs) of
        Inl v \<Rightarrow> Some (v, d)
      | Inr v \<Rightarrow>
          let diff = uint (fst (saturate (rrpv (d v))));
              d = upd_rrpv (\<lambda>s. snd (saturate s)) v d
          in Some (v, if 0 < diff then fold (upd_rrpv (sat_add diff)) (c # cs) d else d))"

lemma brrip_scan_in: "case brrip_scan d v vr cs of Inl w \<Rightarrow> w \<in> set cs | Inr w \<Rightarrow> w \<in> set (v # cs)"
proof (induction cs arbitrary: v vr)
  case Nil
  then show ?case by simp
next
  case (Cons c cs)
  from Cons.IH [of v vr] Cons.IH [of c "counter (rrpv (d c))"]
  show ?case by (auto split: sum.splits)
qed

lemma random_range_100 [simp]: "random_range draw 1 100 \<noteq> None"
  by (simp add: random_range_def Let_def)

lemma brrip_victim_in: "brrip_victim cs d = Some (v, d') \<Longrightarrow> v \<in> set cs"
  using brrip_scan_in [where d = d and v = "hd cs" and vr = "counter (rrpv (d (hd cs)))" and cs = cs]
  by (cases cs) (auto simp: Let_def split: sum.splits)

interpretation brrip: replacement_policy
  "\<lambda>e d. Some (brrip_invalidate e d)" "\<lambda>env e d. Some (brrip_touch P e d)" "brrip_reset P"
  "\<lambda>env. brrip_victim" "\<lambda>cs d. True"
proof unfold_locales
  fix cs :: "entry list" and d :: "entry \<Rightarrow> 'a brrip_data_scheme"
  assume "cs \<noteq> []"
  then show "\<exists>v d'. brrip_victim cs d = Some (v, d')"
    by (cases cs) (auto simp: Let_def split: sum.splits)
next
  fix env e and d :: "entry \<Rightarrow> 'a brrip_data_scheme"
  show "\<exists>d'. brrip_reset P env e d = Some d' \<and> True"
    by (cases "random_range (rp_rand env) 1 100") (auto simp: brrip_reset_def Let_def)
qed (auto simp: brrip_victim_in)

section \<open>The step by step search\<close>

text \<open>
  The policy as it is published: take the first candidate at the maximum; when there is none, add
  one to every candidate and look again.
\<close>

function rrip_search :: "nat \<Rightarrow> entry list \<Rightarrow> (entry \<Rightarrow> nat) \<Rightarrow> (entry \<times> (entry \<Rightarrow> nat)) option" where
  "rrip_search M cs f =
     (if cs = [] then None
      else case find (\<lambda>c. M \<le> f c) cs of
        Some v \<Rightarrow> Some (v, f)
      | None \<Rightarrow> rrip_search M cs (\<lambda>e. if e \<in> set cs then f e + 1 else f e))"
  by pat_completeness auto
termination
  by (relation "measure (\<lambda>(M, cs, f). M - f (hd cs))") (auto simp: find_None_iff neq_Nil_conv)

declare rrip_search.simps [simp del]

lemma find_shift:
  fixes f :: "'e \<Rightarrow> nat"
  assumes "find (\<lambda>c. k \<le> f c) cs = Some v"
  shows "find (\<lambda>c. k + 1 \<le> (if c \<in> set cs then f c + 1 else f c)) cs = Some v"
  using assms by (simp cong: find_cong)

text \<open>The number of steps is the distance of the largest value from the maximum.\<close>

lemma rrip_search_steps:
  assumes "find (\<lambda>c. k \<le> f c) cs = Some v" "\<forall>c \<in> set cs. f c \<le> k" "k \<le> M"
  shows "rrip_search M cs f = Some (v, \<lambda>e. if e \<in> set cs then f e + (M - k) else f e)"
  using assms
proof (induction "M - k" arbitrary: k f)
  case 0
  then have k: "k = M" by simp
  from 0 have "cs \<noteq> []" by auto
  with 0 k have "rrip_search M cs f = Some (v, f)" by (subst rrip_search.simps) simp
  then show ?case unfolding k by (simp cong: if_cong)
next
  case (Suc n)
  let ?g = "\<lambda>e. if e \<in> set cs then f e + 1 else f e"
  from Suc have ne: "cs \<noteq> []" and none: "find (\<lambda>c. M \<le> f c) cs = None"
    by (auto simp: find_None_iff)
  have "rrip_search M cs ?g = Some (v, \<lambda>e. if e \<in> set cs then ?g e + (M - (k + 1)) else ?g e)"
    using Suc.hyps(2) Suc.prems find_shift [OF Suc.prems(1)] by (intro Suc.hyps(1)) auto
  moreover have "(\<lambda>e. if e \<in> set cs then ?g e + (M - (k + 1)) else ?g e)
      = (\<lambda>e. if e \<in> set cs then f e + (M - k) else f e)"
    using Suc.hyps(2) by (auto simp: fun_eq_iff)
  ultimately show ?case using ne none by (subst rrip_search.simps) simp
qed

text \<open>What the scan of BRRIP finds when every candidate is valid.\<close>

lemma brrip_scan_max:
  assumes "\<forall>c \<in> set cs. brrip_valid (d c)"
  shows "\<exists>w. brrip_scan d v (counter (rrpv (d v))) cs = Inr w
    \<and> (\<forall>x \<in> set (v # cs). counter (rrpv (d x)) \<le> counter (rrpv (d w)))
    \<and> find (\<lambda>x. counter (rrpv (d w)) \<le> counter (rrpv (d x))) (v # cs) = Some w"
  using assms
proof (induction cs arbitrary: v)
  case Nil
  then show ?case by simp
next
  case (Cons c cs)
  show ?case
  proof (cases "counter (rrpv (d v)) < counter (rrpv (d c))")
    case True
    from Cons.IH [of c] Cons.prems obtain w where
      w: "brrip_scan d c (counter (rrpv (d c))) cs = Inr w"
        "\<forall>x \<in> set (c # cs). counter (rrpv (d x)) \<le> counter (rrpv (d w))"
        "find (\<lambda>x. counter (rrpv (d w)) \<le> counter (rrpv (d x))) (c # cs) = Some w" by auto
    from w(2) have "counter (rrpv (d c)) \<le> counter (rrpv (d w))" by simp
    with True have "counter (rrpv (d v)) < counter (rrpv (d w))" by (rule order_less_le_trans)
    with w True Cons.prems show ?thesis by (auto simp: not_le [symmetric] less_imp_le)
  next
    case False
    from Cons.IH [of v] Cons.prems obtain w where
      w: "brrip_scan d v (counter (rrpv (d v))) cs = Inr w"
        "\<forall>x \<in> set (v # cs). counter (rrpv (d x)) \<le> counter (rrpv (d w))"
        "find (\<lambda>x. counter (rrpv (d w)) \<le> counter (rrpv (d x))) (v # cs) = Some w" by auto
    from False have le: "counter (rrpv (d c)) \<le> counter (rrpv (d v))" by simp
    moreover from w(2) have "counter (rrpv (d v)) \<le> counter (rrpv (d w))" by simp
    ultimately have "counter (rrpv (d c)) \<le> counter (rrpv (d w))" by (rule order_trans)
    moreover have "find (\<lambda>x. counter (rrpv (d w)) \<le> counter (rrpv (d x))) (v # c # cs) = Some w"
      using w(3) order_trans [OF _ le, of "counter (rrpv (d w))"] by (auto split: if_splits)
    ultimately show ?thesis using w(1,2) False Cons.prems by simp
  qed
qed

lemma fold_upd_rrpv:
  assumes "distinct cs"
  shows "fold (upd_rrpv g) cs d = (\<lambda>e. if e \<in> set cs then (d e)\<lparr>rrpv := g (rrpv (d e))\<rparr> else d e)"
  using assms by (induction cs arbitrary: d) (auto simp: upd_rrpv_def fun_eq_iff)

section \<open>Property\<close>

definition three_aged :: "entry \<Rightarrow> brrip_data" where
  "three_aged e = \<lparr>rrpv = \<lparr>initial_val = 0, max_val = 7, counter = if e = 2 then 4 else 1\<rparr>, brrip_valid = True\<rparr>"

text \<open>C22: BRRIP ages in one step what RRIP ages one by one. For distinct valid candidates with counters
  of one width the victim and all values after it are those of the reference search that raises every
  candidate by one until one of them is at the maximum.\<close>

theorem brrip_refines_rrip:
  assumes "distinct cs" "cs \<noteq> []" "\<forall>c \<in> set cs. brrip_valid (d c)"
    and "\<forall>c \<in> set cs. max_val (rrpv (d c)) = M \<and> sat_wf (rrpv (d c))"
  shows "\<exists>v d'. brrip_victim cs d = Some (v, d')
    \<and> rrip_search (unat M) cs (\<lambda>e. unat (counter (rrpv (d e)))) = Some (v, \<lambda>e. unat (counter (rrpv (d' e))))"
proof -
  from assms(2) obtain c ds where cs: "cs = c # ds" by (cases cs) auto
  from brrip_scan_max [OF assms(3), of c] obtain v where
    v: "brrip_scan d c (counter (rrpv (d c))) cs = Inr v"
      "\<forall>x \<in> set cs. counter (rrpv (d x)) \<le> counter (rrpv (d v))"
      "find (\<lambda>x. counter (rrpv (d v)) \<le> counter (rrpv (d x))) (c # cs) = Some v" by auto
  have v_in: "v \<in> set cs" using find_SomeD [OF v(3)] cs by auto
  have first: "find (\<lambda>x. unat (counter (rrpv (d v))) \<le> unat (counter (rrpv (d x)))) cs = Some v"
    using v(3) cs by (auto simp: word_le_nat_alt [symmetric] split: if_splits)
  let ?k = "unat (counter (rrpv (d v)))"
  let ?diff = "uint (M - counter (rrpv (d v)))"
  from assms(4) v_in have M: "max_val (rrpv (d v)) = M" and le: "counter (rrpv (d v)) \<le> M"
    by (auto simp: sat_wf_def)
  then have diff: "nat ?diff = unat M - ?k" by (simp add: unat_sub flip: unat_eq_nat_uint)
  let ?d = "upd_rrpv (\<lambda>s. snd (saturate s)) v d"
  define d' where "d' = (if 0 < ?diff then fold (upd_rrpv (sat_add ?diff)) cs ?d else ?d)"
  have run: "brrip_victim cs d = Some (v, d')"
    using v(1) cs M by (simp add: d'_def Let_def saturate_def)
  have aged: "unat (counter (rrpv (d' e))) = unat (counter (rrpv (d e))) + (unat M - ?k)" if e: "e \<in> set cs" for e
  proof -
    have wf: "sat_wf (rrpv (d e))" "max_val (rrpv (d e)) = M" using assms(4) e by auto
    have small: "?diff < 2 ^ LENGTH(8)" using uint_lt2p [of "M - counter (rrpv (d v))"] by simp
    have le_k: "unat (counter (rrpv (d e))) \<le> ?k" using v(2) e by (simp add: word_le_nat_alt)
    have k_M: "?k \<le> unat M" using le by (simp add: word_le_nat_alt)
    show ?thesis
    proof (cases "0 < ?diff")
      case True
      have "rrpv (d' e) = sat_add ?diff (rrpv (?d e))"
        using True e assms(1) by (simp add: d'_def fold_upd_rrpv)
      moreover have "sat_wf (rrpv (?d e))" "max_val (rrpv (?d e)) = M"
        using wf saturate_wf by (auto simp: upd_rrpv_def)
      ultimately have "unat (counter (rrpv (d' e))) = min (unat M) (unat (counter (rrpv (?d e))) + (unat M - ?k))"
        using sat_add_exact [of "rrpv (?d e)" ?diff] True small diff by simp
      then show ?thesis using le_k k_M M by (cases "e = v") (auto simp: upd_rrpv_def saturate_def)
    next
      case False
      with uint_ge_0 [of "M - counter (rrpv (d v))"] have "?diff = 0" by linarith
      with diff k_M have "unat M = ?k" by simp
      then have "counter (rrpv (d v)) = M" by (simp add: word_unat_eq_iff)
      with False M \<open>unat M = ?k\<close> show ?thesis by (cases "e = v") (auto simp: d'_def upd_rrpv_def saturate_def)
    qed
  qed
  have rest: "rrpv (d' e) = rrpv (d e)" if "e \<notin> set cs" for e
    using that v_in assms(1) by (cases "e = v") (auto simp: d'_def fold_upd_rrpv upd_rrpv_def)
  have "rrip_search (unat M) cs (\<lambda>e. unat (counter (rrpv (d e))))
      = Some (v, \<lambda>e. if e \<in> set cs then unat (counter (rrpv (d e))) + (unat M - ?k) else unat (counter (rrpv (d e))))"
    using rrip_search_steps [OF first, of "unat M"] v(2) le by (simp add: word_le_nat_alt)
  also have "\<dots> = Some (v, \<lambda>e. unat (counter (rrpv (d' e))))"
    using aged rest by (auto simp: fun_eq_iff)
  finally show ?thesis using run by blast
qed

theorem brrip_refines_rrip_witness:
  "\<exists>v d'. brrip_victim [1, 2, 3] three_aged = Some (v, d')
    \<and> rrip_search 7 [1, 2, 3] (\<lambda>e. unat (counter (rrpv (three_aged e)))) = Some (v, \<lambda>e. unat (counter (rrpv (d' e))))"
  using brrip_refines_rrip [of "[1, 2, 3]" three_aged 7] by (simp add: three_aged_def sat_wf_def)

end
