(* ===== verification/Ship.thy ===== *)
theory Ship
  imports Rrip
begin

text \<open>
  SHiP (\<open>ship_rp.cc\<close>): BRRIP with a table of counters indexed by a signature of the packet, which
  decides how an entry is inserted. The two subclasses differ in the signature; what both rely on
  is the locale \<open>ship_signature\<close>. The overloads without a packet panic.
\<close>

text \<open>What a policy reads from a packet: its address and, when the request has one, its PC.\<close>

record rp_packet =
  pkt_addr :: u64
  pkt_pc :: "u64 option"

record ship_data = brrip_data +
  signature :: u64
  outcome :: bool

record ship_policy =
  shct :: "sat8 list"
  ship_repl :: "entry \<Rightarrow> ship_data"

record ship_params =
  ship_brrip :: brrip_params
  insertion_threshold :: f32

definition new_ship :: "brrip_params \<Rightarrow> u32 \<Rightarrow> ship_params" where
  "new_ship P threshold = \<lparr>ship_brrip = P, insertion_threshold = f64_quot (uint threshold) 100\<rparr>"

definition new_shct :: "brrip_params \<Rightarrow> u32 \<Rightarrow> sat8 list option" where
  "new_shct P entries = map_option (replicate (unat entries)) (new_sat (rrpv_bits P) 0)"

definition new_ship_data :: "brrip_params \<Rightarrow> ship_data option" where
  "new_ship_data P =
     map_option (\<lambda>s. \<lparr>rrpv = s, brrip_valid = False, signature = 0, outcome = False\<rparr>)
       (new_sat (rrpv_bits P) 0)"

definition set_signature :: "u64 \<Rightarrow> ship_data \<Rightarrow> ship_data" where
  "set_signature s r = r\<lparr>signature := s, outcome := False\<rparr>"

definition set_re_referenced :: "ship_data \<Rightarrow> ship_data" where
  "set_re_referenced r = r\<lparr>outcome := True\<rparr>"

definition ship_mem_signature :: "rp_packet \<Rightarrow> nat \<Rightarrow> u64 option" where
  "ship_mem_signature pkt entries =
     (if (of_nat entries :: u64) = 0 then None else Some (pkt_addr pkt mod of_nat entries))"

definition ship_pc_signature :: "rp_packet \<Rightarrow> nat \<Rightarrow> u64 option" where
  "ship_pc_signature pkt entries =
     (let s = (case pkt_pc pkt of Some pc \<Rightarrow> pc | None \<Rightarrow> 0) in
      if (of_nat entries :: u64) = 0 then None else Some (s mod of_nat entries))"

definition upd_shct :: "(sat8 \<Rightarrow> sat8) \<Rightarrow> u64 \<Rightarrow> sat8 list \<Rightarrow> sat8 list option" where
  "upd_shct f i t = do { c \<leftarrow> nth_opt t (unat i); update_opt t (unat i) (f c) }"

definition ship_invalidate :: "entry \<Rightarrow> ship_policy \<Rightarrow> ship_policy option" where
  "ship_invalidate e p =
     (let r = ship_repl p e in do {
        t \<leftarrow> (if outcome r then upd_shct sat_dec (signature r) (shct p) else Some (shct p));
        Some (p\<lparr>shct := t, ship_repl := brrip_invalidate e (ship_repl p)\<rparr>) })"

definition ship_touch ::
  "(rp_packet \<Rightarrow> nat \<Rightarrow> u64 option) \<Rightarrow> ship_params \<Rightarrow> rp_packet \<Rightarrow> entry \<Rightarrow> ship_policy \<Rightarrow> ship_policy option" where
  "ship_touch sign S pkt e p = do {
     s \<leftarrow> sign pkt (length (shct p));
     t \<leftarrow> upd_shct sat_inc s (shct p);
     let d = (ship_repl p)(e := set_re_referenced (ship_repl p e)) in
     Some (p\<lparr>shct := t, ship_repl := brrip_touch (ship_brrip S) e d\<rparr>) }"

definition ship_reset ::
  "(rp_packet \<Rightarrow> nat \<Rightarrow> u64 option) \<Rightarrow> ship_params \<Rightarrow> rp_env \<times> rp_packet \<Rightarrow> entry \<Rightarrow> ship_policy \<Rightarrow> ship_policy option" where
  "ship_reset sign S ep e p = (case ep of (env, pkt) \<Rightarrow> do {
     s \<leftarrow> sign pkt (length (shct p));
     let d = (ship_repl p)(e := set_signature s (ship_repl p e)) in do {
       d \<leftarrow> brrip_reset (ship_brrip S) env e d;
       c \<leftarrow> nth_opt (shct p) (unat s);
       Some (p\<lparr>ship_repl :=
         (if f32_ge (calc_saturation c) (insertion_threshold S) then upd_rrpv sat_dec e d else d)\<rparr>) } })"

definition ship_touch_without_packet :: "entry \<Rightarrow> ship_policy \<Rightarrow> ship_policy option" where
  "ship_touch_without_packet e p = None"

definition ship_reset_without_packet :: "entry \<Rightarrow> ship_policy \<Rightarrow> ship_policy option" where
  "ship_reset_without_packet e p = None"

definition ship_victim :: "entry list \<Rightarrow> ship_policy \<Rightarrow> (entry \<times> ship_policy) option" where
  "ship_victim cs p = map_option (\<lambda>(v, d). (v, p\<lparr>ship_repl := d\<rparr>)) (brrip_victim cs (ship_repl p))"

section \<open>The signatures index the table\<close>

definition ship_sound :: "entry list \<Rightarrow> ship_policy \<Rightarrow> bool" where
  "ship_sound cs p \<longleftrightarrow> 0 < length (shct p) \<and> length (shct p) < 2 ^ 64
     \<and> (\<forall>e \<in> set cs. unat (signature (ship_repl p e)) < length (shct p))"

text \<open>The BRRIP part of an operation does not touch the signatures.\<close>

lemma signature_kept [simp]:
  "signature (upd_rrpv f e d x) = signature (d x)" "outcome (upd_rrpv f e d x) = outcome (d x)"
  "signature (brrip_invalidate e d x) = signature (d x)"
  "signature (brrip_touch P e d x) = signature (d x)"
  by (simp_all add: upd_rrpv_def brrip_invalidate_def brrip_touch_def)

lemma signature_reset:
  "brrip_reset P env e d = Some d' \<Longrightarrow> signature (d' x) = signature (d x) \<and> outcome (d' x) = outcome (d x)"
  by (auto simp: brrip_reset_def Let_def bind_Some_iff split: if_splits)

lemma signature_fold: "signature (fold (upd_rrpv f) cs d x) = signature (d x)"
  by (induction cs arbitrary: d) simp_all

lemma signature_victim: "brrip_victim cs d = Some (v, d') \<Longrightarrow> signature (d' x) = signature (d x)"
  by (cases cs) (auto simp: Let_def signature_fold split: sum.splits if_splits simp del: fold_simps)

lemma upd_shct_in: "unat i < length t \<Longrightarrow> upd_shct f i t = Some (t[unat i := f (t ! unat i)])"
  by (simp add: upd_shct_def)

text \<open>What a touch does to the table of counters.\<close>

definition train :: "(rp_packet \<Rightarrow> nat \<Rightarrow> u64 option) \<Rightarrow> rp_packet \<Rightarrow> sat8 list \<Rightarrow> sat8 list option" where
  "train sign q t = do { j \<leftarrow> sign q (length t); upd_shct sat_inc j t }"

locale ship_signature =
  fixes sign :: "rp_packet \<Rightarrow> nat \<Rightarrow> u64 option" and S :: ship_params
  assumes sign_below: "0 < n \<Longrightarrow> n < 2 ^ 64 \<Longrightarrow> \<exists>i. sign pkt n = Some i \<and> unat i < n"
begin

lemma ship_touch_sound:
  assumes "ship_sound cs p"
  shows "\<exists>p'. ship_touch sign S pkt e p = Some p' \<and> ship_sound cs p'"
proof -
  from sign_below [of "length (shct p)" pkt] assms obtain i where
    i: "sign pkt (length (shct p)) = Some i" "unat i < length (shct p)" by (auto simp: ship_sound_def)
  with assms show ?thesis
    by (auto simp: ship_touch_def upd_shct_in Let_def ship_sound_def set_re_referenced_def)
qed

lemma ship_reset_sound:
  assumes "ship_sound cs p"
  shows "\<exists>p'. ship_reset sign S ep e p = Some p' \<and> ship_sound cs p'"
proof -
  obtain env pkt where ep: "ep = (env, pkt)" by (cases ep)
  from sign_below [of "length (shct p)" pkt] assms obtain i where
    i: "sign pkt (length (shct p)) = Some i" "unat i < length (shct p)" by (auto simp: ship_sound_def)
  let ?d = "(ship_repl p)(e := set_signature i (ship_repl p e))"
  obtain d where d: "brrip_reset (ship_brrip S) env e ?d = Some d"
    by (cases "random_range (rp_rand env) 1 100") (auto simp: brrip_reset_def Let_def)
  from i(2) assms signature_reset [OF d] have "unat (signature (d x)) < length (shct p)" if "x \<in> set cs" for x
    using that by (auto simp: ship_sound_def set_signature_def)
  with ep i d assms show ?thesis by (auto simp: ship_reset_def ship_sound_def Let_def)
qed

lemma ship_touches_sound:
  assumes "ship_sound cs p"
  shows "\<exists>p'. fold_opt (\<lambda>q. ship_touch sign S q e) qs p = Some p' \<and> ship_sound cs p'"
  using assms
proof (induction qs arbitrary: p)
  case (Cons q qs)
  from ship_touch_sound [OF Cons.prems, of q e] Cons.IH show ?case by auto
qed simp

text \<open>Touches count for the signatures of their packets and leave the signature of the entry.\<close>

lemma ship_touches:
  assumes "fold_opt (\<lambda>q. ship_touch sign S q e) qs p = Some p'"
  shows "fold_opt (train sign) qs (shct p) = Some (shct p') \<and> signature (ship_repl p' e) = signature (ship_repl p e)
    \<and> outcome (ship_repl p' e) = (outcome (ship_repl p e) \<or> qs \<noteq> [])"
  using assms
proof (induction qs arbitrary: p)
  case (Cons q qs)
  then obtain p1 where p1: "ship_touch sign S q e p = Some p1" "fold_opt (\<lambda>q. ship_touch sign S q e) qs p1 = Some p'"
    by (auto simp: bind_Some_iff)
  from p1(1) have "train sign q (shct p) = Some (shct p1)" "signature (ship_repl p1 e) = signature (ship_repl p e)"
    "outcome (ship_repl p1 e)"
    by (auto simp: ship_touch_def train_def bind_Some_iff Let_def set_re_referenced_def brrip_touch_def upd_rrpv_def)
  with Cons.IH [OF p1(2)] show ?case by simp
qed simp

lemma charged_only_if_touched:
  assumes "ship_sound [e] p"
  shows "\<exists>p1 p2 p3 i. ship_reset sign S (env, pkt) e p = Some p1 \<and> shct p1 = shct p
    \<and> fold_opt (\<lambda>q. ship_touch sign S q e) qs p1 = Some p2 \<and> fold_opt (train sign) qs (shct p) = Some (shct p2)
    \<and> sign pkt (length (shct p)) = Some i \<and> unat i < length (shct p2) \<and> ship_invalidate e p2 = Some p3
    \<and> shct p3 = (if qs = [] then shct p else (shct p2)[unat i := sat_dec (shct p2 ! unat i)])"
proof -
  from ship_reset_sound [OF assms, where ep = "(env, pkt)" and e = e] obtain p1 where
    p1: "ship_reset sign S (env, pkt) e p = Some p1" "ship_sound [e] p1" by blast
  from sign_below [of "length (shct p)" pkt] assms obtain i where
    i: "sign pkt (length (shct p)) = Some i" by (auto simp: ship_sound_def)
  from p1(1) i have t1: "shct p1 = shct p"
    and s1: "signature (ship_repl p1 e) = i" "\<not> outcome (ship_repl p1 e)"
    by (auto simp: ship_reset_def Let_def bind_Some_iff set_signature_def split: if_splits
        dest!: signature_reset [where x = e])
  from ship_touches_sound [OF p1(2), of e qs] obtain p2 where
    p2: "fold_opt (\<lambda>q. ship_touch sign S q e) qs p1 = Some p2" "ship_sound [e] p2" by blast
  note t2 = ship_touches [OF p2(1), unfolded t1 s1(1)]
  have i2: "unat i < length (shct p2)" using p2(2) t2 by (simp add: ship_sound_def)
  have "\<exists>p3. ship_invalidate e p2 = Some p3
      \<and> shct p3 = (if qs = [] then shct p2 else (shct p2)[unat i := sat_dec (shct p2 ! unat i)])"
    using t2 s1(2) i2 by (simp add: ship_invalidate_def Let_def upd_shct_in)
  moreover have "qs = [] \<Longrightarrow> shct p2 = shct p" using t2 by simp
  ultimately show ?thesis using p1(1) t1 p2(1) t2 i i2 by auto
qed

end

sublocale ship_signature \<subseteq> replacement_policy
  ship_invalidate "\<lambda>(env, pkt). ship_touch sign S pkt" "ship_reset sign S" "\<lambda>env. ship_victim" ship_sound
proof unfold_locales
  fix cs :: "entry list" and p
  assume "cs \<noteq> []"
  then show "\<exists>v p'. ship_victim cs p = Some (v, p')"
    using brrip.victim_found [where cs = cs and s = "ship_repl p"] by (auto simp: ship_victim_def)
next
  fix cs e p
  assume "ship_sound cs p" "e \<in> set cs"
  then show "\<exists>p'. ship_invalidate e p = Some p' \<and> ship_sound cs p'"
    by (auto simp: ship_invalidate_def ship_sound_def upd_shct_in Let_def)
next
  fix cs ds :: "entry list" and p v p'
  assume "ship_sound ds p" "ship_victim cs p = Some (v, p')"
  then show "ship_sound ds p'" by (auto simp: ship_victim_def ship_sound_def signature_victim)
qed (auto simp: ship_victim_def split: prod.splits intro: ship_touch_sound ship_reset_sound dest: brrip_victim_in)

lemma mod_below:
  assumes "0 < n" "n < 2 ^ 64"
  shows "(of_nat n :: u64) \<noteq> 0" "unat (a mod of_nat n :: u64) < n"
proof -
  have n: "unat (of_nat n :: u64) = n" using assms(2) by (simp add: unsigned_of_nat take_bit_nat_eq_self)
  then show "(of_nat n :: u64) \<noteq> 0" using assms(1) by (metis unsigned_0 less_numeral_extra(3))
  have "unat (a mod of_nat n) = unat a mod unat (of_nat n :: u64)" by (rule unat_mod_distrib)
  with n assms(1) show "unat (a mod of_nat n :: u64) < n" by simp
qed

interpretation ship_mem: ship_signature ship_mem_signature S for S
  by unfold_locales (auto simp: ship_mem_signature_def mod_below)

interpretation ship_pc: ship_signature ship_pc_signature S for S
  by unfold_locales (auto simp: ship_pc_signature_def Let_def mod_below)

section \<open>Properties\<close>

definition one_counter :: sat8 where
  "one_counter = \<lparr>initial_val = 0, max_val = 7, counter = 0\<rparr>"

definition small_ship :: ship_policy where
  "small_ship = \<lparr>shct = [one_counter, one_counter],
     ship_repl = (\<lambda>_. \<lparr>rrpv = one_counter, brrip_valid = False, signature = 0, outcome = False\<rparr>)\<rparr>"

definition small_params :: ship_params where
  "small_params = new_ship \<lparr>rrpv_bits = 3, hit_priority = False, brrip_btp = 100\<rparr> 50"

abbreviation draw_zero :: rp_env where
  "draw_zero \<equiv> \<lparr>rp_now = 0, rp_rand = 0\<rparr>"

text \<open>C29: Detraining of SHiP is inverted, for both signatures. An entry is inserted for a packet, touched by any
  packets and invalidated. If it was never touched, the table of counters is as before the insertion: the
  signature that brought a useless entry is not detrained. If it was touched, each touch has incremented
  the counter of its own packet, and the invalidation then decrements the counter of the packet of the
  insertion, saturating at zero.\<close>

theorem ship_does_not_detrain:
  assumes "ship_sound [e] p" "sign = ship_mem_signature \<or> sign = ship_pc_signature"
  shows "\<exists>p1 p2 p3 i. ship_reset sign S (env, pkt) e p = Some p1 \<and> shct p1 = shct p
    \<and> fold_opt (\<lambda>q. ship_touch sign S q e) qs p1 = Some p2 \<and> fold_opt (train sign) qs (shct p) = Some (shct p2)
    \<and> sign pkt (length (shct p)) = Some i \<and> unat i < length (shct p2) \<and> ship_invalidate e p2 = Some p3
    \<and> shct p3 = (if qs = [] then shct p else (shct p2)[unat i := sat_dec (shct p2 ! unat i)])"
  using assms ship_mem.charged_only_if_touched ship_pc.charged_only_if_touched by blast

text \<open>Two touches, by the packet of the insertion and by another, end with one counter at zero and one at one.\<close>

theorem ship_does_not_detrain_witness:
  "\<exists>p1 p2 p3. ship_reset ship_pc_signature small_params (draw_zero, \<lparr>pkt_addr = 0, pkt_pc = Some 5\<rparr>) 0 small_ship = Some p1
    \<and> fold_opt (\<lambda>q. ship_touch ship_pc_signature small_params q 0)
        [\<lparr>pkt_addr = 0, pkt_pc = Some 5\<rparr>, \<lparr>pkt_addr = 0, pkt_pc = None\<rparr>] p1 = Some p2
    \<and> ship_invalidate 0 p2 = Some p3 \<and> map counter (shct p2) = [1, 1] \<and> map counter (shct p3) = [1, 0]"
proof -
  have "ship_sound [0] small_ship" by (simp add: ship_sound_def small_ship_def)
  from ship_does_not_detrain [OF this disjI2 [OF refl], of small_params draw_zero "\<lparr>pkt_addr = 0, pkt_pc = Some 5\<rparr>"
      "[\<lparr>pkt_addr = 0, pkt_pc = Some 5\<rparr>, \<lparr>pkt_addr = 0, pkt_pc = None\<rparr>]"]
  obtain p1 p2 p3 i where
    r: "ship_reset ship_pc_signature small_params (draw_zero, \<lparr>pkt_addr = 0, pkt_pc = Some 5\<rparr>) 0 small_ship = Some p1"
      "fold_opt (\<lambda>q. ship_touch ship_pc_signature small_params q 0)
        [\<lparr>pkt_addr = 0, pkt_pc = Some 5\<rparr>, \<lparr>pkt_addr = 0, pkt_pc = None\<rparr>] p1 = Some p2"
      "ship_invalidate 0 p2 = Some p3"
    and t: "fold_opt (train ship_pc_signature) [\<lparr>pkt_addr = 0, pkt_pc = Some 5\<rparr>, \<lparr>pkt_addr = 0, pkt_pc = None\<rparr>]
        (shct small_ship) = Some (shct p2)"
      "ship_pc_signature \<lparr>pkt_addr = 0, pkt_pc = Some 5\<rparr> (length (shct small_ship)) = Some i"
      "shct p3 = (shct p2)[unat i := sat_dec (shct p2 ! unat i)]" by auto
  have "map_option (map counter) (fold_opt (train ship_pc_signature)
      [\<lparr>pkt_addr = 0, pkt_pc = Some 5\<rparr>, \<lparr>pkt_addr = 0, pkt_pc = None\<rparr>] (shct small_ship)) = Some [1, 1]"
    "ship_pc_signature \<lparr>pkt_addr = 0, pkt_pc = Some 5\<rparr> (length (shct small_ship)) = Some 1" by code_simp+
  with t have c: "map counter (shct p2) = [1, 1]" and i: "i = 1" by auto
  then obtain x y where xy: "shct p2 = [x, y]" "counter x = 1" "counter y = 1" by (auto simp: map_eq_Cons_conv)
  then have "map counter (shct p3) = [1, 0]" by (simp add: t(3) i sat_dec_def)
  with r c show ?thesis by (intro exI conjI)
qed

end
