(* ===== verification/TreePlru.thy ===== *)
theory TreePlru
  imports ReplBase Float32
begin

text \<open>
  The tree pseudo-LRU policy (\<open>tree_plru_rp.cc\<close>). The entries of a set share a tree of bits, one
  bit per inner node, stored as an array: the data of an entry holds its leaf index and the tree,
  here an index into a store of trees. A vector access out of range throws, hence \<open>None\<close>; the
  loops are partial functions because indices are 64-bit numbers, and they are proved to end for
  every leaf of a tree of at most \<open>2^53\<close> leaves.
\<close>

section \<open>The policy\<close>

record plru_data =
  leaf_index :: u64
  leaf_tree :: nat

record plru_policy =
  num_leaves :: u64
  plru_count :: u64
  tree_instance :: "nat option"
  plru_trees :: "bool list list"
  plru_repl :: "entry \<Rightarrow> plru_data"

text \<open>\<open>std::floor\<close> works on a \<open>double\<close>, so the halved index takes the detour through one.\<close>

definition double_to_u64 :: "f32 \<Rightarrow> u64" where
  "double_to_u64 x =
     word_of_int (if 0 \<le> expo x then mantissa x * 2 ^ nat (expo x) else mantissa x div 2 ^ nat (- expo x))"

definition parent_index :: "u64 \<Rightarrow> u64" where
  "parent_index i = double_to_u64 (f64_quot (uint ((i - 1) div 2)) 1)"

definition left_subtree_index :: "u64 \<Rightarrow> u64" where
  "left_subtree_index i = 2 * i + 1"

definition right_subtree_index :: "u64 \<Rightarrow> u64" where
  "right_subtree_index i = 2 * i + 2"

definition is_right_subtree :: "u64 \<Rightarrow> bool" where
  "is_right_subtree i \<longleftrightarrow> i mod 2 = 0"

definition new_plru :: "u64 \<Rightarrow> (entry \<Rightarrow> plru_data) \<Rightarrow> plru_policy option" where
  "new_plru leaves repl =
     (if leaves < 1 then None
      else Some \<lparr>num_leaves = leaves, plru_count = 0, tree_instance = None, plru_trees = [], plru_repl = repl\<rparr>)"

text \<open>The loop from a leaf to the root; \<open>point\<close> is what it stores for a right or left child.\<close>

partial_function (option) plru_up :: "(bool \<Rightarrow> bool) \<Rightarrow> u64 \<Rightarrow> bool list \<Rightarrow> bool list option" where
  "plru_up point i t =
     (let right = is_right_subtree i; up = parent_index i in do {
        t \<leftarrow> update_opt t (unat up) (point right);
        if up = 0 then Some t else plru_up point up t })"

definition plru_set_path :: "(bool \<Rightarrow> bool) \<Rightarrow> entry \<Rightarrow> plru_policy \<Rightarrow> plru_policy option" where
  "plru_set_path point e p =
     (let r = plru_repl p e in do {
        t \<leftarrow> nth_opt (plru_trees p) (leaf_tree r);
        t \<leftarrow> plru_up point (leaf_index r) t;
        Some (p\<lparr>plru_trees := (plru_trees p)[leaf_tree r := t]\<rparr>) })"

definition plru_invalidate :: "entry \<Rightarrow> plru_policy \<Rightarrow> plru_policy option" where
  "plru_invalidate = plru_set_path (\<lambda>right. right)"

definition plru_touch :: "entry \<Rightarrow> plru_policy \<Rightarrow> plru_policy option" where
  "plru_touch = plru_set_path (\<lambda>right. \<not> right)"

definition plru_reset :: "entry \<Rightarrow> plru_policy \<Rightarrow> plru_policy option" where
  "plru_reset = plru_touch"

text \<open>The walk from the root to a leaf.\<close>

partial_function (option) plru_down :: "bool list \<Rightarrow> u64 \<Rightarrow> u64 option" where
  "plru_down t i =
     (if unat i < length t
      then plru_down t (if t ! unat i then right_subtree_index i else left_subtree_index i)
      else Some i)"

definition plru_victim :: "entry list \<Rightarrow> plru_policy \<Rightarrow> entry option" where
  "plru_victim cs p = do {
     c \<leftarrow> nth_opt cs 0;
     t \<leftarrow> nth_opt (plru_trees p) (leaf_tree (plru_repl p c));
     i \<leftarrow> plru_down t 0;
     nth_opt cs (unat (i - (num_leaves p - 1))) }"

definition plru_instantiate :: "entry \<Rightarrow> plru_policy \<Rightarrow> plru_policy option" where
  "plru_instantiate e p = (let
     p = (if plru_count p mod num_leaves p = 0
          then p\<lparr>plru_trees := plru_trees p @ [replicate (unat (num_leaves p - 1)) False],
                 tree_instance := Some (length (plru_trees p))\<rparr>
          else p) in do {
     tree \<leftarrow> tree_instance p;
     Some (p\<lparr>plru_repl := (plru_repl p)(e := \<lparr>leaf_index = plru_count p mod num_leaves p + num_leaves p - 1,
                                              leaf_tree = tree\<rparr>),
             plru_count := plru_count p + 1\<rparr>) })"

section \<open>The indices as natural numbers\<close>

lemma double_exact:
  assumes "0 \<le> n" "n < 2 ^ 53"
  shows "double_to_u64 (f64_quot n 1) = word_of_int n"
proof (cases "n = 0")
  case True
  then show ?thesis by (simp add: double_to_u64_def float_quot_def)
next
  case False
  with assms have n: "0 < n" by simp
  let ?b = "bit_length n"
  from bit_length_bounds [OF n] have b: "0 < ?b" "2 ^ (?b - 1) \<le> n" "n < 2 ^ ?b" by auto
  have b53: "?b \<le> 53"
  proof (rule ccontr)
    assume "\<not> ?thesis"
    then have "(2 :: int) ^ 53 \<le> 2 ^ (?b - 1)" by (intro power_increasing) auto
    with b(2) assms(2) show False by simp
  qed
  have one: "bit_length 1 = 1" by (simp add: bit_length.simps)
  have "(2 :: int) ^ (?b - 1) * 2 ^ (54 - ?b) = 2 ^ 53"
    using b(1) b53 by (simp flip: power_add)
  moreover have "2 ^ (?b - 1) * 2 ^ (54 - ?b) \<le> n * 2 ^ (54 - ?b)" using b(2) by (simp add: mult_right_mono)
  ultimately have ge: "2 ^ 53 \<le> n * 2 ^ (54 - ?b)" by simp
  have nats: "nat (54 - int ?b) = 54 - ?b" "nat (53 - int ?b) = 53 - ?b" by auto
  have round: "round_div x 1 = x" for x by (simp add: round_div_def)
  have "f64_quot n 1 = \<lparr>mantissa = n * 2 ^ (53 - ?b), expo = int ?b - 53\<rparr>"
    using n b53 ge nats one by (auto simp: float_quot_def Let_def round)
  then show ?thesis using b53 nats by (auto simp: double_to_u64_def)
qed

lemma parent_index_nat:
  assumes "0 < i" "i < 2 ^ 54"
  shows "parent_index (of_nat i) = of_nat ((i - 1) div 2)"
proof -
  have i: "unat (of_nat i :: u64) = i" using assms(2) by (simp add: unsigned_of_nat take_bit_nat_eq_self)
  have "unat (of_nat i - 1 :: u64) = i - 1"
    using assms(1) i by (metis unat_minus_one unsigned_0 less_numeral_extra(3))
  then have u: "uint ((of_nat i - 1 :: u64) div 2) = int ((i - 1) div 2)"
    by (simp add: uint_nat unat_div_distrib zdiv_int)
  have "int ((i - 1) div 2) < 2 ^ 53" using assms(2) by auto
  with double_exact [of "int ((i - 1) div 2)"] show ?thesis by (simp add: parent_index_def u)
qed

text \<open>The same loops on natural numbers, where they are seen to end.\<close>

fun ascend :: "(bool \<Rightarrow> bool) \<Rightarrow> nat \<Rightarrow> bool list \<Rightarrow> bool list" where
  "ascend point i t =
     (if (i - 1) div 2 = 0 then t[(i - 1) div 2 := point (even i)]
      else ascend point ((i - 1) div 2) (t[(i - 1) div 2 := point (even i)]))"

function descend :: "bool list \<Rightarrow> nat \<Rightarrow> nat" where
  "descend t i = (if i < length t then descend t (if t ! i then 2 * i + 2 else 2 * i + 1) else i)"
  by pat_completeness auto
termination
  by (relation "measure (\<lambda>(t, i). length t - i)") auto

declare ascend.simps [simp del] descend.simps [simp del]

lemma small_word: "i < 2 ^ 54 \<Longrightarrow> unat (of_nat i :: u64) = i"
  by (simp add: unsigned_of_nat take_bit_nat_eq_self)

lemma small_word_0: "i < 2 ^ 54 \<Longrightarrow> (of_nat i :: u64) = 0 \<longleftrightarrow> i = 0"
  by (auto simp: word_of_nat_eq_0_iff dest: dvd_imp_le)

lemma is_right_even: "is_right_subtree w \<longleftrightarrow> even (unat w)"
proof -
  have "unat (w mod 2) = unat w mod 2" using unat_mod_distrib [of w 2] by simp
  moreover have "w mod 2 = 0 \<longleftrightarrow> unat (w mod 2) = 0" by (metis unsigned_0 unsigned_word_eqI)
  ultimately show ?thesis by (simp add: is_right_subtree_def even_iff_mod_2_eq_zero)
qed

lemma plru_up_nat:
  assumes "0 < i" "i \<le> 2 * length t" "length t < 2 ^ 53"
  shows "plru_up point (of_nat i) t = Some (ascend point i t)"
  using assms
proof (induction point i t rule: ascend.induct)
  case (1 point i t)
  obtain up where up_def: "(i - 1) div 2 = up" by simp
  have i: "i < 2 ^ 54" using 1 by simp
  have up: "up < length t" "unat (of_nat up :: u64) = up" using 1 i up_def by (auto intro!: small_word)
  have zero: "(of_nat up :: u64) = 0 \<longleftrightarrow> up = 0" using i up_def by (intro small_word_0) auto
  have right: "is_right_subtree (of_nat i) = even i"
    using small_word [OF i] by (simp add: is_right_even)
  have parent: "parent_index (of_nat i) = of_nat up" using parent_index_nat [OF 1(2) i] by (simp only: up_def)
  have step: "plru_up point (of_nat i) t =
      (if up = 0 then Some (t[up := point (even i)]) else plru_up point (of_nat up) (t[up := point (even i)]))"
    using up(1) by (subst plru_up.simps) (simp add: parent Let_def up(2) zero right)
  show ?case
  proof (cases "up = 0")
    case True
    with up_def show ?thesis by (simp add: step ascend.simps [of point i])
  next
    case False
    with 1(1) up up_def 1(3,4) have
      "plru_up point (of_nat up) (t[up := point (even i)]) = Some (ascend point up (t[up := point (even i)]))"
      by simp
    with False up_def show ?thesis by (simp add: step ascend.simps [of point i])
  qed
qed

lemma plru_down_nat:
  assumes "i \<le> 2 * length t" "length t < 2 ^ 53"
  shows "plru_down t (of_nat i) = Some (of_nat (descend t i)) \<and> descend t i \<le> 2 * length t \<and> length t \<le> descend t i"
  using assms
proof (induction t i rule: descend.induct)
  case (1 t i)
  have i: "i < 2 ^ 54" using 1 by simp
  show ?case
  proof (cases "i < length t")
    case True
    let ?n = "if t ! i then 2 * i + 2 else 2 * i + 1"
    have "(if t ! i then right_subtree_index (of_nat i) else left_subtree_index (of_nat i)) = of_nat ?n"
      by (simp add: right_subtree_index_def left_subtree_index_def)
    then have "plru_down t (of_nat i) = plru_down t (of_nat ?n)"
      using True small_word [OF i] by (subst plru_down.simps) simp
    moreover have "descend t i = descend t ?n" using True by (subst descend.simps) simp
    ultimately show ?thesis using 1(1) [OF True] 1(3) True by auto
  next
    case False
    then show ?thesis using small_word [OF i] 1 by (subst plru_down.simps, subst (1 2 3) descend.simps) simp
  qed
qed

section \<open>What a path says\<close>

text \<open>Every ancestor of node \<open>i\<close> stores \<open>point\<close> of the side on which \<open>i\<close> lies.\<close>

fun on_path :: "(bool \<Rightarrow> bool) \<Rightarrow> bool list \<Rightarrow> nat \<Rightarrow> bool" where
  "on_path point t i \<longleftrightarrow>
     (if i = 0 then True
      else t ! ((i - 1) div 2) = point (even i) \<and> on_path point t ((i - 1) div 2))"

declare on_path.simps [simp del]

lemma ascend_length [simp]: "length (ascend point i t) = length t"
proof (induction point i t rule: ascend.induct)
  case (1 point i t)
  then show ?case by (subst ascend.simps) (simp add: Let_def)
qed

lemma ascend_above: "(i - 1) div 2 < j \<Longrightarrow> ascend point i t ! j = t ! j"
proof (induction point i t rule: ascend.induct)
  case (1 point i t)
  have "(((i - 1) div 2) - 1) div 2 < j" using 1(2) by linarith
  with 1 show ?case by (subst ascend.simps) (simp add: Let_def)
qed

lemma on_path_ascend:
  assumes "0 < i" "i \<le> 2 * length t"
  shows "on_path point (ascend point i t) i"
  using assms
proof (induction point i t rule: ascend.induct)
  case (1 point i t)
  let ?up = "(i - 1) div 2" and ?t = "t[(i - 1) div 2 := point (even i)]"
  have up: "?up < length t" using 1(2,3) by auto
  show ?case
  proof (cases "?up = 0")
    case True
    then show ?thesis using up by (subst on_path.simps, subst (1 2) ascend.simps) (simp add: on_path.simps)
  next
    case False
    then have "(?up - 1) div 2 < ?up" by simp
    then have "ascend point ?up ?t ! ?up = point (even i)" using up by (simp add: ascend_above)
    moreover have "on_path point (ascend point ?up ?t) ?up" using 1(1) [OF False] False up by simp
    ultimately show ?thesis using False by (subst on_path.simps, subst (1 2) ascend.simps) simp
  qed
qed

lemma descend_on_path:
  assumes "on_path (\<lambda>right. right) t i" "i \<le> 2 * length t"
  shows "descend t 0 = descend t i"
  using assms
proof (induction i rule: less_induct)
  case (less i)
  show ?case
  proof (cases "i = 0")
    case False
    let ?up = "(i - 1) div 2"
    from less(2) False have up: "t ! ?up = even i" "on_path (\<lambda>right. right) t ?up"
      by (auto simp: on_path.simps [of _ _ i])
    have "descend t 0 = descend t ?up" using less(1) [of ?up] up(2) False less(3) by simp
    also have "?up < length t" using False less(3) by auto
    then have "descend t ?up = descend t (if even i then 2 * ?up + 2 else 2 * ?up + 1)"
      using up(1) by (subst descend.simps) simp
    also have "(if even i then 2 * ?up + 2 else 2 * ?up + 1) = i" using False by auto
    finally show ?thesis .
  qed simp
qed

lemma on_path_descend: "on_path (\<lambda>right. right) t i \<Longrightarrow> on_path (\<lambda>right. right) t (descend t i)"
proof (induction t i rule: descend.induct)
  case (1 t i)
  show ?case
  proof (cases "i < length t")
    case True
    let ?n = "if t ! i then 2 * i + 2 else 2 * i + 1"
    have "(?n - 1) div 2 = i" "even ?n = t ! i" by auto
    with 1(2) have "on_path (\<lambda>right. right) t ?n" by (subst on_path.simps) simp
    with 1(1) [OF True] True show ?thesis by (subst descend.simps) simp
  next
    case False
    with 1(2) show ?thesis by (subst descend.simps) simp
  qed
qed

lemma invalidated_leaf_found:
  assumes "0 < i" "length t \<le> i" "i \<le> 2 * length t"
  shows "descend (ascend (\<lambda>right. right) i t) 0 = i"
proof -
  let ?t = "ascend (\<lambda>right. right) i t"
  have "descend ?t 0 = descend ?t i"
    using assms by (intro descend_on_path on_path_ascend) auto
  also have "descend ?t i = i" using assms by (subst descend.simps) simp
  finally show ?thesis .
qed

lemma touched_leaf_avoided:
  assumes "0 < i" "i \<le> 2 * length t"
  shows "descend (ascend (\<lambda>right. \<not> right) i t) 0 \<noteq> i"
proof
  let ?t = "ascend (\<lambda>right. \<not> right) i t"
  assume "descend ?t 0 = i"
  with on_path_descend [of ?t 0] have "on_path (\<lambda>right. right) ?t i" by (simp add: on_path.simps)
  moreover have "on_path (\<lambda>right. \<not> right) ?t i" using assms by (intro on_path_ascend)
  ultimately show False using assms(1) by (simp add: on_path.simps [of _ _ i])
qed

section \<open>A set of candidates with its tree\<close>

text \<open>
  The candidates are the entries that share one tree, in the order in which they were instantiated;
  the number of leaves is at least two.
\<close>

definition plru_leaves :: "nat \<Rightarrow> entry list \<Rightarrow> plru_policy \<Rightarrow> bool" where
  "plru_leaves tr cs p \<longleftrightarrow>
     2 \<le> length cs \<and> length cs \<le> 2 ^ 53 \<and> num_leaves p = of_nat (length cs) \<and> tr < length (plru_trees p)
     \<and> length (plru_trees p ! tr) = length cs - 1
     \<and> (\<forall>k < length cs. plru_repl p (cs ! k) = \<lparr>leaf_index = of_nat (length cs - 1 + k), leaf_tree = tr\<rparr>)"

definition plru_sound :: "entry list \<Rightarrow> plru_policy \<Rightarrow> bool" where
  "plru_sound cs p \<longleftrightarrow> (\<exists>tr. plru_leaves tr cs p)"

lemma plru_set_path_eq:
  assumes "plru_leaves tr cs p" "k < length cs"
  shows "plru_set_path point (cs ! k) p =
    Some (p\<lparr>plru_trees := (plru_trees p)[tr := ascend point (length cs - 1 + k) (plru_trees p ! tr)]\<rparr>)"
proof -
  let ?t = "plru_trees p ! tr" and ?i = "length cs - 1 + k"
  have "plru_up point (of_nat ?i) ?t = Some (ascend point ?i ?t)"
    using assms by (intro plru_up_nat) (auto simp: plru_leaves_def)
  with assms show ?thesis by (simp add: plru_set_path_def plru_leaves_def del: of_nat_add)
qed

lemma plru_victim_eq:
  assumes "plru_leaves tr cs p"
  shows "plru_victim cs p = Some (cs ! (descend (plru_trees p ! tr) 0 - (length cs - 1)))"
    and "descend (plru_trees p ! tr) 0 - (length cs - 1) < length cs"
proof -
  let ?t = "plru_trees p ! tr" and ?n = "length cs"
  have t: "length ?t = ?n - 1" "length ?t < 2 ^ 53" "2 \<le> ?n" "?n \<le> 2 ^ 53" using assms by (auto simp: plru_leaves_def)
  define d where "d = descend ?t 0"
  from plru_down_nat [of 0 ?t] t(2) have d: "plru_down ?t 0 = Some (of_nat d)" "d \<le> 2 * length ?t" "length ?t \<le> d"
    by (simp_all add: d_def)
  have "of_nat d - (of_nat ?n - 1 :: u64) = of_nat (d - (?n - 1))"
    using d(3) t by (simp add: of_nat_diff)
  moreover have "unat (of_nat (d - (?n - 1)) :: u64) = d - (?n - 1)"
    using d t by (intro small_word) auto
  moreover from d t show small: "descend ?t 0 - (?n - 1) < ?n" by (simp flip: d_def)
  ultimately show "plru_victim cs p = Some (cs ! (descend ?t 0 - (?n - 1)))"
  proof -
    assume w: "of_nat d - (of_nat ?n - 1 :: u64) = of_nat (d - (?n - 1))"
      and u: "unat (of_nat (d - (?n - 1)) :: u64) = d - (?n - 1)" and small: "descend ?t 0 - (?n - 1) < ?n"
    from assms t(3) have "plru_repl p (cs ! 0) = \<lparr>leaf_index = of_nat (?n - 1 + 0), leaf_tree = tr\<rparr>"
      unfolding plru_leaves_def by (metis less_le_trans zero_less_numeral)
    then have "nth_opt cs 0 = Some (cs ! 0)" "leaf_tree (plru_repl p (cs ! 0)) = tr" "num_leaves p = of_nat ?n"
      "nth_opt (plru_trees p) tr = Some ?t"
      using assms t(3) by (auto simp: plru_leaves_def)
    moreover have "nth_opt cs (unat (of_nat d - (of_nat ?n - 1 :: u64))) = Some (cs ! (d - (?n - 1)))"
      unfolding w u using small unfolding d_def [symmetric] by (rule nth_opt_in)
    ultimately show ?thesis unfolding plru_victim_def d_def [symmetric] using d(1)
      by (simp del: nth_opt_Some nth_opt_in)
  qed
qed

lemma plru_leaves_path:
  "plru_leaves tr cs p \<Longrightarrow> length t = length (plru_trees p ! tr) \<Longrightarrow> plru_leaves tr cs (p\<lparr>plru_trees := (plru_trees p)[tr := t]\<rparr>)"
  by (simp add: plru_leaves_def)

lemma plru_set_path_sound:
  assumes "plru_sound cs p" "e \<in> set cs"
  shows "\<exists>p'. plru_set_path point e p = Some p' \<and> plru_sound cs p'"
proof -
  from assms obtain tr k where "plru_leaves tr cs p" "k < length cs" "e = cs ! k"
    by (auto simp: plru_sound_def in_set_conv_nth)
  then have "plru_set_path point e p =
      Some (p\<lparr>plru_trees := (plru_trees p)[tr := ascend point (length cs - 1 + k) (plru_trees p ! tr)]\<rparr>)"
    by (metis plru_set_path_eq)
  moreover have "plru_leaves tr cs (p\<lparr>plru_trees := (plru_trees p)[tr := ascend point (length cs - 1 + k) (plru_trees p ! tr)]\<rparr>)"
    using \<open>plru_leaves tr cs p\<close> by (rule plru_leaves_path) simp
  ultimately show ?thesis unfolding plru_sound_def by blast
qed

lemma plru_victim_in: "plru_victim cs p = Some v \<Longrightarrow> v \<in> set cs"
  by (auto simp: plru_victim_def bind_Some_iff)

interpretation plru: replacement_policy
  plru_invalidate "\<lambda>env. plru_touch" "\<lambda>env. plru_reset" "\<lambda>env cs p. map_option (\<lambda>v. (v, p)) (plru_victim cs p)"
  plru_sound
proof unfold_locales
  fix cs p
  assume "plru_sound cs p" "cs \<noteq> []"
  then show "\<exists>v p'. map_option (\<lambda>v. (v, p)) (plru_victim cs p) = Some (v, p')"
    by (auto simp: plru_sound_def plru_victim_eq(1))
qed (auto simp: plru_invalidate_def plru_touch_def plru_reset_def plru_victim_in intro: plru_set_path_sound)

section \<open>Instantiating the entries of a set\<close>

lemma plru_instantiate_run:
  assumes "new_plru (of_nat n) repl = Some p0" "0 < n" "n \<le> 2 ^ 53" "distinct cs" "length cs \<le> n"
  shows "\<exists>p. fold_opt plru_instantiate cs p0 = Some p \<and> num_leaves p = of_nat n \<and> plru_count p = of_nat (length cs)
    \<and> (cs \<noteq> [] \<longrightarrow> tree_instance p = Some 0 \<and> plru_trees p = [replicate (n - 1) False])
    \<and> (cs = [] \<longrightarrow> plru_trees p = [])
    \<and> (\<forall>k < length cs. plru_repl p (cs ! k) = \<lparr>leaf_index = of_nat (n - 1 + k), leaf_tree = 0\<rparr>)"
  using assms(4,5)
proof (induction cs rule: rev_induct)
  case Nil
  from assms(1) show ?case by (auto simp: new_plru_def split: if_splits)
next
  case (snoc e cs)
  then obtain p where p: "fold_opt plru_instantiate cs p0 = Some p" "num_leaves p = of_nat n"
    "plru_count p = of_nat (length cs)"
    "cs \<noteq> [] \<longrightarrow> tree_instance p = Some 0 \<and> plru_trees p = [replicate (n - 1) False]"
    "cs = [] \<longrightarrow> plru_trees p = []"
    "\<forall>k < length cs. plru_repl p (cs ! k) = \<lparr>leaf_index = of_nat (n - 1 + k), leaf_tree = 0\<rparr>" by auto
  have len: "length cs < n" using snoc.prems by simp
  have n: "unat (of_nat n :: u64) = n" "unat (of_nat (length cs) :: u64) = length cs"
    using assms(3) len by (auto intro!: small_word)
  have "unat (of_nat (length cs) mod of_nat n :: u64) = length cs"
    using n len by (simp add: unat_mod_distrib)
  then have m: "(of_nat (length cs) mod of_nat n :: u64) = of_nat (length cs)"
    using n(2) by (metis word_unat_eq_iff)
  have z: "(of_nat (length cs) :: u64) = 0 \<longleftrightarrow> cs = []"
    using small_word_0 [of "length cs"] len assms(3) by simp
  have one: "unat (of_nat n - 1 :: u64) = n - 1"
    using n(1) assms(2) by (metis unat_minus_one unsigned_0 less_numeral_extra(3))
  have one0: "unat (of_nat (n - Suc 0) :: u64) = n - Suc 0"
    using assms(3) by (intro small_word) auto
  have idx0: "(of_nat n - 1 :: u64) = of_nat (n - Suc 0)" using assms(2) by (simp add: of_nat_diff)
  have idx: "of_nat (length cs) + of_nat n - 1 = (of_nat (n - 1 + length cs) :: u64)"
    using assms(2) by (simp add: of_nat_diff)
  have e: "e \<notin> set cs" using snoc.prems by simp
  have "plru_instantiate e p = Some (p\<lparr>plru_trees := [replicate (n - 1) False], tree_instance := Some 0,
      plru_repl := (plru_repl p)(e := \<lparr>leaf_index = of_nat (n - 1 + length cs), leaf_tree = 0\<rparr>),
      plru_count := of_nat (length cs) + 1\<rparr>)"
    using p(4,5) by (cases "cs = []") (auto simp: plru_instantiate_def Let_def p(2,3) m z one one0 idx idx0)
  with p(1,2,6) e snoc.prems show ?case
    by (auto simp: fold_opt_append nth_append less_Suc_eq add.commute)
qed

lemma plru_instantiate_sound:
  assumes "new_plru (of_nat (length cs)) repl = Some p0" "2 \<le> length cs" "length cs \<le> 2 ^ 53" "distinct cs"
  shows "\<exists>p. fold_opt plru_instantiate cs p0 = Some p \<and> plru_sound cs p"
proof -
  from assms have ne: "cs \<noteq> []" by auto
  from plru_instantiate_run [OF assms(1) _ assms(3,4)] assms(2) ne obtain p where
    "fold_opt plru_instantiate cs p0 = Some p" "num_leaves p = of_nat (length cs)"
    "plru_trees p = [replicate (length cs - 1) False]"
    "\<forall>k < length cs. plru_repl p (cs ! k) = \<lparr>leaf_index = of_nat (length cs - 1 + k), leaf_tree = 0\<rparr>" by force
  with assms have "plru_leaves 0 cs p" by (simp add: plru_leaves_def)
  with \<open>fold_opt plru_instantiate cs p0 = Some p\<close> show ?thesis by (auto simp: plru_sound_def)
qed

section \<open>Properties\<close>

text \<open>C23: What the tree remembers. In a sound tree of at least two leaves a touched entry is not the next
  victim among the leaves, and an invalidated entry is.\<close>

theorem plru_touched_and_invalidated:
  assumes "plru_sound cs p" "distinct cs" "e \<in> set cs"
  shows "(\<exists>p' v. plru_touch e p = Some p' \<and> plru_victim cs p' = Some v \<and> v \<noteq> e \<and> v \<in> set cs)
    \<and> (\<exists>p'. plru_invalidate e p = Some p' \<and> plru_victim cs p' = Some e)"
proof -
  from assms obtain tr k where tr: "plru_leaves tr cs p" and k: "k < length cs" "e = cs ! k"
    by (auto simp: plru_sound_def in_set_conv_nth)
  let ?t = "plru_trees p ! tr" and ?i = "length cs - 1 + k"
  have t: "tr < length (plru_trees p)" "length ?t = length cs - 1" "2 \<le> length cs"
    using tr by (auto simp: plru_leaves_def)
  have i: "0 < ?i" "length ?t \<le> ?i" "?i \<le> 2 * length ?t" using t k by auto
  let ?p = "\<lambda>point. p\<lparr>plru_trees := (plru_trees p)[tr := ascend point ?i ?t]\<rparr>"
  have leaves: "plru_leaves tr cs (?p point)" for point using tr by (simp add: plru_leaves_path)
  have run: "plru_set_path point e p = Some (?p point)" for point
    unfolding k(2) by (rule plru_set_path_eq [OF tr k(1)])
  have vic: "\<exists>j < length cs. plru_victim cs (?p point) = Some (cs ! j) \<and> descend (ascend point ?i ?t) 0 = length cs - 1 + j"
    for point
  proof -
    obtain d where d: "descend (ascend point ?i ?t) 0 = d" by blast
    have "plru_trees (?p point) ! tr = ascend point ?i ?t" using t(1) by simp
    with plru_victim_eq [OF leaves, of point] have
      v: "plru_victim cs (?p point) = Some (cs ! (d - (length cs - 1)))" "d - (length cs - 1) < length cs"
      by (simp_all only: d)
    moreover have "length cs - 1 \<le> d"
      using plru_down_nat [of 0 "ascend point ?i ?t"] t tr d by (auto simp: plru_leaves_def)
    then have "d = length cs - 1 + (d - (length cs - 1))" by simp
    ultimately show ?thesis using d by blast
  qed
  obtain j where j: "j < length cs" "plru_victim cs (?p (\<lambda>right. \<not> right)) = Some (cs ! j)"
    "descend (ascend (\<lambda>right. \<not> right) ?i ?t) 0 = length cs - 1 + j" using vic by blast
  from touched_leaf_avoided [OF i(1,3)] j(3) have "j \<noteq> k" by auto
  with j(1) k assms(2) have "cs ! j \<noteq> e" by (simp add: nth_eq_iff_index_eq)
  with run j(1,2) have "\<exists>p' v. plru_touch e p = Some p' \<and> plru_victim cs p' = Some v \<and> v \<noteq> e \<and> v \<in> set cs"
    unfolding plru_touch_def by (metis nth_mem)
  note touched = this
  obtain j where "j < length cs" "plru_victim cs (?p (\<lambda>right. right)) = Some (cs ! j)"
    "descend (ascend (\<lambda>right. right) ?i ?t) 0 = length cs - 1 + j" using vic by blast
  moreover from this(3) invalidated_leaf_found [OF i] have "j = k" by linarith
  ultimately have "plru_victim cs (?p (\<lambda>right. right)) = Some e" using k(2) by simp
  with run have "\<exists>p'. plru_invalidate e p = Some p' \<and> plru_victim cs p' = Some e"
    unfolding plru_invalidate_def by blast
  with touched show ?thesis by blast
qed

definition no_leaf :: "entry \<Rightarrow> plru_data" where
  "no_leaf e = \<lparr>leaf_index = 0, leaf_tree = 0\<rparr>"

theorem plru_touched_and_invalidated_witness:
  "\<exists>p0 p p'. new_plru 4 no_leaf = Some p0 \<and> fold_opt plru_instantiate [10, 11, 12, 13] p0 = Some p
    \<and> plru_invalidate 12 p = Some p' \<and> plru_victim [10, 11, 12, 13] p' = Some 12"
proof -
  obtain p0 where p0: "new_plru 4 no_leaf = Some p0" by (simp add: new_plru_def)
  with plru_instantiate_sound [of "[10, 11, 12, 13]" no_leaf p0] obtain p where
    p: "fold_opt plru_instantiate [10, 11, 12, 13] p0 = Some p" "plru_sound [10, 11, 12, 13] p" by auto
  with plru_touched_and_invalidated [OF p(2), of 12] p0 show ?thesis by auto
qed

text \<open>A tree of one leaf passes the constructor, but its only leaf has no parent: reset, touch and
  invalidation of its entry throw, while a victim is still found.\<close>

theorem plru_one_leaf_throws:
  "\<exists>p0 p. new_plru 1 no_leaf = Some p0 \<and> plru_instantiate e p0 = Some p
    \<and> plru_reset e p = None \<and> plru_touch e p = None \<and> plru_invalidate e p = None \<and> plru_victim [e] p = Some e"
proof -
  have up: "plru_up point i [] = None" for point i by (subst plru_up.simps) (simp add: Let_def update_opt_def)
  have down: "plru_down [] 0 = Some 0" by (subst plru_down.simps) simp
  show ?thesis
    by (simp add: new_plru_def plru_instantiate_def plru_reset_def plru_touch_def plru_invalidate_def
        plru_set_path_def plru_victim_def up down nth_opt_def)
qed

end
