(* ===== verification/Dueling.thy ===== *)
theory Dueling
  imports SatCounter StampPolicies
begin

text \<open>
  Set dueling (\<open>tags/dueling.cc\<close>) and the replacement policy built on it (\<open>dueling_rp.cc\<close>): two
  policies are kept up to date side by side, sampled entries always use one of them, and a counter
  of the misses of the samples decides for the others. The number of monitors made so far is a
  static member, here an argument of the constructor.
\<close>

section \<open>Duelers\<close>

record dueler =
  is_sample_bits :: u64
  team_bits :: u64

definition new_dueler :: dueler where
  "new_dueler = \<lparr>is_sample_bits = 0, team_bits = 0\<rparr>"

text \<open>\<open>popCount\<close> of the stub: the number of bits that are set.\<close>

definition pop_count :: "u64 \<Rightarrow> nat" where
  "pop_count w = count_if (\<lambda>n. bit w n) [0..<64]"

definition set_sample :: "u64 \<Rightarrow> bool \<Rightarrow> dueler \<Rightarrow> dueler option" where
  "set_sample i team d = do {
     cpp_assert (pop_count i = 1);
     cpp_assert (is_sample_bits d AND i = 0);
     Some \<lparr>is_sample_bits = is_sample_bits d OR i, team_bits = (if team then team_bits d OR i else team_bits d)\<rparr> }"

text \<open>Both results: whether the dueler is a sample, and its team.\<close>

definition dueler_is_sample :: "u64 \<Rightarrow> dueler \<Rightarrow> bool \<times> bool" where
  "dueler_is_sample i d = (is_sample_bits d AND i \<noteq> 0, team_bits d AND i \<noteq> 0)"

section \<open>The monitor\<close>

record monitor =
  monitor_id :: u64
  constituency_size :: u64
  team_size :: u64
  low_threshold :: f32
  high_threshold :: f32
  selector :: "u32 sat_counter"
  region_counter :: u32
  winner :: bool

definition num_duelers :: u64 where
  "num_duelers = 2"

text \<open>
  \<open>1 << numInstances\<close> has type \<open>int\<close>: at 31 it is the least number, which is sign-extended, and
  beyond there is no defined value.
\<close>

definition instance_id :: "u32 \<Rightarrow> u64 option" where
  "instance_id n = (if unat n < 32 then Some (scast (push_bit (unat n) 1 :: u32)) else None)"

abbreviation f64_zero :: f32 where
  "f64_zero \<equiv> \<lparr>mantissa = 0, expo = 0\<rparr>"

abbreviation f64_one :: f32 where
  "f64_one \<equiv> \<lparr>mantissa = 1, expo = 0\<rparr>"

definition new_monitor ::
  "u32 \<Rightarrow> u64 \<Rightarrow> u64 \<Rightarrow> u32 \<Rightarrow> f32 \<Rightarrow> f32 \<Rightarrow> (monitor \<times> u32) option" where
  "new_monitor instances constituency team bits low high = do {
     i \<leftarrow> instance_id instances;
     s \<leftarrow> new_sat bits 0;
     cpp_assert (\<not> constituency < num_duelers * team);
     cpp_assert (\<not> 63 < instances);
     cpp_assert (\<not> (f32_ge f64_zero low \<or> f32_ge high f64_one));
     cpp_assert (\<not> (f32_ge f64_zero high \<or> f32_ge high f64_one));
     cpp_assert (f32_ge high low);
     s \<leftarrow> sat_shr 1 (snd (saturate s));
     Some (\<lparr>monitor_id = i, constituency_size = constituency, team_size = team, low_threshold = low,
            high_threshold = high, selector = s, region_counter = 0,
            winner = f32_ge (calc_saturation s) low\<rparr>,
           instances + 1) }"

definition monitor_sample :: "dueler \<Rightarrow> monitor \<Rightarrow> monitor" where
  "monitor_sample d m =
     (case dueler_is_sample (monitor_id m) d of
        (False, team) \<Rightarrow> m
      | (True, True) \<Rightarrow>
          let s = sat_inc (selector m) in
          m\<lparr>selector := s, winner := (if f32_ge (calc_saturation s) (high_threshold m) then True else winner m)\<rparr>
      | (True, False) \<Rightarrow>
          let s = sat_dec (selector m) in
          m\<lparr>selector := s, winner := (if \<not> f32_ge (calc_saturation s) (low_threshold m) then False else winner m)\<rparr>)"

definition monitor_is_sample :: "monitor \<Rightarrow> dueler \<Rightarrow> bool \<times> bool" where
  "monitor_is_sample m d = dueler_is_sample (monitor_id m) d"

definition get_winner :: "monitor \<Rightarrow> bool" where
  "get_winner m = winner m"

text \<open>The region counter is an \<open>int\<close>, compared as a \<open>size_t\<close>; overflowing it is undefined.\<close>

definition init_entry :: "dueler \<Rightarrow> monitor \<Rightarrow> (dueler \<times> monitor) option" where
  "init_entry d m =
     (let region = (scast (region_counter m) :: u64) in do {
        d \<leftarrow> (if region < team_size m then set_sample (monitor_id m) False d
              else if constituency_size m - team_size m \<le> region then set_sample (monitor_id m) True d
              else Some d);
        cpp_assert (region_counter m \<noteq> 2 ^ 31 - 1);
        let next_region = region_counter m + 1 in
        Some (d, m\<lparr>region_counter := (if constituency_size m \<le> scast next_region then 0 else next_region)\<rparr>) })"

section \<open>The dueling policy\<close>

record ('a, 'b) dueling =
  policy_a :: 'a
  policy_b :: 'b
  duelers :: "entry \<Rightarrow> dueler"
  duel_monitor :: monitor
  params_team_size :: u32
  selected_a :: nat
  selected_b :: nat

definition new_dueling ::
  "u32 \<Rightarrow> u32 \<Rightarrow> u32 \<Rightarrow> 'a \<Rightarrow> 'b \<Rightarrow> (('a, 'b) dueling \<times> u32) option" where
  "new_dueling instances constituency team a b = do {
     (m, n) \<leftarrow> new_monitor instances (ucast constituency) (ucast team) 10 (f64_quot 1 2) (f64_quot 1 2);
     Some (\<lparr>policy_a = a, policy_b = b, duelers = (\<lambda>_. new_dueler), duel_monitor = m,
            params_team_size = team, selected_a = 0, selected_b = 0\<rparr>, n) }"

definition dueling_invalidate ::
  "('ea, 'a) policy_ops \<Rightarrow> ('eb, 'b) policy_ops \<Rightarrow> entry \<Rightarrow> ('a, 'b) dueling \<Rightarrow> ('a, 'b) dueling option" where
  "dueling_invalidate A B e p = do {
     a \<leftarrow> op_invalidate A e (policy_a p);
     b \<leftarrow> op_invalidate B e (policy_b p);
     Some (p\<lparr>policy_a := a, policy_b := b\<rparr>) }"

definition dueling_touch ::
  "('ea, 'a) policy_ops \<Rightarrow> ('eb, 'b) policy_ops \<Rightarrow> 'ea \<times> 'eb \<Rightarrow> entry \<Rightarrow> ('a, 'b) dueling \<Rightarrow> ('a, 'b) dueling option" where
  "dueling_touch A B env e p = do {
     a \<leftarrow> op_touch A (fst env) e (policy_a p);
     b \<leftarrow> op_touch B (snd env) e (policy_b p);
     Some (p\<lparr>policy_a := a, policy_b := b\<rparr>) }"

definition dueling_reset ::
  "('ea, 'a) policy_ops \<Rightarrow> ('eb, 'b) policy_ops \<Rightarrow> 'ea \<times> 'eb \<Rightarrow> entry \<Rightarrow> ('a, 'b) dueling \<Rightarrow> ('a, 'b) dueling option" where
  "dueling_reset A B env e p = do {
     a \<leftarrow> op_reset A (fst env) e (policy_a p);
     b \<leftarrow> op_reset B (snd env) e (policy_b p);
     Some (p\<lparr>policy_a := a, policy_b := b, duel_monitor := monitor_sample (duelers p e) (duel_monitor p)\<rparr>) }"

definition dueling_instantiate ::
  "('ea, 'a) policy_ops \<Rightarrow> ('eb, 'b) policy_ops \<Rightarrow> entry \<Rightarrow> ('a, 'b) dueling \<Rightarrow> ('a, 'b) dueling option" where
  "dueling_instantiate A B e p = do {
     a \<leftarrow> op_instantiate A e (policy_a p);
     b \<leftarrow> op_instantiate B e (policy_b p);
     (d, m) \<leftarrow> init_entry new_dueler (duel_monitor p);
     Some (p\<lparr>policy_a := a, policy_b := b, duelers := (duelers p)(e := d), duel_monitor := m\<rparr>) }"

text \<open>Which policy decides: a sample uses its own, the others the one that is winning.\<close>

definition team_a_decides :: "('a, 'b) dueling \<Rightarrow> entry \<Rightarrow> bool" where
  "team_a_decides p c =
     (let won = \<not> get_winner (duel_monitor p); (sample, team) = monitor_is_sample (duel_monitor p) (duelers p c)
      in (sample \<and> \<not> team) \<or> (\<not> sample \<and> \<not> won))"

definition same_team :: "('a, 'b) dueling \<Rightarrow> bool \<Rightarrow> entry \<Rightarrow> bool" where
  "same_team p team c =
     (let (sample, candidate_team) = monitor_is_sample (duel_monitor p) (duelers p c)
      in \<not> (sample \<and> team \<noteq> candidate_team))"

definition dueling_victim ::
  "('ea, 'a) policy_ops \<Rightarrow> ('eb, 'b) policy_ops \<Rightarrow> 'ea \<times> 'eb \<Rightarrow> entry list \<Rightarrow> ('a, 'b) dueling
     \<Rightarrow> (entry \<times> ('a, 'b) dueling) option" where
  "dueling_victim A B env cs p = do {
     cpp_assert (of_nat (length cs) = (ucast (params_team_size p) :: u64));
     c \<leftarrow> nth_opt cs 0;
     let team_a = team_a_decides p c;
         p = (if team_a then p\<lparr>selected_a := selected_a p + 1\<rparr> else p\<lparr>selected_b := selected_b p + 1\<rparr>) in do {
       cpp_assert (list_all (same_team p (snd (monitor_is_sample (duel_monitor p) (duelers p c)))) cs);
       if team_a then do {
         (v, a) \<leftarrow> op_victim A (fst env) cs (policy_a p);
         Some (v, p\<lparr>policy_a := a\<rparr>) }
       else do {
         (v, b) \<leftarrow> op_victim B (snd env) cs (policy_b p);
         Some (v, p\<lparr>policy_b := b\<rparr>) } } }"

section \<open>Samples\<close>

lemma instance_id_single:
  assumes "unat n < 31"
  shows "\<exists>i. instance_id n = Some i \<and> pop_count i = 1"
proof -
  have "list_all (\<lambda>n. pop_count (scast (push_bit n (1 :: u32))) = 1) [0..<31]" by code_simp
  then have "pop_count (scast (push_bit (unat n) (1 :: u32))) = 1" using assms by (simp add: list_all_iff)
  with assms show ?thesis by (simp add: instance_id_def)
qed

lemma pop_count_zero [simp]: "pop_count 0 = 0"
  by (simp add: pop_count_def count_if_zero)

lemma set_sample_fresh:
  assumes "pop_count i = 1"
  shows "set_sample i team new_dueler = Some \<lparr>is_sample_bits = i, team_bits = (if team then i else 0)\<rparr>"
  using assms by (simp add: set_sample_def new_dueler_def)

text \<open>Where the region counter and the thresholds of the first and last entries lie.\<close>

definition sample_of :: "nat \<Rightarrow> nat \<Rightarrow> nat \<Rightarrow> bool \<times> bool" where
  "sample_of C T k =
     (if k mod C < T then (True, False) else if C - T \<le> k mod C then (True, True) else (False, False))"

fun init_entries :: "nat \<Rightarrow> monitor \<Rightarrow> (dueler list \<times> monitor) option" where
  "init_entries 0 m = Some ([], m)"
| "init_entries (Suc n) m = do {
     (ds, m) \<leftarrow> init_entries n m;
     (d, m) \<leftarrow> init_entry new_dueler m;
     Some (ds @ [d], m) }"

lemma scast_int:
  assumes "n < 2 ^ 31"
  shows "(scast (of_nat n :: u32) :: u64) = of_nat n"
  using assms by (simp add: signed_of_nat signed_take_bit_int_eq_self flip: scast_eq)

definition monitor_ok :: "nat \<Rightarrow> nat \<Rightarrow> monitor \<Rightarrow> bool" where
  "monitor_ok C T m \<longleftrightarrow> pop_count (monitor_id m) = 1 \<and> constituency_size m = of_nat C \<and> team_size m = of_nat T
     \<and> 0 < C \<and> C < 2 ^ 31 \<and> 2 * T \<le> C"

lemma init_entry_step:
  assumes "monitor_ok C T m" "region_counter m = of_nat r" "r < C"
  shows "\<exists>d. init_entry new_dueler m = Some (d, m\<lparr>region_counter := of_nat ((r + 1) mod C)\<rparr>)
    \<and> monitor_is_sample m d = sample_of C T r"
proof -
  let ?i = "monitor_id m"
  from assms have i: "pop_count ?i = 1" and C: "C < 2 ^ 31" "2 * T \<le> C" "r < 2 ^ 31"
    "constituency_size m = of_nat C" "team_size m = of_nat T" by (auto simp: monitor_ok_def)
  then have nz: "?i \<noteq> 0" by auto
  have small: "unat (of_nat n :: u64) = n" if "n < 2 ^ 32" for n
    using that by (simp add: unsigned_of_nat take_bit_nat_eq_self)
  have lt: "(of_nat a :: u64) < of_nat b \<longleftrightarrow> a < b" "(of_nat a :: u64) \<le> of_nat b \<longleftrightarrow> a \<le> b"
    if "a < 2 ^ 32" "b < 2 ^ 32" for a b
    using small that by (simp_all add: word_less_nat_alt word_le_nat_alt)
  have diff: "(of_nat C - of_nat T :: u64) = of_nat (C - T)" using C(2) by (simp add: of_nat_diff)
  have sc: "scast (region_counter m) = (of_nat r :: u64)" using scast_int [of r] C(3) assms(2) by simp
  have top: "region_counter m \<noteq> 2 ^ 31 - 1"
  proof
    assume "region_counter m = 2 ^ 31 - 1"
    then have "unat (of_nat r :: u32) = 2147483647" using assms(2) by simp
    moreover have "unat (of_nat r :: u32) = r" using C(3) by (simp add: unsigned_of_nat take_bit_nat_eq_self)
    ultimately show False using C(1) assms(3) by simp
  qed
  have next_counter: "(if constituency_size m \<le> scast (region_counter m + 1) then 0 else region_counter m + 1)
      = of_nat ((r + 1) mod C)"
  proof (cases "C = r + 1")
    case True
    with lt [of C "r + 1"] scast_int [of "r + 1"] C assms(2) show ?thesis by (simp add: add.commute)
  next
    case False
    with assms(3) have "r + 1 < C" by simp
    with lt [of C "r + 1"] scast_int [of "r + 1"] C assms(2) show ?thesis by (simp add: add.commute)
  qed
  let ?d = "if r < T then \<lparr>is_sample_bits = ?i, team_bits = 0\<rparr>
    else if C - T \<le> r then \<lparr>is_sample_bits = ?i, team_bits = ?i\<rparr> else new_dueler"
  have "init_entry new_dueler m = Some (?d, m\<lparr>region_counter := of_nat ((r + 1) mod C)\<rparr>)"
    using lt [of r T] lt [of "C - T" r] C(1,2) assms(3) top
    unfolding init_entry_def Let_def sc C(4,5) diff next_counter [unfolded C(4)]
    by (simp add: set_sample_fresh [OF i])
  moreover have "monitor_is_sample m ?d = sample_of C T r"
    using nz assms(3) by (simp add: monitor_is_sample_def dueler_is_sample_def sample_of_def new_dueler_def)
  ultimately show ?thesis by blast
qed

lemma init_entries_run:
  assumes "monitor_ok C T m" "region_counter m = 0"
  shows "\<exists>ds. init_entries n m = Some (ds, m\<lparr>region_counter := of_nat (n mod C)\<rparr>) \<and> length ds = n
    \<and> (\<forall>k < n. monitor_is_sample m (ds ! k) = sample_of C T k)"
proof (induction n)
  case 0
  from assms show ?case by simp
next
  case (Suc n)
  then obtain ds where ds: "init_entries n m = Some (ds, m\<lparr>region_counter := of_nat (n mod C)\<rparr>)" "length ds = n"
    "\<forall>k < n. monitor_is_sample m (ds ! k) = sample_of C T k" by blast
  let ?m = "m\<lparr>region_counter := of_nat (n mod C)\<rparr>"
  have "monitor_ok C T ?m" "n mod C < C" using assms(1) by (auto simp: monitor_ok_def)
  from init_entry_step [OF this(1) _ this(2)] obtain d where
    d: "init_entry new_dueler ?m = Some (d, m\<lparr>region_counter := of_nat (Suc n mod C)\<rparr>)"
      "monitor_is_sample ?m d = sample_of C T (n mod C)"
    by (auto simp: mod_Suc_eq)
  then have "monitor_is_sample m d = sample_of C T n"
    by (simp add: monitor_is_sample_def sample_of_def)
  with ds d(1) show ?case by (auto simp: nth_append less_Suc_eq)
qed

text \<open>What the constructor guarantees.\<close>

lemma new_monitor_ok:
  assumes "new_monitor instances C T bits low high = Some (m, n)" "unat instances < 31"
    and "0 < C" "unat C < 2 ^ 31" "unat T < 2 ^ 63"
  shows "monitor_ok (unat C) (unat T) m \<and> region_counter m = 0"
proof -
  from instance_id_single [OF assms(2)] obtain i where "instance_id instances = Some i" "pop_count i = 1" by blast
  with assms(1) have m: "\<not> C < num_duelers * T" "pop_count (monitor_id m) = 1" "constituency_size m = C"
    "team_size m = T" "region_counter m = 0"
    by (auto simp: new_monitor_def bind_Some_iff)
  have "unat (num_duelers * T) = 2 * unat T" using assms(5) by (simp add: num_duelers_def unat_word_ariths)
  with m assms(3,4) show ?thesis by (simp add: monitor_ok_def word_less_nat_alt)
qed

section \<open>The dueling policy keeps the contract\<close>

text \<open>
  The candidates agree with the configured team size, and those that are samples, if any, belong to
  the team of the first. Two sound policies then give a sound dueling policy.
\<close>

definition dueling_sound ::
  "(entry list \<Rightarrow> 'a \<Rightarrow> bool) \<Rightarrow> (entry list \<Rightarrow> 'b \<Rightarrow> bool) \<Rightarrow> entry list \<Rightarrow> ('a, 'b) dueling \<Rightarrow> bool" where
  "dueling_sound sound_a sound_b cs p \<longleftrightarrow>
     sound_a cs (policy_a p) \<and> sound_b cs (policy_b p) \<and> length cs = unat (params_team_size p)
     \<and> (\<forall>c \<in> set cs. same_team p (snd (monitor_is_sample (duel_monitor p) (duelers p (hd cs)))) c)"

lemma monitor_sample_id [simp]: "monitor_id (monitor_sample d m) = monitor_id m"
  by (auto simp: monitor_sample_def Let_def split: prod.split bool.split)

lemma same_team_sample [simp]:
  "same_team (p\<lparr>policy_a := a, policy_b := b, duel_monitor := monitor_sample d (duel_monitor p)\<rparr>) = same_team p"
  "same_team (p\<lparr>policy_a := a, policy_b := b\<rparr>) = same_team p"
  "same_team (p\<lparr>policy_a := a\<rparr>) = same_team p" "same_team (p\<lparr>policy_b := b\<rparr>) = same_team p"
  "same_team (p\<lparr>selected_a := i\<rparr>) = same_team p" "same_team (p\<lparr>selected_b := i\<rparr>) = same_team p"
  by (auto simp: same_team_def monitor_is_sample_def fun_eq_iff)

lemma is_sample_sample [simp]: "monitor_is_sample (monitor_sample d m) = monitor_is_sample m"
  by (simp add: monitor_is_sample_def fun_eq_iff)

locale policy_pair =
  A: replacement_policy "op_invalidate A" "op_touch A" "op_reset A" "op_victim A" sound_a +
  B: replacement_policy "op_invalidate B" "op_touch B" "op_reset B" "op_victim B" sound_b
  for A :: "('ea, 'a) policy_ops" and sound_a and B :: "('eb, 'b) policy_ops" and sound_b
begin

lemma dueling_victim_in: "dueling_victim A B env cs p = Some (v, p') \<Longrightarrow> v \<in> set cs"
  by (auto simp: dueling_victim_def Let_def bind_Some_iff split: if_splits prod.splits
      dest: A.victim_in B.victim_in)

lemma dueling_victim_found:
  assumes "dueling_sound sound_a sound_b cs p" "cs \<noteq> []"
  shows "\<exists>v p'. dueling_victim A B env cs p = Some (v, p')"
proof -
  from assms(1) have s: "sound_a cs (policy_a p)" "sound_b cs (policy_b p)" by (auto simp: dueling_sound_def)
  from A.victim_found [OF s(1) assms(2), of "fst env"] obtain va a where
    a: "op_victim A (fst env) cs (policy_a p) = Some (va, a)" by blast
  from B.victim_found [OF s(2) assms(2), of "snd env"] obtain vb b where
    b: "op_victim B (snd env) cs (policy_b p) = Some (vb, b)" by blast
  have len: "of_nat (length cs) = (ucast (params_team_size p) :: u64)"
    using assms(1) by (simp add: dueling_sound_def)
  have all: "list_all (same_team p (snd (monitor_is_sample (duel_monitor p) (duelers p (cs ! 0))))) cs"
    using assms by (auto simp: dueling_sound_def list_all_iff hd_conv_nth)
  from a b len all assms(2) show ?thesis by (simp add: dueling_victim_def Let_def)
qed

lemma dueling_ops_sound:
  assumes "dueling_sound sound_a sound_b cs p" "e \<in> set cs"
  shows "\<exists>p'. dueling_invalidate A B e p = Some p' \<and> dueling_sound sound_a sound_b cs p'"
    and "\<exists>p'. dueling_touch A B env e p = Some p' \<and> dueling_sound sound_a sound_b cs p'"
    and "\<exists>p'. dueling_reset A B env e p = Some p' \<and> dueling_sound sound_a sound_b cs p'"
proof -
  from assms(1) have s: "sound_a cs (policy_a p)" "sound_b cs (policy_b p)" by (auto simp: dueling_sound_def)
  from A.invalidate_sound [OF s(1) assms(2)] B.invalidate_sound [OF s(2) assms(2)] assms(1)
  show "\<exists>p'. dueling_invalidate A B e p = Some p' \<and> dueling_sound sound_a sound_b cs p'"
    by (auto simp: dueling_invalidate_def dueling_sound_def)
  from A.touch_sound [OF s(1) assms(2), of "fst env"] B.touch_sound [OF s(2) assms(2), of "snd env"] assms(1)
  show "\<exists>p'. dueling_touch A B env e p = Some p' \<and> dueling_sound sound_a sound_b cs p'"
    by (auto simp: dueling_touch_def dueling_sound_def)
  from A.reset_sound [OF s(1) assms(2), of "fst env"] B.reset_sound [OF s(2) assms(2), of "snd env"] assms(1)
  show "\<exists>p'. dueling_reset A B env e p = Some p' \<and> dueling_sound sound_a sound_b cs p'"
    by (auto simp: dueling_reset_def dueling_sound_def)
qed

lemma dueling_victim_sound:
  assumes "dueling_sound sound_a sound_b ds p" "dueling_victim A B env cs p = Some (v, p')"
  shows "dueling_sound sound_a sound_b ds p'"
  using assms by (auto simp: dueling_victim_def dueling_sound_def Let_def bind_Some_iff split: if_splits prod.splits
      dest: A.victim_sound B.victim_sound)

end

sublocale policy_pair \<subseteq> replacement_policy
  "dueling_invalidate A B" "dueling_touch A B" "dueling_reset A B" "dueling_victim A B"
  "dueling_sound sound_a sound_b"
  by unfold_locales
    (blast intro: dueling_victim_in dueling_victim_found dueling_victim_sound dueling_ops_sound)+

text \<open>DIP, the pair of LRU and BIP.\<close>

definition bip_ops :: "u32 \<Rightarrow> (rp_env, entry \<Rightarrow> lru_data) policy_ops" where
  "bip_ops btp = lru_ops\<lparr>op_reset := bip_reset btp\<rparr>"

interpretation dip: policy_pair lru_ops "\<lambda>cs d. True" "bip_ops btp" "\<lambda>cs d. True" for btp
  by (rule policy_pair.intro; unfold_locales)
    (auto simp: lru_ops_def bip_ops_def victim_facts bip_reset_def random_range_def Let_def)

section \<open>Properties\<close>

abbreviation half :: f32 where
  "half \<equiv> f64_quot 1 2"

text \<open>The sampled entries. A monitor that the constructor accepts and whose region has a positive
  size gives every block of \<open>region_size\<close> consecutively initialised entries the same shape: the first
  \<open>team_size\<close> sample one team, the last \<open>team_size\<close> the other, and no entry between samples at all. The
  bounds exclude the instances whose identifier is not a power of two.\<close>

theorem dueling_samples:
  assumes "new_monitor instances C T bits low high = Some (m, n')" "unat instances < 31"
    and "0 < C" "unat C < 2 ^ 31" "unat T < 2 ^ 63"
  shows "\<exists>ds m'. init_entries n m = Some (ds, m') \<and> length ds = n
    \<and> (\<forall>k < n. monitor_is_sample m (ds ! k) = sample_of (unat C) (unat T) k)"
  using init_entries_run [of "unat C" "unat T" m n] new_monitor_ok [OF assms] by blast

theorem dueling_samples_witness:
  "\<exists>m n' ds m'. new_monitor 0 6 2 10 half half = Some (m, n') \<and> init_entries 12 m = Some (ds, m')
    \<and> map (monitor_is_sample m) ds
      = [(True, False), (True, False), (False, False), (False, False), (True, True), (True, True),
         (True, False), (True, False), (False, False), (False, False), (True, True), (True, True)]"
proof -
  obtain m n' where m: "new_monitor 0 6 2 10 half half = Some (m, n')"
  proof -
    have "new_monitor 0 6 2 10 half half \<noteq> None" by code_simp
    then show thesis using that by fastforce
  qed
  from dueling_samples [OF m, of 12] obtain ds m' where
    ds: "init_entries 12 m = Some (ds, m')" "length ds = 12" "\<forall>k < 12. monitor_is_sample m (ds ! k) = sample_of 6 2 k"
    by auto
  then have "map (monitor_is_sample m) ds = map (sample_of 6 2) [0..<12]" by (intro nth_equalityI) auto
  also have "\<dots> = [(True, False), (True, False), (False, False), (False, False), (True, True), (True, True),
         (True, False), (True, False), (False, False), (False, False), (True, True), (True, True)]"
    by code_simp
  finally show ?thesis using m ds(1) by (intro exI conjI)
qed

text \<open>The constructor accepts 64 monitors, but the 32nd has an identifier with all upper bits set,
  so that initialising an entry for it panics, and the shift of the 33rd is undefined.\<close>

theorem dueling_instance_overflow:
  "(case new_monitor 31 64 4 10 half half of
      Some (m, n) \<Rightarrow> n = 32 \<and> init_entry new_dueler m = None
    | None \<Rightarrow> False)
   \<and> new_monitor 32 64 4 10 half half = None"
  by code_simp

end
