(* ===== verification/Indexing.thy ===== *)
theory Indexing
  imports ReplBase Float32
begin

text \<open>
  The indexing policies of the gem5 tag stores (\<open>tags/indexing_policies/base.hh\<close> and
  \<open>set_associative.cc\<close>, with the tagged variant of \<open>tagged_entry.hh\<close>): which entries of the table
  an address may use, and how the address of a block is put together again from its tag and its
  set. Shift amounts, \<open>int\<close>s that are never negative, are natural numbers.
\<close>

section \<open>Integer helpers of the stubs (\<open>base/intmath.hh\<close>)\<close>

text \<open>\<open>31 - __builtin_clz(x)\<close>, which has no value at 0.\<close>

definition floor_log2 :: "u32 \<Rightarrow> nat option" where
  "floor_log2 x = (if x = 0 then None else Some (bit_length (uint x) - 1))"

definition is_power_of_2 :: "u32 \<Rightarrow> bool" where
  "is_power_of_2 x \<longleftrightarrow> x \<noteq> 0 \<and> x AND (x - 1) = 0"

section \<open>The table of entries\<close>

record indexing =
  ix_assoc :: u32
  num_sets :: u32
  set_shift :: nat
  set_mask :: u32
  ix_sets :: "entry option list list"
  tag_shift :: nat

text \<open>The member initialisers divide and take the logarithm before the checks of the body.\<close>

definition new_indexing :: "u32 \<Rightarrow> u32 \<Rightarrow> nat \<Rightarrow> indexing option" where
  "new_indexing assoc num_entries shift = do {
     n \<leftarrow> div_u32 num_entries assoc;
     l \<leftarrow> floor_log2 n;
     cpp_assert (is_power_of_2 n);
     cpp_assert (0 < assoc);
     Some \<lparr>ix_assoc = assoc, num_sets = n, set_shift = shift, set_mask = n - 1,
           ix_sets = replicate (unat n) (replicate (unat assoc) None), tag_shift = shift + l\<rparr> }"

text \<open>The constructor of the set associative policies: \<open>size / entry_size\<close> entries.\<close>

definition new_set_associative :: "u32 \<Rightarrow> u32 \<Rightarrow> u32 \<Rightarrow> indexing option" where
  "new_set_associative assoc bytes entry_size = do {
     n \<leftarrow> div_u32 bytes entry_size;
     l \<leftarrow> floor_log2 entry_size;
     new_indexing assoc n l }"

text \<open>\<open>setEntry\<close> returns the position that it stores in the entry.\<close>

definition set_entry :: "entry \<Rightarrow> u32 \<Rightarrow> indexing \<Rightarrow> (indexing \<times> u32 \<times> u32) option" where
  "set_entry e index ix = do {
     s \<leftarrow> div_u32 index (ix_assoc ix);
     w \<leftarrow> mod_u32 index (ix_assoc ix);
     cpp_assert (s < num_sets ix);
     row \<leftarrow> nth_opt (ix_sets ix) (unat s);
     row \<leftarrow> update_opt row (unat w) (Some e);
     Some (ix\<lparr>ix_sets := (ix_sets ix)[unat s := row]\<rparr>, s, w) }"

definition get_entry :: "u32 \<Rightarrow> u32 \<Rightarrow> indexing \<Rightarrow> entry option option" where
  "get_entry s w ix = do { row \<leftarrow> nth_opt (ix_sets ix) (unat s); nth_opt row (unat w) }"

definition extract_tag :: "indexing \<Rightarrow> u64 \<Rightarrow> u64" where
  "extract_tag ix addr = drop_bit (tag_shift ix) addr"

definition extract_set :: "indexing \<Rightarrow> u64 \<Rightarrow> u32" where
  "extract_set ix addr = ucast (drop_bit (set_shift ix) addr AND ucast (set_mask ix))"

text \<open>The set number is shifted as a 32-bit value.\<close>

definition regenerate_addr :: "indexing \<Rightarrow> u64 \<Rightarrow> u32 \<Rightarrow> u64" where
  "regenerate_addr ix tag s = push_bit (tag_shift ix) tag OR ucast (push_bit (set_shift ix) s)"

definition possible_entries :: "indexing \<Rightarrow> u64 \<Rightarrow> entry option list option" where
  "possible_entries ix addr = nth_opt (ix_sets ix) (unat (extract_set ix addr))"

section \<open>The shape of a constructed policy\<close>

definition indexing_ok :: "indexing \<Rightarrow> bool" where
  "indexing_ok ix \<longleftrightarrow> (\<exists>l. num_sets ix = 2 ^ l \<and> l < 32 \<and> set_mask ix = 2 ^ l - 1 \<and> tag_shift ix = set_shift ix + l
     \<and> tag_shift ix \<le> 32 \<and> length (ix_sets ix) = 2 ^ l \<and> 0 < ix_assoc ix
     \<and> (\<forall>row \<in> set (ix_sets ix). length row = unat (ix_assoc ix)))"

lemma power_u32: "l < 32 \<Longrightarrow> unat (2 ^ l :: u32) = 2 ^ l"
proof -
  assume "l < 32"
  then have "(2 :: nat) ^ l < 2 ^ 32" by (intro power_strict_increasing) auto
  then have "unat (of_nat (2 ^ l) :: u32) = 2 ^ l"
    unfolding unsigned_of_nat by (subst take_bit_nat_eq_self) simp_all
  then show ?thesis by simp
qed

text \<open>A power of two is the power of its logarithm.\<close>

lemma top_bit:
  fixes n :: int
  assumes "2 ^ k \<le> n" "n < 2 ^ Suc k"
  shows "bit n k"
proof -
  have "n div 2 ^ k = 1"
  proof (rule int_div_pos_eq [of _ _ _ "n - 2 ^ k"])
    show "n = 2 ^ k * 1 + (n - 2 ^ k)" by simp
  qed (use assms in auto)
  then show ?thesis by (simp add: bit_iff_odd)
qed

lemma power_of_2_log:
  assumes "is_power_of_2 x" "floor_log2 x = Some l"
  shows "x = 2 ^ l \<and> l < 32"
proof -
  from assms have x: "x \<noteq> 0" "x AND (x - 1) = 0" and l: "l = bit_length (uint x) - 1"
    by (auto simp: is_power_of_2_def floor_log2_def split: if_splits)
  have pos: "0 < uint x" using x(1) uint_ge_0 [of x] by (metis order_le_less uint_0_iff)
  from bit_length_bounds [OF pos] l have b: "2 ^ l \<le> uint x" "uint x < 2 ^ Suc l" by auto
  have x32: "uint x < 2 ^ 32" using uint_lt2p [of x] by simp
  have l32: "l < 32"
  proof (rule ccontr)
    assume "\<not> ?thesis"
    then have "(2 :: int) ^ 32 \<le> 2 ^ l" by (intro power_increasing) auto
    with b(1) x32 show False by simp
  qed
  have "uint x = 2 ^ l"
  proof (rule ccontr)
    assume "uint x \<noteq> 2 ^ l"
    with b(1) have gt: "2 ^ l \<le> uint x - 1" by simp
    have m: "uint (x - 1) = uint x - 1" using pos by (simp add: uint_sub_if')
    from top_bit [OF b] top_bit [of l "uint x - 1"] gt b(2) have "bit (uint x) l" "bit (uint (x - 1)) l"
      by (simp_all add: m)
    then have "bit (x AND (x - 1)) l" by (simp add: bit_and_iff bit_uint_iff)
    with x(2) show False by simp
  qed
  moreover have "int (unat (2 ^ l :: u32)) = 2 ^ l" using power_u32 [OF l32] by simp
  ultimately have "int (unat x) = int (unat (2 ^ l :: u32))" by simp
  then have "unat x = unat (2 ^ l :: u32)" by (rule of_nat_eq_iff [THEN iffD1])
  then have "x = 2 ^ l" by (rule unsigned_word_eqI)
  with l32 show ?thesis by simp
qed

lemma floor_log2_bound:
  assumes "floor_log2 x = Some l"
  shows "2 ^ l \<le> unat x" "l < 32"
proof -
  from assms have pos: "0 < uint x" and l: "l = bit_length (uint x) - 1"
    using uint_ge_0 [of x] by (auto simp: floor_log2_def order_le_less uint_0_iff split: if_splits)
  from bit_length_bounds [OF pos] l have b: "2 ^ l \<le> uint x" by simp
  then have "int (2 ^ l) \<le> int (unat x)" by simp
  then show "2 ^ l \<le> unat x" by linarith
  show "l < 32"
  proof (rule ccontr)
    assume "\<not> ?thesis"
    then have "(2 :: int) ^ 32 \<le> 2 ^ l" by (intro power_increasing) auto
    with b uint_lt2p [of x] show False by simp
  qed
qed

lemma new_set_associative_ok:
  assumes "new_set_associative assoc bytes entry_size = Some ix"
  shows "indexing_ok ix"
proof -
  from assms obtain s l where
    e: "entry_size \<noteq> 0" "floor_log2 entry_size = Some s"
    and n: "assoc \<noteq> 0" "floor_log2 (bytes div entry_size div assoc) = Some l"
      "is_power_of_2 (bytes div entry_size div assoc)"
    and ix: "ix = \<lparr>ix_assoc = assoc, num_sets = bytes div entry_size div assoc, set_shift = s,
        set_mask = bytes div entry_size div assoc - 1,
        ix_sets = replicate (unat (bytes div entry_size div assoc)) (replicate (unat assoc) None), tag_shift = s + l\<rparr>"
    by (auto simp: new_set_associative_def new_indexing_def bind_Some_iff)
  from power_of_2_log [OF n(3,2)] have l: "bytes div entry_size div assoc = 2 ^ l" "l < 32" by auto
  have pow: "unat (2 ^ l :: u32) = 2 ^ l" using l(2) by (rule power_u32)
  have "2 ^ l = unat bytes div unat entry_size div unat assoc"
    using l(1) pow by (metis unat_div)
  then have "2 ^ l * unat entry_size \<le> unat bytes"
    by (metis div_le_dividend div_times_less_eq_dividend le_trans mult_le_mono1)
  with floor_log2_bound(1) [OF e(2)] have "2 ^ l * 2 ^ s \<le> unat bytes"
    using le_trans mult_le_mono2 by blast
  with unsigned_less [of bytes, where ?'a = nat] have "(2 :: nat) ^ (s + l) < 2 ^ 32"
    by (simp add: power_add mult.commute)
  then have "s + l < 32" by (metis power_less_imp_less_exp one_less_numeral_iff semiring_norm(76))
  with n(1) l pow show ?thesis by (auto simp: indexing_ok_def ix word_gt_0)
qed

section \<open>Reassembling an address\<close>

lemma extract_set_bits:
  assumes "set_mask ix = 2 ^ l - 1" "l < 32"
  shows "extract_set ix addr = take_bit l (ucast (drop_bit (set_shift ix) addr))"
proof (rule bit_word_eqI)
  fix n
  assume "n < LENGTH(32)"
  have m: "set_mask ix = mask l" by (simp add: assms(1) mask_eq_exp_minus_1)
  with \<open>n < LENGTH(32)\<close> show "bit (extract_set ix addr) n = bit (take_bit l (ucast (drop_bit (set_shift ix) addr) :: u32)) n"
    by (auto simp: extract_set_def bit_take_bit_iff bit_ucast_iff bit_and_iff bit_mask_iff)
qed

lemma extract_set_below: "indexing_ok ix \<Longrightarrow> unat (extract_set ix addr) < length (ix_sets ix)"
  by (auto simp: indexing_ok_def extract_set_bits unsigned_take_bit_eq)

lemma possible_entries_row:
  assumes "indexing_ok ix"
  shows "\<exists>row. possible_entries ix addr = Some row \<and> row = ix_sets ix ! unat (extract_set ix addr)
    \<and> length row = unat (ix_assoc ix)"
  using assms extract_set_below [OF assms, of addr] nth_mem by (fastforce simp: possible_entries_def indexing_ok_def)

text \<open>Tag and set determine the address down to the offset within the entry.\<close>

lemma regenerate_extract:
  assumes "indexing_ok ix"
  shows "regenerate_addr ix (extract_tag ix addr) (extract_set ix addr) = push_bit (set_shift ix) (drop_bit (set_shift ix) addr)"
proof -
  from assms obtain l where l: "set_mask ix = 2 ^ l - 1" "tag_shift ix = set_shift ix + l" "l < 32" "tag_shift ix \<le> 32"
    by (auto simp: indexing_ok_def)
  have m: "set_mask ix = mask l" by (simp add: l(1) mask_eq_exp_minus_1)
  show ?thesis
  proof (rule bit_word_eqI)
    fix n
    assume "n < LENGTH(64)"
    consider "n < set_shift ix" | "set_shift ix \<le> n" "n < tag_shift ix" | "tag_shift ix \<le> n" by linarith
    then show "bit (regenerate_addr ix (extract_tag ix addr) (extract_set ix addr)) n
      = bit (push_bit (set_shift ix) (drop_bit (set_shift ix) addr)) n"
      using l(2-4) \<open>n < LENGTH(64)\<close>
      by cases (auto simp: regenerate_addr_def extract_tag_def extract_set_bits [OF l(1,3)] bit_or_iff bit_push_bit_iff
          bit_drop_bit_eq bit_take_bit_iff bit_ucast_iff)
  qed
qed

lemma set_entry_get:
  assumes "set_entry e index ix = Some (ix', s, w)"
  shows "get_entry s w ix' = Some (Some e)" "s = index div ix_assoc ix" "w = index mod ix_assoc ix"
    and "(s2, w2) \<noteq> (s, w) \<Longrightarrow> get_entry s2 w2 ix' = get_entry s2 w2 ix"
proof -
  from assms have sw: "s = index div ix_assoc ix" "w = index mod ix_assoc ix"
    and r: "unat s < length (ix_sets ix)" "unat w < length (ix_sets ix ! unat s)"
      "ix' = ix\<lparr>ix_sets := (ix_sets ix)[unat s := (ix_sets ix ! unat s)[unat w := Some e]]\<rparr>"
    unfolding set_entry_def bind_Some_iff by clarsimp+
  from sw show "s = index div ix_assoc ix" "w = index mod ix_assoc ix" by simp_all
  from r show "get_entry s w ix' = Some (Some e)" by (simp add: get_entry_def)
  assume ne: "(s2, w2) \<noteq> (s, w)"
  show "get_entry s2 w2 ix' = get_entry s2 w2 ix"
  proof (cases "s2 = s")
    case True
    with ne have "unat w2 \<noteq> unat w" using unsigned_word_eqI by blast
    with True r show ?thesis by (simp add: get_entry_def nth_opt_def)
  next
    case False
    then have "unat s2 \<noteq> unat s" using unsigned_word_eqI by blast
    with r show ?thesis by (simp add: get_entry_def nth_opt_def)
  qed
qed

end
