(* ===== verification/Skewed.thy ===== *)
theory Skewed
  imports Indexing
begin

text \<open>
  The skewed associative indexing policy (\<open>skewed_associative.cc\<close>): every way hashes the set bits
  of an address differently, and the hash is inverted to regenerate the address of a block. The
  source includes \<open>base/bitfield.hh\<close>, which in this repository is the stub \<open>stub_bitfield\<close> below: it
  takes the lower position first, and the property of this theory is what it makes of the policy. The
  operations are an argument of the definitions, so that the policy can also be read with those that
  gem5 documents (\<open>bits(val, last, first)\<close>, the higher position first), for which skewing is invertible.
\<close>

type_synonym byte = "8 word"

record bitfield =
  bf_bits :: "u64 \<Rightarrow> u32 \<Rightarrow> u32 \<Rightarrow> u64 option"
  bf_mbits :: "u64 \<Rightarrow> u32 \<Rightarrow> u32 \<Rightarrow> u64 option"
  bf_insert :: "u64 \<Rightarrow> u32 \<Rightarrow> byte \<Rightarrow> u64 option"

text \<open>The stub: a shift by 64 or more is undefined, and \<open>last - first + 1\<close> is unsigned.\<close>

definition stub_bits :: "u64 \<Rightarrow> u32 \<Rightarrow> u32 \<Rightarrow> u64 option" where
  "stub_bits val b0 b1 =
     (let width = unat (b1 - b0 + 1) in
      if unat b0 < 64 \<and> width < 64 then Some (drop_bit (unat b0) val AND (push_bit width 1 - 1)) else None)"

definition stub_insert :: "u64 \<Rightarrow> u32 \<Rightarrow> byte \<Rightarrow> u64 option" where
  "stub_insert val b v =
     (if unat b < 64 then Some ((val AND NOT (push_bit (unat b) 1)) OR push_bit (unat b) (ucast v AND 1)) else None)"

definition stub_bitfield :: bitfield where
  "stub_bitfield = \<lparr>bf_bits = stub_bits, bf_mbits = stub_bits, bf_insert = stub_insert\<rparr>"

section \<open>The policy\<close>

record skewed =
  sk_indexing :: indexing
  msb_shift :: nat

definition num_skewing_functions :: nat where
  "num_skewing_functions = 8"

text \<open>The warning about the associativity is output only.\<close>

definition new_skewed :: "u32 \<Rightarrow> u32 \<Rightarrow> u32 \<Rightarrow> skewed option" where
  "new_skewed assoc bytes entry_size = do {
     ix \<leftarrow> new_set_associative assoc bytes entry_size;
     l \<leftarrow> floor_log2 (num_sets ix);
     cpp_assert (\<not> 64 < set_shift ix + 2 * l);
     cpp_assert (\<not> num_sets ix \<le> 2);
     Some \<lparr>sk_indexing = ix, msb_shift = l - 1\<rparr> }"

definition skew_hash :: "bitfield \<Rightarrow> nat \<Rightarrow> u64 \<Rightarrow> u64 option" where
  "skew_hash BF ms addr = do {
     lsb \<leftarrow> bf_bits BF addr 0 0;
     msb \<leftarrow> bf_bits BF addr (of_nat ms) (of_nat ms);
     bf_insert BF (drop_bit 1 addr) (of_nat ms) (ucast msb XOR ucast lsb) }"

definition skew_dehash :: "bitfield \<Rightarrow> nat \<Rightarrow> u64 \<Rightarrow> u64 option" where
  "skew_dehash BF ms addr = do {
     msb \<leftarrow> bf_bits BF addr (of_nat ms - 1) (of_nat ms - 1);
     xor_bit \<leftarrow> bf_bits BF addr (of_nat ms) (of_nat ms);
     no_msb \<leftarrow> bf_mbits BF addr (of_nat ms - 1) 0;
     bf_insert BF (push_bit 1 no_msb) 0 (ucast msb XOR ucast xor_bit) }"

fun repeat_opt :: "nat \<Rightarrow> ('a \<Rightarrow> 'a option) \<Rightarrow> 'a \<Rightarrow> 'a option" where
  "repeat_opt 0 f a = Some a"
| "repeat_opt (Suc n) f a = do { a \<leftarrow> f a; repeat_opt n f a }"

definition skew :: "bitfield \<Rightarrow> nat \<Rightarrow> u64 \<Rightarrow> u32 \<Rightarrow> u64 option" where
  "skew BF ms addr way = do {
     addr1 \<leftarrow> bf_bits BF addr (of_nat ms) 0;
     addr2 \<leftarrow> bf_bits BF addr (of_nat (2 * (ms + 1) - 1)) (of_nat (ms + 1));
     let k = unat way mod num_skewing_functions in do {
       x \<leftarrow> (if k < 4 then skew_hash BF ms addr1 else skew_dehash BF ms addr1);
       y \<leftarrow> (if k \<in> {0, 1, 4, 5} then skew_hash BF ms addr2 else skew_dehash BF ms addr2);
       repeat_opt (unat way div num_skewing_functions) (skew_hash BF ms)
         (x XOR y XOR (if even k then addr2 else addr1)) } }"

definition deskew :: "bitfield \<Rightarrow> nat \<Rightarrow> u64 \<Rightarrow> u32 \<Rightarrow> u64 option" where
  "deskew BF ms addr way = do {
     addr1 \<leftarrow> bf_bits BF addr (of_nat ms) 0;
     addr2 \<leftarrow> bf_bits BF addr (of_nat (2 * (ms + 1) - 1)) (of_nat (ms + 1));
     addr1 \<leftarrow> repeat_opt (unat way div num_skewing_functions) (skew_dehash BF ms) addr1;
     let k = unat way mod 8 in do {
       y \<leftarrow> (if k \<in> {0, 1, 4, 5} then skew_hash BF ms addr2 else skew_dehash BF ms addr2);
       if k = 0 \<or> k = 2 then skew_dehash BF ms (addr1 XOR y XOR addr2)
       else if k = 1 \<or> k = 3 then repeat_opt ms (skew_hash BF ms) (addr1 XOR y)
       else if k = 4 \<or> k = 6 then skew_hash BF ms (addr1 XOR y XOR addr2)
       else repeat_opt (ms + 1) (skew_hash BF ms) (addr1 XOR y) } }"

definition skew_extract_set :: "bitfield \<Rightarrow> skewed \<Rightarrow> u64 \<Rightarrow> u32 \<Rightarrow> u32 option" where
  "skew_extract_set BF sk addr way = do {
     x \<leftarrow> skew BF (msb_shift sk) (drop_bit (set_shift (sk_indexing sk)) addr) way;
     Some (ucast (x AND ucast (set_mask (sk_indexing sk)))) }"

definition skew_regenerate_addr :: "bitfield \<Rightarrow> skewed \<Rightarrow> u64 \<Rightarrow> u32 \<Rightarrow> u32 \<Rightarrow> u64 option" where
  "skew_regenerate_addr BF sk tag s way = do {
     x \<leftarrow> deskew BF (msb_shift sk) (push_bit (msb_shift sk + 1) tag OR ucast s) way;
     Some (push_bit (tag_shift (sk_indexing sk)) tag
       OR push_bit (set_shift (sk_indexing sk)) (x AND ucast (set_mask (sk_indexing sk)))) }"

fun skew_entries :: "bitfield \<Rightarrow> skewed \<Rightarrow> u64 \<Rightarrow> u32 list \<Rightarrow> entry option list option" where
  "skew_entries BF sk addr [] = Some []"
| "skew_entries BF sk addr (way # ways) = do {
     s \<leftarrow> skew_extract_set BF sk addr way;
     e \<leftarrow> get_entry s way (sk_indexing sk);
     es \<leftarrow> skew_entries BF sk addr ways;
     Some (e # es) }"

definition skew_possible_entries :: "bitfield \<Rightarrow> skewed \<Rightarrow> u64 \<Rightarrow> entry option list option" where
  "skew_possible_entries BF sk addr =
     skew_entries BF sk addr (map of_nat [0..<unat (ix_assoc (sk_indexing sk))])"

section \<open>The documented bit operations\<close>

definition documented :: "bitfield \<Rightarrow> bool" where
  "documented BF \<longleftrightarrow>
     (\<forall>v hi lo. lo \<le> hi \<and> hi < 64 \<longrightarrow>
        bf_bits BF v hi lo = Some (take_bit (Suc (unat hi) - unat lo) (drop_bit (unat lo) v))
        \<and> bf_mbits BF v hi lo = Some (push_bit (unat lo) (take_bit (Suc (unat hi) - unat lo) (drop_bit (unat lo) v))))
     \<and> (\<forall>v b x. b < 64 \<longrightarrow> bf_insert BF v b x = Some (if bit x 0 then set_bit (unat b) v else unset_bit (unat b) v))"

text \<open>On values of \<open>ms + 1\<close> bits the two hashes are these functions.\<close>

definition hash_word :: "nat \<Rightarrow> u64 \<Rightarrow> u64" where
  "hash_word ms a = (if bit a ms \<noteq> bit a 0 then set_bit ms (drop_bit 1 a) else unset_bit ms (drop_bit 1 a))"

definition dehash_word :: "nat \<Rightarrow> u64 \<Rightarrow> u64" where
  "dehash_word ms a =
     (if bit a (ms - 1) \<noteq> bit a ms then set_bit 0 (push_bit 1 (take_bit ms a))
      else unset_bit 0 (push_bit 1 (take_bit ms a)))"

abbreviation fits_bits :: "nat \<Rightarrow> u64 \<Rightarrow> bool" where
  "fits_bits n a \<equiv> take_bit n a = a"

definition one_bit :: "nat \<Rightarrow> u64 \<Rightarrow> u64" where
  "one_bit n a = take_bit 1 (drop_bit n a)"

lemma bit_one_bit: "bit (ucast (one_bit n a) :: byte) 0 = bit a n"
  by (simp only: one_bit_def bit_ucast_iff bit_take_bit_iff bit_drop_bit_eq) simp

lemma of_nat_small:
  assumes "ms < 64"
  shows "(of_nat ms :: u32) < 64" "unat (of_nat ms :: u32) = ms"
proof -
  show "unat (of_nat ms :: u32) = ms" using assms by (simp add: unsigned_of_nat take_bit_nat_eq_self)
  then show "(of_nat ms :: u32) < 64" using assms by (simp add: word_less_nat_alt)
qed

lemma bit_xor_byte: "bit (x XOR y) 0 = (bit x 0 \<noteq> bit y 0)" for x y :: byte
  by (simp add: bit_xor_iff)

lemma documented_bit:
  assumes "documented BF" "ms < 64"
  shows "bf_bits BF a (of_nat ms) (of_nat ms) = Some (one_bit ms a)"
proof -
  from assms(1) have "(of_nat ms :: u32) \<le> of_nat ms \<and> (of_nat ms :: u32) < 64 \<longrightarrow>
      bf_bits BF a (of_nat ms) (of_nat ms)
      = Some (take_bit (Suc (unat (of_nat ms :: u32)) - unat (of_nat ms :: u32)) (drop_bit (unat (of_nat ms :: u32)) a))"
    unfolding documented_def by blast
  with of_nat_small [OF assms(2)] show ?thesis by (simp add: one_bit_def)
qed

lemma documented_range:
  assumes "documented BF" "lo \<le> hi" "hi < 64"
  shows "bf_bits BF a (of_nat hi) (of_nat lo) = Some (take_bit (Suc hi - lo) (drop_bit lo a))"
    and "bf_mbits BF a (of_nat hi) (of_nat lo) = Some (push_bit lo (take_bit (Suc hi - lo) (drop_bit lo a)))"
proof -
  from assms have lo: "lo < 64" by simp
  note hl = of_nat_small [OF assms(3)] of_nat_small [OF lo]
  then have "(of_nat lo :: u32) \<le> of_nat hi" using assms(2) by (simp add: word_le_nat_alt)
  with hl assms(1) show "bf_bits BF a (of_nat hi) (of_nat lo) = Some (take_bit (Suc hi - lo) (drop_bit lo a))"
    "bf_mbits BF a (of_nat hi) (of_nat lo) = Some (push_bit lo (take_bit (Suc hi - lo) (drop_bit lo a)))"
    unfolding documented_def by metis+
qed

lemma documented_insert:
  assumes "documented BF" "ms < 64"
  shows "bf_insert BF v (of_nat ms) x = Some (if bit x 0 then set_bit ms v else unset_bit ms v)"
  using assms of_nat_small [OF assms(2)] unfolding documented_def by metis

lemma skew_hash_word:
  assumes "documented BF" "ms < 64"
  shows "skew_hash BF ms a = Some (hash_word ms a)"
  using documented_bit [OF assms, of a] documented_bit [OF assms(1), of 0 a] documented_insert [OF assms]
  by (simp add: skew_hash_def hash_word_def bit_xor_byte bit_one_bit del: bit_0)

lemma skew_dehash_word:
  assumes "documented BF" "0 < ms" "ms < 64"
  shows "skew_dehash BF ms a = Some (dehash_word ms a)"
proof -
  have m: "(of_nat ms - 1 :: u32) = of_nat (ms - 1)" using assms(2) by (simp add: of_nat_diff)
  have lt: "ms - 1 < 64" using assms(3) by simp
  have mb: "bf_mbits BF a (of_nat (ms - 1)) 0 = Some (take_bit ms a)"
    using documented_range(2) [OF assms(1) _ lt, of 0 a] assms(2) by simp
  show ?thesis
    unfolding skew_dehash_def m mb documented_bit [OF assms(1,3)] documented_bit [OF assms(1) lt]
    using documented_insert [OF assms(1), of 0] by (simp add: dehash_word_def bit_xor_byte bit_one_bit del: bit_0)
qed

section \<open>The hash as a shift register\<close>

text \<open>The bits of \<open>a\<close>, continued by the feedback of the hash; applying the hash drops the first one.\<close>

function lfsr :: "nat \<Rightarrow> u64 \<Rightarrow> nat \<Rightarrow> bool" where
  "lfsr ms a k = (if k \<le> ms then bit a k else lfsr ms a (k - 1) \<noteq> lfsr ms a (k - ms - 1))"
  by pat_completeness auto
termination
  by (relation "measure (\<lambda>(ms, a, k). k)") auto

declare lfsr.simps [simp del]

lemma fits_bitsD: "fits_bits n a \<Longrightarrow> n \<le> i \<Longrightarrow> \<not> bit a i"
  by (metis bit_take_bit_iff not_le)

lemma hash_word_bit:
  assumes "fits_bits (Suc ms) a" "ms < 64"
  shows "bit (hash_word ms a) i = (if i < ms then bit a (Suc i) else if i = ms then bit a ms \<noteq> bit a 0 else False)"
proof (cases "i < 64")
  case True
  have "\<not> i < ms \<and> i \<noteq> ms \<longrightarrow> \<not> bit a (Suc i)" using fits_bitsD [OF assms(1), of "Suc i"] by auto
  with True assms(2) show ?thesis
    by (auto simp: hash_word_def bit_set_bit_iff bit_unset_bit_iff bit_drop_bit_eq possible_bit_word)
next
  case False
  then have "\<not> bit (hash_word ms a) i" using bit_imp_le_length [of "hash_word ms a" i] by auto
  with False assms(2) show ?thesis by simp
qed

lemma hash_word_fits:
  assumes "fits_bits (Suc ms) a" "ms < 64"
  shows "fits_bits (Suc ms) (hash_word ms a)"
  by (rule bit_word_eqI) (auto simp: bit_take_bit_iff hash_word_bit [OF assms])

lemma lfsr_hash:
  assumes "fits_bits (Suc ms) a" "ms < 64"
  shows "lfsr ms (hash_word ms a) k = lfsr ms a (Suc k)"
proof (induction k rule: less_induct)
  case (less k)
  show ?case
  proof (cases "k \<le> ms")
    case True
    show ?thesis
    proof (cases "k = ms")
      case True
      then show ?thesis by (subst lfsr.simps, subst lfsr.simps) (simp add: hash_word_bit [OF assms] lfsr.simps)
    next
      case False
      with True show ?thesis by (subst (1 2) lfsr.simps) (simp add: hash_word_bit [OF assms])
    qed
  next
    case False
    then have "lfsr ms (hash_word ms a) k = (lfsr ms (hash_word ms a) (k - 1) \<noteq> lfsr ms (hash_word ms a) (k - ms - 1))"
      by (subst lfsr.simps) simp
    also have "\<dots> = (lfsr ms a k \<noteq> lfsr ms a (k - ms))"
      using less [of "k - 1"] less [of "k - ms - 1"] False by (simp add: Suc_diff_Suc)
    also have "\<dots> = lfsr ms a (Suc k)" using False by (subst (3) lfsr.simps) simp
    finally show ?thesis .
  qed
qed

fun hash_times :: "nat \<Rightarrow> nat \<Rightarrow> u64 \<Rightarrow> u64" where
  "hash_times ms 0 a = a"
| "hash_times ms (Suc j) a = hash_times ms j (hash_word ms a)"

lemma hash_times_fits: "fits_bits (Suc ms) a \<Longrightarrow> ms < 64 \<Longrightarrow> fits_bits (Suc ms) (hash_times ms j a)"
  by (induction j arbitrary: a) (auto simp: hash_word_fits)

lemma hash_times_bit:
  assumes "fits_bits (Suc ms) a" "ms < 64" "i \<le> ms"
  shows "bit (hash_times ms j a) i = lfsr ms a (i + j)"
  using assms(1)
proof (induction j arbitrary: a)
  case 0
  then show ?case using assms(3) by (simp add: lfsr.simps)
next
  case (Suc j)
  from Suc.IH [OF hash_word_fits [OF Suc.prems assms(2)]] lfsr_hash [OF Suc.prems assms(2)] show ?case by simp
qed

text \<open>The characteristic equation of the register.\<close>

lemma hash_period:
  assumes "fits_bits (Suc ms) a" "ms < 64"
  shows "hash_times ms (Suc ms) a = hash_times ms ms a XOR a"
proof (rule bit_word_eqI)
  fix i
  show "bit (hash_times ms (Suc ms) a) i = bit (hash_times ms ms a XOR a) i"
  proof (cases "i \<le> ms")
    case True
    have "bit (hash_times ms (Suc ms) a) i = lfsr ms a (i + Suc ms)" by (rule hash_times_bit [OF assms True])
    also have "\<dots> = (lfsr ms a (i + ms) \<noteq> lfsr ms a i)" by (subst lfsr.simps) simp
    also have "lfsr ms a i = bit a i" using True by (simp add: lfsr.simps)
    finally show ?thesis using hash_times_bit [OF assms True, of ms] by (simp add: bit_xor_iff)
  next
    case False
    then have i: "Suc ms \<le> i" by simp
    have "\<not> bit (hash_times ms (Suc ms) a) i" "\<not> bit (hash_times ms ms a) i" "\<not> bit a i"
      using fits_bitsD [OF hash_times_fits [OF assms] i] fits_bitsD [OF assms(1) i] by blast+
    then show ?thesis by (simp add: bit_xor_iff del: hash_times.simps)
  qed
qed

section \<open>The hashes are linear and inverse to each other\<close>

lemma fits_xor: "fits_bits n a \<Longrightarrow> fits_bits n b \<Longrightarrow> fits_bits n (a XOR b)"
  by (simp add: take_bit_xor)

lemma hash_word_xor:
  assumes "fits_bits (Suc ms) a" "fits_bits (Suc ms) b" "ms < 64"
  shows "hash_word ms (a XOR b) = hash_word ms a XOR hash_word ms b"
  by (rule bit_word_eqI)
    (auto simp: bit_xor_iff hash_word_bit [OF assms(1,3)] hash_word_bit [OF assms(2,3)]
      hash_word_bit [OF fits_xor [OF assms(1,2)] assms(3)] simp del: bit_0)

lemma hash_times_xor:
  assumes "fits_bits (Suc ms) a" "fits_bits (Suc ms) b" "ms < 64"
  shows "hash_times ms j (a XOR b) = hash_times ms j a XOR hash_times ms j b"
  using assms(1,2)
proof (induction j arbitrary: a b)
  case (Suc j)
  with hash_word_fits assms(3) show ?case by (simp add: hash_word_xor)
qed simp

lemma hash_times_outer: "hash_times ms (Suc j) a = hash_word ms (hash_times ms j a)"
  by (induction j arbitrary: a) simp_all

lemma dehash_word_bit:
  assumes "0 < ms" "ms < 64"
  shows "bit (dehash_word ms a) i
    = (if i = 0 then bit a (ms - 1) \<noteq> bit a ms else if i \<le> ms then bit a (i - 1) else False)"
proof (cases "i < 64")
  case True
  have "bit (push_bit 1 (take_bit ms a)) i \<longleftrightarrow> 0 < i \<and> i \<le> ms \<and> bit a (i - 1)"
    using True by (cases i) (auto simp only: bit_push_bit_iff bit_take_bit_iff possible_bit_word, auto)
  then show ?thesis
    unfolding dehash_word_def if_distrib [of "\<lambda>x. bit x i"] bit_set_bit_iff bit_unset_bit_iff
    using True by (auto simp: possible_bit_word simp del: push_bit_of_1)
next
  case False
  then have "\<not> bit (dehash_word ms a) i" using bit_imp_le_length [of "dehash_word ms a" i] by auto
  with False assms(2) show ?thesis by simp
qed

lemma dehash_word_fits: "0 < ms \<Longrightarrow> ms < 64 \<Longrightarrow> fits_bits (Suc ms) (dehash_word ms a)"
  by (rule bit_word_eqI) (auto simp: bit_take_bit_iff dehash_word_bit)

lemma dehash_hash:
  assumes "fits_bits (Suc ms) a" "0 < ms" "ms < 64"
  shows "dehash_word ms (hash_word ms a) = a"
proof (rule bit_word_eqI)
  fix i
  show "bit (dehash_word ms (hash_word ms a)) i = bit a i"
    using assms(2) fits_bitsD [OF assms(1), of i]
    by (auto simp: dehash_word_bit [OF assms(2,3)] hash_word_bit [OF assms(1,3)] simp del: bit_0)
qed

lemma hash_dehash:
  assumes "fits_bits (Suc ms) a" "0 < ms" "ms < 64"
  shows "hash_word ms (dehash_word ms a) = a"
proof (rule bit_word_eqI)
  fix i
  show "bit (hash_word ms (dehash_word ms a)) i = bit a i"
    using assms(2) fits_bitsD [OF assms(1), of i]
    by (auto simp: hash_word_bit [OF dehash_word_fits [OF assms(2,3)] assms(3)] dehash_word_bit [OF assms(2,3)]
        simp del: bit_0)
qed

section \<open>Deskewing\<close>

lemma repeat_hash:
  assumes "documented BF" "ms < 64"
  shows "repeat_opt n (skew_hash BF ms) a = Some (hash_times ms n a)"
  by (induction n arbitrary: a) (simp_all add: skew_hash_word [OF assms])

lemma repeat_dehash:
  assumes "documented BF" "0 < ms" "ms < 64" "fits_bits (Suc ms) a"
  shows "repeat_opt n (skew_dehash BF ms) (hash_times ms n a) = Some a"
proof (induction n)
  case (Suc n)
  have "dehash_word ms (hash_times ms (Suc n) a) = hash_times ms n a"
    unfolding hash_times_outer using assms(2-4) by (intro dehash_hash hash_times_fits)
  with Suc show ?case by (simp add: skew_dehash_word [OF assms(1-3)] del: hash_times.simps)
qed simp

lemma deskew_skew:
  assumes "documented BF" "0 < ms" "2 * (ms + 1) \<le> 64"
  shows "\<exists>s. skew BF ms x way = Some s \<and> fits_bits (Suc ms) s
    \<and> (\<forall>y. take_bit (Suc ms) y = s \<and> take_bit (Suc ms) (drop_bit (Suc ms) y) = take_bit (Suc ms) (drop_bit (Suc ms) x)
        \<longrightarrow> deskew BF ms y way = Some (take_bit (Suc ms) x))"
proof -
  have ms: "ms < 64" using assms(3) by simp
  note hashes = skew_hash_word [OF assms(1) ms] skew_dehash_word [OF assms(1,2) ms]
  let ?a = "take_bit (Suc ms) x" and ?b = "take_bit (Suc ms) (drop_bit (Suc ms) x)"
  let ?k = "unat way mod 8" and ?n = "unat way div 8"
  have low: "bf_bits BF z (of_nat ms) 0 = Some (take_bit (Suc ms) z)" for z
    using documented_range(1) [OF assms(1) _ ms, of 0 z] by simp
  have high: "bf_bits BF z (of_nat (2 * (ms + 1) - 1)) (of_nat (ms + 1)) = Some (take_bit (Suc ms) (drop_bit (Suc ms) z))" for z
    using documented_range(1) [OF assms(1), of "ms + 1" "2 * (ms + 1) - 1" z] assms(3) by (simp del: of_nat_add)
  have fa: "fits_bits (Suc ms) ?a" and fb: "fits_bits (Suc ms) ?b" by simp_all
  define y where "y = (if ?k \<in> {0, 1, 4, 5} then hash_word ms ?b else dehash_word ms ?b)"
  define h where "h = (if ?k < 4 then hash_word ms ?a else dehash_word ms ?a)"
  define c where "c = (if even ?k then ?b else ?a)"
  have fh: "fits_bits (Suc ms) h" and fy: "fits_bits (Suc ms) y" and fc: "fits_bits (Suc ms) c"
    using hash_word_fits [OF fa ms] hash_word_fits [OF fb ms] dehash_word_fits [OF assms(2) ms]
    by (simp_all add: h_def y_def c_def)
  let ?s = "hash_times ms ?n (h XOR y XOR c)"
  have f3: "fits_bits (Suc ms) (h XOR y XOR c)" using fh fy fc by (intro fits_xor)
  have skew: "skew BF ms x way = Some ?s"
    unfolding skew_def low high Let_def num_skewing_functions_def
    by (simp add: hashes repeat_hash [OF assms(1) ms] h_def y_def c_def)
  have "deskew BF ms z way = Some ?a"
    if z: "take_bit (Suc ms) z = ?s" "take_bit (Suc ms) (drop_bit (Suc ms) z) = ?b" for z
  proof -
    let ?t = "(h XOR y XOR c) XOR y"
    have t: "?t = h XOR c" by (simp add: xor.assoc xor.left_commute)
    have start: "deskew BF ms z way =
        (if ?k = 0 \<or> ?k = 2 then skew_dehash BF ms (?t XOR ?b)
         else if ?k = 1 \<or> ?k = 3 then repeat_opt ms (skew_hash BF ms) ?t
         else if ?k = 4 \<or> ?k = 6 then skew_hash BF ms (?t XOR ?b)
         else repeat_opt (ms + 1) (skew_hash BF ms) ?t)"
      unfolding deskew_def low high bind.bind_lunit z num_skewing_functions_def
        repeat_dehash [OF assms(1,2) ms f3] Let_def
      by (simp add: hashes y_def xor.assoc)
    have "?k < 8" by simp
    then consider "?k \<in> {0, 2}" | "?k \<in> {1, 3}" | "?k \<in> {4, 6}" | "?k \<in> {5, 7}" by force
    then show ?thesis
    proof cases
      case 1
      then have "h = hash_word ms ?a" "c = ?b" by (auto simp: h_def c_def)
      then have "?t XOR ?b = hash_word ms ?a" unfolding t by (simp add: xor.assoc)
      with 1 show ?thesis unfolding start by (auto simp: hashes dehash_hash [OF fa assms(2) ms])
    next
      case 2
      then have "h = hash_word ms ?a" "c = ?a" by (auto simp: h_def c_def)
      then have "hash_times ms ms ?t = hash_times ms (Suc ms) ?a XOR hash_times ms ms ?a"
        unfolding t using hash_times_xor [OF hash_word_fits [OF fa ms] fa ms] by simp
      also have "\<dots> = ?a" unfolding hash_period [OF fa ms] by (simp add: xor.commute xor.left_commute)
      finally show ?thesis unfolding start using 2 by (auto simp: repeat_hash [OF assms(1) ms])
    next
      case 3
      then have "h = dehash_word ms ?a" "c = ?b" by (auto simp: h_def c_def)
      then have "?t XOR ?b = dehash_word ms ?a" unfolding t by (simp add: xor.assoc)
      with 3 show ?thesis unfolding start by (auto simp: hashes hash_dehash [OF fa assms(2) ms])
    next
      case 4
      then have "h = dehash_word ms ?a" "c = ?a" by (auto simp: h_def c_def)
      then have "hash_times ms (Suc ms) ?t
          = hash_times ms (Suc ms) (dehash_word ms ?a) XOR hash_times ms (Suc ms) ?a"
        unfolding t by (simp only: hash_times_xor [OF dehash_word_fits [OF assms(2) ms] fa ms])
      also have "hash_times ms (Suc ms) (dehash_word ms ?a) = hash_times ms ms ?a"
        by (simp add: hash_dehash [OF fa assms(2) ms])
      also have "hash_times ms ms ?a XOR hash_times ms (Suc ms) ?a = ?a"
        unfolding hash_period [OF fa ms] by (simp add: xor.left_commute)
      finally show ?thesis unfolding start using 4
        by (auto simp: repeat_hash [OF assms(1) ms] simp del: repeat_opt.simps hash_times.simps)
    qed
  qed
  with skew hash_times_fits [OF f3 ms] show ?thesis by blast
qed

lemma new_skewed_ok:
  assumes "new_skewed assoc bytes entry_size = Some sk"
  shows "indexing_ok (sk_indexing sk) \<and> 0 < msb_shift sk \<and> 2 * (msb_shift sk + 1) \<le> 64
    \<and> set_mask (sk_indexing sk) = mask (Suc (msb_shift sk))
    \<and> tag_shift (sk_indexing sk) = set_shift (sk_indexing sk) + Suc (msb_shift sk)
    \<and> num_sets (sk_indexing sk) = 2 ^ Suc (msb_shift sk) \<and> msb_shift sk < 31"
proof -
  from assms obtain ix l where ix: "new_set_associative assoc bytes entry_size = Some ix"
    and l: "floor_log2 (num_sets ix) = Some l" "\<not> 64 < set_shift ix + 2 * l" "2 < num_sets ix"
    and sk: "sk = \<lparr>sk_indexing = ix, msb_shift = l - 1\<rparr>"
    by (auto simp: new_skewed_def bind_Some_iff not_le)
  from new_set_associative_ok [OF ix] have ok: "indexing_ok ix" .
  then obtain k where k: "num_sets ix = 2 ^ k" "k < 32" "set_mask ix = 2 ^ k - 1" "tag_shift ix = set_shift ix + k"
    by (auto simp: indexing_ok_def)
  have "unat (num_sets ix) = 2 ^ k" using k(1,2) by (simp add: power_u32)
  then have "uint (num_sets ix) = 2 ^ k" by (simp add: uint_nat)
  then have "bit_length (uint (num_sets ix)) = Suc k" using bit_length_unique [of k "2 ^ k"] by simp
  with l(1) have lk: "l = k" by (auto simp: floor_log2_def split: if_splits)
  have "1 < k"
  proof (rule ccontr)
    assume "\<not> 1 < k"
    then have "k = 0 \<or> k = 1" by auto
    with k(1) l(3) show False by (auto simp: word_less_nat_alt)
  qed
  with ok k l(2) lk sk show ?thesis by (simp add: mask_eq_exp_minus_1)
qed

section \<open>Properties\<close>

text \<open>
  With the bit operations that gem5 documents skewing is invertible. For every accepted geometry and every
  way, the address that the policy regenerates from the tag and the set of a block is the address of the
  block: its low offset bits are zero, all others are kept. What the operations of the repository make of
  the policy is the last property of this theory.
\<close>

theorem skewed_round_trip:
  assumes "new_skewed assoc bytes entry_size = Some sk" "documented BF"
  shows "\<exists>s. skew_extract_set BF sk addr way = Some s
    \<and> skew_regenerate_addr BF sk (extract_tag (sk_indexing sk) addr) s way
      = Some (push_bit (set_shift (sk_indexing sk)) (drop_bit (set_shift (sk_indexing sk)) addr))"
proof -
  let ?ix = "sk_indexing sk" and ?ms = "msb_shift sk" and ?sh = "set_shift (sk_indexing sk)"
  from new_skewed_ok [OF assms(1)] have ms: "0 < ?ms" "2 * (?ms + 1) \<le> 64" "set_mask ?ix = mask (Suc ?ms)"
    and tag: "tag_shift ?ix = ?sh + Suc ?ms" by auto
  have m64: "(ucast (set_mask ?ix) :: u64) = mask (Suc ?ms)"
    unfolding ms(3) by (rule bit_word_eqI) (use ms(2) in \<open>auto simp: bit_ucast_iff bit_mask_iff\<close>)
  let ?x = "drop_bit ?sh addr"
  from deskew_skew [OF assms(2) ms(1,2), of ?x way] obtain s where
    s: "skew BF ?ms ?x way = Some s" "fits_bits (Suc ?ms) s"
      "\<And>y. take_bit (Suc ?ms) y = s \<Longrightarrow> take_bit (Suc ?ms) (drop_bit (Suc ?ms) y)
        = take_bit (Suc ?ms) (drop_bit (Suc ?ms) ?x) \<Longrightarrow> deskew BF ?ms y way = Some (take_bit (Suc ?ms) ?x)" by blast
  have got: "skew_extract_set BF sk addr way = Some (ucast s)"
    using s(1,2) by (simp add: skew_extract_set_def m64 flip: take_bit_eq_mask)
  have narrow: "(ucast (ucast s :: u32) :: u64) = s"
  proof (rule bit_word_eqI)
    fix n
    show "bit (ucast (ucast s :: u32) :: u64) n = bit s n"
      using fits_bitsD [OF s(2), of n] ms(2) by (cases "n < 32") (auto simp: bit_ucast_iff)
  qed
  let ?y = "push_bit (?ms + 1) (extract_tag ?ix addr) OR s"
  have "take_bit (Suc ?ms) ?y = s"
    by (rule bit_word_eqI)
      (use fits_bitsD [OF s(2)] in \<open>auto simp: bit_take_bit_iff bit_or_iff bit_push_bit_iff simp del: push_bit_Suc\<close>)
  moreover have "take_bit (Suc ?ms) (drop_bit (Suc ?ms) ?y) = take_bit (Suc ?ms) (drop_bit (Suc ?ms) ?x)"
    by (rule bit_word_eqI)
      (use fits_bitsD [OF s(2)] ms(2) in \<open>auto simp: bit_take_bit_iff bit_or_iff bit_push_bit_iff bit_drop_bit_eq
        extract_tag_def tag ac_simps simp del: push_bit_Suc\<close>)
  ultimately have d: "deskew BF ?ms ?y way = Some (take_bit (Suc ?ms) ?x)" by (rule s(3))
  have "push_bit (tag_shift ?ix) (extract_tag ?ix addr) OR push_bit ?sh (take_bit (Suc ?ms) ?x) = push_bit ?sh ?x"
  proof (rule bit_word_eqI)
    fix n
    show "bit (push_bit (tag_shift ?ix) (extract_tag ?ix addr) OR push_bit ?sh (take_bit (Suc ?ms) ?x)) n
      = bit (push_bit ?sh ?x) n"
      by (cases "n < ?sh + Suc ?ms")
        (auto simp: bit_or_iff bit_push_bit_iff bit_drop_bit_eq bit_take_bit_iff extract_tag_def tag
          simp del: push_bit_Suc)
  qed
  with got d show ?thesis
    by (simp add: skew_regenerate_addr_def narrow m64 flip: take_bit_eq_mask)
qed

text \<open>The operations as gem5 documents them, written out.\<close>

definition plain_bitfield :: bitfield where
  "plain_bitfield = \<lparr>
     bf_bits = (\<lambda>v hi lo. Some (take_bit (Suc (unat hi) - unat lo) (drop_bit (unat lo) v))),
     bf_mbits = (\<lambda>v hi lo. Some (push_bit (unat lo) (take_bit (Suc (unat hi) - unat lo) (drop_bit (unat lo) v)))),
     bf_insert = (\<lambda>v b x. Some (if bit x 0 then set_bit (unat b) v else unset_bit (unat b) v))\<rparr>"

theorem skewed_round_trip_witness:
  "\<exists>sk s. new_skewed 4 65536 64 = Some sk \<and> skew_extract_set plain_bitfield sk 0x12345678 5 = Some s
    \<and> skew_regenerate_addr plain_bitfield sk (extract_tag (sk_indexing sk) 0x12345678) s 5
      = Some (push_bit (set_shift (sk_indexing sk)) (drop_bit (set_shift (sk_indexing sk)) 0x12345678))"
proof -
  have "documented plain_bitfield" by (simp add: documented_def plain_bitfield_def)
  moreover have "new_skewed 4 65536 64 \<noteq> None" by code_simp
  then obtain sk where "new_skewed 4 65536 64 = Some sk" by blast
  ultimately show ?thesis using skewed_round_trip [where way = 5 and addr = "0x12345678"] by blast
qed

section \<open>The bit operations of the repository\<close>

text \<open>
  From eight sets on the hash of any address is undefined: \<open>bits(addr, msbShift, 0)\<close> asks the stub for
  \<open>1 - msbShift\<close> bits.
\<close>

lemma stub_bits_undefined:
  assumes "2 \<le> ms" "ms < 32"
  shows "stub_bits addr (of_nat ms) 0 = None"
proof -
  have "(0 - of_nat ms + 1 :: u32) = of_nat (2 ^ 32 + 1 - ms)" using assms by (simp add: of_nat_diff)
  then have "unat (0 - of_nat ms + 1 :: u32) = 2 ^ 32 + 1 - ms"
    using assms by (simp only: unat_of_nat) simp
  then have "64 \<le> unat (0 - of_nat ms + 1 :: u32)" using assms(2) by simp
  then show ?thesis by (simp add: stub_bits_def Let_def)
qed

lemma stub_skew_undefined:
  assumes "2 \<le> ms" "ms < 32"
  shows "skew stub_bitfield ms addr way = None" "deskew stub_bitfield ms addr way = None"
  using stub_bits_undefined [OF assms] by (simp_all add: skew_def deskew_def stub_bitfield_def)

text \<open>With four sets it is asked for no bits, and every hash is zero.\<close>

lemma stub_hash_zero: "skew_hash stub_bitfield 1 0 = Some 0" "skew_dehash stub_bitfield 1 0 = Some 0"
  by code_simp+

lemma repeat_fixed: "f a = Some a \<Longrightarrow> repeat_opt n f a = Some a"
  by (induction n) simp_all

lemma stub_skew_zero:
  "skew stub_bitfield 1 addr way = Some 0" "deskew stub_bitfield 1 addr way = Some 0"
proof -
  have none: "bf_bits stub_bitfield x 1 0 = Some 0" "bf_bits stub_bitfield x 3 2 = Some 0" for x
    by (simp_all add: stub_bitfield_def stub_bits_def)
  note rep = repeat_fixed [where f = "skew_hash stub_bitfield 1", OF stub_hash_zero(1)]
    repeat_fixed [where f = "skew_dehash stub_bitfield 1", OF stub_hash_zero(2)]
  show "skew stub_bitfield 1 addr way = Some 0" using stub_hash_zero rep by (simp add: skew_def none Let_def)
  show "deskew stub_bitfield 1 addr way = Some 0" using stub_hash_zero rep by (simp add: deskew_def none Let_def)
qed

text \<open>The set of a way does not depend on the address, so neither do the candidates.\<close>

lemma same_sets_same_entries:
  assumes "\<And>way. skew_extract_set BF sk a way = skew_extract_set BF sk b way"
  shows "skew_entries BF sk a ways = skew_entries BF sk b ways"
  using assms by (induction ways) simp_all

text \<open>C24: With the bit operations of the repository, which take the lower position first, the skewed policy
  loses the set of every address, whatever accepted geometry it has. With four sets every address goes to
  the set 0 of every way, and the address regenerated for it has lost its set bits: it is right only for
  the addresses whose set bits are zero. With more sets, taking the set of an address or regenerating an
  address shifts by more than 63 bits, which is undefined, so no candidates can be computed. No two
  addresses have different candidates.\<close>

theorem skewing_loses_the_set:
  assumes "new_skewed assoc bytes entry_size = Some sk"
  shows "(if num_sets (sk_indexing sk) = 4
      then skew_extract_set stub_bitfield sk addr way = Some 0
        \<and> skew_regenerate_addr stub_bitfield sk (extract_tag (sk_indexing sk) addr) 0 way
          = Some (push_bit (tag_shift (sk_indexing sk)) (drop_bit (tag_shift (sk_indexing sk)) addr))
      else skew_extract_set stub_bitfield sk addr way = None \<and> skew_regenerate_addr stub_bitfield sk tag s way = None
        \<and> (ix_assoc (sk_indexing sk) \<noteq> 0 \<longrightarrow> skew_possible_entries stub_bitfield sk addr = None))
    \<and> skew_possible_entries stub_bitfield sk addr = skew_possible_entries stub_bitfield sk addr'"
proof -
  let ?ix = "sk_indexing sk" and ?ms = "msb_shift sk"
  from new_skewed_ok [OF assms] have ms: "0 < ?ms" "?ms < 31" "num_sets ?ix = 2 ^ Suc ?ms" by auto
  have four: "num_sets ?ix = 4 \<longleftrightarrow> ?ms = 1"
  proof -
    have "unat (num_sets ?ix) = 2 ^ Suc ?ms" using ms(2,3) by (simp only: power_u32)
    moreover have "(2 ^ Suc ?ms = (4 :: nat)) = (?ms = 1)" using power_inject_exp [of "2 :: nat" "Suc ?ms" 2] by auto
    ultimately show ?thesis by (auto simp: word_unat_eq_iff)
  qed
  show ?thesis
  proof (cases "?ms = 1")
    case True
    have z: "skew_extract_set stub_bitfield sk a w = Some 0" for a w
      by (simp add: skew_extract_set_def True [simplified] stub_skew_zero [simplified])
    have "skew_possible_entries stub_bitfield sk addr = skew_possible_entries stub_bitfield sk addr'"
      unfolding skew_possible_entries_def by (rule same_sets_same_entries) (simp add: z)
    with True four z show ?thesis
      by (simp add: skew_regenerate_addr_def True [simplified] stub_skew_zero [simplified] extract_tag_def)
  next
    case False
    with ms(1,2) have big: "2 \<le> ?ms" "?ms < 32" by auto
    have n: "skew_extract_set stub_bitfield sk a w = None" for a w
      by (simp add: skew_extract_set_def stub_skew_undefined [OF big])
    have "skew_possible_entries stub_bitfield sk addr = skew_possible_entries stub_bitfield sk addr'"
      unfolding skew_possible_entries_def by (rule same_sets_same_entries) (simp add: n)
    moreover have "skew_possible_entries stub_bitfield sk addr = None" if "ix_assoc ?ix \<noteq> 0"
    proof -
      have "0 < unat (ix_assoc ?ix)" using that by (simp add: unat_gt_0)
      then show ?thesis by (simp add: skew_possible_entries_def upt_conv_Cons n)
    qed
    ultimately show ?thesis using False four
      by (simp add: n skew_regenerate_addr_def stub_skew_undefined [OF big])
  qed
qed

theorem skewing_loses_the_set_witness:
  "\<exists>sk sk8. new_skewed 4 1024 64 = Some sk \<and> num_sets (sk_indexing sk) = 4
     \<and> skew_regenerate_addr stub_bitfield sk (extract_tag (sk_indexing sk) 0x1240) 0 2 = Some 0x1200
     \<and> new_skewed 4 2048 64 = Some sk8 \<and> num_sets (sk_indexing sk8) = 8
     \<and> skew_extract_set stub_bitfield sk8 0x1240 2 = None"
proof -
  have "map_option (\<lambda>sk. (num_sets (sk_indexing sk), tag_shift (sk_indexing sk))) (new_skewed 4 1024 64) = Some (4, 8)"
    "map_option (\<lambda>sk. num_sets (sk_indexing sk)) (new_skewed 4 2048 64) = Some 8" by code_simp+
  then obtain sk sk8 where sk: "new_skewed 4 1024 64 = Some sk" "num_sets (sk_indexing sk) = 4" "tag_shift (sk_indexing sk) = 8"
    and sk8: "new_skewed 4 2048 64 = Some sk8" "num_sets (sk_indexing sk8) = 8" by auto
  have "push_bit 8 (drop_bit 8 (0x1240 :: u64)) = 0x1200" by code_simp
  then have "skew_regenerate_addr stub_bitfield sk (extract_tag (sk_indexing sk) 0x1240) 0 2 = Some 0x1200"
    using skewing_loses_the_set [OF sk(1), of "0x1240" 2] sk(2,3) by simp
  moreover have "skew_extract_set stub_bitfield sk8 0x1240 2 = None"
    using skewing_loses_the_set [OF sk8(1), of "0x1240" 2] sk8(2) by simp
  ultimately show ?thesis using sk sk8 by blast
qed

end
