(* ===== verification/GemTypes.thy ===== *)
theory GemTypes
  imports ReplBase
begin

text \<open>
  Packets and requests as the gem5 cache sees them (\<open>gem5_stubs/mem/packet.hh\<close>,
  \<open>gem5_stubs/mem/request.hh\<close>). What gem5 reads off the command of a packet is an argument of the
  model, the table \<open>cmd_attrs\<close>: the stub of this repository answers most of these questions with a
  constant (\<open>stub_attrs\<close>), gem5 itself with a table indexed by the command. Properties of a request
  that the stub also fixes are fields, so that the model covers any value they may have.
\<close>

definition max_tick :: tick where
  "max_tick = - 1"

definition max_addr :: u64 where
  "max_addr = - 1"

definition invld_requestor_id :: u32 where
  "invld_requestor_id = - 1"

datatype mem_cmd = ReadReq | WriteReq | ReadResp | WriteResp | WriteLineReq | UpgradeReq | UpgradeResp
  | InvalidateReq | InvalidateResp | WritebackDirty | CleanEvict | SoftPFReq | HardPFReq
  | WritebackClean | StoreCondReq | WriteClean | ReadExReq | SoftPFExReq | SCUpgradeReq
  | SCUpgradeFailReq | StoreCondFailReq | ReadRespWithInvalidate | LockedRMWReadReq | ReadCleanReq
  | ReadSharedReq | HardPFResp | LockedRMWWriteReq | LockedRMWWriteResp | UpgradeFailResp | SwapReq
  | InvalidCmd

text \<open>\<open>req_flags\<close> is the flag word of which the write merging of the MSHRs tests bits.\<close>

record request =
  req_paddr :: u64
  req_size :: u32
  req_requestor :: u32
  req_context :: u32
  req_task :: u32
  req_flags :: u64
  req_uncacheable :: bool
  req_maintenance :: bool
  req_cache_invalidate :: bool

text \<open>The last fields are what the setters of a packet record; \<open>pkt_mshr\<close> is the sender state.\<close>

record packet =
  pkt_cmd :: mem_cmd
  pkt_addr :: u64
  pkt_size :: u32
  pkt_secure :: bool
  pkt_req :: request
  pkt_has_data :: bool
  pkt_masked :: bool
  pkt_express_snoop :: bool
  pkt_mshr :: "nat option"
  cache_responding :: bool
  responder_had_writable :: bool
  pkt_satisfied :: bool
  pkt_has_sharers :: bool

record cmd_attrs =
  is_write :: "mem_cmd \<Rightarrow> bool"
  needs_writable :: "mem_cmd \<Rightarrow> bool"
  is_upgrade :: "mem_cmd \<Rightarrow> bool"
  is_invalidate :: "mem_cmd \<Rightarrow> bool"
  is_clean :: "mem_cmd \<Rightarrow> bool"
  is_eviction :: "mem_cmd \<Rightarrow> bool"
  needs_response :: "mem_cmd \<Rightarrow> bool"
  is_llsc :: "mem_cmd \<Rightarrow> bool"
  from_cache :: "mem_cmd \<Rightarrow> bool"
  has_resp_data :: "mem_cmd \<Rightarrow> bool"

definition stub_is_write :: "mem_cmd \<Rightarrow> bool" where
  "stub_is_write c \<longleftrightarrow> c = WriteReq \<or> c = WriteResp \<or> c = WriteLineReq \<or> c = WriteClean"

definition stub_is_request :: "mem_cmd \<Rightarrow> bool" where
  "stub_is_request c \<longleftrightarrow> c = ReadReq \<or> c = WriteReq \<or> c = WriteLineReq \<or> c = WriteClean"

definition stub_attrs :: cmd_attrs where
  "stub_attrs = \<lparr>is_write = stub_is_write, needs_writable = (\<lambda>_. False), is_upgrade = (\<lambda>_. False),
     is_invalidate = (\<lambda>_. False), is_clean = (\<lambda>_. False), is_eviction = (\<lambda>_. False),
     needs_response = stub_is_request, is_llsc = (\<lambda>_. False), from_cache = (\<lambda>_. False),
     has_resp_data = (\<lambda>_. False)\<rparr>"

text \<open>The constructor for a request, a command and a size; the address is not taken over.\<close>

definition new_packet :: "request \<Rightarrow> mem_cmd \<Rightarrow> u32 \<Rightarrow> packet" where
  "new_packet r c sz = \<lparr>pkt_cmd = c, pkt_addr = 0, pkt_size = sz, pkt_secure = False, pkt_req = r,
     pkt_has_data = False, pkt_masked = False, pkt_express_snoop = False, pkt_mshr = None,
     cache_responding = False, responder_had_writable = False, pkt_satisfied = False, pkt_has_sharers = False\<rparr>"

text \<open>The copy of a packet shares its request and its data, but not its sender state.\<close>

definition copy_packet :: "packet \<Rightarrow> packet" where
  "copy_packet p = (new_packet (pkt_req p) (pkt_cmd p) (pkt_size p))
     \<lparr>pkt_addr := pkt_addr p, pkt_has_data := pkt_has_data p, pkt_secure := pkt_secure p, pkt_masked := pkt_masked p\<rparr>"

definition get_block_addr :: "packet \<Rightarrow> u32 \<Rightarrow> u64" where
  "get_block_addr p sz = pkt_addr p AND NOT (ucast (sz - 1))"

definition get_offset :: "packet \<Rightarrow> u32 \<Rightarrow> u64" where
  "get_offset p sz = pkt_addr p AND ucast (sz - 1)"

text \<open>The security attribute that the callers pass is ignored by the stub.\<close>

definition match_addr :: "packet \<Rightarrow> u64 \<Rightarrow> u32 \<Rightarrow> bool" where
  "match_addr p addr sz \<longleftrightarrow> pkt_addr p AND NOT (ucast (sz - 1)) = addr AND NOT (ucast (sz - 1))"

end
