(* ===== verification/GemBlk.thy ===== *)
theory GemBlk
  imports GemTypes
begin

text \<open>
  The blocks of the gem5 tag stores: \<open>TaggedEntry\<close> (\<open>tags/tagged_entry.hh\<close>), \<open>CacheBlk\<close> and
  \<open>TempCacheBlk\<close> (\<open>cache_blk.hh\<close>, \<open>cache_blk.cc\<close>), with the locks of load-linked and
  store-conditional. An \<open>assert\<close> is a failing computation. The tag extractor is a \<open>std::function\<close>
  that may be empty; the data pointer of a block is an offset into the data of its tag store.
\<close>

section \<open>Tagged entries\<close>

record block_key =
  key_address :: u64
  key_secure :: bool

record tagged_entry =
  te_set :: u32
  te_way :: u32
  te_valid :: bool
  te_secure :: bool
  te_tag :: u64
  te_extract :: "(u64 \<Rightarrow> u64) option"

definition new_tagged_entry :: tagged_entry where
  "new_tagged_entry = \<lparr>te_set = 0, te_way = 0, te_valid = False, te_secure = False, te_tag = max_addr, te_extract = None\<rparr>"

definition set_position :: "u32 \<Rightarrow> u32 \<Rightarrow> 'a tagged_entry_scheme \<Rightarrow> 'a tagged_entry_scheme" where
  "set_position s w b = b\<lparr>te_set := s, te_way := w\<rparr>"

definition register_tag_extractor :: "(u64 \<Rightarrow> u64) \<Rightarrow> 'a tagged_entry_scheme \<Rightarrow> 'a tagged_entry_scheme" where
  "register_tag_extractor ext b = b\<lparr>te_extract := Some ext\<rparr>"

definition tagged_match :: "block_key \<Rightarrow> 'a tagged_entry_scheme \<Rightarrow> bool option" where
  "tagged_match key b = do {
     ext \<leftarrow> te_extract b;
     Some (te_valid b \<and> te_tag b = ext (key_address key) \<and> te_secure b = key_secure key) }"

definition set_valid :: "'a tagged_entry_scheme \<Rightarrow> 'a tagged_entry_scheme option" where
  "set_valid b = do { cpp_assert (\<not> te_valid b); Some (b\<lparr>te_valid := True\<rparr>) }"

definition tagged_insert :: "block_key \<Rightarrow> 'a tagged_entry_scheme \<Rightarrow> 'a tagged_entry_scheme option" where
  "tagged_insert key b = do {
     ext \<leftarrow> te_extract b;
     b \<leftarrow> set_valid b;
     let b = b\<lparr>te_tag := ext (key_address key)\<rparr> in
     Some (if key_secure key then b\<lparr>te_secure := True\<rparr> else b) }"

definition tagged_invalidate :: "'a tagged_entry_scheme \<Rightarrow> 'a tagged_entry_scheme" where
  "tagged_invalidate b = b\<lparr>te_valid := False, te_tag := max_addr, te_secure := False\<rparr>"

section \<open>Locks\<close>

record blk_lock =
  lock_context :: u32
  lock_low :: u64
  lock_high :: u64

definition new_lock :: "request \<Rightarrow> blk_lock" where
  "new_lock r = \<lparr>lock_context = req_context r, lock_low = req_paddr r,
     lock_high = req_paddr r + ucast (req_size r) - 1\<rparr>"

definition lock_matches :: "request \<Rightarrow> blk_lock \<Rightarrow> bool" where
  "lock_matches r l =
     (let low = req_paddr r; high = low + ucast (req_size r) - 1 in
      lock_context l = req_context r \<and> lock_low l \<le> low \<and> high \<le> lock_high l)"

definition lock_intersects :: "request \<Rightarrow> blk_lock \<Rightarrow> bool" where
  "lock_intersects r l =
     (let low = req_paddr r; high = low + ucast (req_size r) - 1 in low \<le> lock_high l \<and> lock_low l \<le> high)"

section \<open>Cache blocks\<close>

record cache_blk = tagged_entry +
  cb_data :: "nat option"
  cb_when_ready :: tick
  cb_locks :: "blk_lock list"
  cb_coherence :: u32
  cb_task :: u32
  cb_requestor :: u32
  cb_partition :: u64
  cb_refs :: u32
  cb_inserted :: tick
  cb_prefetched :: bool

definition writable_bit :: u32 where "writable_bit = 2"
definition readable_bit :: u32 where "readable_bit = 4"
definition dirty_bit_mask :: u32 where "dirty_bit_mask = 8"
definition all_bits :: u32 where "all_bits = 14"

text \<open>\<open>context_switch_task_id::Unknown\<close> of the stub.\<close>

definition unknown_task :: u32 where "unknown_task = 0"

definition set_coherence_bits :: "u32 \<Rightarrow> 'a cache_blk_scheme \<Rightarrow> 'a cache_blk_scheme option" where
  "set_coherence_bits bits b = do { cpp_assert (te_valid b); Some (b\<lparr>cb_coherence := cb_coherence b OR bits\<rparr>) }"

definition clear_coherence_bits :: "u32 \<Rightarrow> 'a cache_blk_scheme \<Rightarrow> 'a cache_blk_scheme" where
  "clear_coherence_bits bits b = b\<lparr>cb_coherence := cb_coherence b AND NOT bits\<rparr>"

definition is_set :: "u32 \<Rightarrow> 'a cache_blk_scheme \<Rightarrow> bool" where
  "is_set bits b \<longleftrightarrow> te_valid b \<and> cb_coherence b AND bits \<noteq> 0"

definition get_when_ready :: "'a cache_blk_scheme \<Rightarrow> tick option" where
  "get_when_ready b = do { cpp_assert (cb_when_ready b \<noteq> max_tick); Some (cb_when_ready b) }"

definition set_when_ready :: "tick \<Rightarrow> 'a cache_blk_scheme \<Rightarrow> 'a cache_blk_scheme option" where
  "set_when_ready t b = do { cpp_assert (cb_inserted b \<le> t); Some (b\<lparr>cb_when_ready := t\<rparr>) }"

definition get_age :: "tick \<Rightarrow> 'a cache_blk_scheme \<Rightarrow> tick option" where
  "get_age now b = do { cpp_assert (cb_inserted b \<le> now); Some (now - cb_inserted b) }"

definition increase_ref_count :: "'a cache_blk_scheme \<Rightarrow> 'a cache_blk_scheme" where
  "increase_ref_count b = b\<lparr>cb_refs := cb_refs b + 1\<rparr>"

definition cache_blk_invalidate :: "'a cache_blk_scheme \<Rightarrow> 'a cache_blk_scheme option" where
  "cache_blk_invalidate b = do {
     b \<leftarrow> set_when_ready max_tick
       ((clear_coherence_bits all_bits ((tagged_invalidate b)\<lparr>cb_prefetched := False\<rparr>))
          \<lparr>cb_task := unknown_task, cb_partition := - 1\<rparr>);
     Some (b\<lparr>cb_refs := 0, cb_requestor := invld_requestor_id, cb_locks := []\<rparr>) }"

text \<open>The constructor sets the initial values of the members, then invalidates.\<close>

definition new_cache_blk :: "cache_blk option" where
  "new_cache_blk = cache_blk_invalidate (tagged_entry.extend new_tagged_entry
     \<lparr>cb_data = None, cb_when_ready = 0, cb_locks = [], cb_coherence = 0, cb_task = 0, cb_requestor = 0,
      cb_partition = 0, cb_refs = 0, cb_inserted = 0, cb_prefetched = False\<rparr>)"

definition cache_blk_insert ::
  "block_key \<Rightarrow> u32 \<Rightarrow> u32 \<Rightarrow> u64 \<Rightarrow> tick \<Rightarrow> 'a cache_blk_scheme \<Rightarrow> 'a cache_blk_scheme option" where
  "cache_blk_insert key requestor task part now b = do {
     cpp_assert (\<not> te_valid b);
     b \<leftarrow> tagged_insert key b;
     Some (increase_ref_count
       (b\<lparr>cb_requestor := requestor, cb_task := task, cb_partition := part, cb_inserted := now\<rparr>)) }"

text \<open>
  Moving a block. The key that is inserted at the destination has the tag of the source in the place
  of an address. The result is the destination and the invalidated source, which takes over the
  locks of the destination before it is invalidated.
\<close>

definition cache_blk_move ::
  "tick \<Rightarrow> 'a cache_blk_scheme \<Rightarrow> 'a cache_blk_scheme \<Rightarrow> ('a cache_blk_scheme \<times> 'a cache_blk_scheme) option" where
  "cache_blk_move now src dest = do {
     cpp_assert (\<not> te_valid dest);
     cpp_assert (te_valid src);
     dest \<leftarrow> tagged_insert \<lparr>key_address = te_tag src, key_secure = te_secure src\<rparr> dest;
     let dest = (if cb_prefetched src then dest\<lparr>cb_prefetched := True\<rparr> else dest) in do {
       dest \<leftarrow> set_coherence_bits (cb_coherence src) dest;
       let dest = dest\<lparr>cb_task := cb_task src, cb_partition := cb_partition src\<rparr> in do {
         dest \<leftarrow> set_when_ready now dest;
         src' \<leftarrow> cache_blk_invalidate (src\<lparr>cb_locks := cb_locks dest\<rparr>);
         Some (dest\<lparr>cb_refs := cb_refs src, cb_requestor := cb_requestor src, cb_locks := cb_locks src\<rparr>, src') } } }"

section \<open>Load-linked and store-conditional\<close>

definition track_load_locked :: "cmd_attrs \<Rightarrow> packet \<Rightarrow> 'a cache_blk_scheme \<Rightarrow> 'a cache_blk_scheme option" where
  "track_load_locked CA pkt b = do {
     cpp_assert (is_llsc CA (pkt_cmd pkt));
     Some (b\<lparr>cb_locks := new_lock (pkt_req pkt) # filter (\<lambda>l. \<not> lock_intersects (pkt_req pkt) l) (cb_locks b)\<rparr>) }"

definition clear_load_locks :: "request \<Rightarrow> 'a cache_blk_scheme \<Rightarrow> 'a cache_blk_scheme" where
  "clear_load_locks r b = b\<lparr>cb_locks :=
     filter (\<lambda>l. \<not> (lock_intersects r l \<and> lock_context l \<noteq> req_context r)) (cb_locks b)\<rparr>"

text \<open>The loop that removes the first lock that covers the request.\<close>

fun erase_lock :: "request \<Rightarrow> blk_lock list \<Rightarrow> bool \<times> blk_lock list" where
  "erase_lock r [] = (False, [])"
| "erase_lock r (l # ls) =
     (if lock_matches r l then (True, ls) else (let (found, ls') = erase_lock r ls in (found, l # ls')))"

text \<open>The second component is the value of \<open>setExtraData\<close>, if it is called.\<close>

definition check_write ::
  "cmd_attrs \<Rightarrow> packet \<Rightarrow> 'a cache_blk_scheme \<Rightarrow> (bool \<times> u64 option \<times> 'a cache_blk_scheme) option" where
  "check_write CA pkt b = do {
     cpp_assert (is_write CA (pkt_cmd pkt));
     if \<not> is_llsc CA (pkt_cmd pkt) \<and> cb_locks b = [] then Some (True, None, b)
     else if is_llsc CA (pkt_cmd pkt) then
       (let (success, ls) = erase_lock (pkt_req pkt) (cb_locks b) in
        Some (success, Some (if success then 1 else 0), clear_load_locks (pkt_req pkt) (b\<lparr>cb_locks := ls\<rparr>)))
     else Some (True, None, clear_load_locks (pkt_req pkt) b) }"

section \<open>Temporary blocks\<close>

record temp_blk = cache_blk +
  tb_addr :: u64

definition temp_blk_invalidate :: "temp_blk \<Rightarrow> temp_blk option" where
  "temp_blk_invalidate b = do { b \<leftarrow> cache_blk_invalidate b; Some (b\<lparr>tb_addr := max_addr\<rparr>) }"

definition temp_blk_insert :: "block_key \<Rightarrow> temp_blk \<Rightarrow> temp_blk option" where
  "temp_blk_insert key b = do { b \<leftarrow> tagged_insert key b; Some (b\<lparr>tb_addr := key_address key\<rparr>) }"

section \<open>What the operations do\<close>

named_theorems blk_simps \<open>the block operations as record updates\<close>

lemma max_tick_greatest [simp]: "t \<le> max_tick"
  by (simp add: max_tick_def)

lemma set_when_ready_max [blk_simps]: "set_when_ready max_tick b = Some (b\<lparr>cb_when_ready := max_tick\<rparr>)"
  by (simp add: set_when_ready_def)

definition cleared :: "'a cache_blk_scheme \<Rightarrow> 'a cache_blk_scheme" where
  "cleared b = b\<lparr>te_valid := False, te_tag := max_addr, te_secure := False, cb_prefetched := False,
     cb_coherence := cb_coherence b AND NOT all_bits, cb_task := unknown_task, cb_partition := - 1,
     cb_when_ready := max_tick, cb_refs := 0, cb_requestor := invld_requestor_id, cb_locks := []\<rparr>"

lemma cache_blk_invalidate_cleared [blk_simps]: "cache_blk_invalidate b = Some (cleared b)"
  by (simp add: cache_blk_invalidate_def set_when_ready_max cleared_def tagged_invalidate_def clear_coherence_bits_def)

lemma cleared_fields [simp]:
  "te_valid (cleared b) = False" "te_tag (cleared b) = max_addr" "te_secure (cleared b) = False"
  "te_extract (cleared b) = te_extract b" "te_set (cleared b) = te_set b" "te_way (cleared b) = te_way b"
  "cb_data (cleared b) = cb_data b" "cb_locks (cleared b) = []" "cb_refs (cleared b) = 0"
  by (simp_all add: cleared_def)

text \<open>An inserted block matches its key and, the tags being extracted alike, no other key of the tag.\<close>

lemma tagged_insert_eq [blk_simps]:
  "tagged_insert key b = (case te_extract b of None \<Rightarrow> None | Some ext \<Rightarrow>
     if te_valid b then None
     else Some (b\<lparr>te_valid := True, te_tag := ext (key_address key), te_secure := te_secure b \<or> key_secure key\<rparr>))"
  by (cases b) (auto simp: tagged_insert_def set_valid_def Let_def split: option.splits)

lemma cache_blk_insert_Some:
  assumes "cache_blk_insert key requestor task part now b = Some b'"
  shows "\<exists>ext. te_extract b = Some ext \<and> \<not> te_valid b \<and> te_valid b' \<and> te_tag b' = ext (key_address key)
    \<and> te_secure b' = (te_secure b \<or> key_secure key) \<and> te_extract b' = Some ext
    \<and> te_set b' = te_set b \<and> te_way b' = te_way b \<and> cb_data b' = cb_data b
    \<and> cb_refs b' = cb_refs b + 1 \<and> cb_inserted b' = now \<and> cb_requestor b' = requestor
    \<and> cb_task b' = task \<and> cb_partition b' = part"
  using assms
  by (auto simp: cache_blk_insert_def tagged_insert_eq increase_ref_count_def bind_Some_iff
      split: option.splits if_splits)

lemma cache_blk_insert_match:
  assumes "cache_blk_insert key requestor task part now b = Some b'" "\<not> te_secure b"
  shows "tagged_match key b' = Some True"
  using cache_blk_insert_Some [OF assms(1)] assms(2) by (auto simp: tagged_match_def)

text \<open>Moving a block extracts a tag from its tag: at the destination it has another tag, as a rule.\<close>

lemma cache_blk_move_tag:
  assumes "cache_blk_move now src dest = Some (dest', src')"
  shows "\<exists>ext. te_extract dest = Some ext \<and> te_valid src \<and> te_valid dest' \<and> te_tag dest' = ext (te_tag src)
    \<and> \<not> te_valid src' \<and> cb_coherence dest' = cb_coherence dest OR cb_coherence src \<and> cb_locks dest' = cb_locks src"
proof -
  from assms obtain ext where ext: "te_extract dest = Some ext" "te_valid src" "\<not> te_valid dest"
    by (auto simp: cache_blk_move_def tagged_insert_eq bind_Some_iff split: option.splits)
  with assms show ?thesis
    by (cases "cb_prefetched src")
      (auto simp: cache_blk_move_def tagged_insert_eq set_coherence_bits_def set_when_ready_def
        cache_blk_invalidate_cleared bind_Some_iff)
qed

text \<open>A store-conditional succeeds exactly when its lock is held; its lock and those of the others go.\<close>

lemma erase_lock_found: "fst (erase_lock r ls) \<longleftrightarrow> (\<exists>l \<in> set ls. lock_matches r l)"
  by (induction ls) (auto split: prod.splits)

lemma erase_lock_subset: "set (snd (erase_lock r ls)) \<subseteq> set ls"
  by (induction ls) (auto split: prod.splits)

lemma store_conditional:
  assumes "is_write CA (pkt_cmd pkt)" "is_llsc CA (pkt_cmd pkt)"
  shows "\<exists>b'. check_write CA pkt b = Some (\<exists>l \<in> set (cb_locks b). lock_matches (pkt_req pkt) l,
      Some (if \<exists>l \<in> set (cb_locks b). lock_matches (pkt_req pkt) l then 1 else 0), b')
    \<and> (\<forall>l \<in> set (cb_locks b'). lock_intersects (pkt_req pkt) l \<longrightarrow> lock_context l = req_context (pkt_req pkt))"
  using assms erase_lock_found [of "pkt_req pkt" "cb_locks b"]
  by (cases "erase_lock (pkt_req pkt) (cb_locks b)") (simp add: check_write_def clear_load_locks_def)

text \<open>A tracked load-linked can be stored to, until another context writes to the range.\<close>

lemma load_linked_then_store:
  assumes "track_load_locked CA pkt b = Some b'" "is_write CA (pkt_cmd pkt')" "is_llsc CA (pkt_cmd pkt')"
    and "req_context (pkt_req pkt') = req_context (pkt_req pkt)"
    and "req_paddr (pkt_req pkt') = req_paddr (pkt_req pkt)" "req_size (pkt_req pkt') = req_size (pkt_req pkt)"
  shows "\<exists>x b''. check_write CA pkt' b' = Some (True, x, b'')"
proof -
  have "lock_matches (pkt_req pkt') (new_lock (pkt_req pkt))"
    using assms(4-6) by (simp add: lock_matches_def new_lock_def Let_def)
  moreover have "new_lock (pkt_req pkt) \<in> set (cb_locks b')"
    using assms(1) by (auto simp: track_load_locked_def bind_Some_iff)
  ultimately show ?thesis using store_conditional [OF assms(2,3), of b'] by auto
qed

lemma plain_write_breaks_locks:
  assumes "is_write CA (pkt_cmd pkt)" "\<not> is_llsc CA (pkt_cmd pkt)"
  shows "\<exists>b'. check_write CA pkt b = Some (True, None, b')
    \<and> cb_locks b' = filter (\<lambda>l. \<not> (lock_intersects (pkt_req pkt) l \<and> lock_context l \<noteq> req_context (pkt_req pkt))) (cb_locks b)"
  using assms by (auto simp: check_write_def clear_load_locks_def)

end
