(* ===== verification/Partitioning.thy ===== *)
theory Partitioning
  imports GemBlk
begin

text \<open>
  Cache partitioning (\<open>tags/partitioning_policies\<close>): the maximum capacity policy, the way policy and
  the manager that applies a list of policies. A \<open>std::unordered_map\<close> is an association list;
  \<open>operator[]\<close> inserts a zero. The capacity of a partition is computed from a fraction in floating
  point, so the constructor takes the computed block counts. What a policy reads of an entry, its
  partition and its way, is the block that the entry points to.
\<close>

section \<open>Maximum capacity\<close>

record max_capacity =
  max_capacities :: "(u64 \<times> u64) list"
  cur_capacities :: "(u64 \<times> u64) list"

text \<open>\<open>emplace\<close> keeps an entry that is there.\<close>

definition configure_partition :: "u64 \<Rightarrow> u64 \<Rightarrow> max_capacity \<Rightarrow> max_capacity" where
  "configure_partition i n p = (case map_of (max_capacities p) i of
     None \<Rightarrow> p\<lparr>max_capacities := AList.update i n (max_capacities p)\<rparr> | Some _ \<Rightarrow> p)"

definition new_max_capacity :: "u64 list \<Rightarrow> u64 list \<Rightarrow> max_capacity option" where
  "new_max_capacity ids counts = do {
     cpp_assert (length ids = length counts);
     Some (fold (\<lambda>(i, n). configure_partition i n) (zip ids counts) \<lparr>max_capacities = [], cur_capacities = []\<rparr>) }"

definition capacity_filter :: "(entry \<Rightarrow> 'a cache_blk_scheme) \<Rightarrow> max_capacity \<Rightarrow> u64 \<Rightarrow> entry list \<Rightarrow> entry list" where
  "capacity_filter blk p i es =
     (case (map_of (max_capacities p) i, map_of (cur_capacities p) i) of
        (Some most, Some cur) \<Rightarrow> if es = [] \<or> cur < most then es else filter (\<lambda>e. cb_partition (blk e) = i) es
      | _ \<Rightarrow> es)"

definition at_or_zero :: "u64 \<Rightarrow> (u64 \<times> u64) list \<Rightarrow> u64 \<times> (u64 \<times> u64) list" where
  "at_or_zero i m = (case map_of m i of Some n \<Rightarrow> (n, m) | None \<Rightarrow> (0, AList.update i 0 m))"

text \<open>Both lookups of the assertion use \<open>operator[]\<close>.\<close>

definition capacity_acquire :: "u64 \<Rightarrow> max_capacity \<Rightarrow> max_capacity option" where
  "capacity_acquire i p =
     (let (cur, curs) = at_or_zero i (cur_capacities p); (most, mosts) = at_or_zero i (max_capacities p) in
      do { cpp_assert (cur \<le> most);
           Some \<lparr>max_capacities = mosts, cur_capacities = AList.update i (cur + 1) curs\<rparr> })"

definition capacity_release :: "u64 \<Rightarrow> max_capacity \<Rightarrow> max_capacity option" where
  "capacity_release i p =
     (let (cur, curs) = at_or_zero i (cur_capacities p) in
      do { cpp_assert (0 < cur); Some (p\<lparr>cur_capacities := AList.update i (cur - 1) curs\<rparr>) })"

section \<open>Ways\<close>

type_synonym way_map = "(u64 \<times> u32 list) list"

definition ways_at :: "u64 \<Rightarrow> way_map \<Rightarrow> u32 list" where
  "ways_at i m = (case map_of m i of Some ws \<Rightarrow> ws | None \<Rightarrow> [])"

definition add_way :: "u64 \<Rightarrow> u32 \<Rightarrow> way_map \<Rightarrow> way_map" where
  "add_way i w m = AList.update i (List.insert w (ways_at i m)) m"

definition remove_way :: "u64 \<Rightarrow> u32 \<Rightarrow> way_map \<Rightarrow> way_map" where
  "remove_way i w m = AList.update i (removeAll w (ways_at i m)) m"

text \<open>
  An allocation is a partition with its ways, which are 64-bit numbers. A duplicate way is only
  warned about; looking it up makes an entry for the partition. The way is converted to \<open>unsigned\<close>.
\<close>

definition allocate_way :: "u64 \<Rightarrow> u64 \<Rightarrow> u64 \<Rightarrow> way_map \<Rightarrow> way_map option" where
  "allocate_way assoc i way m = do {
     cpp_assert (way < assoc);
     let m = AList.update i (ways_at i m) m in
     Some (if ucast way \<in> set (ways_at i m) then m else add_way i (ucast way) m) }"

definition new_way_partitioning :: "u64 \<Rightarrow> (u64 \<times> u64 list) list \<Rightarrow> way_map option" where
  "new_way_partitioning assoc allocs = do {
     cpp_assert (0 < assoc);
     fold_opt (\<lambda>(i, ways) m. fold_opt (allocate_way assoc i) ways m) allocs [] }"

definition way_filter :: "(entry \<Rightarrow> 'a cache_blk_scheme) \<Rightarrow> way_map \<Rightarrow> u64 \<Rightarrow> entry list \<Rightarrow> entry list" where
  "way_filter blk m i es = (case map_of m i of
     None \<Rightarrow> es | Some ws \<Rightarrow> if es = [] then es else filter (\<lambda>e. te_way (blk e) \<in> set ws) es)"

section \<open>The manager\<close>

datatype partitioning = MaxCapacityPP max_capacity | WayPP way_map

definition pp_filter :: "(entry \<Rightarrow> 'a cache_blk_scheme) \<Rightarrow> u64 \<Rightarrow> partitioning \<Rightarrow> entry list \<Rightarrow> entry list" where
  "pp_filter blk i p es = (case p of MaxCapacityPP c \<Rightarrow> capacity_filter blk c i es | WayPP m \<Rightarrow> way_filter blk m i es)"

definition pp_acquire :: "u64 \<Rightarrow> partitioning \<Rightarrow> partitioning option" where
  "pp_acquire i p = (case p of
     MaxCapacityPP c \<Rightarrow> map_option MaxCapacityPP (capacity_acquire i c) | WayPP m \<Rightarrow> Some p)"

definition pp_release :: "u64 \<Rightarrow> partitioning \<Rightarrow> partitioning option" where
  "pp_release i p = (case p of
     MaxCapacityPP c \<Rightarrow> map_option MaxCapacityPP (capacity_release i c) | WayPP m \<Rightarrow> Some p)"

type_synonym partition_manager = "partitioning list"

text \<open>The manager of this repository reads partition 0 off every packet.\<close>

definition read_packet_partition :: "partition_manager \<Rightarrow> packet \<Rightarrow> u64" where
  "read_packet_partition pm pkt = 0"

fun map_opt :: "('a \<Rightarrow> 'b option) \<Rightarrow> 'a list \<Rightarrow> 'b list option" where
  "map_opt f [] = Some []"
| "map_opt f (x # xs) = do { y \<leftarrow> f x; ys \<leftarrow> map_opt f xs; Some (y # ys) }"

definition notify_acquire :: "u64 \<Rightarrow> partition_manager \<Rightarrow> partition_manager option" where
  "notify_acquire i pm = map_opt (pp_acquire i) pm"

definition notify_release :: "u64 \<Rightarrow> partition_manager \<Rightarrow> partition_manager option" where
  "notify_release i pm = map_opt (pp_release i) pm"

definition filter_by_partition :: "(entry \<Rightarrow> 'a cache_blk_scheme) \<Rightarrow> u64 \<Rightarrow> partition_manager \<Rightarrow> entry list \<Rightarrow> entry list" where
  "filter_by_partition blk i pm es = fold (pp_filter blk i) pm es"

section \<open>Facts\<close>

lemma pp_filter_subset: "set (pp_filter blk i p es) \<subseteq> set es"
  by (auto simp: pp_filter_def capacity_filter_def way_filter_def split: partitioning.splits option.splits if_splits)

lemma filter_by_partition_subset: "set (filter_by_partition blk i pm es) \<subseteq> set es"
  unfolding filter_by_partition_def
proof (induction pm arbitrary: es)
  case (Cons p pm)
  from Cons.IH [of "pp_filter blk i p es"] show ?case using pp_filter_subset [of blk i p es] by auto
qed simp

lemma at_or_zero_value [simp]: "fst (at_or_zero i m) = (case map_of m i of Some n \<Rightarrow> n | None \<Rightarrow> 0)"
  by (simp add: at_or_zero_def split: option.splits)

text \<open>
  A release undoes an acquisition. The count of a partition never exceeds its limit by more than the
  one block that the assertion lets through.
\<close>

lemma capacity_acquire_counts:
  assumes "capacity_acquire i p = Some p'"
  shows "map_of (cur_capacities p') i = Some ((case map_of (cur_capacities p) i of Some n \<Rightarrow> n | None \<Rightarrow> 0) + 1)
    \<and> (\<forall>j. j \<noteq> i \<longrightarrow> map_of (cur_capacities p') j = map_of (cur_capacities p) j)"
  using assms
  by (auto simp: capacity_acquire_def at_or_zero_def bind_Some_iff update_conv split: option.splits)

lemma capacity_release_acquire:
  assumes "capacity_acquire i p = Some p'"
    and "\<forall>most. map_of (max_capacities p) i = Some most \<longrightarrow> most < max_addr"
  shows "\<exists>p''. capacity_release i p' = Some p''
    \<and> map_of (cur_capacities p'') i = Some (case map_of (cur_capacities p) i of Some n \<Rightarrow> n | None \<Rightarrow> 0)"
proof -
  let ?n = "case map_of (cur_capacities p) i of Some n \<Rightarrow> n | None \<Rightarrow> 0"
  from capacity_acquire_counts [OF assms(1)] have n: "map_of (cur_capacities p') i = Some (?n + 1)" by simp
  have "(0 :: u64) < - 1" by (rule word_neq_0_conv [THEN iffD1]) simp
  with assms have "?n < max_addr"
    by (auto simp: capacity_acquire_def at_or_zero_def max_addr_def bind_Some_iff split: option.splits)
  then have "?n + 1 \<noteq> 0"
    by (metis add_eq_0_iff2 less_irrefl max_addr_def)
  then have "0 < ?n + 1" by (simp add: word_neq_0_conv)
  with n show ?thesis by (auto simp: capacity_release_def at_or_zero_def update_conv)
qed

text \<open>
  A partition without a configured limit is documented to be unrestricted. Its first acquisition
  configures the limit zero: the second acquisition aborts.
\<close>

lemma unpoliced_partition_aborts:
  assumes "map_of (max_capacities p) i = None" "map_of (cur_capacities p) i = None"
  shows "\<exists>p'. capacity_acquire i p = Some p' \<and> capacity_acquire i p' = None
    \<and> (\<forall>blk es. es \<noteq> [] \<longrightarrow> capacity_filter blk p' i es = filter (\<lambda>e. cb_partition (blk e) = i) es)"
  using assms by (auto simp: capacity_acquire_def at_or_zero_def capacity_filter_def update_conv)

end
