(* ===== verification/SetAssocTags.thy ===== *)
theory SetAssocTags
  imports Partitioning Indexing StampPolicies
begin

text \<open>
  The tag stores of gem5: \<open>BaseTags\<close> (\<open>tags/base.hh\<close>, \<open>tags/base.cc\<close>) and the set associative store
  \<open>BaseSetAssoc\<close> (\<open>tags/base_set_assoc.hh\<close>, \<open>tags/base_set_assoc.cc\<close>). A block pointer is an index
  into the blocks; the replacement policy is a policy object given as an argument, whose state is a
  field. Statistics are 64-bit counters; \<open>tagsInUse\<close> is an \<open>Average\<close> of the stub, whose value stays
  zero under increments.
\<close>

section \<open>State\<close>

record tag_stats =
  tags_in_use :: u64
  total_refs :: u64
  sampled_refs :: u64
  warmup_tick :: u64
  occupancies :: "u64 list"
  occupancies_task :: "u64 list"
  age_task :: "u64 list list"
  tag_accesses :: u64
  data_accesses :: u64

record base_tags =
  bt_blk_size :: u32
  bt_blk_mask :: u64
  bt_size :: u32
  bt_latency :: u64
  bt_indexing :: indexing
  bt_partitions :: "partition_manager option"
  bt_warmup_bound :: u32
  bt_warmed_up :: bool
  bt_num_blocks :: u32
  bt_max_requestors :: u32
  bt_stats :: tag_stats

definition num_task_id :: nat where "num_task_id = 1025"

text \<open>The value of an \<open>Average\<close> that is only incremented and decremented.\<close>

definition average_value :: "u64 \<Rightarrow> u32" where
  "average_value c = 0"

definition new_tag_stats :: "u32 \<Rightarrow> tag_stats" where
  "new_tag_stats requestors = \<lparr>tags_in_use = 0, total_refs = 0, sampled_refs = 0, warmup_tick = 0,
     occupancies = replicate (unat requestors) 0, occupancies_task = replicate num_task_id 0,
     age_task = replicate num_task_id (replicate 5 0), tag_accesses = 0, data_accesses = 0\<rparr>"

text \<open>The warm-up bound is a fraction of the blocks that the initialiser computes in floating point.\<close>

definition new_base_tags ::
  "u32 \<Rightarrow> u32 \<Rightarrow> u64 \<Rightarrow> indexing \<Rightarrow> partition_manager option \<Rightarrow> u32 \<Rightarrow> u32 \<Rightarrow> base_tags option" where
  "new_base_tags block_size bytes latency ix pm warmup requestors = do {
     n \<leftarrow> div_u32 bytes block_size;
     Some \<lparr>bt_blk_size = block_size, bt_blk_mask = ucast (block_size - 1), bt_size = bytes, bt_latency = latency,
           bt_indexing = ix, bt_partitions = pm, bt_warmup_bound = warmup, bt_warmed_up = False, bt_num_blocks = n,
           bt_max_requestors = requestors, bt_stats = new_tag_stats requestors\<rparr> }"

section \<open>\<open>BaseTags\<close>\<close>

definition blk_align :: "u64 \<Rightarrow> 'a base_tags_scheme \<Rightarrow> u64" where
  "blk_align addr t = addr AND NOT (bt_blk_mask t)"

definition extract_blk_offset :: "u64 \<Rightarrow> 'a base_tags_scheme \<Rightarrow> u32" where
  "extract_blk_offset addr t = ucast (addr AND bt_blk_mask t)"

definition base_extract_tag :: "u64 \<Rightarrow> 'a base_tags_scheme \<Rightarrow> u64" where
  "base_extract_tag addr t = extract_tag (bt_indexing t) addr"

definition find_block_by_set_and_way :: "u32 \<Rightarrow> u32 \<Rightarrow> 'a base_tags_scheme \<Rightarrow> entry option option" where
  "find_block_by_set_and_way s w t = get_entry s w (bt_indexing t)"

text \<open>The loop of \<open>findBlock\<close>. An entry that was never set is a null pointer.\<close>

fun find_match :: "block_key \<Rightarrow> 'b tagged_entry_scheme list \<Rightarrow> entry option list \<Rightarrow> entry option option" where
  "find_match key bs [] = Some None"
| "find_match key bs (p # ps) = do {
     e \<leftarrow> p;
     b \<leftarrow> nth_opt bs e;
     m \<leftarrow> tagged_match key b;
     if m then Some (Some e) else find_match key bs ps }"

definition base_find_block :: "block_key \<Rightarrow> 'b tagged_entry_scheme list \<Rightarrow> 'a base_tags_scheme \<Rightarrow> entry option option" where
  "base_find_block key bs t = do { ps \<leftarrow> possible_entries (bt_indexing t) (key_address key); find_match key bs ps }"

definition count_occupancy :: "(u64 \<Rightarrow> u64) \<Rightarrow> u32 \<Rightarrow> tag_stats \<Rightarrow> tag_stats option" where
  "count_occupancy f r st = do {
     n \<leftarrow> nth_opt (occupancies st) (unat r);
     os \<leftarrow> update_opt (occupancies st) (unat r) (f n);
     Some (st\<lparr>occupancies := os\<rparr>) }"

definition packet_key :: "packet \<Rightarrow> block_key" where
  "packet_key pkt = \<lparr>key_address = pkt_addr pkt, key_secure = pkt_secure pkt\<rparr>"

definition packet_partition :: "packet \<Rightarrow> 'a base_tags_scheme \<Rightarrow> u64" where
  "packet_partition pkt t = (case bt_partitions t of Some pm \<Rightarrow> read_packet_partition pm pkt | None \<Rightarrow> 0)"

definition base_insert_block ::
  "tick \<Rightarrow> packet \<Rightarrow> 'b cache_blk_scheme \<Rightarrow> 'a base_tags_scheme \<Rightarrow> ('b cache_blk_scheme \<times> 'a base_tags_scheme) option" where
  "base_insert_block now pkt b t = do {
     cpp_assert (\<not> te_valid b);
     let r = req_requestor (pkt_req pkt) in do {
       cpp_assert (r < bt_max_requestors t);
       st \<leftarrow> count_occupancy (\<lambda>n. n + 1) r (bt_stats t);
       b \<leftarrow> cache_blk_insert (packet_key pkt) r (req_task (pkt_req pkt)) (packet_partition pkt t) now b;
       let warm = \<not> bt_warmed_up t \<and> bt_warmup_bound t \<le> average_value (tags_in_use st);
           st = (if warm then st\<lparr>warmup_tick := now\<rparr> else st) in
       Some (b, t\<lparr>bt_warmed_up := bt_warmed_up t \<or> warm,
                  bt_stats := st\<lparr>tag_accesses := tag_accesses st + 1, data_accesses := data_accesses st + 1\<rparr>\<rparr>) } }"

definition base_invalidate ::
  "'b cache_blk_scheme \<Rightarrow> 'a base_tags_scheme \<Rightarrow> ('b cache_blk_scheme \<times> 'a base_tags_scheme) option" where
  "base_invalidate b t = do {
     cpp_assert (te_valid b);
     st \<leftarrow> count_occupancy (\<lambda>n. n - 1) (cb_requestor b) (bt_stats t);
     b' \<leftarrow> cache_blk_invalidate b;
     Some (b', t\<lparr>bt_stats := st\<lparr>total_refs := total_refs st + ucast (cb_refs b), sampled_refs := sampled_refs st + 1\<rparr>\<rparr>) }"

definition base_move_block ::
  "tick \<Rightarrow> 'b cache_blk_scheme \<Rightarrow> 'b cache_blk_scheme \<Rightarrow> ('b cache_blk_scheme \<times> 'b cache_blk_scheme) option" where
  "base_move_block now src dest = do {
     cpp_assert (\<not> te_valid dest);
     cpp_assert (te_valid src);
     (dest, src) \<leftarrow> cache_blk_move now src dest;
     cpp_assert (te_valid dest);
     cpp_assert (\<not> te_valid src);
     Some (dest, src) }"

text \<open>The visitors that compute the statistics over all blocks.\<close>

definition cleanup_refs_visitor :: "'b cache_blk_scheme \<Rightarrow> tag_stats \<Rightarrow> tag_stats" where
  "cleanup_refs_visitor b st =
     (if te_valid b then st\<lparr>total_refs := total_refs st + ucast (cb_refs b), sampled_refs := sampled_refs st + 1\<rparr> else st)"

definition age_index :: "u64 \<Rightarrow> nat" where
  "age_index age =
     (if age div 1000 < 10 then 0 else if age div 1000 < 100 then 1
      else if age div 1000000 < 1 then 2 else if age div 1000000 < 10 then 3 else 4)"

definition compute_stats_visitor :: "tick \<Rightarrow> 'b cache_blk_scheme \<Rightarrow> tag_stats \<Rightarrow> tag_stats option" where
  "compute_stats_visitor now b st =
     (if te_valid b then do {
        let t = unat (cb_task b) in do {
          cpp_assert (t < num_task_id);
          n \<leftarrow> nth_opt (occupancies_task st) t;
          os \<leftarrow> update_opt (occupancies_task st) t (n + 1);
          age \<leftarrow> get_age now b;
          row \<leftarrow> nth_opt (age_task st) t;
          k \<leftarrow> nth_opt row (age_index age);
          row \<leftarrow> update_opt row (age_index age) (k + 1);
          ages \<leftarrow> update_opt (age_task st) t row;
          Some (st\<lparr>occupancies_task := os, age_task := ages\<rparr>) } }
      else Some st)"

definition cleanup_refs :: "'b cache_blk_scheme list \<Rightarrow> 'a base_tags_scheme \<Rightarrow> 'a base_tags_scheme" where
  "cleanup_refs bs t = t\<lparr>bt_stats := fold cleanup_refs_visitor bs (bt_stats t)\<rparr>"

definition compute_stats :: "tick \<Rightarrow> 'b cache_blk_scheme list \<Rightarrow> 'a base_tags_scheme \<Rightarrow> 'a base_tags_scheme option" where
  "compute_stats now bs t = do {
     st \<leftarrow> fold_opt (compute_stats_visitor now) bs
       ((bt_stats t)\<lparr>occupancies_task := replicate num_task_id 0, age_task := replicate num_task_id (replicate 5 0)\<rparr>);
     Some (t\<lparr>bt_stats := st\<rparr>) }"

section \<open>\<open>BaseSetAssoc\<close>\<close>

record 's assoc_tags = base_tags +
  sa_alloc_assoc :: u32
  sa_blks :: "cache_blk list"
  sa_sequential :: bool
  sa_policy :: 's

definition new_set_assoc :: "u32 \<Rightarrow> bool \<Rightarrow> 's \<Rightarrow> base_tags \<Rightarrow> 's assoc_tags option" where
  "new_set_assoc assoc sequential policy t = do {
     b \<leftarrow> new_cache_blk;
     cpp_assert (\<not> (bt_blk_size t < 4 \<or> \<not> is_power_of_2 (bt_blk_size t)));
     Some (base_tags.extend t \<lparr>sa_alloc_assoc = assoc, sa_blks = replicate (unat (bt_num_blocks t)) b,
       sa_sequential = sequential, sa_policy = policy\<rparr>) }"

definition init_block :: "('env, 's) policy_ops \<Rightarrow> nat \<Rightarrow> 's assoc_tags \<Rightarrow> 's assoc_tags option" where
  "init_block OPS k t = do {
     b \<leftarrow> nth_opt (sa_blks t) k;
     (ix, s, w) \<leftarrow> set_entry k (of_nat k) (bt_indexing t);
     p \<leftarrow> op_instantiate OPS k (sa_policy t);
     let b = register_tag_extractor (extract_tag ix) ((set_position s w b)\<lparr>cb_data := Some (unat (bt_blk_size t) * k)\<rparr>) in
     Some (t\<lparr>bt_indexing := ix, sa_blks := (sa_blks t)[k := b], sa_policy := p\<rparr>) }"

definition tags_init :: "('env, 's) policy_ops \<Rightarrow> 's assoc_tags \<Rightarrow> 's assoc_tags option" where
  "tags_init OPS t = fold_opt (init_block OPS) [0..<unat (bt_num_blocks t)] t"

definition sa_find_block :: "block_key \<Rightarrow> 's assoc_tags \<Rightarrow> entry option option" where
  "sa_find_block key t = base_find_block key (sa_blks t) t"

definition sa_invalidate :: "('env, 's) policy_ops \<Rightarrow> entry \<Rightarrow> 's assoc_tags \<Rightarrow> 's assoc_tags option" where
  "sa_invalidate OPS e t = do {
     b \<leftarrow> nth_opt (sa_blks t) e;
     pm \<leftarrow> (case bt_partitions t of None \<Rightarrow> Some None
       | Some pm \<Rightarrow> map_option Some (notify_release (cb_partition b) pm));
     (b', t) \<leftarrow> base_invalidate b (t\<lparr>bt_partitions := pm\<rparr>);
     p \<leftarrow> op_invalidate OPS e (sa_policy t);
     Some (t\<lparr>bt_stats := (bt_stats t)\<lparr>tags_in_use := tags_in_use (bt_stats t) - 1\<rparr>,
             sa_blks := (sa_blks t)[e := b'], sa_policy := p\<rparr>) }"

text \<open>The result is the block, the latency and the new state.\<close>

definition sa_access_block ::
  "('env, 's) policy_ops \<Rightarrow> 'env \<Rightarrow> packet \<Rightarrow> 's assoc_tags \<Rightarrow> (entry option \<times> u64 \<times> 's assoc_tags) option" where
  "sa_access_block OPS env pkt t = do {
     found \<leftarrow> sa_find_block (packet_key pkt) t;
     let st = (bt_stats t)\<lparr>tag_accesses := tag_accesses (bt_stats t) + ucast (sa_alloc_assoc t)\<rparr>;
         st = (if sa_sequential t then (if found \<noteq> None then st\<lparr>data_accesses := data_accesses st + 1\<rparr> else st)
               else st\<lparr>data_accesses := data_accesses st + ucast (sa_alloc_assoc t)\<rparr>);
         t = t\<lparr>bt_stats := st\<rparr> in
     (case found of
        None \<Rightarrow> Some (None, bt_latency t, t)
      | Some e \<Rightarrow> do {
          b \<leftarrow> nth_opt (sa_blks t) e;
          p \<leftarrow> op_touch OPS env e (sa_policy t);
          Some (Some e, bt_latency t, t\<lparr>sa_blks := (sa_blks t)[e := increase_ref_count b], sa_policy := p\<rparr>) }) }"

text \<open>The victim is also what is pushed on the list of blocks to evict.\<close>

definition sa_find_victim ::
  "('env, 's) policy_ops \<Rightarrow> 'env \<Rightarrow> block_key \<Rightarrow> u64 \<Rightarrow> 's assoc_tags \<Rightarrow> (entry option \<times> 's assoc_tags) option" where
  "sa_find_victim OPS env key part_id t = do {
     ps \<leftarrow> possible_entries (bt_indexing t) (key_address key);
     es \<leftarrow> map_opt id ps;
     cpp_assert (\<forall>e \<in> set es. e < length (sa_blks t));
     let es = (case bt_partitions t of None \<Rightarrow> es | Some pm \<Rightarrow> filter_by_partition (\<lambda>e. sa_blks t ! e) part_id pm es) in
     if es = [] then Some (None, t)
     else do { (v, p) \<leftarrow> op_victim OPS env es (sa_policy t); Some (Some v, t\<lparr>sa_policy := p\<rparr>) } }"

definition sa_insert_block ::
  "('env, 's) policy_ops \<Rightarrow> 'env \<Rightarrow> tick \<Rightarrow> packet \<Rightarrow> entry \<Rightarrow> 's assoc_tags \<Rightarrow> 's assoc_tags option" where
  "sa_insert_block OPS env now pkt e t = do {
     b \<leftarrow> nth_opt (sa_blks t) e;
     (b', t) \<leftarrow> base_insert_block now pkt b t;
     pm \<leftarrow> (case bt_partitions t of None \<Rightarrow> Some None
       | Some pm \<Rightarrow> map_option Some (notify_acquire (read_packet_partition pm pkt) pm));
     p \<leftarrow> op_reset OPS env e (sa_policy t);
     Some (t\<lparr>bt_partitions := pm, bt_stats := (bt_stats t)\<lparr>tags_in_use := tags_in_use (bt_stats t) + 1\<rparr>,
             sa_blks := (sa_blks t)[e := b'], sa_policy := p\<rparr>) }"

definition sa_move_block ::
  "('env, 's) policy_ops \<Rightarrow> 'env \<Rightarrow> tick \<Rightarrow> entry \<Rightarrow> entry \<Rightarrow> 's assoc_tags \<Rightarrow> 's assoc_tags option" where
  "sa_move_block OPS env now src dest t = do {
     s \<leftarrow> nth_opt (sa_blks t) src;
     d \<leftarrow> nth_opt (sa_blks t) dest;
     (d', s') \<leftarrow> base_move_block now s d;
     p \<leftarrow> op_invalidate OPS src (sa_policy t);
     p \<leftarrow> op_reset OPS env dest p;
     Some (t\<lparr>sa_blks := (sa_blks t)[dest := d', src := s'], sa_policy := p\<rparr>) }"

definition set_way_allocation_max :: "u32 \<Rightarrow> 's assoc_tags \<Rightarrow> 's assoc_tags option" where
  "set_way_allocation_max ways t = do { cpp_assert (\<not> sint ways < 1); Some (t\<lparr>sa_alloc_assoc := ways\<rparr>) }"

definition sa_regenerate_blk_addr :: "entry \<Rightarrow> 's assoc_tags \<Rightarrow> u64 option" where
  "sa_regenerate_blk_addr e t = do {
     b \<leftarrow> nth_opt (sa_blks t) e;
     Some (regenerate_addr (bt_indexing t) (te_tag b) (te_set b)) }"

definition sa_any_blk :: "(cache_blk \<Rightarrow> bool) \<Rightarrow> 's assoc_tags \<Rightarrow> bool" where
  "sa_any_blk visitor t \<longleftrightarrow> (\<exists>b \<in> set (sa_blks t). visitor b)"

end
