(* ===== verification/SetAssocFacts.thy ===== *)
theory SetAssocFacts
  imports SetAssocTags
begin

text \<open>
  The set associative store as a map. Under the invariant that the constructor establishes, the
  lookup of a key is a function of the blocks alone; inserting and invalidating a block change it at
  the keys of that block only, and a moved block is lost when its tag is not its own tag.
\<close>

section \<open>The invariant\<close>

definition rows_ok :: "indexing \<Rightarrow> bool" where
  "rows_ok ix \<longleftrightarrow> (\<forall>s < length (ix_sets ix). ix_sets ix ! s
     = map Some [s * unat (ix_assoc ix)..<Suc s * unat (ix_assoc ix)])"

definition blk_placed :: "indexing \<Rightarrow> nat \<Rightarrow> 'b tagged_entry_scheme \<Rightarrow> bool" where
  "blk_placed ix i b \<longleftrightarrow> te_extract b = Some (extract_tag ix) \<and> unat (te_set b) = i div unat (ix_assoc ix)
     \<and> (te_valid b \<or> \<not> te_secure b)"

text \<open>No two valid blocks of a set have the same tag and security attribute.\<close>

definition blks_unique :: "nat \<Rightarrow> 'b tagged_entry_scheme list \<Rightarrow> bool" where
  "blks_unique n bs \<longleftrightarrow> (\<forall>i j. i < length bs \<and> j < length bs \<and> i div n = j div n \<and> te_valid (bs ! i) \<and> te_valid (bs ! j)
     \<and> te_tag (bs ! i) = te_tag (bs ! j) \<and> te_secure (bs ! i) = te_secure (bs ! j) \<longrightarrow> i = j)"

definition tags_inv :: "'s assoc_tags \<Rightarrow> bool" where
  "tags_inv t \<longleftrightarrow> indexing_ok (bt_indexing t) \<and> rows_ok (bt_indexing t)
     \<and> length (sa_blks t) = length (ix_sets (bt_indexing t)) * unat (ix_assoc (bt_indexing t))
     \<and> (\<forall>i < length (sa_blks t). blk_placed (bt_indexing t) i (sa_blks t ! i))
     \<and> blks_unique (unat (ix_assoc (bt_indexing t))) (sa_blks t)
     \<and> length (occupancies (bt_stats t)) = unat (bt_max_requestors t)"

text \<open>Block \<open>e\<close> holds the key.\<close>

definition holds_key :: "block_key \<Rightarrow> indexing \<Rightarrow> 'b tagged_entry_scheme list \<Rightarrow> nat \<Rightarrow> bool" where
  "holds_key k ix bs e \<longleftrightarrow> e < length bs \<and> e div unat (ix_assoc ix) = unat (extract_set ix (key_address k))
     \<and> te_valid (bs ! e) \<and> te_tag (bs ! e) = extract_tag ix (key_address k) \<and> te_secure (bs ! e) = key_secure k"

definition same_block :: "indexing \<Rightarrow> block_key \<Rightarrow> block_key \<Rightarrow> bool" where
  "same_block ix k k' \<longleftrightarrow> extract_set ix (key_address k) = extract_set ix (key_address k')
     \<and> extract_tag ix (key_address k) = extract_tag ix (key_address k') \<and> key_secure k = key_secure k'"

section \<open>The lookup\<close>

lemma find_match_find:
  assumes "\<forall>e \<in> set es. e < length bs \<and> te_extract (bs ! e) = Some ext"
  shows "find_match key bs (map Some es) = Some (find (\<lambda>e. te_valid (bs ! e)
    \<and> te_tag (bs ! e) = ext (key_address key) \<and> te_secure (bs ! e) = key_secure key) es)"
  using assms by (induction es) (auto simp: tagged_match_def)

lemma row_member:
  assumes "0 < n"
  shows "e \<in> set [s * n..<Suc s * n] \<longleftrightarrow> e div n = s"
proof
  assume "e \<in> set [s * n..<Suc s * n]"
  then show "e div n = s" by (intro div_nat_eqI) (auto simp: mult.commute)
next
  assume "e div n = s"
  then show "e \<in> set [s * n..<Suc s * n]"
    using assms dividend_less_div_times [of n e] div_times_less_eq_dividend [of e n] by auto
qed

lemma find_block_holds:
  assumes "indexing_ok (bt_indexing t)" "rows_ok (bt_indexing t)"
    and "length bs = length (ix_sets (bt_indexing t)) * unat (ix_assoc (bt_indexing t))"
    and "\<forall>i < length bs. te_extract (bs ! i) = Some (extract_tag (bt_indexing t))"
  shows "\<exists>r. base_find_block k bs t = Some r \<and> (\<forall>e. r = Some e \<longrightarrow> holds_key k (bt_indexing t) bs e)
    \<and> (r = None \<longrightarrow> (\<forall>e. \<not> holds_key k (bt_indexing t) bs e))"
proof -
  let ?ix = "bt_indexing t" and ?n = "unat (ix_assoc (bt_indexing t))"
  let ?s = "unat (extract_set ?ix (key_address k))"
  let ?es = "[?s * ?n..<Suc ?s * ?n]"
  from extract_set_below [OF assms(1)] have s: "?s < length (ix_sets ?ix)" .
  from assms(2) s have row: "possible_entries ?ix (key_address k) = Some (map Some ?es)"
    by (simp add: possible_entries_def rows_ok_def)
  have n: "0 < ?n" using assms(1) by (auto simp: indexing_ok_def unat_gt_0)
  have "Suc ?s * ?n \<le> length (ix_sets ?ix) * ?n" using s by (intro mult_le_mono1) simp
  then have below: "e < length bs" if "e \<in> set ?es" for e using that assms(3) by auto
  note mem = row_member [OF n]
  let ?P = "\<lambda>e. te_valid (bs ! e) \<and> te_tag (bs ! e) = extract_tag ?ix (key_address k) \<and> te_secure (bs ! e) = key_secure k"
  have f: "base_find_block k bs t = Some (find ?P ?es)"
    using find_match_find [of ?es bs "extract_tag ?ix" k] below assms(4) by (simp add: base_find_block_def row)
  have "holds_key k ?ix bs e" if "find ?P ?es = Some e" for e
  proof -
    from that have "e \<in> set ?es" "?P e" by (auto simp: find_Some_iff)
    then show ?thesis using below mem by (auto simp: holds_key_def)
  qed
  moreover have "\<not> holds_key k ?ix bs e" if "find ?P ?es = None" for e
    using that mem unfolding find_None_iff holds_key_def by blast
  ultimately show ?thesis using f by blast
qed

lemma find_block_unique:
  assumes "indexing_ok (bt_indexing t)" "rows_ok (bt_indexing t)"
    and "length bs = length (ix_sets (bt_indexing t)) * unat (ix_assoc (bt_indexing t))"
    and "\<forall>i < length bs. blk_placed (bt_indexing t) i (bs ! i)" "blks_unique (unat (ix_assoc (bt_indexing t))) bs"
  shows "\<exists>r. base_find_block k bs t = Some r \<and> (\<forall>e. r = Some e \<longleftrightarrow> holds_key k (bt_indexing t) bs e)"
proof -
  from find_block_holds [OF assms(1-3), of k] assms(4) obtain r where r: "base_find_block k bs t = Some r"
    "\<forall>e. r = Some e \<longrightarrow> holds_key k (bt_indexing t) bs e"
    "r = None \<longrightarrow> (\<forall>e. \<not> holds_key k (bt_indexing t) bs e)" by (auto simp: blk_placed_def)
  have "e = e'" if "holds_key k (bt_indexing t) bs e" "holds_key k (bt_indexing t) bs e'" for e e'
    using that assms(5) unfolding blks_unique_def holds_key_def by (metis (no_types, lifting))
  with r show ?thesis by (cases r) auto
qed

lemma sa_find_block_iff:
  assumes "tags_inv t"
  shows "\<exists>r. sa_find_block k t = Some r \<and> (\<forall>e. r = Some e \<longleftrightarrow> holds_key k (bt_indexing t) (sa_blks t) e)"
  using assms find_block_unique [of t "sa_blks t" k] by (auto simp: tags_inv_def sa_find_block_def)

text \<open>Two lookups agree when the same blocks hold the key.\<close>

lemma sa_find_block_eqI:
  assumes "tags_inv t" "\<And>e. r = Some e \<longleftrightarrow> holds_key k (bt_indexing t) (sa_blks t) e"
  shows "sa_find_block k t = Some r"
proof -
  from sa_find_block_iff [OF assms(1), of k] obtain r' where
    r': "sa_find_block k t = Some r'" "\<And>e. r' = Some e \<longleftrightarrow> holds_key k (bt_indexing t) (sa_blks t) e" by blast
  with assms(2) have "r' = Some e \<longleftrightarrow> r = Some e" for e by blast
  then have "r' = r" by (cases r; cases r') auto
  with r'(1) show ?thesis by simp
qed

section \<open>Changing one block\<close>

text \<open>
  What the operations need: the invariant survives when one block is replaced by one in the same
  place that is invalid or holds a key that no block holds.
\<close>

lemma tags_inv_update:
  assumes "tags_inv t" "e < length (sa_blks t)"
    and "bt_indexing t' = bt_indexing t" "sa_blks t' = (sa_blks t)[e := b]" "blk_placed (bt_indexing t) e b"
    and "length (occupancies (bt_stats t')) = unat (bt_max_requestors t')"
    and "te_valid b \<Longrightarrow> \<forall>i. i < length (sa_blks t) \<and> i \<noteq> e \<and> te_valid (sa_blks t ! i)
      \<and> i div unat (ix_assoc (bt_indexing t)) = e div unat (ix_assoc (bt_indexing t))
      \<longrightarrow> \<not> (te_tag (sa_blks t ! i) = te_tag b \<and> te_secure (sa_blks t ! i) = te_secure b)"
  shows "tags_inv t'"
proof -
  have "blks_unique (unat (ix_assoc (bt_indexing t))) ((sa_blks t)[e := b])"
    unfolding blks_unique_def
  proof (intro allI impI)
    fix i j
    assume h: "i < length ((sa_blks t)[e := b]) \<and> j < length ((sa_blks t)[e := b])
      \<and> i div unat (ix_assoc (bt_indexing t)) = j div unat (ix_assoc (bt_indexing t))
      \<and> te_valid ((sa_blks t)[e := b] ! i) \<and> te_valid ((sa_blks t)[e := b] ! j)
      \<and> te_tag ((sa_blks t)[e := b] ! i) = te_tag ((sa_blks t)[e := b] ! j)
      \<and> te_secure ((sa_blks t)[e := b] ! i) = te_secure ((sa_blks t)[e := b] ! j)"
    have u: "blks_unique (unat (ix_assoc (bt_indexing t))) (sa_blks t)" using assms(1) by (simp add: tags_inv_def)
    consider "i = e" "j = e" | "i \<noteq> e" "j \<noteq> e" | "i = e" "j \<noteq> e" | "i \<noteq> e" "j = e" by blast
    then show "i = j"
    proof cases
      case 2
      then show ?thesis using h u unfolding blks_unique_def by (simp only: length_list_update nth_list_update_neq)
    next
      case 3
      then show ?thesis using h assms(2) assms(7) by (metis length_list_update nth_list_update_eq nth_list_update_neq)
    next
      case 4
      then show ?thesis using h assms(2) assms(7) by (metis length_list_update nth_list_update_eq nth_list_update_neq)
    qed simp
  qed
  with assms(1-6) show ?thesis by (auto simp: tags_inv_def nth_list_update)
qed

lemma holds_key_update:
  "holds_key k ix (bs[e := b]) i \<longleftrightarrow>
     (if i = e then e < length bs \<and> e div unat (ix_assoc ix) = unat (extract_set ix (key_address k))
        \<and> te_valid b \<and> te_tag b = extract_tag ix (key_address k) \<and> te_secure b = key_secure k
      else holds_key k ix bs i)"
  by (auto simp: holds_key_def nth_list_update)

text \<open>Inserting a block.\<close>

lemma sa_insert_block_blks:
  assumes "sa_insert_block OPS env now pkt e t = Some t'"
  shows "\<exists>b'. e < length (sa_blks t) \<and> \<not> te_valid (sa_blks t ! e)
    \<and> cache_blk_insert (packet_key pkt) (req_requestor (pkt_req pkt)) (req_task (pkt_req pkt))
        (packet_partition pkt t) now (sa_blks t ! e) = Some b'
    \<and> sa_blks t' = (sa_blks t)[e := b'] \<and> bt_indexing t' = bt_indexing t
    \<and> length (occupancies (bt_stats t')) = length (occupancies (bt_stats t))
    \<and> bt_max_requestors t' = bt_max_requestors t
    \<and> tags_in_use (bt_stats t') = tags_in_use (bt_stats t) + 1"
  using assms
  by (auto simp: sa_insert_block_def base_insert_block_def count_occupancy_def bind_Some_iff Let_def)



text \<open>An inserted block holds its key, in the set of the key.\<close>

lemma inserted_block:
  assumes "blk_placed ix e b" "\<not> te_valid b" "cache_blk_insert key requestor task part now b = Some b'"
  shows "blk_placed ix e b' \<and> te_valid b' \<and> te_tag b' = extract_tag ix (key_address key) \<and> te_secure b' = key_secure key"
  using assms cache_blk_insert_Some [OF assms(3)] by (auto simp: blk_placed_def)

lemma sa_insert_lookup:
  assumes inv: "tags_inv t" and none: "sa_find_block (packet_key pkt) t = Some None"
    and row: "e div unat (ix_assoc (bt_indexing t)) = unat (extract_set (bt_indexing t) (pkt_addr pkt))"
    and ins: "sa_insert_block OPS env now pkt e t = Some t'"
  shows "tags_inv t' \<and> (\<forall>k. sa_find_block k t'
    = (if same_block (bt_indexing t) k (packet_key pkt) then Some (Some e) else sa_find_block k t))"
proof -
  let ?ix = "bt_indexing t" and ?key = "packet_key pkt"
  from sa_insert_block_blks [OF ins] obtain b' where e: "e < length (sa_blks t)" "\<not> te_valid (sa_blks t ! e)"
    and b': "cache_blk_insert ?key (req_requestor (pkt_req pkt)) (req_task (pkt_req pkt))
      (packet_partition pkt t) now (sa_blks t ! e) = Some b'"
    and t': "sa_blks t' = (sa_blks t)[e := b']" "bt_indexing t' = ?ix"
      "length (occupancies (bt_stats t')) = length (occupancies (bt_stats t))"
      "bt_max_requestors t' = bt_max_requestors t" by blast
  from inv e(1) have placed: "blk_placed ?ix e (sa_blks t ! e)" by (simp add: tags_inv_def)
  from inserted_block [OF placed e(2) b'] have b: "blk_placed ?ix e b'" "te_valid b'"
    "te_tag b' = extract_tag ?ix (pkt_addr pkt)" "te_secure b' = pkt_secure pkt" by (auto simp: packet_key_def)
  from sa_find_block_iff [OF inv, of ?key] none have absent: "\<not> holds_key ?key ?ix (sa_blks t) i" for i by auto
  have inv': "tags_inv t'"
  proof (rule tags_inv_update [OF inv e(1) t'(2,1) b(1)])
    show "length (occupancies (bt_stats t')) = unat (bt_max_requestors t')"
      using inv t'(3,4) by (simp add: tags_inv_def)
    show "\<forall>i. i < length (sa_blks t) \<and> i \<noteq> e \<and> te_valid (sa_blks t ! i)
        \<and> i div unat (ix_assoc ?ix) = e div unat (ix_assoc ?ix)
      \<longrightarrow> \<not> (te_tag (sa_blks t ! i) = te_tag b' \<and> te_secure (sa_blks t ! i) = te_secure b')"
      using absent b row by (auto simp: holds_key_def packet_key_def)
  qed
  have "sa_find_block k t' = (if same_block ?ix k ?key then Some (Some e) else sa_find_block k t)" for k
  proof -
    from sa_find_block_iff [OF inv, of k] obtain r where
      r: "sa_find_block k t = Some r" "\<And>i. r = Some i \<longleftrightarrow> holds_key k ?ix (sa_blks t) i" by blast
    have "sa_find_block k t' = Some (if same_block ?ix k ?key then Some e else r)"
    proof (rule sa_find_block_eqI [OF inv'])
      fix i
      have other: "\<not> holds_key k ?ix (sa_blks t) i" if "same_block ?ix k ?key" for i
        using absent [of i] that by (auto simp: same_block_def holds_key_def)
      have self: "\<not> holds_key k ?ix (sa_blks t) e" using e(2) by (simp add: holds_key_def)
      show "(if same_block ?ix k ?key then Some e else r) = Some i \<longleftrightarrow> holds_key k (bt_indexing t') (sa_blks t') i"
        using other [of i] self r(2) [of i] e(1) b row
        by (auto simp: word_unat_eq_iff t' holds_key_update same_block_def packet_key_def)
    qed
    with r(1) show ?thesis by simp
  qed
  with inv' show ?thesis by blast
qed




section \<open>The invariant holds after \<open>tagsInit\<close>\<close>

lemma rows_okI:
  assumes "\<forall>row \<in> set (ix_sets ix). length row = unat (ix_assoc ix)"
    and "\<forall>i < length (ix_sets ix) * unat (ix_assoc ix). ix_sets ix ! (i div unat (ix_assoc ix)) ! (i mod unat (ix_assoc ix)) = Some i"
  shows "rows_ok ix"
  unfolding rows_ok_def
proof (intro allI impI nth_equalityI)
  let ?A = "unat (ix_assoc ix)"
  fix s
  assume s: "s < length (ix_sets ix)"
  then have len: "length (ix_sets ix ! s) = ?A" using assms(1) by simp
  then show "length (ix_sets ix ! s) = length (map Some [s * ?A..<Suc s * ?A])" by simp
  fix w
  assume "w < length (ix_sets ix ! s)"
  then have w: "w < ?A" using len by simp
  have "s * ?A + w < Suc s * ?A" using w by simp
  also have "\<dots> \<le> length (ix_sets ix) * ?A" using s by (intro mult_le_mono1) simp
  finally have "ix_sets ix ! ((s * ?A + w) div ?A) ! ((s * ?A + w) mod ?A) = Some (s * ?A + w)" using assms(2) by blast
  then show "ix_sets ix ! s ! w = map Some [s * ?A..<Suc s * ?A] ! w" using w by simp
qed

definition init_upto :: "indexing \<Rightarrow> 's assoc_tags \<Rightarrow> nat \<Rightarrow> 's assoc_tags \<Rightarrow> bool" where
  "init_upto ix t0 k t \<longleftrightarrow> (\<exists>rows. bt_indexing t = ix\<lparr>ix_sets := rows\<rparr> \<and> length rows = length (ix_sets ix)
       \<and> (\<forall>row \<in> set rows. length row = unat (ix_assoc ix))
       \<and> (\<forall>i < k. i div unat (ix_assoc ix) < length rows \<and> rows ! (i div unat (ix_assoc ix)) ! (i mod unat (ix_assoc ix)) = Some i))
     \<and> length (sa_blks t) = length (sa_blks t0) \<and> bt_stats t = bt_stats t0 \<and> bt_max_requestors t = bt_max_requestors t0
     \<and> (\<forall>i < length (sa_blks t). \<not> te_valid (sa_blks t ! i) \<and> \<not> te_secure (sa_blks t ! i)
       \<and> (i < k \<longrightarrow> te_extract (sa_blks t ! i) = Some (extract_tag ix) \<and> unat (te_set (sa_blks t ! i)) = i div unat (ix_assoc ix)))"

lemma unat_of_nat_u32: "k < 2 ^ 32 \<Longrightarrow> unat (of_nat k :: u32) = k"
  by (simp add: unsigned_of_nat take_bit_nat_eq_self)

lemma extract_tag_cong: "tag_shift ix = tag_shift ix' \<Longrightarrow> extract_tag ix = extract_tag ix'"
  by (rule ext) (simp add: extract_tag_def)

lemma init_block_step:
  assumes up: "init_upto ix t0 k t" and step: "init_block OPS k t = Some t'"
    and ok: "indexing_ok ix" and k: "k < 2 ^ 32"
  shows "init_upto ix t0 (Suc k) t'"
proof -
  let ?A = "unat (ix_assoc ix)"
  from up obtain rows where rows: "bt_indexing t = ix\<lparr>ix_sets := rows\<rparr>" "length rows = length (ix_sets ix)"
      "\<forall>row \<in> set rows. length row = ?A"
      "\<forall>i < k. i div ?A < length rows \<and> rows ! (i div ?A) ! (i mod ?A) = Some i"
    and blks: "length (sa_blks t) = length (sa_blks t0)" "bt_stats t = bt_stats t0" "bt_max_requestors t = bt_max_requestors t0"
      "\<forall>i < length (sa_blks t). \<not> te_valid (sa_blks t ! i) \<and> \<not> te_secure (sa_blks t ! i)
       \<and> (i < k \<longrightarrow> te_extract (sa_blks t ! i) = Some (extract_tag ix) \<and> unat (te_set (sa_blks t ! i)) = i div ?A)"
    by (auto simp: init_upto_def)
  have A: "0 < ?A" using ok by (auto simp: indexing_ok_def unat_gt_0)
  from step obtain ix' s w p where e: "set_entry k (of_nat k) (bt_indexing t) = Some (ix', s, w)" and kb: "k < length (sa_blks t)"
    and t': "t' = t\<lparr>bt_indexing := ix', sa_blks := (sa_blks t)[k := register_tag_extractor (extract_tag ix')
        ((set_position s w (sa_blks t ! k))\<lparr>cb_data := Some (unat (bt_blk_size t) * k)\<rparr>)], sa_policy := p\<rparr>"
    by (auto simp: init_block_def bind_Some_iff)
  have sw: "unat s = k div ?A" "unat w = k mod ?A"
    using set_entry_get(2,3) [OF e] rows(1) k by (simp_all add: unat_div unat_mod unat_of_nat_u32)
  from e rows(1) have s: "unat s < length rows" and w: "unat w < length (rows ! unat s)"
    and ix': "ix' = ix\<lparr>ix_sets := rows[unat s := (rows ! unat s)[unat w := Some k]]\<rparr>"
    by (auto simp: set_entry_def bind_Some_iff)
  let ?rows = "rows[unat s := (rows ! unat s)[unat w := Some k]]"
  have len: "\<forall>row \<in> set ?rows. length row = ?A"
    using rows(3) s by (auto simp: all_set_conv_all_nth nth_list_update)
  have entries: "i div ?A < length ?rows \<and> ?rows ! (i div ?A) ! (i mod ?A) = Some i" if "i < Suc k" for i
  proof (cases "i = k")
    case True
    then show ?thesis using s w sw by simp
  next
    case False
    with that have i: "i < k" by simp
    then have "\<not> (i div ?A = unat s \<and> i mod ?A = unat w)"
      unfolding sw using div_mult_mod_eq [of i ?A] div_mult_mod_eq [of k ?A] by (metis less_irrefl)
    with rows(4) i s show ?thesis by (auto simp: nth_list_update)
  qed
  have tag: "extract_tag ix' = extract_tag ix" by (rule extract_tag_cong) (simp add: ix')
  have rest: "length (sa_blks t') = length (sa_blks t0)" "bt_stats t' = bt_stats t0" "bt_max_requestors t' = bt_max_requestors t0"
    "\<forall>i < length (sa_blks t'). \<not> te_valid (sa_blks t' ! i) \<and> \<not> te_secure (sa_blks t' ! i)
       \<and> (i < Suc k \<longrightarrow> te_extract (sa_blks t' ! i) = Some (extract_tag ix) \<and> unat (te_set (sa_blks t' ! i)) = i div ?A)"
    using blks kb sw(1) tag
    by (auto simp: t' register_tag_extractor_def set_position_def nth_list_update less_Suc_eq)
  have "bt_indexing t' = ix\<lparr>ix_sets := ?rows\<rparr>" "length ?rows = length (ix_sets ix)" using rows(2) by (simp_all add: t' ix')
  with len entries rest show ?thesis unfolding init_upto_def by blast
qed

lemma tags_init_inv:
  assumes init: "tags_init OPS t0 = Some t" and ok: "indexing_ok (bt_indexing t0)"
    and blks: "length (sa_blks t0) = unat (bt_num_blocks t0)"
      "\<forall>b \<in> set (sa_blks t0). \<not> te_valid b \<and> \<not> te_secure b"
    and size: "length (sa_blks t0) = length (ix_sets (bt_indexing t0)) * unat (ix_assoc (bt_indexing t0))"
    and occ: "length (occupancies (bt_stats t0)) = unat (bt_max_requestors t0)"
  shows "tags_inv t \<and> sa_find_block k t = Some None"
proof -
  let ?ix = "bt_indexing t0"
  have "init_upto ?ix t0 n t" if "fold_opt (init_block OPS) [0..<n] t0 = Some t" "n \<le> unat (bt_num_blocks t0)" for n t
    using that
  proof (induction n arbitrary: t)
    case 0
    with ok blks(2) show ?case
      by (auto simp: init_upto_def indexing_ok_def all_set_conv_all_nth intro!: exI [of _ "ix_sets ?ix"])
  next
    case (Suc n)
    then obtain t1 where "fold_opt (init_block OPS) [0..<n] t0 = Some t1" "init_block OPS n t1 = Some t"
      by (auto simp: fold_opt_append bind_Some_iff)
    moreover have "n < 2 ^ 32" using Suc.prems(2) unsigned_less [of "bt_num_blocks t0", where 'a = nat] by simp
    ultimately show ?case using Suc.IH [of t1] Suc.prems(2) init_block_step [OF _ _ ok] by simp
  qed
  from this [of "unat (bt_num_blocks t0)" t] init have up: "init_upto ?ix t0 (unat (bt_num_blocks t0)) t"
    by (simp add: tags_init_def)
  then obtain rows where rows: "bt_indexing t = ?ix\<lparr>ix_sets := rows\<rparr>" "length rows = length (ix_sets ?ix)"
      "\<forall>row \<in> set rows. length row = unat (ix_assoc ?ix)"
      "\<forall>i < length (sa_blks t0). rows ! (i div unat (ix_assoc ?ix)) ! (i mod unat (ix_assoc ?ix)) = Some i"
    and t: "length (sa_blks t) = length (sa_blks t0)" "bt_stats t = bt_stats t0" "bt_max_requestors t = bt_max_requestors t0"
      "\<forall>i < length (sa_blks t). \<not> te_valid (sa_blks t ! i) \<and> \<not> te_secure (sa_blks t ! i)
        \<and> te_extract (sa_blks t ! i) = Some (extract_tag ?ix) \<and> unat (te_set (sa_blks t ! i)) = i div unat (ix_assoc ?ix)"
    using blks(1) by (auto simp: init_upto_def)
  let ?A = "unat (ix_assoc ?ix)"
  have "rows_ok (?ix\<lparr>ix_sets := rows\<rparr>)"
    by (rule rows_okI) (use rows(2-4) size in simp_all)
  moreover have "indexing_ok (?ix\<lparr>ix_sets := rows\<rparr>)" using ok rows(2,3) by (auto simp: indexing_ok_def)
  moreover have "extract_tag ?ix = extract_tag (?ix\<lparr>ix_sets := rows\<rparr>)" by (rule extract_tag_cong) simp
  ultimately have inv: "tags_inv t"
    using t rows(1,2) size occ by (auto simp: tags_inv_def blk_placed_def blks_unique_def)
  have "sa_find_block k t = Some None"
    by (rule sa_find_block_eqI [OF inv]) (use t in \<open>auto simp: holds_key_def\<close>)
  with inv show ?thesis by blast
qed


section \<open>Properties\<close>



text \<open>A store of four sets of two ways under LRU.\<close>

definition small_store :: "(entry \<Rightarrow> lru_data) assoc_tags option" where
  "small_store = do {
     ix \<leftarrow> new_set_associative 2 512 64;
     bt \<leftarrow> new_base_tags 64 512 1 ix None 0 4;
     t \<leftarrow> new_set_assoc 2 False (\<lambda>_. new_lru_data) bt;
     tags_init lru_ops t }"

definition read_of :: "u64 \<Rightarrow> packet" where
  "read_of addr = (new_packet \<lparr>req_paddr = addr, req_size = 8, req_requestor = 1, req_context = 0, req_task = 0, req_flags = 0,
     req_uncacheable = False, req_maintenance = False, req_cache_invalidate = False\<rparr> ReadReq 8)\<lparr>pkt_addr := addr\<rparr>"

lemma small_store_inv:
  "\<exists>t. small_store = Some t \<and> tags_inv t \<and> sa_find_block k t = Some None"
proof -
  have "small_store \<noteq> None" by code_simp
  then obtain t where t: "small_store = Some t" by blast
  then obtain ix bt t0 where ix: "new_set_associative 2 512 64 = Some ix" and bt: "new_base_tags 64 512 1 ix None 0 4 = Some bt"
    and t0: "new_set_assoc 2 False (\<lambda>_. new_lru_data) bt = Some t0" "tags_init lru_ops t0 = Some t"
    by (auto simp: small_store_def bind_Some_iff)
  have "map_option (\<lambda>ix. length (ix_sets ix) * unat (ix_assoc ix)) (new_set_associative 2 512 64) = Some 8" by code_simp
  with ix have size: "length (ix_sets ix) * unat (ix_assoc ix) = 8" by simp
  have bt': "bt_indexing bt = ix" "bt_num_blocks bt = 8" "bt_max_requestors bt = 4"
    "occupancies (bt_stats bt) = replicate 4 0"
    using bt by (auto simp: new_base_tags_def new_tag_stats_def bind_Some_iff)
  have "tags_inv t \<and> sa_find_block k t = Some None"
  proof (rule tags_init_inv [OF t0(2)])
    show "indexing_ok (bt_indexing t0)" using new_set_associative_ok [OF ix] t0(1) bt'(1)
      by (auto simp: new_set_assoc_def bind_Some_iff base_tags.extend_def)
  qed (use t0(1) bt' size in \<open>auto simp: new_set_assoc_def new_cache_blk_def cache_blk_invalidate_cleared bind_Some_iff
      base_tags.extend_def tagged_entry.extend_def\<close>)
  with t show ?thesis by blast
qed



text \<open>A tag is not the tag of itself, unless it is zero.\<close>

lemma extract_tag_less:
  assumes "x \<noteq> 0" "0 < tag_shift ix"
  shows "extract_tag ix x \<noteq> x"
proof
  assume "extract_tag ix x = x"
  then have "unat x div 2 ^ tag_shift ix = unat x"
    unfolding extract_tag_def by (metis unat_drop_bit_eq drop_bit_eq_div)
  moreover have "unat x div 2 ^ tag_shift ix < unat x"
    using assms one_less_power [of "2 :: nat" "tag_shift ix"] by (intro div_less_dividend) (auto simp: unat_gt_0)
  ultimately show False by simp
qed

lemma sa_move_block_blks:
  assumes "sa_move_block OPS env now src dest t = Some t'"
  shows "\<exists>d' s' ext. src < length (sa_blks t) \<and> dest < length (sa_blks t) \<and> te_valid (sa_blks t ! src)
    \<and> \<not> te_valid (sa_blks t ! dest) \<and> te_extract (sa_blks t ! dest) = Some ext
    \<and> te_tag d' = ext (te_tag (sa_blks t ! src)) \<and> \<not> te_valid s'
    \<and> te_extract d' = te_extract (sa_blks t ! dest) \<and> te_extract s' = te_extract (sa_blks t ! src)
    \<and> sa_blks t' = (sa_blks t)[dest := d', src := s'] \<and> bt_indexing t' = bt_indexing t"
proof -
  from assms obtain d' s' where m: "src < length (sa_blks t)" "dest < length (sa_blks t)"
      "te_valid (sa_blks t ! src)" "\<not> te_valid (sa_blks t ! dest)"
      "cache_blk_move now (sa_blks t ! src) (sa_blks t ! dest) = Some (d', s')"
    and t': "sa_blks t' = (sa_blks t)[dest := d', src := s']" "bt_indexing t' = bt_indexing t"
    by (auto simp: sa_move_block_def base_move_block_def bind_Some_iff)
  from cache_blk_move_tag [OF m(5)] obtain ext where ext: "te_extract (sa_blks t ! dest) = Some ext"
    "te_tag d' = ext (te_tag (sa_blks t ! src))" "\<not> te_valid s'" by blast
  have "te_extract d' = te_extract (sa_blks t ! dest)" "te_extract s' = te_extract (sa_blks t ! src)"
    using m(5) ext(1) by (cases "cb_prefetched (sa_blks t ! src)";
      auto simp: cache_blk_move_def tagged_insert_eq set_coherence_bits_def set_when_ready_def
        cache_blk_invalidate_cleared bind_Some_iff)+
  with m t' ext show ?thesis by blast
qed

text \<open>C32: A moved block is lost. \<open>CacheBlk::operator=\<close> passes the tag of the source to \<open>insert\<close>, which takes
  it for an address and extracts a tag again. So after a successful \<open>moveBlock\<close> of a block whose tag is not
  zero the key that found it finds nothing.\<close>

theorem moved_block_is_lost:
  assumes inv: "tags_inv t" and found: "sa_find_block k t = Some (Some src)"
    and tag: "extract_tag (bt_indexing t) (key_address k) \<noteq> 0" "0 < tag_shift (bt_indexing t)"
    and move: "sa_move_block OPS env now src dest t = Some t'"
  shows "sa_find_block k t' = Some None"
proof -
  let ?ix = "bt_indexing t"
  from sa_move_block_blks [OF move] obtain d' s' ext where m: "src < length (sa_blks t)" "dest < length (sa_blks t)"
      "te_valid (sa_blks t ! src)" "\<not> te_valid (sa_blks t ! dest)" "te_extract (sa_blks t ! dest) = Some ext"
      "te_tag d' = ext (te_tag (sa_blks t ! src))" "\<not> te_valid s'"
      "te_extract d' = te_extract (sa_blks t ! dest)" "te_extract s' = te_extract (sa_blks t ! src)"
      "sa_blks t' = (sa_blks t)[dest := d', src := s']" "bt_indexing t' = ?ix" by blast
  from sa_find_block_iff [OF inv, of k] found have
    only: "holds_key k ?ix (sa_blks t) e \<longleftrightarrow> e = src" for e by auto
  from only [of src] have src: "te_tag (sa_blks t ! src) = extract_tag ?ix (key_address k)"
    by (simp add: holds_key_def)
  have ext: "ext = extract_tag ?ix" using inv m(2,5) by (auto simp: tags_inv_def blk_placed_def)
  with m(6) src extract_tag_less [OF tag] have "te_tag d' \<noteq> extract_tag ?ix (key_address k)" by simp
  then have gone: "\<not> holds_key k ?ix (sa_blks t') e" for e
    using only [of e] m(2-4,7) by (auto simp: m(10) holds_key_update holds_key_def nth_list_update split: if_splits)
  have "\<exists>r. base_find_block k (sa_blks t') t' = Some r \<and> (\<forall>e. r = Some e \<longrightarrow> holds_key k ?ix (sa_blks t') e)"
  proof -
    have "\<forall>i < length (sa_blks t'). te_extract (sa_blks t' ! i) = Some (extract_tag ?ix)"
      using inv m(1,2,8,9) by (auto simp: m(10) tags_inv_def blk_placed_def nth_list_update)
    then show ?thesis
      using find_block_holds [of t' "sa_blks t'" k] inv unfolding m(11) by (auto simp: tags_inv_def m(10))
  qed
  with gone show ?thesis unfolding sa_find_block_def by (metis not_None_eq)
qed


theorem moved_block_is_lost_witness:
  "\<exists>t1 t2. small_store \<bind> sa_insert_block lru_ops \<lparr>rp_now = 5, rp_rand = 0\<rparr> 5 (read_of 0x1040) 2 = Some t1
    \<and> sa_move_block lru_ops \<lparr>rp_now = 6, rp_rand = 0\<rparr> 6 2 3 t1 = Some t2
    \<and> sa_find_block (packet_key (read_of 0x1040)) t1 = Some (Some 2)
    \<and> sa_find_block (packet_key (read_of 0x1040)) t2 = Some None"
proof -
  let ?pkt = "read_of 0x1040"
  have computed: "case small_store of None \<Rightarrow> False | Some t \<Rightarrow>
      2 div unat (ix_assoc (bt_indexing t)) = unat (extract_set (bt_indexing t) (pkt_addr ?pkt))
      \<and> (case sa_insert_block lru_ops \<lparr>rp_now = 5, rp_rand = 0\<rparr> 5 ?pkt 2 t of None \<Rightarrow> False | Some t1 \<Rightarrow>
        sa_find_block (packet_key ?pkt) t1 = Some (Some 2)
        \<and> extract_tag (bt_indexing t1) (key_address (packet_key ?pkt)) \<noteq> 0 \<and> 0 < tag_shift (bt_indexing t1)
        \<and> (case sa_move_block lru_ops \<lparr>rp_now = 6, rp_rand = 0\<rparr> 6 2 3 t1 of None \<Rightarrow> False | Some t2 \<Rightarrow> True))" by code_simp
  from small_store_inv obtain t where t: "small_store = Some t" "tags_inv t" "\<And>k. sa_find_block k t = Some None"
    by (metis option.inject)
  note facts = computed [unfolded t(1) option.case]
  from facts obtain t1 t2 where
    t1: "2 div unat (ix_assoc (bt_indexing t)) = unat (extract_set (bt_indexing t) (pkt_addr ?pkt))"
      "sa_insert_block lru_ops \<lparr>rp_now = 5, rp_rand = 0\<rparr> 5 ?pkt 2 t = Some t1" "sa_find_block (packet_key ?pkt) t1 = Some (Some 2)"
      "extract_tag (bt_indexing t1) (key_address (packet_key ?pkt)) \<noteq> 0" "0 < tag_shift (bt_indexing t1)"
    and t2: "sa_move_block lru_ops \<lparr>rp_now = 6, rp_rand = 0\<rparr> 6 2 3 t1 = Some t2"
    by (auto split: option.splits)
  have "tags_inv t1" using sa_insert_lookup [OF t(2,3) t1(1,2)] by blast
  from moved_block_is_lost [OF this t1(3-5) t2] t1(2,3) t2 show ?thesis
    unfolding t(1) bind.bind_lunit by blast
qed

end
