(* ===== verification/FaLru.thy ===== *)
theory FaLru
  imports SetAssocTags
begin

text \<open>
  The fully associative tag store with LRU replacement (\<open>tags/fa_lru.cc\<close>, \<open>tags/fa_lru.hh\<close>): a doubly
  linked list over an array of blocks, and the tracking of which prefixes of the list smaller caches
  would hold. A block pointer is an index or \<open>None\<close> for \<open>nullptr\<close>; dereferencing \<open>nullptr\<close> or an
  index out of range fails.
\<close>

section \<open>State\<close>

record falru_blk = cache_blk +
  fa_prev :: "entry option"
  fa_next :: "entry option"
  fa_mask :: u32

record tracking =
  ct_blk_size :: u32
  ct_min_size :: u32
  ct_num :: nat
  ct_all_mask :: u32
  ct_boundaries :: "entry option list"
  ct_hits :: "u64 list"
  ct_misses :: "u64 list"
  ct_accesses :: u64

record falru = base_tags +
  fa_blks :: "falru_blk list"
  fa_head :: "entry option"
  fa_tail :: "entry option"
  fa_hash :: "((u64 \<times> bool) \<times> entry) list"
  fa_tracking :: tracking

text \<open>\<open>mask(int)\<close> of the stubs shifts an \<open>unsigned\<close>.\<close>

definition low_mask :: "nat \<Rightarrow> u32 option" where
  "low_mask n = (if n < 32 then Some (push_bit n 1 - 1) else None)"

definition new_tracking :: "u32 \<Rightarrow> u32 \<Rightarrow> u32 \<Rightarrow> tracking option" where
  "new_tracking min_size max_size block_size = do {
     n \<leftarrow> (if min_size < max_size then do { a \<leftarrow> floor_log2 max_size; b \<leftarrow> floor_log2 min_size; Some (a - b) } else Some 0);
     m \<leftarrow> low_mask n;
     cpp_assert (\<not> 32 < n);
     Some \<lparr>ct_blk_size = block_size, ct_min_size = min_size, ct_num = n, ct_all_mask = m,
       ct_boundaries = replicate n None, ct_hits = replicate (n + 1) 0, ct_misses = replicate (n + 1) 0, ct_accesses = 0\<rparr> }"

definition new_falru :: "u32 \<Rightarrow> base_tags \<Rightarrow> falru option" where
  "new_falru min_tracked t = do {
     ct \<leftarrow> new_tracking min_tracked (bt_size t) (bt_blk_size t);
     cpp_assert (is_power_of_2 (bt_blk_size t));
     cpp_assert (is_power_of_2 (bt_size t));
     cpp_assert (bt_partitions t = None);
     b \<leftarrow> new_cache_blk;
     Some (base_tags.extend t \<lparr>fa_blks = replicate (unat (bt_num_blocks t))
         (cache_blk.extend b \<lparr>fa_prev = None, fa_next = None, fa_mask = 0\<rparr>),
       fa_head = None, fa_tail = None, fa_hash = [], fa_tracking = ct\<rparr>) }"

section \<open>Pointers\<close>

definition deref :: "entry option \<Rightarrow> falru_blk list \<Rightarrow> falru_blk option" where
  "deref p bs = (case p of None \<Rightarrow> None | Some e \<Rightarrow> nth_opt bs e)"

definition upd_blk :: "entry option \<Rightarrow> (falru_blk \<Rightarrow> falru_blk) \<Rightarrow> falru_blk list \<Rightarrow> falru_blk list option" where
  "upd_blk p f bs = (case p of None \<Rightarrow> None | Some e \<Rightarrow> do { b \<leftarrow> nth_opt bs e; update_opt bs e (f b) })"

text \<open>The address of an element, which may be the one past the end.\<close>

definition ptr_to :: "nat \<Rightarrow> falru_blk list \<Rightarrow> entry option" where
  "ptr_to i bs = (if i \<le> length bs then Some i else None)"

section \<open>Tracking\<close>

text \<open>The walk of \<open>init\<close> from the head to the end of the list.\<close>

partial_function (option) track_init ::
  "tracking \<Rightarrow> entry option \<Rightarrow> entry option \<Rightarrow> u32 \<Rightarrow> u32 \<Rightarrow> u32 \<Rightarrow> nat \<Rightarrow> falru_blk list \<Rightarrow> entry option list
    \<Rightarrow> (falru_blk list \<times> entry option list) option" where
  "track_init ct tail p cur tracked msk j bs bnd = (case p of None \<Rightarrow> Some (bs, bnd) | Some e \<Rightarrow> do {
     b \<leftarrow> nth_opt bs e;
     bs \<leftarrow> update_opt bs e (b\<lparr>fa_mask := msk\<rparr>);
     let cur = cur + ct_blk_size ct in
     if cur = tracked \<and> p \<noteq> tail then do {
       bnd \<leftarrow> update_opt bnd j p;
       cpp_assert (j < 32);
       track_init ct tail (fa_next b) cur (tracked * 2) (msk AND NOT (push_bit j 1)) (j + 1) bs bnd }
     else track_init ct tail (fa_next b) cur tracked msk j bs bnd })"

text \<open>One round of the loops of \<open>moveBlockToHead\<close> and \<open>moveBlockToTail\<close>.\<close>

definition shift_to_head ::
  "entry option \<Rightarrow> u32 \<Rightarrow> nat \<Rightarrow> falru_blk list \<times> entry option list \<Rightarrow> (falru_blk list \<times> entry option list) option" where
  "shift_to_head p update i st = (let (bs, bnd) = st in do {
     q \<leftarrow> nth_opt bnd i;
     if push_bit i 1 AND update \<noteq> 0 then do {
       bs \<leftarrow> upd_blk q (\<lambda>b. b\<lparr>fa_mask := fa_mask b AND NOT (push_bit i 1)\<rparr>) bs;
       b \<leftarrow> deref q bs;
       Some (bs, bnd[i := fa_prev b]) }
     else if q = p then do { b \<leftarrow> deref p bs; Some (bs, bnd[i := fa_prev b]) }
     else Some (bs, bnd) })"

definition track_to_head :: "entry option \<Rightarrow> tracking \<times> falru_blk list \<Rightarrow> (tracking \<times> falru_blk list) option" where
  "track_to_head p st = (let (ct, bs) = st in do {
     b \<leftarrow> deref p bs;
     (bs, bnd) \<leftarrow> fold_opt (shift_to_head p (ct_all_mask ct XOR fa_mask b)) [0..<ct_num ct] (bs, ct_boundaries ct);
     bs \<leftarrow> upd_blk p (\<lambda>b. b\<lparr>fa_mask := ct_all_mask ct\<rparr>) bs;
     Some (ct\<lparr>ct_boundaries := bnd\<rparr>, bs) })"

definition shift_to_tail ::
  "entry option \<Rightarrow> u32 \<Rightarrow> nat \<Rightarrow> falru_blk list \<times> entry option list \<Rightarrow> (falru_blk list \<times> entry option list) option" where
  "shift_to_tail p update i st = (let (bs, bnd) = st in
     if push_bit i 1 AND update \<noteq> 0 then do {
       q \<leftarrow> nth_opt bnd i;
       b \<leftarrow> deref q bs;
       let q' = fa_next b in do {
         q' \<leftarrow> (if q' = p then map_option fa_next (deref p bs) else Some q');
         bs \<leftarrow> upd_blk q' (\<lambda>b. b\<lparr>fa_mask := fa_mask b OR push_bit i 1\<rparr>) bs;
         Some (bs, bnd[i := q']) } }
     else Some (bs, bnd))"

definition track_to_tail :: "entry option \<Rightarrow> tracking \<times> falru_blk list \<Rightarrow> (tracking \<times> falru_blk list) option" where
  "track_to_tail p st = (let (ct, bs) = st in do {
     b \<leftarrow> deref p bs;
     (bs, bnd) \<leftarrow> fold_opt (shift_to_tail p (fa_mask b)) [0..<ct_num ct] (bs, ct_boundaries ct);
     bs \<leftarrow> upd_blk p (\<lambda>b. b\<lparr>fa_mask := 0\<rparr>) bs;
     Some (ct\<lparr>ct_boundaries := bnd\<rparr>, bs) })"

definition incr_at :: "nat \<Rightarrow> u64 list \<Rightarrow> u64 list option" where
  "incr_at i xs = do { x \<leftarrow> nth_opt xs i; update_opt xs i (x + 1) }"

definition record_in :: "falru_blk option \<Rightarrow> nat \<Rightarrow> tracking \<Rightarrow> tracking option" where
  "record_in b i ct =
     (if (case b of None \<Rightarrow> False | Some b \<Rightarrow> push_bit i 1 AND fa_mask b \<noteq> 0)
      then do { h \<leftarrow> incr_at i (ct_hits ct); Some (ct\<lparr>ct_hits := h\<rparr>) }
      else do { h \<leftarrow> incr_at i (ct_misses ct); Some (ct\<lparr>ct_misses := h\<rparr>) })"

definition record_access :: "falru_blk option \<Rightarrow> tracking \<Rightarrow> tracking option" where
  "record_access b ct = do {
     ct \<leftarrow> fold_opt (record_in b) [0..<ct_num ct] ct;
     ct \<leftarrow> (if (case b of None \<Rightarrow> False | Some b \<Rightarrow> te_valid b)
       then do { h \<leftarrow> incr_at (ct_num ct) (ct_hits ct); Some (ct\<lparr>ct_hits := h\<rparr>) }
       else do { h \<leftarrow> incr_at (ct_num ct) (ct_misses ct); Some (ct\<lparr>ct_misses := h\<rparr>) });
     Some (ct\<lparr>ct_accesses := ct_accesses ct + 1\<rparr>) }"

text \<open>The consistency check of the debug build: \<open>None\<close> is its panic.\<close>

partial_function (option) track_check ::
  "tracking \<Rightarrow> entry option \<Rightarrow> falru_blk list \<Rightarrow> entry option \<Rightarrow> u32 \<Rightarrow> u32 \<Rightarrow> u32 \<Rightarrow> nat \<Rightarrow> unit option" where
  "track_check ct tail bs p cur tracked msk j = (case p of None \<Rightarrow> Some () | Some e \<Rightarrow> do {
     b \<leftarrow> nth_opt bs e;
     cpp_assert (fa_mask b = msk);
     let cur = cur + ct_blk_size ct in
     if cur = tracked \<and> p \<noteq> tail then do {
       q \<leftarrow> nth_opt (ct_boundaries ct) j;
       cpp_assert (q = p);
       cpp_assert (j < 32);
       track_check ct tail bs (fa_next b) cur (tracked * 2) (msk AND NOT (push_bit j 1)) (j + 1) }
     else track_check ct tail bs (fa_next b) cur tracked msk j })"

definition tracking_check :: "falru \<Rightarrow> unit option" where
  "tracking_check t = track_check (fa_tracking t) (fa_tail t) (fa_blks t) (fa_head t) 0
     (ct_min_size (fa_tracking t)) (ct_all_mask (fa_tracking t)) 0"

section \<open>The list\<close>

definition init_falru_blk :: "nat \<Rightarrow> entry option \<Rightarrow> entry option \<Rightarrow> falru \<Rightarrow> falru option" where
  "init_falru_blk i prev nxt t = do {
     bs \<leftarrow> upd_blk (Some i) (\<lambda>b. (set_position 0 (of_nat i) b)
       \<lparr>fa_prev := prev, fa_next := nxt, cb_data := Some (unat (bt_blk_size t) * i)\<rparr>) (fa_blks t);
     Some (t\<lparr>fa_blks := bs\<rparr>) }"

definition falru_tags_init :: "falru \<Rightarrow> falru option" where
  "falru_tags_init t = (let n = unat (bt_num_blocks t) in do {
     cpp_assert (0 < n);
     nxt \<leftarrow> ptr_to 1 (fa_blks t);
     t \<leftarrow> init_falru_blk 0 None (Some nxt) t;
     t \<leftarrow> fold_opt (\<lambda>i. init_falru_blk i (Some (i - 1)) (Some (i + 1))) [1..<n - 1] t;
     prev \<leftarrow> ptr_to (unat (bt_num_blocks t - 2)) (fa_blks t);
     t \<leftarrow> init_falru_blk (n - 1) (Some prev) None t;
     let t = t\<lparr>fa_head := Some 0, fa_tail := Some (n - 1)\<rparr>; ct = fa_tracking t in do {
       (bs, bnd) \<leftarrow> track_init ct (fa_tail t) (if ct_num ct \<noteq> 0 then fa_head t else None) 0 (ct_min_size ct)
         (ct_all_mask ct) 0 (fa_blks t) (ct_boundaries ct);
       Some (t\<lparr>fa_blks := bs, fa_tracking := ct\<lparr>ct_boundaries := bnd\<rparr>\<rparr>) } })"

definition move_to_head :: "entry option \<Rightarrow> falru \<Rightarrow> falru option" where
  "move_to_head p t = (if p = fa_head t then Some t else do {
     (ct, bs) \<leftarrow> track_to_head p (fa_tracking t, fa_blks t);
     b \<leftarrow> deref p bs;
     (bs, tl) \<leftarrow> (if p = fa_tail t then do {
         cpp_assert (fa_next b = None);
         bs \<leftarrow> upd_blk (fa_prev b) (\<lambda>q. q\<lparr>fa_next := None\<rparr>) bs;
         Some (bs, fa_prev b) }
       else do {
         bs \<leftarrow> upd_blk (fa_prev b) (\<lambda>q. q\<lparr>fa_next := fa_next b\<rparr>) bs;
         bs \<leftarrow> upd_blk (fa_next b) (\<lambda>q. q\<lparr>fa_prev := fa_prev b\<rparr>) bs;
         Some (bs, fa_tail t) });
     bs \<leftarrow> upd_blk p (\<lambda>b. b\<lparr>fa_next := fa_head t, fa_prev := None\<rparr>) bs;
     bs \<leftarrow> upd_blk (fa_head t) (\<lambda>q. q\<lparr>fa_prev := p\<rparr>) bs;
     Some (t\<lparr>fa_blks := bs, fa_tracking := ct, fa_head := p, fa_tail := tl\<rparr>) })"

definition move_to_tail :: "entry option \<Rightarrow> falru \<Rightarrow> falru option" where
  "move_to_tail p t = (if p = fa_tail t then Some t else do {
     (ct, bs) \<leftarrow> track_to_tail p (fa_tracking t, fa_blks t);
     b \<leftarrow> deref p bs;
     (bs, hd0) \<leftarrow> (if p = fa_head t then do {
         cpp_assert (fa_prev b = None);
         bs \<leftarrow> upd_blk (fa_next b) (\<lambda>q. q\<lparr>fa_prev := None\<rparr>) bs;
         Some (bs, fa_next b) }
       else do {
         bs \<leftarrow> upd_blk (fa_prev b) (\<lambda>q. q\<lparr>fa_next := fa_next b\<rparr>) bs;
         bs \<leftarrow> upd_blk (fa_next b) (\<lambda>q. q\<lparr>fa_prev := fa_prev b\<rparr>) bs;
         Some (bs, fa_head t) });
     bs \<leftarrow> upd_blk p (\<lambda>b. b\<lparr>fa_prev := fa_tail t, fa_next := None\<rparr>) bs;
     bs \<leftarrow> upd_blk (fa_tail t) (\<lambda>q. q\<lparr>fa_next := p\<rparr>) bs;
     Some (t\<lparr>fa_blks := bs, fa_tracking := ct, fa_tail := p, fa_head := hd0\<rparr>) })"

section \<open>The tag store\<close>

definition falru_extract_tag :: "u64 \<Rightarrow> falru \<Rightarrow> u64" where
  "falru_extract_tag addr t = blk_align addr t"

definition falru_find_block :: "block_key \<Rightarrow> falru \<Rightarrow> entry option option" where
  "falru_find_block key t = (let tag = falru_extract_tag (key_address key) t in
     case map_of (fa_hash t) (tag, key_secure key) of
       None \<Rightarrow> Some None
     | Some e \<Rightarrow> do {
         b \<leftarrow> nth_opt (fa_blks t) e;
         cpp_assert (te_valid b \<longrightarrow> te_tag b = tag \<and> te_secure b = key_secure key);
         Some (Some e) })"

text \<open>The result is the block, the caches that held it, the latency and the new state.\<close>

definition falru_access_block :: "packet \<Rightarrow> falru \<Rightarrow> (entry option \<times> u32 \<times> u64 \<times> falru) option" where
  "falru_access_block pkt t = do {
     found \<leftarrow> falru_find_block (packet_key pkt) t;
     (msk, t) \<leftarrow> (case found of
         None \<Rightarrow> Some (0, t)
       | Some e \<Rightarrow> do {
           b \<leftarrow> nth_opt (fa_blks t) e;
           if te_valid b then do { t \<leftarrow> move_to_head (Some e) t; Some (fa_mask b, t) } else Some (0, t) });
     b \<leftarrow> (case found of None \<Rightarrow> Some None | Some e \<Rightarrow> map_option Some (nth_opt (fa_blks t) e));
     ct \<leftarrow> record_access b (fa_tracking t);
     Some (found, msk, bt_latency t, t\<lparr>fa_tracking := ct\<rparr>) }"

definition falru_find_by_set_and_way :: "u32 \<Rightarrow> u32 \<Rightarrow> falru \<Rightarrow> entry option" where
  "falru_find_by_set_and_way s w t = do { cpp_assert (s = 0); ptr_to (unat w) (fa_blks t) }"

definition falru_find_victim :: "falru \<Rightarrow> entry option \<times> entry option list" where
  "falru_find_victim t = (fa_tail t, [fa_tail t])"

definition falru_insert_block :: "tick \<Rightarrow> packet \<Rightarrow> entry \<Rightarrow> falru \<Rightarrow> falru option" where
  "falru_insert_block now pkt e t = do {
     b \<leftarrow> nth_opt (fa_blks t) e;
     cpp_assert (fa_mask b = 0);
     (b, t) \<leftarrow> base_insert_block now pkt b t;
     bs \<leftarrow> update_opt (fa_blks t) e b;
     t \<leftarrow> move_to_head (Some e)
       (t\<lparr>fa_blks := bs, bt_stats := (bt_stats t)\<lparr>tags_in_use := tags_in_use (bt_stats t) + 1\<rparr>\<rparr>);
     Some (t\<lparr>fa_hash := AList.update (te_tag b, te_secure b) e (fa_hash t)\<rparr>) }"

definition falru_invalidate :: "entry \<Rightarrow> falru \<Rightarrow> falru option" where
  "falru_invalidate e t = do {
     b \<leftarrow> nth_opt (fa_blks t) e;
     cpp_assert (map_of (fa_hash t) (te_tag b, te_secure b) \<noteq> None);
     (b', t) \<leftarrow> base_invalidate b (t\<lparr>fa_hash := AList.delete (te_tag b, te_secure b) (fa_hash t)\<rparr>);
     bs \<leftarrow> update_opt (fa_blks t) e b';
     move_to_tail (Some e)
       (t\<lparr>fa_blks := bs, bt_stats := (bt_stats t)\<lparr>tags_in_use := tags_in_use (bt_stats t) - 1\<rparr>\<rparr>) }"

text \<open>Moving blocks panics.\<close>

definition falru_move_block :: "entry \<Rightarrow> entry \<Rightarrow> falru \<Rightarrow> falru option" where
  "falru_move_block src dest t = None"

definition falru_regenerate_blk_addr :: "entry \<Rightarrow> falru \<Rightarrow> u64 option" where
  "falru_regenerate_blk_addr e t = map_option te_tag (nth_opt (fa_blks t) e)"

definition falru_any_blk :: "(falru_blk \<Rightarrow> bool) \<Rightarrow> falru \<Rightarrow> bool" where
  "falru_any_blk visitor t \<longleftrightarrow> (\<exists>b \<in> set (take (unat (bt_num_blocks t)) (fa_blks t)). visitor b)"

end
