(* ===== verification/FaLruFacts.thy ===== *)
theory FaLruFacts
  imports FaLru
begin

text \<open>
  The doubly linked list of the fully associative store is a list of blocks, and the tracking is
  consistent with it: the masks and boundaries that \<open>moveBlockToHead\<close> and \<open>moveBlockToTail\<close> maintain
  are those of the new order, so the check of the debug build passes after every move. The smallest
  tracked cache must hold at least two blocks, as the boundary of one block would move in front of the
  head.
\<close>

section \<open>The invariant\<close>

definition linked :: "entry list \<Rightarrow> falru_blk list \<Rightarrow> bool" where
  "linked l bs \<longleftrightarrow> (\<forall>q < length l. l ! q < length bs
     \<and> fa_prev (bs ! (l ! q)) = (if q = 0 then None else Some (l ! (q - 1)))
     \<and> fa_next (bs ! (l ! q)) = (if Suc q < length l then Some (l ! Suc q) else None))"

text \<open>Cache \<open>i\<close> holds \<open>m * 2 ^ i\<close> blocks, the first ones of the list.\<close>

definition tracked :: "nat \<Rightarrow> tracking \<Rightarrow> entry list \<Rightarrow> falru_blk list \<Rightarrow> bool" where
  "tracked m ct l bs \<longleftrightarrow> length (ct_boundaries ct) = ct_num ct \<and> ct_num ct < 32 \<and> ct_all_mask ct = mask (ct_num ct)
     \<and> 2 \<le> m \<and> (\<forall>i < ct_num ct. m * 2 ^ i < length l \<and> ct_boundaries ct ! i = Some (l ! (m * 2 ^ i - 1)))
     \<and> (\<forall>q < length l. \<forall>i. bit (fa_mask (bs ! (l ! q))) i \<longleftrightarrow> i < ct_num ct \<and> q < m * 2 ^ i)"

definition to_front :: "nat \<Rightarrow> 'a list \<Rightarrow> 'a list" where
  "to_front p l = l ! p # take p l @ drop (Suc p) l"

definition to_back :: "nat \<Rightarrow> 'a list \<Rightarrow> 'a list" where
  "to_back p l = take p l @ drop (Suc p) l @ [l ! p]"

lemma to_front_nth:
  "p < length l \<Longrightarrow> q < length l \<Longrightarrow> to_front p l ! q = (if q = 0 then l ! p else if q \<le> p then l ! (q - 1) else l ! q)"
  by (cases q) (auto simp: to_front_def nth_append min_def)

lemma to_back_nth:
  "p < length l \<Longrightarrow> q < length l \<Longrightarrow> to_back p l ! q = (if Suc q = length l then l ! p else if q < p then l ! q else l ! Suc q)"
  by (auto simp: to_back_def nth_append min_def nth_Cons' not_less)

lemma move_length [simp]: "p < length l \<Longrightarrow> length (to_front p l) = length l" "p < length l \<Longrightarrow> length (to_back p l) = length l"
  by (auto simp: to_front_def to_back_def)

lemma move_set [simp]: "p < length l \<Longrightarrow> set (to_front p l) = set l" "p < length l \<Longrightarrow> set (to_back p l) = set l"
  by (metis Un_insert_right id_take_nth_drop list.set(2) set_append to_front_def,
      metis (no_types, lifting) Un_commute Un_insert_right id_take_nth_drop list.set(1,2) set_append sup_bot_right to_back_def Un_assoc)

lemma move_distinct [simp]:
  assumes "p < length l" "distinct l"
  shows "distinct (to_front p l)" "distinct (to_back p l)"
  using assms distinct_card [of l] card_distinct [of "to_front p l"] card_distinct [of "to_back p l"] by auto

lemma mask_test: "i < 32 \<Longrightarrow> (push_bit i 1 AND (w :: u32) \<noteq> 0) = bit w i"
  by (simp add: bit_iff_and_push_bit_not_eq_0 and.commute)

lemma clear_bit: "k < 32 \<Longrightarrow> bit ((w :: u32) AND NOT (push_bit k 1)) i \<longleftrightarrow> bit w i \<and> i \<noteq> k"
  using bit_imp_le_length [of w i] by (auto simp: bit_and_iff bit_not_iff bit_exp_iff)

lemma put_bit: "k < 32 \<Longrightarrow> bit ((w :: u32) OR push_bit k 1) i \<longleftrightarrow> bit w i \<or> i = k"
  by (auto simp: bit_or_iff bit_exp_iff)

section \<open>Tracking and the move to the head\<close>

text \<open>What both loops keep: only the masks of the blocks change.\<close>

definition masks_only :: "falru_blk list \<Rightarrow> falru_blk list \<Rightarrow> bool" where
  "masks_only bs bs' \<longleftrightarrow> length bs' = length bs \<and> (\<forall>e < length bs. \<exists>x. bs' ! e = (bs ! e)\<lparr>fa_mask := x\<rparr>)"

lemma masks_only_refl: "masks_only bs bs"
  unfolding masks_only_def by (metis falru_blk.surjective falru_blk.update_convs(3))

lemma masks_only_update:
  assumes "masks_only bs bs'" "e < length bs"
  shows "masks_only bs (bs'[e := (bs' ! e)\<lparr>fa_mask := x\<rparr>])"
  unfolding masks_only_def
proof (intro conjI allI impI)
  show "length (bs'[e := (bs' ! e)\<lparr>fa_mask := x\<rparr>]) = length bs" using assms(1) by (simp add: masks_only_def)
  fix i assume i: "i < length bs"
  with assms(1) obtain y where "bs' ! i = (bs ! i)\<lparr>fa_mask := y\<rparr>" by (auto simp: masks_only_def)
  then have "bs'[e := (bs' ! e)\<lparr>fa_mask := x\<rparr>] ! i = (bs ! i)\<lparr>fa_mask := if i = e then x else y\<rparr>"
    using assms i by (cases "i = e") (simp_all add: masks_only_def)
  then show "\<exists>z. bs'[e := (bs' ! e)\<lparr>fa_mask := x\<rparr>] ! i = (bs ! i)\<lparr>fa_mask := z\<rparr>" by blast
qed

lemma masks_only_links:
  assumes "masks_only bs bs'" "e < length bs"
  shows "fa_prev (bs' ! e) = fa_prev (bs ! e)" "fa_next (bs' ! e) = fa_next (bs ! e)"
proof -
  from assms obtain x where "bs' ! e = (bs ! e)\<lparr>fa_mask := x\<rparr>" by (auto simp: masks_only_def)
  then show "fa_prev (bs' ! e) = fa_prev (bs ! e)" "fa_next (bs' ! e) = fa_next (bs ! e)" by simp_all
qed

lemma masks_only_linked: "masks_only bs bs' \<Longrightarrow> linked l bs \<Longrightarrow> linked l bs'"
  using masks_only_links [of bs bs'] unfolding linked_def by (simp add: masks_only_def)

definition head_round :: "nat \<Rightarrow> nat \<Rightarrow> tracking \<Rightarrow> entry list \<Rightarrow> nat \<Rightarrow> falru_blk list \<times> entry option list \<Rightarrow> bool" where
  "head_round m p ct l k st \<longleftrightarrow> (let (bs, bnd) = st in length bnd = ct_num ct
     \<and> (\<forall>i < ct_num ct. bnd ! i = Some (l ! (if i < k \<and> m * 2 ^ i \<le> p then m * 2 ^ i - 2
         else if i < k \<and> m * 2 ^ i - 1 = p then p - 1 else m * 2 ^ i - 1)))
     \<and> (\<forall>q < length l. \<forall>i. bit (fa_mask (bs ! (l ! q))) i
         \<longleftrightarrow> i < ct_num ct \<and> (if i < k \<and> m * 2 ^ i \<le> p then q < m * 2 ^ i - 1 else q < m * 2 ^ i)))"

lemma shift_to_head_round:
  assumes links: "distinct l" "linked l bs0" "masks_only bs0 bs" and p: "0 < p" "p < length l"
    and round: "head_round m p ct l k (bs, bnd)" and k: "k < ct_num ct" "ct_num ct < 32" "m * 2 ^ k < length l" "2 \<le> m"
    and update: "\<forall>i < ct_num ct. bit update i \<longleftrightarrow> m * 2 ^ i \<le> p"
  shows "\<exists>bs' bnd'. shift_to_head (Some (l ! p)) update k (bs, bnd) = Some (bs', bnd')
    \<and> masks_only bs0 bs' \<and> head_round m p ct l (Suc k) (bs', bnd')"
proof -
  let ?s = "m * 2 ^ k"
  have s2: "2 \<le> ?s" using k(4) by (metis le_trans mult_le_mono2 nat_mult_1_right one_le_numeral one_le_power)
  have bnd: "length bnd = ct_num ct" "bnd ! k = Some (l ! (?s - 1))"
    using round k(1) by (simp_all add: head_round_def)
  have len: "length bs = length bs0" using links(3) by (simp add: masks_only_def)
  have in_bs: "l ! q < length bs" if "q < length l" for q using links(2) that len by (auto simp: linked_def)
  have prev: "fa_prev (bs ! (l ! q)) = Some (l ! (q - 1))" if "0 < q" "q < length l" for q
    using links(2) that masks_only_links [OF links(3)] by (simp add: linked_def)
  have test: "(push_bit k 1 AND update \<noteq> 0) = (?s \<le> p)" using mask_test [of k update] update k by simp
  have inj: "l ! i = l ! j \<longleftrightarrow> i = j" if "i < length l" "j < length l" for i j
    using links(1) that by (simp add: nth_eq_iff_index_eq)
  consider "?s \<le> p" | "\<not> ?s \<le> p" "?s - 1 = p" | "\<not> ?s \<le> p" "?s - 1 \<noteq> p" by blast
  then show ?thesis
  proof cases
    case 1
    let ?e = "l ! (?s - 1)"
    let ?bs = "bs[?e := (bs ! ?e)\<lparr>fa_mask := fa_mask (bs ! ?e) AND NOT (push_bit k 1)\<rparr>]"
    have e: "?e < length bs" using in_bs s2 k(3) by simp
    have step: "shift_to_head (Some (l ! p)) update k (bs, bnd) = Some (?bs, bnd[k := Some (l ! (?s - 2))])"
      using 1 test e bnd k(1) prev [of "?s - 1"] s2 k(3)
      by (simp add: shift_to_head_def upd_blk_def deref_def numeral_2_eq_2)
    have "masks_only bs0 ?bs" using masks_only_update [OF links(3)] e len by simp
    moreover have "head_round m p ct l (Suc k) (?bs, bnd[k := Some (l ! (?s - 2))])"
      unfolding head_round_def Let_def prod.case
    proof (intro conjI allI impI)
      fix q i
      assume q: "q < length l"
      have old: "bit (fa_mask (bs ! (l ! q))) i
         \<longleftrightarrow> i < ct_num ct \<and> (if i < k \<and> m * 2 ^ i \<le> p then q < m * 2 ^ i - 1 else q < m * 2 ^ i)"
        using round q by (simp add: head_round_def)
      show "bit (fa_mask (?bs ! (l ! q))) i
         \<longleftrightarrow> i < ct_num ct \<and> (if i < Suc k \<and> m * 2 ^ i \<le> p then q < m * 2 ^ i - 1 else q < m * 2 ^ i)"
      proof (cases "q = ?s - 1")
        case True
        then show ?thesis using old e 1 k(2) s2
          k(1) clear_bit [of k] by (cases "i = k") (auto simp: less_Suc_eq simp del: push_bit_of_1)
      next
        case False
        then have "l ! q \<noteq> ?e" using inj [of q "?s - 1"] q k(3) s2 by simp
        then show ?thesis using old False 1 by (auto simp: less_Suc_eq)
      qed
    qed (use round bnd 1 k(1) in \<open>auto simp: head_round_def nth_list_update less_Suc_eq\<close>)
    ultimately show ?thesis using step by blast
  next
    case 2
    have "shift_to_head (Some (l ! p)) update k (bs, bnd) = Some (bs, bnd[k := Some (l ! (p - 1))])"
      using 2 test in_bs [OF p(2)] bnd k(1) prev [OF p] by (simp add: shift_to_head_def deref_def)
    moreover have "head_round m p ct l (Suc k) (bs, bnd[k := Some (l ! (p - 1))])"
      using round bnd 2 k(1) by (auto simp: head_round_def nth_list_update less_Suc_eq)
    ultimately show ?thesis using links(3) by blast
  next
    case 3
    have "l ! (?s - 1) \<noteq> l ! p" using inj [of "?s - 1" p] 3(2) p(2) k(3) by simp
    then have "shift_to_head (Some (l ! p)) update k (bs, bnd) = Some (bs, bnd)"
      using 3 test bnd k(1) by (simp add: shift_to_head_def)
    moreover have "head_round m p ct l (Suc k) (bs, bnd)"
      using round 3 by (auto simp: head_round_def less_Suc_eq)
    ultimately show ?thesis using links(3) by blast
  qed
qed


lemma track_to_head_tracked:
  assumes "distinct l" "linked l bs" "tracked m ct l bs" "0 < p" "p < length l"
  shows "\<exists>ct' bs'. track_to_head (Some (l ! p)) (ct, bs) = Some (ct', bs') \<and> masks_only bs bs'
    \<and> tracked m ct' (to_front p l) bs' \<and> ct' = ct\<lparr>ct_boundaries := ct_boundaries ct'\<rparr>"
proof -
  let ?e = "l ! p" and ?u = "ct_all_mask ct XOR fa_mask (bs ! (l ! p))"
  from assms(3) have ct: "length (ct_boundaries ct) = ct_num ct" "ct_num ct < 32" "ct_all_mask ct = mask (ct_num ct)" "2 \<le> m"
    "\<forall>i < ct_num ct. m * 2 ^ i < length l" "\<forall>i < ct_num ct. ct_boundaries ct ! i = Some (l ! (m * 2 ^ i - 1))"
    "\<forall>q < length l. \<forall>i. bit (fa_mask (bs ! (l ! q))) i \<longleftrightarrow> i < ct_num ct \<and> q < m * 2 ^ i"
    by (auto simp: tracked_def)
  have e: "?e < length bs" using assms(2,5) by (simp add: linked_def)
  have u: "\<forall>i < ct_num ct. bit ?u i \<longleftrightarrow> m * 2 ^ i \<le> p"
    using ct(2,3,7) assms(5) by (auto simp: bit_xor_iff bit_mask_iff)
  have "\<exists>bs' bnd'. fold_opt (shift_to_head (Some ?e) ?u) [0..<k] (bs, ct_boundaries ct) = Some (bs', bnd')
      \<and> masks_only bs bs' \<and> head_round m p ct l k (bs', bnd')" if "k \<le> ct_num ct" for k
    using that
  proof (induction k)
    case 0
    then show ?case using ct masks_only_refl by (auto simp: head_round_def)
  next
    case (Suc k)
    then obtain bs1 bnd1 where r: "fold_opt (shift_to_head (Some ?e) ?u) [0..<k] (bs, ct_boundaries ct) = Some (bs1, bnd1)"
      "masks_only bs bs1" "head_round m p ct l k (bs1, bnd1)" by auto
    obtain bs2 bnd2 where "shift_to_head (Some ?e) ?u k (bs1, bnd1) = Some (bs2, bnd2)"
      "masks_only bs bs2" "head_round m p ct l (Suc k) (bs2, bnd2)"
      using shift_to_head_round [OF assms(1,2) r(2) assms(4,5) r(3) _ ct(2) _ ct(4) u] Suc.prems ct(5) by auto
    with r(1) show ?case by (auto simp: fold_opt_append)
  qed
  from this [of "ct_num ct"] obtain bs1 bnd1 where
    loop: "fold_opt (shift_to_head (Some ?e) ?u) [0..<ct_num ct] (bs, ct_boundaries ct) = Some (bs1, bnd1)"
      "masks_only bs bs1" and round: "head_round m p ct l (ct_num ct) (bs1, bnd1)" by auto
  let ?bs = "bs1[?e := (bs1 ! ?e)\<lparr>fa_mask := ct_all_mask ct\<rparr>]"
  have len: "length bs1 = length bs" using loop(2) by (simp add: masks_only_def)
  have run: "track_to_head (Some ?e) (ct, bs) = Some (ct\<lparr>ct_boundaries := bnd1\<rparr>, ?bs)"
    using loop(1) e len by (simp add: track_to_head_def deref_def upd_blk_def)
  have s2: "2 \<le> m * 2 ^ i" for i :: nat
    using ct(4) by (metis le_trans mult_le_mono2 nat_mult_1_right one_le_numeral one_le_power)
  have "tracked m (ct\<lparr>ct_boundaries := bnd1\<rparr>) (to_front p l) ?bs"
    unfolding tracked_def
  proof (intro conjI allI impI)
    fix q i
    assume "q < length (to_front p l)"
    then have q: "q < length l" using assms(5) by simp
    let ?q = "if q = 0 then p else if q \<le> p then q - 1 else q"
    have at: "to_front p l ! q = l ! ?q" "?q < length l" using to_front_nth [OF assms(5) q] q assms(5) by auto
    have old: "bit (fa_mask (bs1 ! (l ! ?q))) i
         \<longleftrightarrow> i < ct_num ct \<and> (if m * 2 ^ i \<le> p then ?q < m * 2 ^ i - 1 else ?q < m * 2 ^ i)"
      using round at(2) unfolding head_round_def by auto
    show "bit (fa_mask (?bs ! (to_front p l ! q))) i
        \<longleftrightarrow> i < ct_num (ct\<lparr>ct_boundaries := bnd1\<rparr>) \<and> q < m * 2 ^ i"
    proof (cases "q = 0")
      case True
      then show ?thesis using at e len ct(2-4) by (auto simp: bit_mask_iff)
    next
      case False
      then have "?q \<noteq> p" using assms(4) by auto
      then have "l ! ?q \<noteq> ?e" using at(2) assms(1,5) nth_eq_iff_index_eq by blast
      then show ?thesis using at(1) old False q s2 [of i] by auto
    qed
  next
    fix i
    assume i: "i < ct_num (ct\<lparr>ct_boundaries := bnd1\<rparr>)"
    then show "m * 2 ^ i < length (to_front p l)" using ct(5) assms(5) by simp
    have "m * 2 ^ i - 1 < length l" using i ct(5) by (simp add: less_imp_diff_less)
    then show "ct_boundaries (ct\<lparr>ct_boundaries := bnd1\<rparr>) ! i = Some (to_front p l ! (m * 2 ^ i - 1))"
      using to_front_nth [OF assms(5), of "m * 2 ^ i - 1"] round i s2 [of i] assms(4)
      by (auto simp: head_round_def numeral_2_eq_2)
  qed (use ct round in \<open>auto simp: head_round_def\<close>)
  moreover have "masks_only bs ?bs" using masks_only_update [OF loop(2) e] .
  ultimately show ?thesis using run by (intro exI conjI) auto
qed


section \<open>Tracking and the move to the tail\<close>

definition tail_round :: "nat \<Rightarrow> nat \<Rightarrow> tracking \<Rightarrow> entry list \<Rightarrow> nat \<Rightarrow> falru_blk list \<times> entry option list \<Rightarrow> bool" where
  "tail_round m p ct l k st \<longleftrightarrow> (let (bs, bnd) = st in length bnd = ct_num ct
     \<and> (\<forall>i < ct_num ct. bnd ! i = Some (l ! (if i < k \<and> p < m * 2 ^ i then m * 2 ^ i else m * 2 ^ i - 1)))
     \<and> (\<forall>q < length l. \<forall>i. bit (fa_mask (bs ! (l ! q))) i
         \<longleftrightarrow> i < ct_num ct \<and> (if i < k \<and> p < m * 2 ^ i then q < Suc (m * 2 ^ i) else q < m * 2 ^ i)))"

lemma shift_to_tail_round:
  assumes links: "distinct l" "linked l bs0" "masks_only bs0 bs" and p: "p < length l"
    and round: "tail_round m p ct l k (bs, bnd)" and k: "k < ct_num ct" "ct_num ct < 32" "m * 2 ^ k < length l" "2 \<le> m"
    and update: "\<forall>i < ct_num ct. bit update i \<longleftrightarrow> p < m * 2 ^ i"
  shows "\<exists>bs' bnd'. shift_to_tail (Some (l ! p)) update k (bs, bnd) = Some (bs', bnd')
    \<and> masks_only bs0 bs' \<and> tail_round m p ct l (Suc k) (bs', bnd')"
proof (cases "p < m * 2 ^ k")
  case False
  then have "shift_to_tail (Some (l ! p)) update k (bs, bnd) = Some (bs, bnd)"
    using mask_test [of k update] update k(1,2) by (simp add: shift_to_tail_def)
  moreover have "tail_round m p ct l (Suc k) (bs, bnd)"
    using round False by (auto simp: tail_round_def less_Suc_eq)
  ultimately show ?thesis using links(3) by blast
next
  case True
  let ?s = "m * 2 ^ k"
  have s: "0 < ?s" using k(4) by simp
  have bnd: "length bnd = ct_num ct" "bnd ! k = Some (l ! (?s - 1))"
    using round k(1) by (simp_all add: tail_round_def)
  have len: "length bs = length bs0" using links(3) by (simp add: masks_only_def)
  have inj: "l ! i = l ! j \<longleftrightarrow> i = j" if "i < length l" "j < length l" for i j
    using links(1) that by (simp add: nth_eq_iff_index_eq)
  let ?e = "l ! ?s"
  let ?bs = "bs[?e := (bs ! ?e)\<lparr>fa_mask := fa_mask (bs ! ?e) OR push_bit k 1\<rparr>]"
  have e: "?e < length bs" "l ! (?s - 1) < length bs" using links(2) k(3) len by (auto simp: linked_def)
  have nxt: "fa_next (bs ! (l ! (?s - 1))) = Some ?e"
  proof -
    have "fa_next (bs0 ! (l ! (?s - 1))) = Some (l ! Suc (?s - 1))" using links(2) k(3) s by (simp add: linked_def)
    then show ?thesis using masks_only_links(2) [OF links(3)] e len s by simp
  qed
  have "?e \<noteq> l ! p" using inj [of ?s p] k(3) p True by simp
  then have step: "shift_to_tail (Some (l ! p)) update k (bs, bnd) = Some (?bs, bnd[k := Some ?e])"
    using True mask_test [of k update] update k(1,2) bnd e nxt
    by (simp add: shift_to_tail_def upd_blk_def deref_def Let_def)
  have "masks_only bs0 ?bs" using masks_only_update [OF links(3)] e len by simp
  moreover have "tail_round m p ct l (Suc k) (?bs, bnd[k := Some ?e])"
    unfolding tail_round_def Let_def prod.case
  proof (intro conjI allI impI)
    fix q i
    assume q: "q < length l"
    have old: "bit (fa_mask (bs ! (l ! q))) i
       \<longleftrightarrow> i < ct_num ct \<and> (if i < k \<and> p < m * 2 ^ i then q < Suc (m * 2 ^ i) else q < m * 2 ^ i)"
      using round q by (simp add: tail_round_def)
    show "bit (fa_mask (?bs ! (l ! q))) i
       \<longleftrightarrow> i < ct_num ct \<and> (if i < Suc k \<and> p < m * 2 ^ i then q < Suc (m * 2 ^ i) else q < m * 2 ^ i)"
    proof (cases "q = ?s")
      case q': True
      then show ?thesis using old e True k(1,2) put_bit [of k] s
        by (cases "i = k") (auto simp: less_Suc_eq simp del: push_bit_of_1)
    next
      case False
      then have "l ! q \<noteq> ?e" using inj [of q ?s] q k(3) by simp
      then show ?thesis using old False True by (auto simp: less_Suc_eq)
    qed
  qed (use round bnd True k(1) in \<open>auto simp: tail_round_def nth_list_update less_Suc_eq\<close>)
  ultimately show ?thesis using step by blast
qed

lemma track_to_tail_tracked:
  assumes "distinct l" "linked l bs" "tracked m ct l bs" "Suc p < length l"
  shows "\<exists>ct' bs'. track_to_tail (Some (l ! p)) (ct, bs) = Some (ct', bs') \<and> masks_only bs bs'
    \<and> tracked m ct' (to_back p l) bs' \<and> ct' = ct\<lparr>ct_boundaries := ct_boundaries ct'\<rparr>"
proof -
  let ?e = "l ! p" and ?u = "fa_mask (bs ! (l ! p))"
  have p: "p < length l" using assms(4) by simp
  from assms(3) have ct: "length (ct_boundaries ct) = ct_num ct" "ct_num ct < 32" "ct_all_mask ct = mask (ct_num ct)" "2 \<le> m"
    "\<forall>i < ct_num ct. m * 2 ^ i < length l" "\<forall>i < ct_num ct. ct_boundaries ct ! i = Some (l ! (m * 2 ^ i - 1))"
    "\<forall>q < length l. \<forall>i. bit (fa_mask (bs ! (l ! q))) i \<longleftrightarrow> i < ct_num ct \<and> q < m * 2 ^ i"
    by (auto simp: tracked_def)
  have e: "?e < length bs" using assms(2) p by (simp add: linked_def)
  have u: "\<forall>i < ct_num ct. bit ?u i \<longleftrightarrow> p < m * 2 ^ i" using ct(7) p by auto
  have "\<exists>bs' bnd'. fold_opt (shift_to_tail (Some ?e) ?u) [0..<k] (bs, ct_boundaries ct) = Some (bs', bnd')
      \<and> masks_only bs bs' \<and> tail_round m p ct l k (bs', bnd')" if "k \<le> ct_num ct" for k
    using that
  proof (induction k)
    case 0
    then show ?case using ct masks_only_refl by (auto simp: tail_round_def)
  next
    case (Suc k)
    then obtain bs1 bnd1 where r: "fold_opt (shift_to_tail (Some ?e) ?u) [0..<k] (bs, ct_boundaries ct) = Some (bs1, bnd1)"
      "masks_only bs bs1" "tail_round m p ct l k (bs1, bnd1)" by auto
    obtain bs2 bnd2 where "shift_to_tail (Some ?e) ?u k (bs1, bnd1) = Some (bs2, bnd2)"
      "masks_only bs bs2" "tail_round m p ct l (Suc k) (bs2, bnd2)"
      using shift_to_tail_round [OF assms(1,2) r(2) p r(3) _ ct(2) _ ct(4) u] Suc.prems ct(5) by auto
    with r(1) show ?case by (auto simp: fold_opt_append)
  qed
  from this [of "ct_num ct"] obtain bs1 bnd1 where
    loop: "fold_opt (shift_to_tail (Some ?e) ?u) [0..<ct_num ct] (bs, ct_boundaries ct) = Some (bs1, bnd1)"
      "masks_only bs bs1" and round: "tail_round m p ct l (ct_num ct) (bs1, bnd1)" by auto
  let ?bs = "bs1[?e := (bs1 ! ?e)\<lparr>fa_mask := 0\<rparr>]"
  have len: "length bs1 = length bs" using loop(2) by (simp add: masks_only_def)
  have run: "track_to_tail (Some ?e) (ct, bs) = Some (ct\<lparr>ct_boundaries := bnd1\<rparr>, ?bs)"
    using loop(1) e len by (simp add: track_to_tail_def deref_def upd_blk_def)
  have "tracked m (ct\<lparr>ct_boundaries := bnd1\<rparr>) (to_back p l) ?bs"
    unfolding tracked_def
  proof (intro conjI allI impI)
    fix q i
    assume "q < length (to_back p l)"
    then have q: "q < length l" using p by simp
    let ?q = "if Suc q = length l then p else if q < p then q else Suc q"
    have at: "to_back p l ! q = l ! ?q" "?q < length l" using to_back_nth [OF p q] q p by auto
    have old: "bit (fa_mask (bs1 ! (l ! ?q))) i
         \<longleftrightarrow> i < ct_num ct \<and> (if p < m * 2 ^ i then ?q < Suc (m * 2 ^ i) else ?q < m * 2 ^ i)"
      using round at(2) unfolding tail_round_def by auto
    show "bit (fa_mask (?bs ! (to_back p l ! q))) i
        \<longleftrightarrow> i < ct_num (ct\<lparr>ct_boundaries := bnd1\<rparr>) \<and> q < m * 2 ^ i"
    proof (cases "Suc q = length l")
      case True
      then have "\<not> q < m * 2 ^ i" if "i < ct_num ct" using ct(5) that by fastforce
      then show ?thesis using True at e len by auto
    next
      case False
      then have "l ! ?q \<noteq> ?e" using at(2) assms(1) p q by (auto simp: nth_eq_iff_index_eq)
      then show ?thesis using at(1) old False q by auto
    qed
  next
    fix i
    assume i: "i < ct_num (ct\<lparr>ct_boundaries := bnd1\<rparr>)"
    then show "m * 2 ^ i < length (to_back p l)" using ct(5) p by simp
    define s where "s = m * 2 ^ i"
    have s: "s < length l" "0 < s" using i ct(4,5) by (auto simp: s_def)
    have "bnd1 ! i = Some (l ! (if p < s then s else s - 1))" using round i by (simp add: tail_round_def s_def)
    also have "\<dots> = Some (to_back p l ! (s - 1))" using to_back_nth [OF p, of "s - 1"] s by auto
    finally show "ct_boundaries (ct\<lparr>ct_boundaries := bnd1\<rparr>) ! i = Some (to_back p l ! (m * 2 ^ i - 1))"
      by (simp add: s_def)
  qed (use ct round in \<open>auto simp: tail_round_def\<close>)
  moreover have "masks_only bs ?bs" using masks_only_update [OF loop(2) e] .
  ultimately show ?thesis using run by (intro exI conjI) auto
qed


section \<open>The moves\<close>

definition falru_inv :: "nat \<Rightarrow> entry list \<Rightarrow> falru \<Rightarrow> bool" where
  "falru_inv m l t \<longleftrightarrow> distinct l \<and> l \<noteq> [] \<and> linked l (fa_blks t) \<and> tracked m (fa_tracking t) l (fa_blks t)
     \<and> fa_head t = Some (l ! 0) \<and> fa_tail t = Some (l ! (length l - 1))
     \<and> 0 < unat (ct_blk_size (fa_tracking t)) \<and> 2 * (unat (ct_blk_size (fa_tracking t)) * length l) \<le> 2 ^ 32
     \<and> length l \<le> m * 2 ^ ct_num (fa_tracking t)
     \<and> unat (ct_min_size (fa_tracking t)) = m * unat (ct_blk_size (fa_tracking t))"

lemma upd_blk_in [simp]: "e < length bs \<Longrightarrow> upd_blk (Some e) f bs = Some (bs[e := f (bs ! e)])"
  by (simp add: upd_blk_def)

lemma deref_in [simp]: "e < length bs \<Longrightarrow> deref (Some e) bs = Some (bs ! e)"
  by (simp add: deref_def)

lemma tracked_cong:
  "tracked m ct l bs \<Longrightarrow> (\<And>q. q < length l \<Longrightarrow> fa_mask (bs' ! (l ! q)) = fa_mask (bs ! (l ! q))) \<Longrightarrow> tracked m ct l bs'"
  by (simp add: tracked_def)

text \<open>What the pointer assignments make of the list.\<close>

lemma relink_to_head:
  assumes "distinct l" "linked l bs" "0 < p" "p < length l"
    and "bs1 = (if Suc p = length l then bs[l ! (p - 1) := (bs ! (l ! (p - 1)))\<lparr>fa_next := None\<rparr>]
      else (bs[l ! (p - 1) := (bs ! (l ! (p - 1)))\<lparr>fa_next := Some (l ! Suc p)\<rparr>])
        [l ! Suc p := (bs[l ! (p - 1) := (bs ! (l ! (p - 1)))\<lparr>fa_next := Some (l ! Suc p)\<rparr>] ! (l ! Suc p))
          \<lparr>fa_prev := Some (l ! (p - 1))\<rparr>])"
    and "bs2 = bs1[l ! p := (bs1 ! (l ! p))\<lparr>fa_next := Some (l ! 0), fa_prev := None\<rparr>]"
    and "bs3 = bs2[l ! 0 := (bs2 ! (l ! 0))\<lparr>fa_prev := Some (l ! p)\<rparr>]"
  shows "linked (to_front p l) bs3 \<and> (\<forall>q < length l. fa_mask (bs3 ! (l ! q)) = fa_mask (bs ! (l ! q)))"
proof -
  have inj: "l ! i = l ! j \<longleftrightarrow> i = j" if "i < length l" "j < length l" for i j
    using assms(1) that by (simp add: nth_eq_iff_index_eq)
  have lens: "length bs3 = length bs" using assms(5-7) by simp
  have in_bs: "l ! j < length bs" if "j < length l" for j using assms(2) that by (simp add: linked_def)
  have p: "p - 1 < length l" "p - 1 \<noteq> p" "0 < length l" using assms(3,4) by auto
  have links: "fa_prev (bs3 ! (l ! j)) = (if j = 0 then Some (l ! p) else if j = p then None
        else if j = Suc p then Some (l ! (p - 1)) else Some (l ! (j - 1)))
      \<and> fa_next (bs3 ! (l ! j)) = (if j = p then Some (l ! 0)
        else if j = p - 1 then (if Suc p < length l then Some (l ! Suc p) else None)
        else if Suc j < length l then Some (l ! Suc j) else None)
      \<and> fa_mask (bs3 ! (l ! j)) = fa_mask (bs ! (l ! j))" if j: "j < length l" for j
  proof (cases "Suc p = length l")
    case True
    with assms(2-4) j p in_bs [OF j] in_bs [OF p(1)] in_bs [OF assms(4)] in_bs [OF p(3)] show ?thesis
      by (auto simp: assms(5-7) linked_def nth_list_update inj)
  next
    case False
    then have "Suc p < length l" using assms(4) by simp
    with False assms(2-4) j p in_bs [OF j] in_bs [OF p(1)] in_bs [OF assms(4)] in_bs [OF p(3)] in_bs [of "Suc p"] show ?thesis
      by (auto simp: assms(5-7) linked_def nth_list_update inj)
  qed
  have "linked (to_front p l) bs3"
    unfolding linked_def
  proof (intro allI impI)
    fix q
    assume "q < length (to_front p l)"
    then have q: "q < length l" using assms(4) by simp
    let ?q = "if q = 0 then p else if q \<le> p then q - 1 else q"
    have q': "?q < length l" using q assms(4) by auto
    note at = to_front_nth [OF assms(4)]
    show "to_front p l ! q < length bs3
      \<and> fa_prev (bs3 ! (to_front p l ! q)) = (if q = 0 then None else Some (to_front p l ! (q - 1)))
      \<and> fa_next (bs3 ! (to_front p l ! q)) = (if Suc q < length (to_front p l) then Some (to_front p l ! Suc q) else None)"
      using links [OF q'] in_bs [OF q'] q assms(3,4) lens at [OF q] at [of "q - 1"] at [of "Suc q"]
      by (cases "q = 0"; cases "q = p"; cases "q < p"; cases "q = Suc p") auto
  qed
  with links show ?thesis by blast
qed


lemma move_to_head_inv:
  assumes inv: "falru_inv m l t" and p: "p < length l"
  shows "\<exists>t'. move_to_head (Some (l ! p)) t = Some t' \<and> falru_inv m (to_front p l) t'"
proof (cases "p = 0")
  case True
  have "to_front 0 l = l" using inv by (cases l) (auto simp: to_front_def falru_inv_def)
  with True inv show ?thesis by (auto simp: move_to_head_def falru_inv_def)
next
  case False
  then have p0: "0 < p" by simp
  from inv have l: "distinct l" "linked l (fa_blks t)" "tracked m (fa_tracking t) l (fa_blks t)"
    "fa_head t = Some (l ! 0)" "fa_tail t = Some (l ! (length l - 1))" by (auto simp: falru_inv_def)
  from track_to_head_tracked [OF l(1-3) p0 p] obtain ct bs where
    tr: "track_to_head (Some (l ! p)) (fa_tracking t, fa_blks t) = Some (ct, bs)" "masks_only (fa_blks t) bs"
      "tracked m ct (to_front p l) bs" "ct = (fa_tracking t)\<lparr>ct_boundaries := ct_boundaries ct\<rparr>" by blast
  note links = masks_only_linked [OF tr(2) l(2)]
  have in_bs: "l ! j < length bs" if "j < length l" for j using links that by (simp add: linked_def)
  have ptrs: "l ! p < length bs" "l ! (p - 1) < length bs" "l ! 0 < length bs"
    "fa_prev (bs ! (l ! p)) = Some (l ! (p - 1))"
    "fa_next (bs ! (l ! p)) = (if Suc p < length l then Some (l ! Suc p) else None)"
    using links p p0 in_bs [OF p] in_bs [of "p - 1"] in_bs [OF order.strict_trans [OF p0 p]] by (auto simp: linked_def)
  have inj: "l ! i = l ! j \<longleftrightarrow> i = j" if "i < length l" "j < length l" for i j
    using l(1) that by (simp add: nth_eq_iff_index_eq)
  have not_head: "l ! p \<noteq> l ! 0" using inj [OF p order.strict_trans [OF p0 p]] p0 by simp
  have is_tail: "l ! p = l ! (length l - 1) \<longleftrightarrow> Suc p = length l" using inj [of p "length l - 1"] p by auto
  define bs1 where "bs1 = (if Suc p = length l then bs[l ! (p - 1) := (bs ! (l ! (p - 1)))\<lparr>fa_next := None\<rparr>]
      else (bs[l ! (p - 1) := (bs ! (l ! (p - 1)))\<lparr>fa_next := Some (l ! Suc p)\<rparr>])
        [l ! Suc p := (bs[l ! (p - 1) := (bs ! (l ! (p - 1)))\<lparr>fa_next := Some (l ! Suc p)\<rparr>] ! (l ! Suc p))
          \<lparr>fa_prev := Some (l ! (p - 1))\<rparr>])"
  define bs2 where "bs2 = bs1[l ! p := (bs1 ! (l ! p))\<lparr>fa_next := Some (l ! 0), fa_prev := None\<rparr>]"
  define bs3 where "bs3 = bs2[l ! 0 := (bs2 ! (l ! 0))\<lparr>fa_prev := Some (l ! p)\<rparr>]"
  have lens: "length bs1 = length bs" "length bs2 = length bs" by (simp_all add: bs1_def bs2_def)
  from relink_to_head [OF l(1) links p0 p bs1_def bs2_def bs3_def] have
    re: "linked (to_front p l) bs3" "\<And>q. q < length l \<Longrightarrow> fa_mask (bs3 ! (l ! q)) = fa_mask (bs ! (l ! q))" by blast+
  let ?tl = "if Suc p = length l then Some (l ! (p - 1)) else fa_tail t"
  have "move_to_head (Some (l ! p)) t
    = Some (t\<lparr>fa_blks := bs3, fa_tracking := ct, fa_head := Some (l ! p), fa_tail := ?tl\<rparr>)"
  proof (cases "Suc p = length l")
    case True
    then have bs1: "bs1 = bs[l ! (p - 1) := (bs ! (l ! (p - 1)))\<lparr>fa_next := None\<rparr>]" by (simp add: bs1_def)
    have "fa_tail t = Some (l ! p)" using True is_tail l(5) by simp
    with True tr(1) ptrs not_head l(4) show ?thesis by (simp add: move_to_head_def bs3_def bs2_def bs1)
  next
    case False
    then have s: "Suc p < length l" using p by simp
    then have bs1: "bs1 = (bs[l ! (p - 1) := (bs ! (l ! (p - 1)))\<lparr>fa_next := Some (l ! Suc p)\<rparr>])
        [l ! Suc p := (bs[l ! (p - 1) := (bs ! (l ! (p - 1)))\<lparr>fa_next := Some (l ! Suc p)\<rparr>] ! (l ! Suc p))
          \<lparr>fa_prev := Some (l ! (p - 1))\<rparr>]" by (simp add: bs1_def)
    have "fa_tail t \<noteq> Some (l ! p)" using False is_tail l(5) by simp
    with False s tr(1) ptrs in_bs [OF s] not_head l(4) show ?thesis
      by (simp add: move_to_head_def bs3_def bs2_def bs1)
  qed
  moreover have "falru_inv m (to_front p l) (t\<lparr>fa_blks := bs3, fa_tracking := ct, fa_head := Some (l ! p), fa_tail := ?tl\<rparr>)"
  proof -
    have "tracked m ct (to_front p l) bs3"
    proof (rule tracked_cong [OF tr(3)])
      fix q assume "q < length (to_front p l)"
      then have "to_front p l ! q \<in> set l" using move_set(1) [OF p] nth_mem by metis
      then obtain j where "j < length l" "to_front p l ! q = l ! j" by (auto simp: in_set_conv_nth)
      then show "fa_mask (bs3 ! (to_front p l ! q)) = fa_mask (bs ! (to_front p l ! q))" using re(2) by simp
    qed
    moreover have "?tl = Some (to_front p l ! (length (to_front p l) - 1))"
    proof (cases "Suc p = length l")
      case True
      then have "length l - 1 = p" by simp
      then show ?thesis using True to_front_nth [OF p p] p p0 by simp
    next
      case False
      then have "\<not> length l - 1 \<le> p" using p by simp
      then show ?thesis using False to_front_nth [OF p, of "length l - 1"] p l(5) by simp
    qed
    moreover have "ct_blk_size ct = ct_blk_size (fa_tracking t)" "ct_min_size ct = ct_min_size (fa_tracking t)"
      "ct_num ct = ct_num (fa_tracking t)"
      by (subst tr(4), simp)+
    moreover have "to_front p l \<noteq> []" by (simp add: to_front_def)
    ultimately show ?thesis
      using inv re(1) p to_front_nth [OF p order.strict_trans1 [OF le0 p]] by (simp add: falru_inv_def)
  qed
  ultimately show ?thesis by blast
qed


lemma relink_to_tail:
  assumes "distinct l" "linked l bs" "Suc p < length l"
    and "bs1 = (if p = 0 then bs[l ! Suc p := (bs ! (l ! Suc p))\<lparr>fa_prev := None\<rparr>]
      else (bs[l ! (p - 1) := (bs ! (l ! (p - 1)))\<lparr>fa_next := Some (l ! Suc p)\<rparr>])
        [l ! Suc p := (bs[l ! (p - 1) := (bs ! (l ! (p - 1)))\<lparr>fa_next := Some (l ! Suc p)\<rparr>] ! (l ! Suc p))
          \<lparr>fa_prev := Some (l ! (p - 1))\<rparr>])"
    and "bs2 = bs1[l ! p := (bs1 ! (l ! p))\<lparr>fa_prev := Some (l ! (length l - 1)), fa_next := None\<rparr>]"
    and "bs3 = bs2[l ! (length l - 1) := (bs2 ! (l ! (length l - 1)))\<lparr>fa_next := Some (l ! p)\<rparr>]"
  shows "linked (to_back p l) bs3 \<and> (\<forall>q < length l. fa_mask (bs3 ! (l ! q)) = fa_mask (bs ! (l ! q)))"
proof -
  have inj: "l ! i = l ! j \<longleftrightarrow> i = j" if "i < length l" "j < length l" for i j
    using assms(1) that by (simp add: nth_eq_iff_index_eq)
  have lens: "length bs3 = length bs" using assms(4-6) by simp
  have in_bs: "l ! j < length bs" if "j < length l" for j using assms(2) that by (simp add: linked_def)
  let ?n = "length l - 1"
  have p: "p < length l" "p - 1 < length l" "?n < length l" "?n \<noteq> p" using assms(3) by auto
  have links: "fa_prev (bs3 ! (l ! j)) = (if j = p then Some (l ! ?n)
        else if j = Suc p then (if p = 0 then None else Some (l ! (p - 1)))
        else if j = 0 then None else Some (l ! (j - 1)))
      \<and> fa_next (bs3 ! (l ! j)) = (if j = ?n then Some (l ! p) else if j = p then None
        else if Suc j = p then Some (l ! Suc p) else Some (l ! Suc j))
      \<and> fa_mask (bs3 ! (l ! j)) = fa_mask (bs ! (l ! j))" if j: "j < length l" for j
  proof -
    from assms(2) j have at_j: "fa_prev (bs ! (l ! j)) = (if j = 0 then None else Some (l ! (j - 1)))"
      "fa_next (bs ! (l ! j)) = (if Suc j < length l then Some (l ! Suc j) else None)" by (auto simp: linked_def)
    note at = in_bs [OF j] in_bs [OF p(1)] in_bs [OF p(2)] in_bs [OF p(3)] in_bs [OF assms(3)]
      inj [OF j p(1)] inj [OF j p(2)] inj [OF j p(3)] inj [OF j assms(3)]
      inj [OF p(1) j] inj [OF p(2) j] inj [OF p(3) j] inj [OF assms(3) j]
    have bs1: "fa_prev (bs1 ! (l ! j)) = (if j = Suc p then (if p = 0 then None else Some (l ! (p - 1))) else fa_prev (bs ! (l ! j)))"
      "fa_next (bs1 ! (l ! j)) = (if p \<noteq> 0 \<and> j = p - 1 then Some (l ! Suc p) else fa_next (bs ! (l ! j)))"
      "fa_mask (bs1 ! (l ! j)) = fa_mask (bs ! (l ! j))" "length bs1 = length bs"
      using at assms(3) by (cases "p = 0"; simp add: assms(4) nth_list_update)+
    have bs2: "fa_prev (bs2 ! (l ! j)) = (if j = p then Some (l ! ?n) else fa_prev (bs1 ! (l ! j)))"
      "fa_next (bs2 ! (l ! j)) = (if j = p then None else fa_next (bs1 ! (l ! j)))"
      "fa_mask (bs2 ! (l ! j)) = fa_mask (bs1 ! (l ! j))" "length bs2 = length bs"
      using at bs1(4) by (simp_all add: assms(5) nth_list_update)
    have bs3: "fa_prev (bs3 ! (l ! j)) = fa_prev (bs2 ! (l ! j))"
      "fa_next (bs3 ! (l ! j)) = (if j = ?n then Some (l ! p) else fa_next (bs2 ! (l ! j)))"
      "fa_mask (bs3 ! (l ! j)) = fa_mask (bs2 ! (l ! j))"
      using at bs2(4) by (simp_all add: assms(6) nth_list_update)
    show ?thesis
      unfolding bs3 bs2 bs1 at_j using p(4) assms(3) j by (cases "j = p"; cases "j = Suc p"; cases "j = ?n") auto
  qed
  have "linked (to_back p l) bs3"
    unfolding linked_def
  proof (intro allI impI)
    fix q
    assume "q < length (to_back p l)"
    then have q: "q < length l" using p by simp
    let ?q = "if Suc q = length l then p else if q < p then q else Suc q"
    have q': "?q < length l" using q p by auto
    note at = to_back_nth [OF p(1)]
    show "to_back p l ! q < length bs3
      \<and> fa_prev (bs3 ! (to_back p l ! q)) = (if q = 0 then None else Some (to_back p l ! (q - 1)))
      \<and> fa_next (bs3 ! (to_back p l ! q)) = (if Suc q < length (to_back p l) then Some (to_back p l ! Suc q) else None)"
    proof -
      have prev: "to_back p l ! (q - 1) = l ! (if q - 1 < p then q - 1 else Suc (q - 1))" if "q \<noteq> 0"
        using at [of "q - 1"] q that by simp
      have nxt: "to_back p l ! Suc q = l ! (if Suc (Suc q) = length l then p else if Suc q < p then Suc q else Suc (Suc q))"
        if "Suc q < length l" using at [OF that] by simp
      consider "Suc q = length l" | "Suc q < length l" "q < p" | "Suc q < length l" "q = p" | "Suc q < length l" "p < q"
        using q by linarith
      then show ?thesis
      proof cases
        case 1
        moreover from this have "q \<noteq> 0" "\<not> q - 1 < p" "length l - 1 = q" "p \<noteq> q" using assms(3) by auto
        ultimately show ?thesis using links [OF p(1)] in_bs [OF p(1)] lens at [OF q] prev p(1) by simp
      next
        case 2
        then show ?thesis using links [OF q] in_bs [OF q] lens at [OF q] prev nxt q p(1) assms(3) by auto
      next
        case 3
        then show ?thesis using links [OF 3(1)] in_bs [OF 3(1)] lens at [OF q] prev nxt q p(1) by auto
      next
        case 4
        then show ?thesis using links [OF 4(1)] in_bs [OF 4(1)] lens at [OF q] prev nxt q p(1) by auto
      qed
    qed
  qed
  with links show ?thesis by blast
qed

lemma move_to_tail_inv:
  assumes inv: "falru_inv m l t" and p: "p < length l"
  shows "\<exists>t'. move_to_tail (Some (l ! p)) t = Some t' \<and> falru_inv m (to_back p l) t'"
proof (cases "Suc p = length l")
  case True
  then have "to_back p l = l" using p by (intro nth_equalityI) (auto simp: to_back_nth dest: Suc_inject [OF trans [OF _ sym]])
  moreover have "length l - 1 = p" using True by simp
  ultimately show ?thesis using inv by (simp add: move_to_tail_def falru_inv_def)
next
  case False
  then have s: "Suc p < length l" using p by simp
  from inv have l: "distinct l" "linked l (fa_blks t)" "tracked m (fa_tracking t) l (fa_blks t)"
    "fa_head t = Some (l ! 0)" "fa_tail t = Some (l ! (length l - 1))" by (auto simp: falru_inv_def)
  from track_to_tail_tracked [OF l(1-3) s] obtain ct bs where
    tr: "track_to_tail (Some (l ! p)) (fa_tracking t, fa_blks t) = Some (ct, bs)" "masks_only (fa_blks t) bs"
      "tracked m ct (to_back p l) bs" "ct = (fa_tracking t)\<lparr>ct_boundaries := ct_boundaries ct\<rparr>" by blast
  note links = masks_only_linked [OF tr(2) l(2)]
  have in_bs: "l ! j < length bs" if "j < length l" for j using links that by (simp add: linked_def)
  have ptrs: "l ! p < length bs" "l ! (p - 1) < length bs" "l ! Suc p < length bs" "l ! (length l - 1) < length bs"
    "fa_prev (bs ! (l ! p)) = (if p = 0 then None else Some (l ! (p - 1)))"
    "fa_next (bs ! (l ! p)) = Some (l ! Suc p)"
    using links p s in_bs in_bs [of "p - 1"] in_bs [of "length l - 1"] by (auto simp: linked_def)
  have inj: "l ! i = l ! j \<longleftrightarrow> i = j" if "i < length l" "j < length l" for i j
    using l(1) that by (simp add: nth_eq_iff_index_eq)
  have not_tail: "l ! p \<noteq> l ! (length l - 1)" using inj [of p "length l - 1"] s by auto
  have is_head: "l ! p = l ! 0 \<longleftrightarrow> p = 0" using inj [OF p order.strict_trans1 [OF le0 p]] .
  define bs1 where "bs1 = (if p = 0 then bs[l ! Suc p := (bs ! (l ! Suc p))\<lparr>fa_prev := None\<rparr>]
      else (bs[l ! (p - 1) := (bs ! (l ! (p - 1)))\<lparr>fa_next := Some (l ! Suc p)\<rparr>])
        [l ! Suc p := (bs[l ! (p - 1) := (bs ! (l ! (p - 1)))\<lparr>fa_next := Some (l ! Suc p)\<rparr>] ! (l ! Suc p))
          \<lparr>fa_prev := Some (l ! (p - 1))\<rparr>])"
  define bs2 where "bs2 = bs1[l ! p := (bs1 ! (l ! p))\<lparr>fa_prev := Some (l ! (length l - 1)), fa_next := None\<rparr>]"
  define bs3 where "bs3 = bs2[l ! (length l - 1) := (bs2 ! (l ! (length l - 1)))\<lparr>fa_next := Some (l ! p)\<rparr>]"
  have lens: "length bs1 = length bs" "length bs2 = length bs" by (simp_all add: bs1_def bs2_def)
  from relink_to_tail [OF l(1) links s bs1_def bs2_def bs3_def] have
    re: "linked (to_back p l) bs3" "\<And>q. q < length l \<Longrightarrow> fa_mask (bs3 ! (l ! q)) = fa_mask (bs ! (l ! q))" by blast+
  let ?hd = "if p = 0 then Some (l ! Suc p) else fa_head t"
  have "move_to_tail (Some (l ! p)) t
    = Some (t\<lparr>fa_blks := bs3, fa_tracking := ct, fa_tail := Some (l ! p), fa_head := ?hd\<rparr>)"
  proof (cases "p = 0")
    case True
    then have bs1: "bs1 = bs[l ! Suc p := (bs ! (l ! Suc p))\<lparr>fa_prev := None\<rparr>]" by (simp add: bs1_def)
    have "fa_head t = Some (l ! p)" using True is_head l(4) by simp
    with True tr(1) ptrs not_tail l(5) show ?thesis by (simp add: move_to_tail_def bs3_def bs2_def bs1)
  next
    case False
    then have bs1: "bs1 = (bs[l ! (p - 1) := (bs ! (l ! (p - 1)))\<lparr>fa_next := Some (l ! Suc p)\<rparr>])
        [l ! Suc p := (bs[l ! (p - 1) := (bs ! (l ! (p - 1)))\<lparr>fa_next := Some (l ! Suc p)\<rparr>] ! (l ! Suc p))
          \<lparr>fa_prev := Some (l ! (p - 1))\<rparr>]" by (simp add: bs1_def)
    have "fa_head t \<noteq> Some (l ! p)" using False is_head l(4) by simp
    with False tr(1) ptrs not_tail l(5) show ?thesis by (simp add: move_to_tail_def bs3_def bs2_def bs1)
  qed
  moreover have "falru_inv m (to_back p l) (t\<lparr>fa_blks := bs3, fa_tracking := ct, fa_tail := Some (l ! p), fa_head := ?hd\<rparr>)"
  proof -
    have "tracked m ct (to_back p l) bs3"
    proof (rule tracked_cong [OF tr(3)])
      fix q assume "q < length (to_back p l)"
      then have "to_back p l ! q \<in> set l" using move_set(2) [OF p] nth_mem by metis
      then obtain j where "j < length l" "to_back p l ! q = l ! j" by (auto simp: in_set_conv_nth)
      then show "fa_mask (bs3 ! (to_back p l ! q)) = fa_mask (bs ! (to_back p l ! q))" using re(2) by simp
    qed
    moreover have "?hd = Some (to_back p l ! 0)" using to_back_nth [OF p order.strict_trans1 [OF le0 p]] s l(4) by auto
    moreover have "Some (l ! p) = Some (to_back p l ! (length (to_back p l) - 1))"
    proof -
      have "length l - 1 < length l" "Suc (length l - 1) = length l" using s by auto
      then show ?thesis using to_back_nth [OF p, of "length l - 1"] p by simp
    qed
    moreover have "ct_blk_size ct = ct_blk_size (fa_tracking t)" "ct_min_size ct = ct_min_size (fa_tracking t)"
      "ct_num ct = ct_num (fa_tracking t)"
      by (subst tr(4), simp)+
    moreover have "to_back p l \<noteq> []" by (simp add: to_back_def)
    ultimately show ?thesis using inv re(1) p by (auto simp: falru_inv_def)
  qed
  ultimately show ?thesis by blast
qed


section \<open>The walks over the list\<close>

text \<open>After \<open>q\<close> blocks the caches below \<open>j\<close> are full.\<close>

definition full_below :: "nat \<Rightarrow> nat \<Rightarrow> nat \<Rightarrow> nat \<Rightarrow> bool" where
  "full_below m n j q \<longleftrightarrow> j \<le> n \<and> (\<forall>i < n. i < j \<longleftrightarrow> m * 2 ^ i \<le> q)"

definition mask_from :: "nat \<Rightarrow> nat \<Rightarrow> u32 \<Rightarrow> bool" where
  "mask_from n j w \<longleftrightarrow> (\<forall>i. bit w i \<longleftrightarrow> j \<le> i \<and> i < n)"

lemma mask_from_step: "mask_from n j w \<Longrightarrow> j < 32 \<Longrightarrow> mask_from n (Suc j) (w AND NOT (push_bit j 1))"
proof -
  assume "mask_from n j w" "j < 32"
  have "bit (w AND NOT (push_bit j 1)) i \<longleftrightarrow> Suc j \<le> i \<and> i < n" for i
  proof -
    have "bit w i \<longleftrightarrow> j \<le> i \<and> i < n" using \<open>mask_from n j w\<close> by (simp add: mask_from_def)
    then show ?thesis unfolding clear_bit [OF \<open>j < 32\<close>] by linarith
  qed
  then show ?thesis by (simp add: mask_from_def)
qed

lemma full_below_step:
  assumes "full_below m n j q" "0 < m"
  shows "j < n \<Longrightarrow> m * 2 ^ j = Suc q \<Longrightarrow> full_below m n (Suc j) (Suc q)"
    and "(j < n \<Longrightarrow> m * 2 ^ j \<noteq> Suc q) \<Longrightarrow> full_below m n j (Suc q)"
proof -
  have mono: "m * 2 ^ i < m * 2 ^ i'" if "i < i'" for i i' :: nat using that assms(2) by simp
  {
    assume j: "j < n" "m * 2 ^ j = Suc q"
    have "i < Suc j \<longleftrightarrow> m * 2 ^ i \<le> Suc q" if "i < n" for i
    proof (cases "i \<le> j")
      case True
      then have "m * 2 ^ i \<le> m * 2 ^ j" by simp
      with True j(2) show ?thesis by simp
    next
      case False
      then have "m * 2 ^ j < m * 2 ^ i" by (intro mono) simp
      with False j(2) show ?thesis by simp
    qed
    with j(1) show "full_below m n (Suc j) (Suc q)" by (simp add: full_below_def)
  }
  assume ne: "j < n \<Longrightarrow> m * 2 ^ j \<noteq> Suc q"
  show "full_below m n j (Suc q)"
    unfolding full_below_def
  proof (intro conjI allI impI)
    show "j \<le> n" using assms(1) by (simp add: full_below_def)
    fix i assume i: "i < n"
    show "i < j \<longleftrightarrow> m * 2 ^ i \<le> Suc q"
    proof
      assume "i < j"
      then have "m * 2 ^ i \<le> q" using assms(1) i unfolding full_below_def by blast
      then show "m * 2 ^ i \<le> Suc q" by simp
    next
      assume le: "m * 2 ^ i \<le> Suc q"
      show "i < j"
      proof (rule ccontr)
        assume "\<not> i < j"
        then have "\<not> m * 2 ^ i \<le> q" "j \<le> i" using assms(1) i by (auto simp: full_below_def)
        with le have eq: "m * 2 ^ i = Suc q" by simp
        with \<open>j \<le> i\<close> i ne mono [of j i] have "j < i" by (metis le_neq_implies_less order.strict_trans1)
        then have "m * 2 ^ j \<le> q" using mono [of j i] eq by simp
        then show False using assms(1) \<open>j < i\<close> i unfolding full_below_def by (meson less_irrefl less_trans)
      qed
    qed
  qed
qed

text \<open>The 32-bit sizes compared by the walks are equal exactly when the numbers of blocks are.\<close>

lemma size_below: "0 < unat (blk :: u32) \<Longrightarrow> 2 * (unat blk * n) \<le> 2 ^ 32 \<Longrightarrow> s < 2 * n \<Longrightarrow> s * unat blk < 2 ^ 32"
proof -
  assume "0 < unat blk" "2 * (unat blk * n) \<le> 2 ^ 32" "s < 2 * n"
  then have "s * unat blk < 2 * n * unat blk" by (intro mult_less_mono1)
  also have "2 * n * unat blk = 2 * (unat blk * n)" by simp
  also note \<open>2 * (unat blk * n) \<le> 2 ^ 32\<close>
  finally show ?thesis .
qed

lemma size_eq:
  assumes "0 < unat blk" "2 * (unat blk * n) \<le> 2 ^ 32" "Suc q \<le> n" "s * unat blk < 2 ^ 32"
  shows "(of_nat (Suc q) * blk = of_nat s * (blk :: u32)) = (Suc q = s)"
proof -
  have sz: "Suc q * unat blk < 2 ^ 32" "s * unat blk < 2 ^ 32"
    using size_below [OF assms(1,2), of "Suc q"] assms(3,4) by auto
  have w: "of_nat x * blk = of_nat (x * unat blk)" for x by simp
  have "unat (of_nat (Suc q) * blk) = Suc q * unat blk" "unat (of_nat s * blk) = s * unat blk"
    unfolding w using sz by (simp_all only: unat_of_nat) simp_all
  then have "(of_nat (Suc q) * blk = of_nat s * blk) \<longleftrightarrow> Suc q * unat blk = s * unat blk"
    by (metis word_unat_eq_iff)
  also have "Suc q * unat blk = s * unat blk \<longleftrightarrow> Suc q = s" using assms(1) by (metis less_not_refl2 mult_cancel2)
  finally show ?thesis .
qed


lemma check_walk:
  assumes inv: "falru_inv m l t" and q: "q \<le> length l" and j: "full_below m (ct_num (fa_tracking t)) j q"
    and w: "mask_from (ct_num (fa_tracking t)) j w"
  shows "track_check (fa_tracking t) (fa_tail t) (fa_blks t) (if q < length l then Some (l ! q) else None)
    (of_nat q * ct_blk_size (fa_tracking t)) (of_nat (m * 2 ^ j) * ct_blk_size (fa_tracking t)) w j = Some ()"
  using q j w
proof (induction "length l - q" arbitrary: q j w)
  case 0
  then show ?case by (subst track_check.simps) simp
next
  case (Suc d)
  let ?ct = "fa_tracking t" and ?bs = "fa_blks t" and ?b = "ct_blk_size (fa_tracking t)" and ?n = "ct_num (fa_tracking t)"
  from Suc.hyps(2) have q: "q < length l" by simp
  from inv have l: "distinct l" "linked l ?bs" "tracked m ?ct l ?bs" "fa_tail t = Some (l ! (length l - 1))"
    and sz: "0 < unat ?b" "2 * (unat ?b * length l) \<le> 2 ^ 32" "length l \<le> m * 2 ^ ?n" by (auto simp: falru_inv_def)
  from l(3) have n: "?n < 32" "2 \<le> m" "\<forall>i < ?n. m * 2 ^ i < length l"
    "length (ct_boundaries ?ct) = ?n" "\<forall>i < ?n. ct_boundaries ?ct ! i = Some (l ! (m * 2 ^ i - 1))"
    and bits: "\<And>i. bit (fa_mask (?bs ! (l ! q))) i \<longleftrightarrow> i < ?n \<and> q < m * 2 ^ i" using q by (auto simp: tracked_def)
  have blk: "l ! q < length ?bs" "fa_next (?bs ! (l ! q)) = (if Suc q < length l then Some (l ! Suc q) else None)"
    using l(2) q by (auto simp: linked_def)
  have "fa_mask (?bs ! (l ! q)) = w"
    by (rule bit_word_eqI) (use bits Suc.prems in \<open>auto simp: mask_from_def full_below_def not_less\<close>)
  moreover have is_tail: "Some (l ! q) = fa_tail t \<longleftrightarrow> Suc q = length l"
    using l(1,4) q by (auto simp: nth_eq_iff_index_eq)
  have small: "m * 2 ^ j * unat ?b < 2 ^ 32"
  proof (cases j)
    case 0
    have "unat (ct_min_size ?ct) < 2 ^ 32" using unsigned_less [of "ct_min_size ?ct", where 'a = nat] by simp
    with 0 inv show ?thesis by (simp add: falru_inv_def)
  next
    case (Suc j')
    then have "m * 2 ^ j' < length l" using n(3) Suc.prems(2) by (auto simp: full_below_def)
    with Suc size_below [OF sz(1,2)] show ?thesis by simp
  qed
  have cur: "of_nat q * ?b + ?b = of_nat (Suc q) * ?b" by (simp add: algebra_simps)
  have eq: "(of_nat q * ?b + ?b = of_nat (m * 2 ^ j) * ?b) = (Suc q = m * 2 ^ j)"
    unfolding cur using size_eq [OF sz(1,2) _ small] q by simp
  have below: "j < ?n" if "Suc q = m * 2 ^ j" "Suc q \<noteq> length l"
  proof (rule ccontr)
    assume "\<not> j < ?n"
    with Suc.prems(2) have "j = ?n" by (simp add: full_below_def)
    with that q sz(3) show False by simp
  qed
  have next_tracked: "of_nat (m * 2 ^ j) * ?b * 2 = of_nat (m * 2 ^ Suc j) * ?b" by (simp add: algebra_simps)
  note ih = Suc.hyps(1) [of "Suc q"]
  have d: "d = length l - Suc q" using Suc.hyps(2) by simp
  show ?case
  proof (cases "Suc q = m * 2 ^ j \<and> Suc q \<noteq> length l")
    case True
    then have j: "j < ?n" using below by simp
    then have "nth_opt (ct_boundaries ?ct) j = Some (Some (l ! q))" using n(4,5) True by (metis diff_Suc_1 nth_opt_in)
    moreover have "full_below m ?n (Suc j) (Suc q)"
      using full_below_step(1) [OF Suc.prems(2) _ j] True n(2) by simp
    moreover have "mask_from ?n (Suc j) (w AND NOT (push_bit j 1))"
      using mask_from_step [OF Suc.prems(3)] j n(1) by simp
    ultimately have bnd: "nth_opt (ct_boundaries ?ct) j = Some (Some (l ! q))"
      and run: "track_check ?ct (fa_tail t) ?bs (if Suc q < length l then Some (l ! Suc q) else None)
        (of_nat (Suc q) * ?b) (of_nat (m * 2 ^ Suc j) * ?b) (w AND NOT (push_bit j 1)) (Suc j) = Some ()"
      using ih [OF d Suc_leI [OF q]] by blast+
    have here: "nth_opt ?bs (l ! q) = Some (?bs ! (l ! q))" "cpp_assert (fa_mask (?bs ! (l ! q)) = w) = Some ()"
      "cpp_assert (Some (l ! q) = Some (l ! q)) = Some ()" "cpp_assert (j < 32) = Some ()"
      "(of_nat q * ?b + ?b = of_nat (m * 2 ^ j) * ?b \<and> Some (l ! q) \<noteq> fa_tail t) = True"
      using blk(1) \<open>fa_mask (?bs ! (l ! q)) = w\<close> j n(1) True is_tail eq by (simp_all del: of_nat_mult)
    have "track_check ?ct (fa_tail t) ?bs (Some (l ! q)) (of_nat q * ?b) (of_nat (m * 2 ^ j) * ?b) w j = Some ()"
      by (subst track_check.simps)
        (simp only: option.case here here(5) [unfolded cur] bnd bind.bind_lunit Let_def if_True blk(2) cur next_tracked run Suc_eq_plus1 [symmetric])
    with q show ?thesis by simp
  next
    case False
    then have "m * 2 ^ j \<noteq> Suc q" if "j < ?n" using n(3) that by (metis less_irrefl)
    moreover have "0 < m" using n(2) by simp
    ultimately have "full_below m ?n j (Suc q)" by (intro full_below_step(2) [OF Suc.prems(2)])
    with ih [OF d Suc_leI [OF q] _ Suc.prems(3)] have "track_check ?ct (fa_tail t) ?bs (if Suc q < length l then Some (l ! Suc q) else None)
        (of_nat (Suc q) * ?b) (of_nat (m * 2 ^ j) * ?b) w j = Some ()" by blast
    with False show ?thesis
      using q blk \<open>fa_mask (?bs ! (l ! q)) = w\<close> is_tail eq cur
      by (subst track_check.simps) (auto simp del: of_nat_Suc of_nat_mult push_bit_of_1)
  qed
qed


text \<open>The check passes on every state of the invariant.\<close>

lemma check_passes:
  assumes "falru_inv m l t"
  shows "tracking_check t = Some ()"
proof -
  let ?ct = "fa_tracking t"
  from assms have l: "0 < length l" "fa_head t = Some (l ! 0)" "tracked m ?ct l (fa_blks t)"
    "unat (ct_min_size ?ct) = m * unat (ct_blk_size ?ct)" by (auto simp: falru_inv_def)
  from l(3) have m: "2 \<le> m" "ct_all_mask ?ct = mask (ct_num ?ct)" "ct_num ?ct < 32" by (auto simp: tracked_def)
  have "of_nat (m * 2 ^ 0) * ct_blk_size ?ct = of_nat (unat (ct_min_size ?ct))" unfolding l(4) by simp
  then have min: "ct_min_size ?ct = of_nat (m * 2 ^ 0) * ct_blk_size ?ct" by simp
  have "full_below m (ct_num ?ct) 0 0" using m(1) by (simp add: full_below_def)
  moreover have "mask_from (ct_num ?ct) 0 (ct_all_mask ?ct)" using m(2,3) by (auto simp: mask_from_def bit_mask_iff)
  ultimately show ?thesis
    using check_walk [OF assms, of 0 0 "ct_all_mask ?ct"] l(1,2) unfolding tracking_check_def min by simp
qed


section \<open>The initial state\<close>

lemma init_walk:
  assumes l: "distinct l" "linked l bs0" "tail = Some (l ! (length l - 1))"
    and n: "ct_num ct < 32" "2 \<le> m" "\<forall>i < ct_num ct. m * 2 ^ i < length l" "length l \<le> m * 2 ^ ct_num ct"
    and sz: "0 < unat (ct_blk_size ct)" "2 * (unat (ct_blk_size ct) * length l) \<le> 2 ^ 32"
      "unat (ct_min_size ct) = m * unat (ct_blk_size ct)"
    and q: "q \<le> length l" and j: "full_below m (ct_num ct) j q" and w: "mask_from (ct_num ct) j w"
    and st: "masks_only bs0 bs" "length bnd = ct_num ct" "\<forall>i < j. bnd ! i = Some (l ! (m * 2 ^ i - 1))"
      "\<forall>r < q. \<forall>i. bit (fa_mask (bs ! (l ! r))) i \<longleftrightarrow> i < ct_num ct \<and> r < m * 2 ^ i"
  shows "\<exists>bs' bnd'. track_init ct tail (if q < length l then Some (l ! q) else None)
      (of_nat q * ct_blk_size ct) (of_nat (m * 2 ^ j) * ct_blk_size ct) w j bs bnd = Some (bs', bnd')
    \<and> masks_only bs0 bs' \<and> length bnd' = ct_num ct \<and> (\<forall>i < ct_num ct. bnd' ! i = Some (l ! (m * 2 ^ i - 1)))
    \<and> (\<forall>r < length l. \<forall>i. bit (fa_mask (bs' ! (l ! r))) i \<longleftrightarrow> i < ct_num ct \<and> r < m * 2 ^ i)"
  using q j w st
proof (induction "length l - q" arbitrary: q j w bs bnd)
  case 0
  then have q: "q = length l" by simp
  have "j = ct_num ct"
  proof (rule ccontr)
    assume "j \<noteq> ct_num ct"
    with "0.prems"(2) have "j < ct_num ct" by (simp add: full_below_def)
    with "0.prems"(2) n(3) q show False unfolding full_below_def by (metis less_imp_le less_irrefl)
  qed
  with 0 q show ?case by (subst track_init.simps) simp
next
  case (Suc d)
  let ?b = "ct_blk_size ct" and ?n = "ct_num ct"
  from Suc.hyps(2) have q: "q < length l" by simp
  have len: "length bs = length bs0" using Suc.prems(4) by (simp add: masks_only_def)
  have blk: "l ! q < length bs" "l ! q < length bs0"
    "fa_next (bs ! (l ! q)) = (if Suc q < length l then Some (l ! Suc q) else None)"
    using l(2) q len masks_only_links(2) [OF Suc.prems(4)] by (auto simp: linked_def)
  have is_tail: "Some (l ! q) = tail \<longleftrightarrow> Suc q = length l"
    using l(1,3) q by (auto simp: nth_eq_iff_index_eq)
  have small: "m * 2 ^ j * unat ?b < 2 ^ 32"
  proof (cases j)
    case 0
    have "unat (ct_min_size ct) < 2 ^ 32" using unsigned_less [of "ct_min_size ct", where 'a = nat] by simp
    with 0 sz(3) show ?thesis by simp
  next
    case (Suc j')
    then have "m * 2 ^ j' < length l" using n(3) Suc.prems(2) by (auto simp: full_below_def)
    with Suc size_below [OF sz(1,2)] show ?thesis by simp
  qed
  have cur: "of_nat q * ?b + ?b = of_nat (Suc q) * ?b" by (simp add: algebra_simps)
  have eq: "(of_nat q * ?b + ?b = of_nat (m * 2 ^ j) * ?b) = (Suc q = m * 2 ^ j)"
    unfolding cur using size_eq [OF sz(1,2) _ small] q by simp
  have next_tracked: "of_nat (m * 2 ^ j) * ?b * 2 = of_nat (m * 2 ^ Suc j) * ?b" by (simp add: algebra_simps)
  note ih = Suc.hyps(1) [of "Suc q"]
  have d: "d = length l - Suc q" using Suc.hyps(2) by simp
  let ?bs = "bs[l ! q := (bs ! (l ! q))\<lparr>fa_mask := w\<rparr>]"
  have only: "masks_only bs0 ?bs" by (rule masks_only_update [OF Suc.prems(4) blk(2)])
  have bits: "\<forall>r < Suc q. \<forall>i. bit (fa_mask (?bs ! (l ! r))) i \<longleftrightarrow> i < ?n \<and> r < m * 2 ^ i"
  proof (intro allI impI)
    fix r i assume r: "r < Suc q"
    show "bit (fa_mask (?bs ! (l ! r))) i \<longleftrightarrow> i < ?n \<and> r < m * 2 ^ i"
    proof (cases "r = q")
      case True
      have "bit w i \<longleftrightarrow> i < ?n \<and> q < m * 2 ^ i"
        using Suc.prems(2,3) unfolding mask_from_def full_below_def by (meson not_less)
      with True blk(1) show ?thesis by simp
    next
      case False
      then have "l ! r \<noteq> l ! q" "r < q" using l(1) q r by (auto simp: nth_eq_iff_index_eq)
      with Suc.prems(7) show ?thesis by simp
    qed
  qed
  have here: "nth_opt bs (l ! q) = Some (bs ! (l ! q))" "update_opt bs (l ! q) ((bs ! (l ! q))\<lparr>fa_mask := w\<rparr>) = Some ?bs"
    using blk(1) by simp_all
  show ?case
  proof (cases "Suc q = m * 2 ^ j \<and> Suc q \<noteq> length l")
    case True
    have j: "j < ?n"
    proof (rule ccontr)
      assume "\<not> j < ?n"
      with Suc.prems(2) have "j = ?n" by (simp add: full_below_def)
      with True q n(4) show False by simp
    qed
    let ?bnd = "bnd[j := Some (l ! q)]"
    have bnd: "\<forall>i < Suc j. ?bnd ! i = Some (l ! (m * 2 ^ i - 1))"
    proof (intro allI impI)
      fix i assume "i < Suc j"
      moreover have "m * 2 ^ j - 1 = q" using True by (metis diff_Suc_1)
      ultimately show "?bnd ! i = Some (l ! (m * 2 ^ i - 1))"
        using Suc.prems(5,6) j by (cases "i = j") auto
    qed
    have f: "full_below m ?n (Suc j) (Suc q)" using full_below_step(1) [OF Suc.prems(2) _ j] True n(2) by simp
    have w': "mask_from ?n (Suc j) (w AND NOT (push_bit j 1))" using mask_from_step [OF Suc.prems(3)] j n(1) by simp
    have more: "update_opt bnd j (Some (l ! q)) = Some ?bnd" "cpp_assert (j < 32) = Some ()"
      "(of_nat q * ?b + ?b = of_nat (m * 2 ^ j) * ?b \<and> Some (l ! q) \<noteq> tail) = True"
      using Suc.prems(5) j n(1) True is_tail eq by (simp_all del: of_nat_mult)
    have "track_init ct tail (Some (l ! q)) (of_nat q * ?b) (of_nat (m * 2 ^ j) * ?b) w j bs bnd
      = track_init ct tail (if Suc q < length l then Some (l ! Suc q) else None)
          (of_nat (Suc q) * ?b) (of_nat (m * 2 ^ Suc j) * ?b) (w AND NOT (push_bit j 1)) (Suc j) ?bs ?bnd"
      by (subst track_init.simps)
        (simp only: option.case here more more(3) [unfolded cur] bind.bind_lunit Let_def if_True blk(3) cur next_tracked
          Suc_eq_plus1 [symmetric])
    then show ?thesis
      using ih [OF d Suc_leI [OF q] f w' only _ bnd bits] Suc.prems(5) q by (simp only: if_True length_list_update)
  next
    case False
    then have "m * 2 ^ j \<noteq> Suc q" if "j < ?n" using n(3) that by (metis less_irrefl)
    moreover have "0 < m" using n(2) by simp
    ultimately have f: "full_below m ?n j (Suc q)" by (intro full_below_step(2) [OF Suc.prems(2)])
    have no: "(of_nat q * ?b + ?b = of_nat (m * 2 ^ j) * ?b \<and> Some (l ! q) \<noteq> tail) = False"
      using False is_tail eq by (simp del: of_nat_mult)
    have "track_init ct tail (Some (l ! q)) (of_nat q * ?b) (of_nat (m * 2 ^ j) * ?b) w j bs bnd
      = track_init ct tail (if Suc q < length l then Some (l ! Suc q) else None)
          (of_nat (Suc q) * ?b) (of_nat (m * 2 ^ j) * ?b) w j ?bs bnd"
      by (subst track_init.simps)
        (simp only: option.case here no no [unfolded cur] bind.bind_lunit Let_def if_False blk(3) cur)
    then show ?thesis using ih [OF d Suc_leI [OF q] f Suc.prems(3) only Suc.prems(5,6) bits] q by (simp only: if_True)
  qed
qed


text \<open>The loop of \<open>tagsInit\<close> links block \<open>i\<close> with its neighbours in the array.\<close>

definition linked_below :: "nat \<Rightarrow> nat \<Rightarrow> falru_blk list \<Rightarrow> falru_blk list \<Rightarrow> bool" where
  "linked_below n k bs0 bs \<longleftrightarrow> length bs = length bs0 \<and> (\<forall>i < length bs0. fa_mask (bs ! i) = fa_mask (bs0 ! i))
     \<and> (\<forall>i < k. fa_prev (bs ! i) = (if i = 0 then None else Some (i - 1))
        \<and> fa_next (bs ! i) = (if Suc i < n then Some (Suc i) else None))"

lemma init_falru_blk_step:
  assumes "linked_below n k bs0 (fa_blks t)" "k < length bs0"
    and "prev = (if k = 0 then None else Some (k - 1))" "nxt = (if Suc k < n then Some (Suc k) else None)"
  shows "\<exists>bs. init_falru_blk k prev nxt t = Some (t\<lparr>fa_blks := bs\<rparr>) \<and> linked_below n (Suc k) bs0 bs"
proof -
  let ?b = "(set_position 0 (of_nat k) (fa_blks t ! k))
    \<lparr>fa_prev := prev, fa_next := nxt, cb_data := Some (unat (bt_blk_size t) * k)\<rparr>"
  have k: "k < length (fa_blks t)" using assms(1,2) by (simp add: linked_below_def)
  have b: "fa_mask ?b = fa_mask (fa_blks t ! k)" "fa_prev ?b = prev" "fa_next ?b = nxt" by (simp_all add: set_position_def)
  have "init_falru_blk k prev nxt t = Some (t\<lparr>fa_blks := (fa_blks t)[k := ?b]\<rparr>)"
    using k by (simp add: init_falru_blk_def)
  moreover have "linked_below n (Suc k) bs0 ((fa_blks t)[k := ?b])"
    unfolding linked_below_def
  proof (intro conjI allI impI)
    show "length ((fa_blks t)[k := ?b]) = length bs0" using assms(1) by (simp add: linked_below_def)
    fix i
    show "fa_mask ((fa_blks t)[k := ?b] ! i) = fa_mask (bs0 ! i)" if "i < length bs0"
      using assms(1) that b(1) k by (cases "i = k") (simp_all add: linked_below_def)
    assume i: "i < Suc k"
    show "fa_prev ((fa_blks t)[k := ?b] ! i) = (if i = 0 then None else Some (i - 1))"
      using assms(1,3) i b(2) k by (cases "i = k") (simp_all add: linked_below_def)
    show "fa_next ((fa_blks t)[k := ?b] ! i) = (if Suc i < n then Some (Suc i) else None)"
      using assms(1,4) i b(3) k by (cases "i = k") (simp_all add: linked_below_def)
  qed
  ultimately show ?thesis by blast
qed

lemma falru_tags_init_inv:
  assumes n: "n = unat (bt_num_blocks t)" "2 \<le> n" "length (fa_blks t) = n" "\<forall>b \<in> set (fa_blks t). fa_mask b = 0"
    and ct: "ct_num (fa_tracking t) < 32" "ct_all_mask (fa_tracking t) = mask (ct_num (fa_tracking t))"
      "length (ct_boundaries (fa_tracking t)) = ct_num (fa_tracking t)"
    and m: "2 \<le> m" "\<forall>i < ct_num (fa_tracking t). m * 2 ^ i < n" "n \<le> m * 2 ^ ct_num (fa_tracking t)"
    and sz: "0 < unat (ct_blk_size (fa_tracking t))" "2 * (unat (ct_blk_size (fa_tracking t)) * n) \<le> 2 ^ 32"
      "unat (ct_min_size (fa_tracking t)) = m * unat (ct_blk_size (fa_tracking t))"
  shows "\<exists>t'. falru_tags_init t = Some t' \<and> falru_inv m [0..<n] t'"
proof -
  let ?ct = "fa_tracking t" and ?bs0 = "fa_blks t"
  have start: "linked_below n 0 ?bs0 (fa_blks t)" by (simp add: linked_below_def)
  from init_falru_blk_step [OF start, of None "Some 1"] n(2,3) obtain bs1 where
    b1: "init_falru_blk 0 None (Some 1) t = Some (t\<lparr>fa_blks := bs1\<rparr>)" "linked_below n 1 ?bs0 bs1" by auto
  have loop: "\<exists>bs. fold_opt (\<lambda>i. init_falru_blk i (Some (i - 1)) (Some (i + 1))) [1..<k] (t\<lparr>fa_blks := bs1\<rparr>) = Some (t\<lparr>fa_blks := bs\<rparr>)
      \<and> linked_below n k ?bs0 bs" if "1 \<le> k" "k \<le> n - 1" for k
    using that
  proof (induction k rule: dec_induct)
    case base
    show ?case by (rule exI [of _ bs1]) (use b1(2) in simp)
  next
    case (step k)
    then obtain bs where bs: "fold_opt (\<lambda>i. init_falru_blk i (Some (i - 1)) (Some (i + 1))) [1..<k] (t\<lparr>fa_blks := bs1\<rparr>)
        = Some (t\<lparr>fa_blks := bs\<rparr>)" "linked_below n k ?bs0 bs" by auto
    have "linked_below n k ?bs0 (fa_blks (t\<lparr>fa_blks := bs\<rparr>))" using bs(2) by simp
    moreover have "k < length ?bs0" "Some (k - 1) = (if k = 0 then None else Some (k - 1))"
      "Some (k + 1) = (if Suc k < n then Some (Suc k) else None)" using step(1,4) n(3) by auto
    ultimately obtain bs' where
      "init_falru_blk k (Some (k - 1)) (Some (k + 1)) (t\<lparr>fa_blks := bs\<rparr>) = Some (t\<lparr>fa_blks := bs'\<rparr>)"
      "linked_below n (Suc k) ?bs0 bs'"
      using init_falru_blk_step [of n k ?bs0 "t\<lparr>fa_blks := bs\<rparr>" "Some (k - 1)" "Some (k + 1)"] by fastforce
    with bs(1) step(1) show ?case by (auto simp: fold_opt_append)
  qed
  have one: "1 \<le> n - 1" using n(2) by simp
  from loop [OF one le_refl] obtain bs2 where
    b2: "fold_opt (\<lambda>i. init_falru_blk i (Some (i - 1)) (Some (i + 1))) [1..<n - 1] (t\<lparr>fa_blks := bs1\<rparr>) = Some (t\<lparr>fa_blks := bs2\<rparr>)"
      "linked_below n (n - 1) ?bs0 bs2" by blast
  have "linked_below n (n - 1) ?bs0 (fa_blks (t\<lparr>fa_blks := bs2\<rparr>))" using b2(2) by simp
  from init_falru_blk_step [OF this, of "Some (n - 2)" None] n(2,3) obtain bs3 where
    b3: "init_falru_blk (n - 1) (Some (n - 2)) None (t\<lparr>fa_blks := bs2\<rparr>) = Some (t\<lparr>fa_blks := bs3\<rparr>)"
      "linked_below n n ?bs0 bs3" by (auto simp: numeral_2_eq_2 Suc_diff_Suc)
  have lens: "length bs1 = n" "length bs2 = n" "length bs3 = n" using b1(2) b2(2) b3(2) n(3) by (auto simp: linked_below_def)
  have pred: "unat (bt_num_blocks t - 2) = n - 2" using n(1,2) by (simp add: unat_sub word_le_nat_alt)
  let ?l = "[0..<n]"
  have links: "linked ?l bs3" using b3(2) n(3) lens(3) by (auto simp: linked_def linked_below_def)
  have masks: "fa_mask (bs3 ! i) = 0" if "i < n" for i
    using b3(2) n(3,4) that by (simp add: linked_below_def)
  obtain bs bnd where
    walk: "track_init ?ct (Some (n - 1)) (if ct_num ?ct \<noteq> 0 then Some 0 else None) 0 (ct_min_size ?ct) (ct_all_mask ?ct) 0
        bs3 (ct_boundaries ?ct) = Some (bs, bnd)"
      "masks_only bs3 bs" "tracked m (?ct\<lparr>ct_boundaries := bnd\<rparr>) ?l bs"
  proof (cases "ct_num ?ct = 0")
    case True
    have "track_init ?ct (Some (n - 1)) None 0 (ct_min_size ?ct) (ct_all_mask ?ct) 0 bs3 (ct_boundaries ?ct)
        = Some (bs3, ct_boundaries ?ct)" by (subst track_init.simps) simp
    moreover have "tracked m ?ct ?l bs3" using True ct m(1) masks by (simp add: tracked_def)
    ultimately show thesis using that True masks_only_refl by fastforce
  next
    case False
    have min: "ct_min_size ?ct = of_nat (m * 2 ^ 0) * ct_blk_size ?ct"
      using arg_cong [OF sz(3), of "of_nat :: nat \<Rightarrow> u32"] by simp
    have f: "full_below m (ct_num ?ct) 0 0" using m(1) by (simp add: full_below_def)
    have w: "mask_from (ct_num ?ct) 0 (ct_all_mask ?ct)" using ct(1,2) by (auto simp: mask_from_def bit_mask_iff)
    have tl: "Some (n - 1) = Some (?l ! (length ?l - 1))" using n(2) by simp
    from init_walk [OF _ links tl ct(1) m(1) _ _ sz(1) _ sz(3) _ f w masks_only_refl ct(3)] m(2,3) sz(2)
    obtain bs bnd where r: "track_init ?ct (Some (n - 1)) (if 0 < length ?l then Some (?l ! 0) else None)
        (of_nat 0 * ct_blk_size ?ct) (of_nat (m * 2 ^ 0) * ct_blk_size ?ct) (ct_all_mask ?ct) 0 bs3 (ct_boundaries ?ct) = Some (bs, bnd)"
      "masks_only bs3 bs" "length bnd = ct_num ?ct" "\<forall>i < ct_num ?ct. bnd ! i = Some (?l ! (m * 2 ^ i - 1))"
      "\<forall>r < length ?l. \<forall>i. bit (fa_mask (bs ! (?l ! r))) i \<longleftrightarrow> i < ct_num ?ct \<and> r < m * 2 ^ i" by auto
    have "tracked m (?ct\<lparr>ct_boundaries := bnd\<rparr>) ?l bs"
      using r(3-5) ct(1,2) m(1,2) by (simp add: tracked_def)
    with r(1,2) False n(2) min show thesis using that by simp
  qed
  have "falru_tags_init t = Some (t\<lparr>fa_blks := bs, fa_head := Some 0, fa_tail := Some (n - 1),
      fa_tracking := ?ct\<lparr>ct_boundaries := bnd\<rparr>\<rparr>)"
    using n(2,3) b1(1) b2(1) b3(1) walk(1) lens pred
    by (cases "ct_num ?ct = 0") (simp_all add: falru_tags_init_def n(1) [symmetric] ptr_to_def Let_def)
  moreover have "falru_inv m ?l (t\<lparr>fa_blks := bs, fa_head := Some 0, fa_tail := Some (n - 1),
      fa_tracking := ?ct\<lparr>ct_boundaries := bnd\<rparr>\<rparr>)"
    using masks_only_linked [OF walk(2) links] walk(3) n(2) m(3) sz by (simp add: falru_inv_def)
  ultimately show ?thesis by blast
qed


section \<open>Sequences of moves\<close>

text \<open>A move is a block and whether it goes to the head; the order of the blocks is a list.\<close>

definition run_move :: "bool \<times> entry \<Rightarrow> falru \<Rightarrow> falru option" where
  "run_move mv t = (if fst mv then move_to_head (Some (snd mv)) t else move_to_tail (Some (snd mv)) t)"

definition order_move :: "bool \<times> entry \<Rightarrow> entry list \<Rightarrow> entry list" where
  "order_move mv l = (let l' = removeAll (snd mv) l in if fst mv then snd mv # l' else l' @ [snd mv])"

lemma removeAll_nth: "distinct l \<Longrightarrow> p < length l \<Longrightarrow> removeAll (l ! p) l = take p l @ drop (Suc p) l"
proof -
  assume l: "distinct l" "p < length l"
  then have eq: "l = take p l @ l ! p # drop (Suc p) l" by (simp add: id_take_nth_drop)
  have "l ! p \<notin> set (take p l)" "l ! p \<notin> set (drop (Suc p) l)"
    using l(1) by (metis eq distinct_append distinct.simps(2) not_distinct_conv_prefix Un_iff set_append
        disjoint_insert(1) list.simps(15), metis eq distinct_append distinct.simps(2))
  then show ?thesis by (subst eq) simp
qed

lemma order_move_eq:
  assumes "distinct l" "p < length l"
  shows "order_move (True, l ! p) l = to_front p l" "order_move (False, l ! p) l = to_back p l"
  using removeAll_nth [OF assms] by (simp_all add: order_move_def to_front_def to_back_def)

lemma order_move_set: "snd mv \<in> set l \<Longrightarrow> set (order_move mv l) = set l"
  by (auto simp: order_move_def Let_def)

lemma run_move_inv:
  assumes inv: "falru_inv m l t" and e: "e \<in> set l"
  shows "\<exists>t'. run_move (up, e) t = Some t' \<and> falru_inv m (order_move (up, e) l) t'"
proof -
  from e obtain p where p: "p < length l" "l ! p = e" by (auto simp: in_set_conv_nth)
  have "distinct l" using inv by (simp add: falru_inv_def)
  from move_to_head_inv [OF inv p(1)] move_to_tail_inv [OF inv p(1)] order_move_eq [OF this p(1)]
  show ?thesis unfolding p(2) by (cases up) (simp_all add: run_move_def)
qed

lemma run_moves_inv:
  assumes "falru_inv m l t" "snd ` set mvs \<subseteq> set l"
  shows "\<exists>t'. fold_opt run_move mvs t = Some t' \<and> falru_inv m (fold order_move mvs l) t'"
  using assms
proof (induction mvs arbitrary: l t)
  case (Cons mv mvs)
  obtain up e where mv: "mv = (up, e)" by (cases mv)
  from Cons.prems have e: "e \<in> set l" and rest: "snd ` set mvs \<subseteq> set l" by (auto simp: mv)
  from run_move_inv [OF Cons.prems(1) e] obtain t1 where
    t1: "run_move (up, e) t = Some t1" "falru_inv m (order_move (up, e) l) t1" by blast
  have "set (order_move (up, e) l) = set l" using e by (simp add: order_move_set)
  with Cons.IH [OF t1(2)] rest t1(1) show ?case by (simp add: mv)
qed simp

text \<open>What the invariant says of the masks.\<close>

lemma falru_inv_masks:
  "falru_inv m l t \<Longrightarrow> q < length l \<Longrightarrow> i < ct_num (fa_tracking t) \<Longrightarrow>
     bit (fa_mask (fa_blks t ! (l ! q))) i \<longleftrightarrow> q < m * 2 ^ i"
  by (simp add: falru_inv_def tracked_def)


section \<open>Every state of a constructed store\<close>

lemma uint_pos: "x \<noteq> 0 \<Longrightarrow> 0 < uint (x :: u32)"
  using uint_ge_0 [of x] by (auto simp: order_le_less uint_0_iff)

lemma is_power_of_2_unat:
  assumes "is_power_of_2 x" "floor_log2 x = Some l"
  shows "unat x = 2 ^ l"
proof (rule ccontr)
  assume ne: "\<not> ?thesis"
  from floor_log2_bound [OF assms(2)] have low: "2 ^ l < unat x" and l: "l < 32" using ne by auto
  from assms(2) have "l = bit_length (uint x) - 1" "x \<noteq> 0" by (auto simp: floor_log2_def split: if_splits)
  moreover have pos: "0 < uint x" using uint_pos [OF \<open>x \<noteq> 0\<close>] .
  ultimately have "uint x < 2 ^ Suc l" using bit_length_bounds [OF pos] by simp
  then have "int (unat x) < int (2 ^ Suc l)" by simp
  then have high: "unat x < 2 ^ Suc l" by linarith
  have one: "unat y div 2 ^ l = 1" if "2 ^ l \<le> unat y" "unat y < 2 ^ Suc l" for y :: u32
    using that by (intro div_nat_eqI) auto
  have "unat (x - 1) = unat x - 1" using low by (simp add: unat_sub word_le_nat_alt)
  then have "bit (unat x) l" "bit (unat (x - 1)) l"
    using one [of x] one [of "x - 1"] low high by (simp_all add: bit_iff_odd)
  then have "bit (x AND (x - 1)) l" by (simp add: bit_and_iff bit_unsigned_iff)
  then show False using assms(1) by (simp add: is_power_of_2_def)
qed

text \<open>The sizes of the store and of the caches that are tracked below it.\<close>

lemma new_falru_sizes:
  assumes bt: "new_base_tags blk bytes lat ix pm warm reqs = Some bt" and f: "new_falru mn bt = Some t"
    and m: "unat mn = m * unat blk" "2 \<le> m" "blk < bytes"
  defines "n \<equiv> unat (bt_num_blocks bt)"
  shows "2 \<le> n \<and> n = unat (bt_num_blocks t) \<and> length (fa_blks t) = n \<and> (\<forall>b \<in> set (fa_blks t). fa_mask b = 0)
    \<and> ct_num (fa_tracking t) < 32 \<and> ct_all_mask (fa_tracking t) = mask (ct_num (fa_tracking t))
    \<and> length (ct_boundaries (fa_tracking t)) = ct_num (fa_tracking t)
    \<and> (\<forall>i < ct_num (fa_tracking t). m * 2 ^ i < n) \<and> n \<le> m * 2 ^ ct_num (fa_tracking t)
    \<and> 2 * (unat blk * n) \<le> 2 ^ 32 \<and> 0 < unat blk \<and> ct_blk_size (fa_tracking t) = blk \<and> ct_min_size (fa_tracking t) = mn"
proof -
  from bt have b: "bt_blk_size bt = blk" "bt_size bt = bytes" "blk \<noteq> 0" "bt_num_blocks bt = bytes div blk"
    by (auto simp: new_base_tags_def div_u32_def bind_Some_iff split: if_splits)
  from f b obtain ct cb where ct: "new_tracking mn bytes blk = Some ct" and pow: "is_power_of_2 blk" "is_power_of_2 bytes"
    and t: "t = base_tags.extend bt \<lparr>fa_blks = replicate n (cache_blk.extend cb \<lparr>fa_prev = None, fa_next = None, fa_mask = 0\<rparr>),
       fa_head = None, fa_tail = None, fa_hash = [], fa_tracking = ct\<rparr>"
    by (auto simp: new_falru_def n_def bind_Some_iff)
  define c where "c = bit_length (uint blk) - 1"
  define a where "a = bit_length (uint bytes) - 1"
  have "floor_log2 blk = Some c" and fb: "floor_log2 bytes = Some a"
    using pow by (simp_all add: floor_log2_def c_def a_def is_power_of_2_def)
  from is_power_of_2_unat [OF pow(1) this(1)] is_power_of_2_unat [OF pow(2) this(2)] floor_log2_bound(2) [OF fb]
  have blk: "unat blk = 2 ^ c" and bytes: "unat bytes = 2 ^ a" and a: "a \<le> 31" by auto
  have "c < a" using m(3) blk bytes by (simp add: word_less_nat_alt)
  then have pa: "(2 :: nat) ^ a = 2 ^ (a - c) * 2 ^ c" by (simp flip: power_add)
  then have n: "n = 2 ^ (a - c)" "n * 2 ^ c = 2 ^ a" by (simp_all add: n_def b(4) unat_div blk bytes)
  have two: "2 \<le> n" using \<open>c < a\<close> power_increasing [of 1 "a - c" "2 :: nat"] unfolding n(1) by simp
  have ct': "ct_all_mask ct = mask (ct_num ct)" "ct_num ct < 32" "length (ct_boundaries ct) = ct_num ct" "ct_blk_size ct = blk"
    "ct_min_size ct = mn"
    using ct by (auto simp: new_tracking_def low_mask_def mask_eq_exp_minus_1 bind_Some_iff split: if_splits)
  have "(\<forall>i < ct_num ct. m * 2 ^ i < n) \<and> n \<le> m * 2 ^ ct_num ct"
  proof (cases "mn < bytes")
    case False
    then have "ct_num ct = 0" using ct by (auto simp: new_tracking_def bind_Some_iff)
    moreover have "n * 2 ^ c \<le> m * 2 ^ c" using False m(1) n(2) blk bytes by (simp add: word_less_nat_alt)
    ultimately show ?thesis by simp
  next
    case True
    then obtain l where l: "floor_log2 mn = Some l" "ct_num ct = a - l"
      using ct fb by (auto simp: new_tracking_def bind_Some_iff)
    have pos: "0 < uint mn" using l(1) by (intro uint_pos) (auto simp: floor_log2_def)
    have low: "2 ^ l \<le> m * 2 ^ c" using floor_log2_bound(1) [OF l(1)] m(1) blk by simp
    have "bit_length (uint mn) = Suc l"
      using bit_length_bounds [OF pos] l(1) by (auto simp: floor_log2_def split: if_splits)
    then have "uint mn < 2 ^ Suc l" using bit_length_bounds [OF pos] by simp
    then have "int (unat mn) < int (2 ^ Suc l)" by simp
    then have "unat mn < 2 ^ Suc l" by (simp only: of_nat_less_iff)
    then have high: "m * 2 ^ c < 2 ^ Suc l" unfolding m(1) blk .
    have "m * 2 ^ c < 2 ^ a" using True m(1) blk bytes by (simp add: word_less_nat_alt)
    with low have "(2 :: nat) ^ l < 2 ^ a" by (rule le_less_trans)
    then have "l \<le> a" by simp
    have up: "m * 2 ^ i < n" if "i < a - l" for i
    proof -
      have "m * 2 ^ c * 2 ^ i < 2 ^ Suc l * 2 ^ i" using high by simp
      also have "\<dots> \<le> 2 ^ a" using that by (simp flip: power_add power_Suc add: power_increasing)
      finally have "m * 2 ^ i * 2 ^ c < n * 2 ^ c" unfolding n(2) by (simp add: mult_ac)
      then show ?thesis by simp
    qed
    have "2 ^ a = 2 ^ l * (2 :: nat) ^ (a - l)" using \<open>l \<le> a\<close> by (simp flip: power_add)
    also have "\<dots> \<le> m * 2 ^ c * 2 ^ (a - l)" using low by simp
    finally have "n * 2 ^ c \<le> m * 2 ^ (a - l) * 2 ^ c" unfolding n(2) by (simp add: mult_ac)
    then show ?thesis using up l(2) by simp
  qed
  moreover have "2 * (unat blk * n) \<le> 2 ^ 32"
    using n(2) a power_increasing [of "Suc a" 32 "2 :: nat"] by (simp add: blk mult.commute)
  ultimately show ?thesis using two ct' b by (simp add: t base_tags.extend_def cache_blk.extend_def n_def blk)
qed


text \<open>C31: After \<open>tagsInit\<close> of a fully associative store of more than one block and any sequence of
  \<open>moveBlockToHead\<close> and \<open>moveBlockToTail\<close>, no null pointer having been dereferenced, the linked list
  holds the blocks in the order that the same moves give on a list, the mask of a block tells exactly
  which of the smaller tracked caches would hold it, and the consistency check of the debug build
  passes. The smallest tracked cache must hold at least two blocks.
\<close>

theorem falru_tracking_consistent:
  assumes bt: "new_base_tags blk bytes lat ix pm warm reqs = Some bt" and f: "new_falru mn bt = Some t"
    and m: "unat mn = m * unat blk" "2 \<le> m" "blk < bytes"
    and mvs: "snd ` set mvs \<subseteq> {..<unat (bt_num_blocks bt)}"
  defines "l \<equiv> fold order_move mvs [0..<unat (bt_num_blocks bt)]"
  shows "\<exists>t'. falru_tags_init t \<bind> fold_opt run_move mvs = Some t' \<and> tracking_check t' = Some ()
    \<and> linked l (fa_blks t') \<and> fa_head t' = Some (hd l) \<and> fa_tail t' = Some (last l)
    \<and> (\<forall>q < length l. \<forall>i < ct_num (fa_tracking t'). bit (fa_mask (fa_blks t' ! (l ! q))) i \<longleftrightarrow> q < m * 2 ^ i)"
proof -
  let ?n = "unat (bt_num_blocks bt)"
  note sizes = new_falru_sizes [OF bt f m]
  have "\<exists>t0. falru_tags_init t = Some t0 \<and> falru_inv m [0..<?n] t0"
    using sizes m(1,2) by (intro falru_tags_init_inv) auto
  then obtain t0 where t0: "falru_tags_init t = Some t0" "falru_inv m [0..<?n] t0" by blast
  from run_moves_inv [OF t0(2), of mvs] mvs obtain t' where
    t': "fold_opt run_move mvs t0 = Some t'" "falru_inv m l t'" by (auto simp: l_def atLeast0LessThan)
  from t'(2) have "l \<noteq> []" "linked l (fa_blks t')" "fa_head t' = Some (l ! 0)" "fa_tail t' = Some (l ! (length l - 1))"
    by (auto simp: falru_inv_def)
  then show ?thesis
    using t0(1) t'(1) check_passes [OF t'(2)] falru_inv_masks [OF t'(2)] by (auto simp: hd_conv_nth last_conv_nth)
qed

definition small_falru :: "falru option" where
  "small_falru = do {
     ix \<leftarrow> new_set_associative 8 512 64;
     bt \<leftarrow> new_base_tags 64 512 1 ix None 0 4;
     new_falru 128 bt }"

theorem falru_tracking_consistent_witness:
  "\<exists>t'. small_falru \<bind> falru_tags_init \<bind> fold_opt run_move [(True, 5), (False, 2), (True, 2)] = Some t'
     \<and> tracking_check t' = Some () \<and> fa_head t' = Some 2"
proof -
  have "small_falru \<noteq> None" by code_simp
  then obtain ix bt t where t: "new_base_tags 64 512 1 ix None 0 4 = Some bt" "new_falru 128 bt = Some t" "small_falru = Some t"
    by (auto simp: small_falru_def bind_Some_iff)
  then have n: "unat (bt_num_blocks bt) = 8" by (auto simp: new_base_tags_def div_u32_def bind_Some_iff)
  have order: "hd (order_move (True, 2) (order_move (False, 2) (order_move (True, 5) [0..<8]))) = 2" by code_simp
  from falru_tracking_consistent [OF t(1,2), of 2 "[(True, 5), (False, 2), (True, 2)]"] n
  show ?thesis unfolding t(3) n by (auto simp: order)
qed

section \<open>Accesses and insertions\<close>

text \<open>
  A hit is recorded after its block has moved to the head, where it has every mask bit: it counts as a
  hit of every tracked cache, whichever of them held the block. The mask that \<open>accessBlock\<close> returns
  is the one before the move.
\<close>

lemma track_to_head_mask:
  assumes "track_to_head p (ct, bs) = Some (ct', bs')"
  shows "\<exists>b. deref p bs' = Some b \<and> fa_mask b = ct_all_mask ct \<and> ct_all_mask ct' = ct_all_mask ct"
  using assms
  by (auto simp: track_to_head_def upd_blk_def deref_def nth_opt_def update_opt_def bind_Some_iff
      split: option.splits prod.splits if_splits)

text \<open>No operation registers a tag extractor with a block, so the insertion of a block aborts.\<close>

lemma new_falru_no_extractor:
  assumes "new_falru mn bt = Some t" "b \<in> set (fa_blks t)"
  shows "te_extract b = None"
  using assms
  by (auto simp: new_falru_def new_cache_blk_def cache_blk_invalidate_cleared bind_Some_iff base_tags.extend_def
      cache_blk.extend_def tagged_entry.extend_def new_tagged_entry_def cleared_def split: if_splits)

lemma init_falru_blk_extract:
  assumes "init_falru_blk i prev nxt t = Some t'" "\<forall>b \<in> set (fa_blks t). te_extract b = None"
  shows "\<forall>b \<in> set (fa_blks t'). te_extract b = None"
  using assms
  by (auto simp: init_falru_blk_def upd_blk_def set_position_def nth_opt_def update_opt_def bind_Some_iff
      dest!: set_update_subset_insert [THEN subsetD] split: option.splits if_splits)

lemma falru_insert_aborts:
  assumes "\<forall>b \<in> set (fa_blks t). te_extract b = None"
  shows "falru_insert_block now pkt e t = None"
proof -
  have none: "base_insert_block now pkt b t = None" if "te_extract b = None" for b
    using that by (simp add: base_insert_block_def cache_blk_insert_def tagged_insert_def Let_def bind_eq_None_conv)
  have "base_insert_block now pkt (fa_blks t ! e) t = None" if "e < length (fa_blks t)"
    by (rule none) (use assms that in simp)
  then show ?thesis by (cases "e < length (fa_blks t)") (simp_all add: falru_insert_block_def nth_opt_def bind_eq_None_conv)
qed

end
