(* ===== verification/GemQueue.thy ===== *)
theory GemQueue
  imports GemTypes
begin

text \<open>
  The queue behind the MSHRs and the write buffer of the gem5 cache: \<open>Queue\<close> (\<open>queue.hh\<close>) with the
  members of \<open>QueueEntry\<close> (\<open>queue_entry.hh\<close>), and the write buffer (\<open>write_queue.cc\<close>,
  \<open>write_queue_entry.cc\<close>). A pointer to an entry is its index in a list of entries; the lists of a
  queue hold such indices. An entry is in a list at most once, so the iterator that an entry keeps
  into a list is the entry itself, and using an iterator to an entry that is not in the list fails.
  The counters of a queue are \<open>int\<close>s bounded by the number of entries. Functional accesses and
  printing are left out.
\<close>

section \<open>Entries\<close>

record queue_entry =
  qe_ready_time :: tick
  qe_uncacheable :: bool
  qe_in_service :: bool
  qe_order :: u64
  qe_blk_addr :: u64
  qe_blk_size :: u32
  qe_secure :: bool

definition new_queue_entry :: queue_entry where
  "new_queue_entry = \<lparr>qe_ready_time = 0, qe_uncacheable = False, qe_in_service = False, qe_order = 0,
     qe_blk_addr = 0, qe_blk_size = 0, qe_secure = False\<rparr>"

text \<open>A target; the packet is an index into the packets.\<close>

record qe_target =
  tg_recv :: tick
  tg_ready :: tick
  tg_order :: u64
  tg_pkt :: nat

text \<open>
  The virtual functions that both kinds of entries implement alike: \<open>HT\<close> is \<open>hasTargets()\<close>, which they
  assert.
\<close>

definition entry_matches :: "('a queue_entry_scheme \<Rightarrow> bool) \<Rightarrow> u64 \<Rightarrow> bool \<Rightarrow> 'a queue_entry_scheme \<Rightarrow> bool option" where
  "entry_matches HT addr secure b = do { cpp_assert (HT b); Some (qe_blk_addr b = addr \<and> qe_secure b = secure) }"

definition entry_matches_packet :: "('a queue_entry_scheme \<Rightarrow> bool) \<Rightarrow> packet \<Rightarrow> 'a queue_entry_scheme \<Rightarrow> bool option" where
  "entry_matches_packet HT pkt b = do { cpp_assert (HT b); Some (match_addr pkt (qe_blk_addr b) (qe_blk_size b)) }"

definition conflict_addr ::
  "('a queue_entry_scheme \<Rightarrow> bool) \<Rightarrow> ('b queue_entry_scheme \<Rightarrow> bool) \<Rightarrow> 'b queue_entry_scheme \<Rightarrow> 'a queue_entry_scheme \<Rightarrow> bool option" where
  "conflict_addr HT HT' other b = do { cpp_assert (HT b); entry_matches HT' (qe_blk_addr b) (qe_secure b) other }"

section \<open>The queue\<close>

datatype drain_state = Running | Draining | Drained

record queue =
  q_num_entries :: int
  q_num_reserve :: int
  q_allocated_list :: "nat list"
  q_ready_list :: "nat list"
  q_free_list :: "nat list"
  q_num_in_service :: int
  q_allocated :: int
  q_drain_state :: drain_state

text \<open>The entries of a queue are at consecutive indices.\<close>

definition new_queue :: "nat \<Rightarrow> nat \<Rightarrow> nat \<Rightarrow> queue" where
  "new_queue base num_entries reserve = \<lparr>q_num_entries = int (num_entries + reserve), q_num_reserve = int reserve,
     q_allocated_list = [], q_ready_list = [], q_free_list = [base..<base + (num_entries + reserve)],
     q_num_in_service = 0, q_allocated = 0, q_drain_state = Running\<rparr>"

fun insert_before :: "(nat \<Rightarrow> tick) \<Rightarrow> nat \<Rightarrow> nat list \<Rightarrow> nat list option" where
  "insert_before rt e [] = None"
| "insert_before rt e (x # xs) = (if rt e < rt x then Some (e # x # xs) else map_option ((#) x) (insert_before rt e xs))"

definition add_to_ready_list :: "(nat \<Rightarrow> tick) \<Rightarrow> nat \<Rightarrow> nat list \<Rightarrow> nat list option" where
  "add_to_ready_list rt e ready =
     (if ready = [] \<or> rt (last ready) \<le> rt e then Some (ready @ [e]) else insert_before rt e ready)"

definition is_empty :: "'a queue_scheme \<Rightarrow> bool" where
  "is_empty q \<longleftrightarrow> q_allocated q = 0"

definition is_full :: "'a queue_scheme \<Rightarrow> bool" where
  "is_full q \<longleftrightarrow> q_num_entries q - q_num_reserve q \<le> q_allocated q"

fun find_first :: "('x \<Rightarrow> bool option) \<Rightarrow> 'x list \<Rightarrow> 'x option option" where
  "find_first f [] = Some None"
| "find_first f (x # xs) = do { b \<leftarrow> f x; if b then Some (Some x) else find_first f xs }"

definition find_in_queue ::
  "('a queue_entry_scheme \<Rightarrow> bool) \<Rightarrow> u64 \<Rightarrow> bool \<Rightarrow> bool \<Rightarrow> 'a queue_entry_scheme list \<Rightarrow> 'q queue_scheme \<Rightarrow> nat option option" where
  "find_in_queue HT addr secure ignore es q = find_first (\<lambda>e. do {
     b \<leftarrow> nth_opt es e;
     if ignore \<and> qe_uncacheable b then Some False else entry_matches HT addr secure b }) (q_allocated_list q)"

definition find_pending ::
  "('a queue_entry_scheme \<Rightarrow> bool) \<Rightarrow> ('b queue_entry_scheme \<Rightarrow> bool) \<Rightarrow> 'b queue_entry_scheme \<Rightarrow> 'a queue_entry_scheme list
    \<Rightarrow> 'q queue_scheme \<Rightarrow> nat option option" where
  "find_pending HT HT' other es q =
     find_first (\<lambda>e. do { b \<leftarrow> nth_opt es e; conflict_addr HT HT' other b }) (q_ready_list q)"

definition get_next :: "tick \<Rightarrow> 'a queue_entry_scheme list \<Rightarrow> 'q queue_scheme \<Rightarrow> nat option option" where
  "get_next now es q = (case q_ready_list q of [] \<Rightarrow> Some None | e # _ \<Rightarrow> do {
     b \<leftarrow> nth_opt es e;
     Some (if now < qe_ready_time b then None else Some e) })"

definition next_ready_time :: "'a queue_entry_scheme list \<Rightarrow> 'q queue_scheme \<Rightarrow> tick option" where
  "next_ready_time es q = (case q_ready_list q of [] \<Rightarrow> Some max_tick | e # _ \<Rightarrow> map_option qe_ready_time (nth_opt es e))"

definition erase_iter :: "nat \<Rightarrow> nat list \<Rightarrow> nat list option" where
  "erase_iter e xs = do { cpp_assert (e \<in> set xs); Some (remove1 e xs) }"

text \<open>\<open>dealloc\<close> is \<open>deallocate()\<close> of the entry.\<close>

definition queue_deallocate ::
  "('a queue_entry_scheme \<Rightarrow> 'a queue_entry_scheme option) \<Rightarrow> nat \<Rightarrow> 'a queue_entry_scheme list \<times> 'q queue_scheme
    \<Rightarrow> ('a queue_entry_scheme list \<times> 'q queue_scheme) option" where
  "queue_deallocate dealloc e st = (let (es, q) = st in do {
     alloc \<leftarrow> erase_iter e (q_allocated_list q);
     b \<leftarrow> nth_opt es e;
     let q = q\<lparr>q_allocated_list := alloc, q_free_list := e # q_free_list q, q_allocated := q_allocated q - 1\<rparr> in do {
       q \<leftarrow> (if qe_in_service b then Some (q\<lparr>q_num_in_service := q_num_in_service q - 1\<rparr>)
         else do { r \<leftarrow> erase_iter e (q_ready_list q); Some (q\<lparr>q_ready_list := r\<rparr>) });
       b \<leftarrow> dealloc b;
       Some (es[e := b], if q_drain_state q = Draining \<and> q_allocated q = 0 then q\<lparr>q_drain_state := Drained\<rparr> else q) } })"

definition queue_drain :: "'q queue_scheme \<Rightarrow> drain_state" where
  "queue_drain q = (if q_allocated q = 0 then Drained else Draining)"

text \<open>Taking an entry off the free list; \<open>alloc\<close> is \<open>allocate\<close> of the entry, \<open>num\<close> its \<open>getNumTargets()\<close>.\<close>

definition queue_allocate ::
  "('a queue_entry_scheme \<Rightarrow> nat) \<Rightarrow> (nat \<Rightarrow> 'h \<Rightarrow> 'h option) \<Rightarrow> ('h \<Rightarrow> 'a queue_entry_scheme list) \<Rightarrow> 'h \<times> 'q queue_scheme
    \<Rightarrow> (nat \<times> 'h \<times> 'q queue_scheme) option" where
  "queue_allocate num alloc entries_of st = (let (h, q) = st in do {
     cpp_assert (q_free_list q \<noteq> []);
     let e = hd (q_free_list q) in do {
       b \<leftarrow> nth_opt (entries_of h) e;
       cpp_assert (num b = 0);
       let q = q\<lparr>q_free_list := tl (q_free_list q)\<rparr> in do {
         h \<leftarrow> alloc e h;
         let q = q\<lparr>q_allocated_list := q_allocated_list q @ [e]\<rparr> in do {
           cpp_assert (\<forall>x \<in> set (e # q_ready_list q). x < length (entries_of h));
           r \<leftarrow> add_to_ready_list (\<lambda>x. qe_ready_time (entries_of h ! x)) e (q_ready_list q);
           Some (e, h, q\<lparr>q_ready_list := r, q_allocated := q_allocated q + 1\<rparr>) } } } })"

section \<open>The write buffer\<close>

record write_entry = queue_entry +
  we_targets :: "qe_target list"

definition new_write_entry :: write_entry where
  "new_write_entry = queue_entry.extend new_queue_entry \<lparr>we_targets = []\<rparr>"

abbreviation we_has_targets :: "write_entry \<Rightarrow> bool" where
  "we_has_targets b \<equiv> we_targets b \<noteq> []"

definition write_entry_allocate ::
  "cmd_attrs \<Rightarrow> packet list \<Rightarrow> tick \<Rightarrow> u64 \<Rightarrow> u32 \<Rightarrow> nat \<Rightarrow> tick \<Rightarrow> u64 \<Rightarrow> write_entry \<Rightarrow> write_entry option" where
  "write_entry_allocate CA pkts now blk_addr blk_size target when_ready order b = do {
     pkt \<leftarrow> nth_opt pkts target;
     let unc = req_uncacheable (pkt_req pkt) in do {
       cpp_assert (\<not> (\<not> unc \<and> we_targets b \<noteq> []));
       cpp_assert (is_write CA (pkt_cmd pkt) \<and> unc \<or> is_eviction CA (pkt_cmd pkt) \<and> \<not> unc \<or> pkt_cmd pkt = WriteClean);
       let ts = we_targets b @ [\<lparr>tg_recv = now, tg_ready = when_ready, tg_order = order, tg_pkt = target\<rparr>] in do {
         front \<leftarrow> nth_opt pkts (tg_pkt (hd ts));
         cpp_assert (match_addr pkt (pkt_addr front) blk_size);
         Some (b\<lparr>qe_blk_addr := blk_addr, qe_blk_size := blk_size, qe_secure := pkt_secure pkt, qe_ready_time := when_ready,
           qe_order := order, qe_uncacheable := unc, qe_in_service := False, we_targets := ts\<rparr>) } } }"

definition write_entry_deallocate :: "write_entry \<Rightarrow> write_entry option" where
  "write_entry_deallocate b = do { cpp_assert (we_targets b = []); Some (b\<lparr>qe_in_service := False\<rparr>) }"

text \<open>\<open>pop_front\<close> of an empty list is undefined.\<close>

definition write_entry_pop :: "write_entry \<Rightarrow> write_entry option" where
  "write_entry_pop b = do { cpp_assert (we_targets b \<noteq> []); Some (b\<lparr>we_targets := tl (we_targets b)\<rparr>) }"

definition new_write_queue :: "nat \<Rightarrow> nat \<Rightarrow> write_entry list \<times> queue" where
  "new_write_queue num_entries reserve = (replicate (num_entries + reserve) new_write_entry, new_queue 0 num_entries reserve)"

definition write_allocate ::
  "cmd_attrs \<Rightarrow> packet list \<Rightarrow> tick \<Rightarrow> u64 \<Rightarrow> u32 \<Rightarrow> nat \<Rightarrow> tick \<Rightarrow> u64 \<Rightarrow> write_entry list \<times> queue
    \<Rightarrow> (nat \<times> write_entry list \<times> queue) option" where
  "write_allocate CA pkts now blk_addr blk_size pkt when_ready order st =
     queue_allocate (\<lambda>b. length (we_targets b))
       (\<lambda>e es. do { b \<leftarrow> nth_opt es e; b \<leftarrow> write_entry_allocate CA pkts now blk_addr blk_size pkt when_ready order b; Some (es[e := b]) })
       (\<lambda>es. es) st"

definition write_mark_in_service :: "nat \<Rightarrow> write_entry list \<times> queue \<Rightarrow> (write_entry list \<times> queue) option" where
  "write_mark_in_service e st = (let (es, q) = st in do {
     b \<leftarrow> nth_opt es e;
     b \<leftarrow> write_entry_pop b;
     queue_deallocate write_entry_deallocate e (es[e := b], q) })"

section \<open>The ready list\<close>

lemma insert_before_Some:
  "insert_before rt e xs \<noteq> None \<longleftrightarrow> (\<exists>x \<in> set xs. rt e < rt x)"
  by (induction xs) auto

text \<open>The panic of \<open>addToReadyList\<close> is never reached, whatever the order of the list.\<close>

lemma add_to_ready_list_total: "\<exists>r. add_to_ready_list rt e ready = Some r"
proof (cases "ready = [] \<or> rt (last ready) \<le> rt e")
  case False
  then have "last ready \<in> set ready" "rt e < rt (last ready)" by auto
  then have "insert_before rt e ready \<noteq> None" unfolding insert_before_Some by blast
  with False show ?thesis unfolding add_to_ready_list_def if_not_P [OF False] by blast
qed (simp add: add_to_ready_list_def)

lemma insert_before_mset: "insert_before rt e xs = Some ys \<Longrightarrow> mset ys = add_mset e (mset xs)"
  by (induction xs arbitrary: ys) (auto split: if_splits)

lemma add_to_ready_list_mset: "add_to_ready_list rt e xs = Some ys \<Longrightarrow> mset ys = add_mset e (mset xs)"
  by (auto simp: add_to_ready_list_def insert_before_mset split: if_splits)

lemma insert_before_split:
  "insert_before rt e xs = Some ys \<Longrightarrow> \<exists>as bs. xs = as @ bs \<and> ys = as @ e # bs \<and> (\<forall>a \<in> set as. rt a \<le> rt e) \<and> bs \<noteq> [] \<and> rt e < rt (hd bs)"
proof (induction xs arbitrary: ys)
  case (Cons x xs)
  show ?case
  proof (cases "rt e < rt x")
    case True
    then show ?thesis using Cons.prems by (intro exI [of _ "[]"] exI [of _ "x # xs"]) auto
  next
    case False
    with Cons.prems obtain zs where zs: "insert_before rt e xs = Some zs" "ys = x # zs" by auto
    from Cons.IH [OF zs(1)] obtain as bs where "xs = as @ bs" "zs = as @ e # bs" "\<forall>a \<in> set as. rt a \<le> rt e"
      "bs \<noteq> []" "rt e < rt (hd bs)" by blast
    with False zs(2) show ?thesis by (intro exI [of _ "x # as"] exI [of _ bs]) auto
  qed
qed simp

text \<open>A sorted list stays sorted, and the new entry comes after all entries of its time.\<close>

lemma add_to_ready_list_sorted:
  assumes "add_to_ready_list rt e xs = Some ys" "sorted (map rt xs)"
  shows "sorted (map rt ys) \<and> (\<exists>as bs. xs = as @ bs \<and> ys = as @ e # bs \<and> (\<forall>a \<in> set as. rt a \<le> rt e) \<and> (\<forall>b \<in> set bs. rt e < rt b))"
proof -
  have "\<exists>as bs. xs = as @ bs \<and> ys = as @ e # bs \<and> (\<forall>a \<in> set as. rt a \<le> rt e) \<and> (\<forall>b \<in> set bs. rt e < rt b)"
  proof (cases "xs = [] \<or> rt (last xs) \<le> rt e")
    case True
    have "rt a \<le> rt e" if "a \<in> set xs" for a
    proof -
      have "xs \<noteq> []" using that by auto
      then obtain zs z where xs: "xs = zs @ [z]" by (cases xs rule: rev_cases) auto
      with assms(2) that have "rt a \<le> rt (last xs)" by (auto simp: sorted_append)
      with True that show ?thesis by auto
    qed
    with True assms(1) show ?thesis by (intro exI [of _ xs] exI [of _ "[]"]) (auto simp: add_to_ready_list_def)
  next
    case False
    with assms(1) have "insert_before rt e xs = Some ys" by (simp add: add_to_ready_list_def)
    from insert_before_split [OF this] obtain as bs where s: "xs = as @ bs" "ys = as @ e # bs" "\<forall>a \<in> set as. rt a \<le> rt e"
      "bs \<noteq> []" "rt e < rt (hd bs)" by blast
    have "rt e < rt b" if "b \<in> set bs" for b
    proof -
      obtain b0 bs' where "bs = b0 # bs'" using s(4) by (cases bs) auto
      with assms(2) s(1,5) that show ?thesis by (auto simp: sorted_append intro: order.strict_trans2)
    qed
    with s show ?thesis by blast
  qed
  then obtain as bs where "xs = as @ bs" "ys = as @ e # bs" "\<forall>a \<in> set as. rt a \<le> rt e" "\<forall>b \<in> set bs. rt e < rt b"
    by blast
  moreover from this assms(2) have "sorted (map rt ys)" by (auto simp: sorted_append less_imp_le)
  ultimately show ?thesis by blast
qed

end
