(* ===== verification/GemMshr.thy ===== *)
theory GemMshr
  imports GemQueue
begin

text \<open>
  The MSHRs of the gem5 cache (\<open>mshr.hh\<close>, \<open>mshr.cc\<close>) and their queue (\<open>mshr_queue.cc\<close>). Packets and
  MSHRs are shared between the levels of a memory system, so both live in a store and a pointer is an
  index: a packet may point to the MSHR of the cache above that it comes from, which the list of
  targets marks as pending downstream. \<open>sendPacket\<close>, functional accesses and printing are left out.
\<close>

section \<open>Target lists\<close>

datatype source = FromCPU | FromSnoop | FromPrefetcher

record target = qe_target +
  tg_source :: source
  tg_marked :: bool
  tg_alloc_on_fill :: bool

record target_list =
  tl_targets :: "target list"
  tl_needs_writable :: bool
  tl_has_upgrade :: bool
  tl_alloc_on_fill :: bool
  tl_has_from_cache :: bool
  tl_blk_addr :: u64
  tl_blk_size :: u64
  tl_can_merge_writes :: bool
  tl_writes_bitmap :: "bool list"

definition new_target_list :: target_list where
  "new_target_list = \<lparr>tl_targets = [], tl_needs_writable = False, tl_has_upgrade = False, tl_alloc_on_fill = False,
     tl_has_from_cache = False, tl_blk_addr = 0, tl_blk_size = 0, tl_can_merge_writes = True, tl_writes_bitmap = []\<rparr>"

definition tl_reset_flags :: "target_list \<Rightarrow> target_list" where
  "tl_reset_flags l = l\<lparr>tl_can_merge_writes := True, tl_writes_bitmap := replicate (length (tl_writes_bitmap l)) False,
     tl_needs_writable := False, tl_has_upgrade := False, tl_alloc_on_fill := False, tl_has_from_cache := False\<rparr>"

definition resize_bitmap :: "nat \<Rightarrow> bool list \<Rightarrow> bool list" where
  "resize_bitmap n bm = take n bm @ replicate (n - length bm) False"

definition tl_init :: "u64 \<Rightarrow> u64 \<Rightarrow> target_list \<Rightarrow> target_list" where
  "tl_init addr sz l = tl_reset_flags (l\<lparr>tl_blk_addr := addr, tl_blk_size := sz,
     tl_writes_bitmap := resize_bitmap (unat sz) (tl_writes_bitmap l)\<rparr>)"

definition tl_is_reset :: "target_list \<Rightarrow> bool" where
  "tl_is_reset l \<longleftrightarrow> \<not> tl_needs_writable l \<and> \<not> tl_has_upgrade l \<and> \<not> tl_alloc_on_fill l \<and> \<not> tl_has_from_cache l
     \<and> tl_can_merge_writes l"

definition tl_is_whole_line_write :: "target_list \<Rightarrow> bool" where
  "tl_is_whole_line_write l \<longleftrightarrow> list_all (\<lambda>b. b) (tl_writes_bitmap l)"

text \<open>\<open>UNCACHEABLE\<close>, \<open>STRICT_ORDER\<close>, \<open>PRIVILEGED\<close>, \<open>LLSC\<close>, \<open>MEM_SWAP\<close>, \<open>MEM_SWAP_COND\<close>, \<open>SECURE\<close>, \<open>LOCKED_RMW\<close>.\<close>

definition no_merge_flags :: u64 where
  "no_merge_flags = 0x40 OR 0x4 OR 0x10 OR 0x80 OR 0x100 OR 0x200 OR 0x8 OR 0x400"

text \<open>Filling beyond the end of the bitmap is undefined.\<close>

definition fill_bitmap :: "nat \<Rightarrow> nat \<Rightarrow> bool list \<Rightarrow> bool list option" where
  "fill_bitmap off n bm = do { cpp_assert (off + n \<le> length bm); Some (take off bm @ replicate n True @ drop (off + n) bm) }"

definition tl_update_write_flags :: "cmd_attrs \<Rightarrow> packet \<Rightarrow> target_list \<Rightarrow> target_list option" where
  "tl_update_write_flags CA pkt l =
     (if tl_is_whole_line_write l then Some l
      else if \<not> tl_can_merge_writes l then Some l
      else if \<not> is_write CA (pkt_cmd pkt) then Some (l\<lparr>tl_can_merge_writes := False\<rparr>)
      else (let compat = (req_flags (pkt_req pkt) AND no_merge_flags = 0) in do {
        bm \<leftarrow> (if \<not> pkt_masked pkt \<and> (tl_targets l = [] \<or> compat)
          then fill_bitmap (unat (get_offset pkt (ucast (tl_blk_size l)))) (unat (pkt_size pkt)) (tl_writes_bitmap l)
          else Some (tl_writes_bitmap l));
        Some (l\<lparr>tl_writes_bitmap := bm, tl_can_merge_writes := compat\<rparr>) }))"

definition tl_update_flags :: "cmd_attrs \<Rightarrow> packet \<Rightarrow> source \<Rightarrow> bool \<Rightarrow> target_list \<Rightarrow> target_list option" where
  "tl_update_flags CA pkt src alloc l =
     (if src = FromSnoop then Some l
      else (let l = (if needs_writable CA (pkt_cmd pkt) then l\<lparr>tl_needs_writable := True\<rparr> else l);
                l = (if is_upgrade CA (pkt_cmd pkt) \<or> pkt_cmd pkt = StoreCondReq then l\<lparr>tl_has_upgrade := True\<rparr> else l);
                l = l\<lparr>tl_alloc_on_fill := tl_alloc_on_fill l \<or> alloc\<rparr> in
        if src = FromPrefetcher then Some l
        else tl_update_write_flags CA pkt (l\<lparr>tl_has_from_cache := tl_has_from_cache l \<or> from_cache CA (pkt_cmd pkt)\<rparr>)))"

definition tl_populate_flags :: "cmd_attrs \<Rightarrow> packet list \<Rightarrow> target_list \<Rightarrow> target_list option" where
  "tl_populate_flags CA pkts l = fold_opt (\<lambda>t l. do {
     pkt \<leftarrow> nth_opt pkts (tg_pkt t);
     tl_update_flags CA pkt (tg_source t) (tg_alloc_on_fill t) l }) (tl_targets l) (tl_reset_flags l)"

section \<open>The store\<close>

record mshr = queue_entry +
  ms_downstream_pending :: bool
  ms_pending_modified :: bool
  ms_post_invalidate :: bool
  ms_post_downgrade :: bool
  ms_was_whole_line_write :: bool
  ms_is_forward :: bool
  ms_targets :: target_list
  ms_deferred :: target_list

definition new_mshr :: mshr where
  "new_mshr = queue_entry.extend new_queue_entry \<lparr>ms_downstream_pending = False, ms_pending_modified = False,
     ms_post_invalidate = False, ms_post_downgrade = False, ms_was_whole_line_write = False, ms_is_forward = False,
     ms_targets = new_target_list, ms_deferred = new_target_list\<rparr>"

record gem_store =
  gs_packets :: "packet list"
  gs_mshrs :: "mshr list"

definition upd_mshr :: "nat \<Rightarrow> (mshr \<Rightarrow> mshr) \<Rightarrow> gem_store \<Rightarrow> gem_store option" where
  "upd_mshr i f h = do { b \<leftarrow> nth_opt (gs_mshrs h) i; Some (h\<lparr>gs_mshrs := (gs_mshrs h)[i := f b]\<rparr>) }"

definition upd_packet :: "nat \<Rightarrow> (packet \<Rightarrow> packet) \<Rightarrow> gem_store \<Rightarrow> gem_store option" where
  "upd_packet i f h = do { p \<leftarrow> nth_opt (gs_packets h) i; Some (h\<lparr>gs_packets := (gs_packets h)[i := f p]\<rparr>) }"

text \<open>An MSHR has two lists: the flag tells whether the deferred one is meant.\<close>

definition the_list :: "bool \<Rightarrow> mshr \<Rightarrow> target_list" where
  "the_list deferred b = (if deferred then ms_deferred b else ms_targets b)"

definition upd_list :: "bool \<Rightarrow> (target_list \<Rightarrow> target_list) \<Rightarrow> mshr \<Rightarrow> mshr" where
  "upd_list deferred f b = (if deferred then b\<lparr>ms_deferred := f (ms_deferred b)\<rparr> else b\<lparr>ms_targets := f (ms_targets b)\<rparr>)"

definition ms_has_targets :: "mshr \<Rightarrow> bool" where
  "ms_has_targets b \<longleftrightarrow> tl_targets (ms_targets b) \<noteq> []"

definition ms_num_targets :: "mshr \<Rightarrow> nat" where
  "ms_num_targets b = length (tl_targets (ms_targets b)) + length (tl_targets (ms_deferred b))"

definition ms_front :: "mshr \<Rightarrow> target option" where
  "ms_front b = nth_opt (tl_targets (ms_targets b)) 0"

definition front_packet :: "mshr \<Rightarrow> gem_store \<Rightarrow> packet option" where
  "front_packet b h = do { t \<leftarrow> ms_front b; nth_opt (gs_packets h) (tg_pkt t) }"

definition ms_is_pending_modified :: "mshr \<Rightarrow> bool option" where
  "ms_is_pending_modified b = do { cpp_assert (qe_in_service b); Some (ms_pending_modified b) }"

definition ms_has_post_invalidate :: "mshr \<Rightarrow> bool option" where
  "ms_has_post_invalidate b = do { cpp_assert (qe_in_service b); Some (ms_post_invalidate b) }"

definition ms_has_post_downgrade :: "mshr \<Rightarrow> bool option" where
  "ms_has_post_downgrade b = do { cpp_assert (qe_in_service b); Some (ms_post_downgrade b) }"

section \<open>Targets\<close>

text \<open>\<open>TargetList::add\<close> on a list of the MSHR \<open>m\<close>.\<close>

definition tl_add ::
  "cmd_attrs \<Rightarrow> tick \<Rightarrow> nat \<Rightarrow> bool \<Rightarrow> nat \<Rightarrow> tick \<Rightarrow> u64 \<Rightarrow> source \<Rightarrow> bool \<Rightarrow> bool \<Rightarrow> gem_store \<Rightarrow> gem_store option" where
  "tl_add CA now m d pkt ready order src mark alloc h = do {
     b \<leftarrow> nth_opt (gs_mshrs h) m;
     p \<leftarrow> nth_opt (gs_packets h) pkt;
     l \<leftarrow> tl_update_flags CA p src alloc (the_list d b);
     h \<leftarrow> upd_mshr m (upd_list d (\<lambda>_. l)) h;
     (mark, h) \<leftarrow> (if \<not> mark then Some (False, h) else (case pkt_mshr p of
         None \<Rightarrow> Some (False, h)
       | Some up \<Rightarrow> do {
           u \<leftarrow> nth_opt (gs_mshrs h) up;
           cpp_assert (\<not> ms_downstream_pending u);
           h \<leftarrow> upd_mshr up (\<lambda>u. u\<lparr>ms_downstream_pending := True\<rparr>) h;
           Some (True, h) }));
     upd_mshr m (upd_list d (\<lambda>l. l\<lparr>tl_targets := tl_targets l @ [\<lparr>tg_recv = now, tg_ready = ready, tg_order = order,
       tg_pkt = pkt, tg_source = src, tg_marked = mark, tg_alloc_on_fill = alloc\<rparr>]\<rparr>)) h }"

definition replace_upgrade :: "cmd_attrs \<Rightarrow> packet \<Rightarrow> packet option" where
  "replace_upgrade CA p = (
     let has_data = pkt_has_data p \<or> has_resp_data CA (pkt_cmd p);
         p = (if pkt_cmd p = UpgradeReq then p\<lparr>pkt_cmd := ReadExReq\<rparr>
              else if pkt_cmd p = SCUpgradeReq then p\<lparr>pkt_cmd := SCUpgradeFailReq\<rparr>
              else if pkt_cmd p = StoreCondReq then p\<lparr>pkt_cmd := StoreCondFailReq\<rparr> else p) in
     if has_data then Some p else do {
       cpp_assert (\<not> pkt_has_data p);
       Some (if has_resp_data CA (pkt_cmd p) then p\<lparr>pkt_has_data := True\<rparr> else p) })"

definition replace_upgrade_at :: "cmd_attrs \<Rightarrow> nat \<Rightarrow> gem_store \<Rightarrow> gem_store option" where
  "replace_upgrade_at CA i h = do { p \<leftarrow> nth_opt (gs_packets h) i; p \<leftarrow> replace_upgrade CA p; upd_packet i (\<lambda>_. p) h }"

definition tl_replace_upgrades :: "cmd_attrs \<Rightarrow> nat \<Rightarrow> bool \<Rightarrow> gem_store \<Rightarrow> gem_store option" where
  "tl_replace_upgrades CA m d h = do {
     b \<leftarrow> nth_opt (gs_mshrs h) m;
     if \<not> tl_has_upgrade (the_list d b) then Some h
     else do {
       h \<leftarrow> fold_opt (\<lambda>t. replace_upgrade_at CA (tg_pkt t)) (tl_targets (the_list d b)) h;
       upd_mshr m (upd_list d (\<lambda>l. l\<lparr>tl_has_upgrade := False\<rparr>)) h } }"

text \<open>
  Clearing the downstream pending flags, up the chain of caches. \<open>clear\<close> is the recursive call
  \<open>mshr->clearDownstreamPending()\<close>; every call clears a flag, so one more call than there are flags
  is enough fuel. \<open>stop\<close> answers a call for which no fuel is left: running out of fuel stays apart
  from a failed assertion, and the operations below put None for it.
\<close>

definition clear_target :: "(nat \<Rightarrow> gem_store \<Rightarrow> gem_store option) \<Rightarrow> nat \<Rightarrow> bool \<Rightarrow> nat \<Rightarrow> gem_store \<Rightarrow> gem_store option" where
  "clear_target clear m d i h = do {
     b \<leftarrow> nth_opt (gs_mshrs h) m;
     t \<leftarrow> nth_opt (tl_targets (the_list d b)) i;
     if \<not> tg_marked t then Some h else do {
       p \<leftarrow> nth_opt (gs_packets h) (tg_pkt t);
       h \<leftarrow> (case pkt_mshr p of None \<Rightarrow> Some h | Some up \<Rightarrow> clear up h);
       upd_mshr m (upd_list d (\<lambda>l. l\<lparr>tl_targets := (tl_targets l)[i := (tl_targets l ! i)\<lparr>tg_marked := False\<rparr>]\<rparr>)) h } }"

definition clear_targets :: "(nat \<Rightarrow> gem_store \<Rightarrow> gem_store option) \<Rightarrow> nat \<Rightarrow> bool \<Rightarrow> nat \<Rightarrow> gem_store \<Rightarrow> gem_store option" where
  "clear_targets clear m d n h = fold_opt (clear_target clear m d) [0..<n] h"

fun clear_downstream ::
  "(nat \<Rightarrow> gem_store \<Rightarrow> gem_store option) \<Rightarrow> nat \<Rightarrow> nat \<Rightarrow> gem_store \<Rightarrow> gem_store option" where
  "clear_downstream stop 0 m h = stop m h"
| "clear_downstream stop (Suc fuel) m h = do {
     b \<leftarrow> nth_opt (gs_mshrs h) m;
     cpp_assert (ms_downstream_pending b);
     h \<leftarrow> upd_mshr m (\<lambda>b. b\<lparr>ms_downstream_pending := False\<rparr>) h;
     clear_targets (clear_downstream stop fuel) m False (length (tl_targets (ms_targets b))) h }"

definition pending_flags :: "gem_store \<Rightarrow> nat" where
  "pending_flags h = count_if ms_downstream_pending (gs_mshrs h)"

definition ms_clear_downstream_pending :: "nat \<Rightarrow> gem_store \<Rightarrow> gem_store option" where
  "ms_clear_downstream_pending m h = clear_downstream (\<lambda>_ _. None) (Suc (pending_flags h)) m h"

text \<open>\<open>TargetList::clearDownstreamPending\<close> on the first \<open>n\<close> targets of a list.\<close>

definition tl_clear_downstream_pending :: "nat \<Rightarrow> bool \<Rightarrow> nat \<Rightarrow> gem_store \<Rightarrow> gem_store option" where
  "tl_clear_downstream_pending m d n h = clear_targets (clear_downstream (\<lambda>_ _. None) (Suc (pending_flags h))) m d n h"

section \<open>MSHRs\<close>

definition ms_allocate ::
  "cmd_attrs \<Rightarrow> tick \<Rightarrow> u64 \<Rightarrow> u32 \<Rightarrow> nat \<Rightarrow> tick \<Rightarrow> u64 \<Rightarrow> bool \<Rightarrow> nat \<Rightarrow> gem_store \<Rightarrow> gem_store option" where
  "ms_allocate CA now blk_addr blk_size pkt when_ready order alloc m h = do {
     p \<leftarrow> nth_opt (gs_packets h) pkt;
     h \<leftarrow> upd_mshr m (\<lambda>b. b\<lparr>qe_blk_addr := blk_addr, qe_blk_size := blk_size, qe_secure := pkt_secure p,
       qe_ready_time := when_ready, qe_order := order, ms_is_forward := False, ms_was_whole_line_write := False,
       qe_uncacheable := req_uncacheable (pkt_req p), qe_in_service := False, ms_downstream_pending := False,
       ms_targets := tl_init blk_addr (ucast blk_size) (ms_targets b),
       ms_deferred := tl_init blk_addr (ucast blk_size) (ms_deferred b)\<rparr>) h;
     h \<leftarrow> tl_add CA now m False pkt when_ready order (if pkt_cmd p = HardPFReq then FromPrefetcher else FromCPU) True alloc h;
     b \<leftarrow> nth_opt (gs_mshrs h) m;
     front \<leftarrow> front_packet b h;
     cpp_assert (match_addr p (pkt_addr front) blk_size);
     Some h }"

definition ms_mark_in_service :: "bool \<Rightarrow> nat \<Rightarrow> gem_store \<Rightarrow> gem_store option" where
  "ms_mark_in_service pending_modified_resp m h = do {
     b \<leftarrow> nth_opt (gs_mshrs h) m;
     cpp_assert (\<not> qe_in_service b);
     h \<leftarrow> upd_mshr m (\<lambda>b. b\<lparr>qe_in_service := True,
       ms_pending_modified := tl_needs_writable (ms_targets b) \<or> pending_modified_resp,
       ms_post_invalidate := False, ms_post_downgrade := False\<rparr>) h;
     h \<leftarrow> (if \<not> ms_downstream_pending b
       then tl_clear_downstream_pending m False (length (tl_targets (ms_targets b))) h else Some h);
     upd_mshr m (\<lambda>b. b\<lparr>ms_was_whole_line_write := tl_is_whole_line_write (ms_targets b)\<rparr>) h }"

definition ms_deallocate :: "mshr \<Rightarrow> mshr option" where
  "ms_deallocate b = do {
     cpp_assert (tl_targets (ms_targets b) = []);
     cpp_assert (tl_is_reset (ms_deferred b));
     Some (b\<lparr>ms_targets := tl_reset_flags (ms_targets b), qe_in_service := False\<rparr>) }"

text \<open>The condition of \<open>allocateTarget\<close>; its accessors assert that the MSHR is in service.\<close>

definition must_defer :: "cmd_attrs \<Rightarrow> packet \<Rightarrow> packet \<Rightarrow> mshr \<Rightarrow> bool" where
  "must_defer CA p front b \<longleftrightarrow> req_maintenance (pkt_req p) \<or> req_maintenance (pkt_req front)
     \<or> tl_targets (ms_deferred b) \<noteq> []
     \<or> (qe_in_service b \<and> (ms_post_invalidate b
         \<or> (needs_writable CA (pkt_cmd p) \<and> (\<not> ms_pending_modified b \<or> ms_post_downgrade b \<or> ms_is_forward b))))"

definition ms_allocate_target ::
  "cmd_attrs \<Rightarrow> tick \<Rightarrow> nat \<Rightarrow> tick \<Rightarrow> u64 \<Rightarrow> bool \<Rightarrow> nat \<Rightarrow> gem_store \<Rightarrow> gem_store option" where
  "ms_allocate_target CA now pkt when_ready order alloc m h = do {
     p \<leftarrow> nth_opt (gs_packets h) pkt;
     cpp_assert (pkt_cmd p \<noteq> HardPFReq);
     b \<leftarrow> nth_opt (gs_mshrs h) m;
     front \<leftarrow> front_packet b h;
     if must_defer CA p front b then do {
       h \<leftarrow> (if qe_in_service b \<and> ms_post_invalidate b then replace_upgrade_at CA pkt h else Some h);
       tl_add CA now m True pkt when_ready order FromCPU True alloc h }
     else tl_add CA now m False pkt when_ready order FromCPU (\<not> qe_in_service b) alloc h }"

text \<open>
  A snoop that hits an MSHR. The last part runs when the MSHR has been sent downstream; \<open>new Packet\<close>
  appends to the packets. The result tells whether the MSHR is going to respond.
\<close>

definition snoop_copy :: "cmd_attrs \<Rightarrow> tick \<Rightarrow> nat \<Rightarrow> u64 \<Rightarrow> bool \<Rightarrow> nat \<Rightarrow> gem_store \<Rightarrow> gem_store option" where
  "snoop_copy CA now pkt order will_respond m h = do {
     p \<leftarrow> nth_opt (gs_packets h) pkt;
     b \<leftarrow> nth_opt (gs_mshrs h) m;
     let cp = (if will_respond then copy_packet p else new_packet (pkt_req p) (pkt_cmd p) (qe_blk_size b));
         h = h\<lparr>gs_packets := gs_packets h @ [cp]\<rparr> in do {
       h \<leftarrow> (if will_respond then upd_packet pkt (\<lambda>p. p\<lparr>cache_responding := True, responder_had_writable := True\<rparr>) h
         else if ms_pending_modified b \<and> is_clean CA (pkt_cmd p) then upd_packet pkt (\<lambda>p. p\<lparr>pkt_satisfied := True\<rparr>) h
         else Some h);
       h \<leftarrow> tl_add CA now m False (length (gs_packets h) - 1) now order FromSnoop
         (ms_downstream_pending b \<and> tl_needs_writable (ms_targets b)) False h;
       if needs_writable CA (pkt_cmd p) \<or> is_invalidate CA (pkt_cmd p)
       then upd_mshr m (\<lambda>b. b\<lparr>ms_post_invalidate := True\<rparr>) h else Some h } }"

definition ms_handle_snoop :: "cmd_attrs \<Rightarrow> tick \<Rightarrow> nat \<Rightarrow> u64 \<Rightarrow> nat \<Rightarrow> gem_store \<Rightarrow> (bool \<times> gem_store) option" where
  "ms_handle_snoop CA now pkt order m h = do {
     p \<leftarrow> nth_opt (gs_packets h) pkt;
     b \<leftarrow> nth_opt (gs_mshrs h) m;
     let nw = needs_writable CA (pkt_cmd p); inv = is_invalidate CA (pkt_cmd p); r = pkt_req p in do {
       cpp_assert (\<not> (nw \<noteq> inv \<and> \<not> req_maintenance r));
       if \<not> qe_in_service b \<or> (pkt_express_snoop p \<and> ms_downstream_pending b) then do {
         h \<leftarrow> (if nw \<or> req_cache_invalidate r
           then do { h \<leftarrow> tl_replace_upgrades CA m False h; tl_replace_upgrades CA m True h } else Some h);
         Some (False, h) }
       else do {
         h \<leftarrow> (if nw \<or> req_cache_invalidate r then tl_replace_upgrades CA m True h else Some h);
         front \<leftarrow> front_packet b h;
         if ms_post_invalidate b \<or> req_cache_invalidate (pkt_req front) then Some (True, h)
         else do {
           p \<leftarrow> nth_opt (gs_packets h) pkt;
           let nw = needs_writable CA (pkt_cmd p); inv = is_invalidate CA (pkt_cmd p);
               will_respond = ms_pending_modified b \<and> needs_response CA (pkt_cmd p) \<and> \<not> is_clean CA (pkt_cmd p) in do {
             h \<leftarrow> (if ms_pending_modified b \<or> inv then snoop_copy CA now pkt order will_respond m h else Some h);
             h \<leftarrow> (if \<not> nw \<and> \<not> req_uncacheable r then do {
                 h \<leftarrow> upd_mshr m (\<lambda>b. b\<lparr>ms_post_downgrade := True\<rparr>) h;
                 upd_packet pkt (\<lambda>p. p\<lparr>pkt_has_sharers := True\<rparr>) h } else Some h);
             Some (will_respond, h) } } } } }"

section \<open>Responses and promotion\<close>

text \<open>The loop that takes the snoops out; another prefetcher target fails the assertion.\<close>

fun split_snoops :: "target list \<Rightarrow> (target list \<times> target list) option" where
  "split_snoops [] = Some ([], [])"
| "split_snoops (t # ts) = (if tg_source t = FromCPU
     then do { (ready, rest) \<leftarrow> split_snoops ts; Some (ready, t # rest) }
     else do { cpp_assert (tg_source t = FromSnoop); (ready, rest) \<leftarrow> split_snoops ts; Some (t # ready, rest) })"

text \<open>The loop that takes targets up to a locked read, which is taken and stays.\<close>

fun take_serviceable :: "packet list \<Rightarrow> target list \<Rightarrow> (target list \<times> target list) option" where
  "take_serviceable pkts [] = Some ([], [])"
| "take_serviceable pkts (t # ts) = do {
     p \<leftarrow> nth_opt pkts (tg_pkt t);
     if pkt_cmd p = LockedRMWReadReq then Some ([t], t # ts)
     else do { (ready, rest) \<leftarrow> take_serviceable pkts ts; Some (t # ready, rest) } }"

definition split_serviceable :: "packet list \<Rightarrow> packet \<Rightarrow> target list \<Rightarrow> (target list \<times> target list) option" where
  "split_serviceable pkts pkt ts =
     (if pkt_cmd pkt = ReadRespWithInvalidate then (case ts of
        [] \<Rightarrow> None
      | t # ts' \<Rightarrow> do {
          cpp_assert (tg_source t = FromCPU \<or> tg_source t = FromPrefetcher);
          p \<leftarrow> nth_opt pkts (tg_pkt t);
          if pkt_cmd p = LockedRMWReadReq then Some ([t], ts)
          else do { (ready, rest) \<leftarrow> split_snoops ts'; Some (t # ready, rest) } })
      else take_serviceable pkts ts)"

definition ms_extract_serviceable :: "cmd_attrs \<Rightarrow> nat \<Rightarrow> nat \<Rightarrow> gem_store \<Rightarrow> (target_list \<times> gem_store) option" where
  "ms_extract_serviceable CA pkt m h = do {
     p \<leftarrow> nth_opt (gs_packets h) pkt;
     b \<leftarrow> nth_opt (gs_mshrs h) m;
     (ready, rest) \<leftarrow> split_serviceable (gs_packets h) p (tl_targets (ms_targets b));
     rl \<leftarrow> tl_populate_flags CA (gs_packets h)
       ((tl_init (qe_blk_addr b) (ucast (qe_blk_size b)) new_target_list)\<lparr>tl_targets := ready\<rparr>);
     l \<leftarrow> tl_populate_flags CA (gs_packets h) ((ms_targets b)\<lparr>tl_targets := rest\<rparr>);
     h \<leftarrow> upd_mshr m (\<lambda>b. b\<lparr>ms_targets := l\<rparr>) h;
     Some (rl, h) }"

definition ms_pop_target :: "nat \<Rightarrow> gem_store \<Rightarrow> gem_store option" where
  "ms_pop_target m h = do {
     b \<leftarrow> nth_opt (gs_mshrs h) m;
     cpp_assert (ms_has_targets b);
     upd_mshr m (\<lambda>b. b\<lparr>ms_targets := (ms_targets b)\<lparr>tl_targets := tl (tl_targets (ms_targets b))\<rparr>\<rparr>) h }"

text \<open>Whether the packet of a target is a cache maintenance request.\<close>

definition is_maintenance_target :: "packet list \<Rightarrow> target \<Rightarrow> bool" where
  "is_maintenance_target pkts t \<longleftrightarrow> (case nth_opt pkts (tg_pkt t) of None \<Rightarrow> False | Some p \<Rightarrow> req_maintenance (pkt_req p))"

definition promoted_targets :: "packet list \<Rightarrow> target list \<Rightarrow> target list \<Rightarrow> target list \<times> target list" where
  "promoted_targets pkts ts ds =
     (let before = takeWhile (\<lambda>t. \<not> is_maintenance_target pkts t) ds in
      if before = [] then (case ds of d # ds' \<Rightarrow> if ts = [] then ([d], ds') else (ts, ds) | [] \<Rightarrow> (ts, ds))
      else (ts @ before, dropWhile (\<lambda>t. \<not> is_maintenance_target pkts t) ds))"

definition ms_promote_deferred :: "cmd_attrs \<Rightarrow> tick \<Rightarrow> nat \<Rightarrow> gem_store \<Rightarrow> (bool \<times> gem_store) option" where
  "ms_promote_deferred CA now m h = do {
     b \<leftarrow> nth_opt (gs_mshrs h) m;
     if tl_targets (ms_targets b) = [] \<and> tl_targets (ms_deferred b) = [] then Some (False, h)
     else do {
       cpp_assert (\<forall>t \<in> set (tl_targets (ms_deferred b)). tg_pkt t < length (gs_packets h));
       let (ts, ds) = promoted_targets (gs_packets h) (tl_targets (ms_targets b)) (tl_targets (ms_deferred b)) in do {
         dl \<leftarrow> tl_populate_flags CA (gs_packets h) ((ms_deferred b)\<lparr>tl_targets := ds\<rparr>);
         l \<leftarrow> tl_populate_flags CA (gs_packets h) ((ms_targets b)\<lparr>tl_targets := ts\<rparr>);
         front \<leftarrow> nth_opt ts 0;
         h \<leftarrow> upd_mshr m (\<lambda>b. b\<lparr>ms_deferred := dl, ms_targets := l, qe_order := tg_order front,
           qe_ready_time := max now (tg_ready front)\<rparr>) h;
         Some (True, h) } } }"

text \<open>The prefix of the deferred targets on which a predicate holds; evaluating the predicate may fail.\<close>

fun prefix_len :: "(target \<Rightarrow> bool option) \<Rightarrow> target list \<Rightarrow> nat option" where
  "prefix_len pred [] = Some 0"
| "prefix_len pred (t # ts) = do { ok \<leftarrow> pred t; if ok then map_option Suc (prefix_len pred ts) else Some 0 }"

definition ms_promote_if :: "cmd_attrs \<Rightarrow> (target \<Rightarrow> bool option) \<Rightarrow> nat \<Rightarrow> gem_store \<Rightarrow> gem_store option" where
  "ms_promote_if CA pred m h = do {
     b \<leftarrow> nth_opt (gs_mshrs h) m;
     cpp_assert (\<not> ms_downstream_pending b);
     n \<leftarrow> prefix_len pred (tl_targets (ms_deferred b));
     h \<leftarrow> tl_clear_downstream_pending m True n h;
     b \<leftarrow> nth_opt (gs_mshrs h) m;
     dl \<leftarrow> tl_populate_flags CA (gs_packets h) ((ms_deferred b)\<lparr>tl_targets := drop n (tl_targets (ms_deferred b))\<rparr>);
     upd_mshr m (\<lambda>b. b\<lparr>ms_targets := (ms_targets b)\<lparr>tl_targets := tl_targets (ms_targets b) @ take n (tl_targets (ms_deferred b))\<rparr>,
       ms_deferred := dl\<rparr>) h }"

definition readable_target :: "cmd_attrs \<Rightarrow> packet list \<Rightarrow> target \<Rightarrow> bool option" where
  "readable_target CA pkts t = do {
     cpp_assert (tg_source t = FromCPU);
     p \<leftarrow> nth_opt pkts (tg_pkt t);
     Some (\<not> req_cache_invalidate (pkt_req p) \<and> \<not> needs_writable CA (pkt_cmd p)) }"

definition ms_promote_readable :: "cmd_attrs \<Rightarrow> nat \<Rightarrow> gem_store \<Rightarrow> gem_store option" where
  "ms_promote_readable CA m h = do {
     b \<leftarrow> nth_opt (gs_mshrs h) m;
     if tl_targets (ms_deferred b) = [] then Some h
     else do {
       pi \<leftarrow> ms_has_post_invalidate b;
       if pi then Some h else ms_promote_if CA (readable_target CA (gs_packets h)) m h } }"

definition writable_target :: "packet list \<Rightarrow> target \<Rightarrow> bool option" where
  "writable_target pkts t = do {
     cpp_assert (tg_source t = FromCPU);
     p \<leftarrow> nth_opt pkts (tg_pkt t);
     Some (\<not> req_cache_invalidate (pkt_req p)) }"

definition ms_promote_writable :: "cmd_attrs \<Rightarrow> nat \<Rightarrow> gem_store \<Rightarrow> gem_store option" where
  "ms_promote_writable CA m h = do {
     b \<leftarrow> nth_opt (gs_mshrs h) m;
     (case tl_targets (ms_deferred b) of [] \<Rightarrow> Some h | d # _ \<Rightarrow>
       if \<not> tl_needs_writable (ms_deferred b) then Some h
       else do {
         pi \<leftarrow> ms_has_post_invalidate b;
         pd \<leftarrow> (if pi then Some True else ms_has_post_downgrade b);
         stop \<leftarrow> (if pd then Some True else map_option (\<lambda>p. req_cache_invalidate (pkt_req p)) (nth_opt (gs_packets h) (tg_pkt d)));
         if stop then Some h
         else do {
           cpp_assert (\<not> tl_needs_writable (ms_targets b));
           h \<leftarrow> upd_mshr m (\<lambda>b. b\<lparr>ms_targets := (ms_targets b)\<lparr>tl_needs_writable := True\<rparr>\<rparr>) h;
           ms_promote_if CA (writable_target (gs_packets h)) m h } }) }"

definition ms_delay :: "tick \<Rightarrow> tick \<Rightarrow> nat \<Rightarrow> gem_store \<Rightarrow> gem_store option" where
  "ms_delay now ticks m h = do {
     b \<leftarrow> nth_opt (gs_mshrs h) m;
     cpp_assert (qe_ready_time b \<le> now);
     upd_mshr m (\<lambda>b. b\<lparr>qe_ready_time := now + ticks\<rparr>) h }"

definition ms_update_locked_rmw_read_target :: "nat \<Rightarrow> nat \<Rightarrow> gem_store \<Rightarrow> gem_store option" where
  "ms_update_locked_rmw_read_target pkt m h = do {
     b \<leftarrow> nth_opt (gs_mshrs h) m;
     t \<leftarrow> ms_front b;
     cpp_assert (tg_pkt t = pkt);
     p \<leftarrow> nth_opt (gs_packets h) pkt;
     upd_mshr m (\<lambda>b. b\<lparr>ms_targets := (ms_targets b)\<lparr>tl_targets :=
         (tl_targets (ms_targets b))[0 := t\<lparr>tg_pkt := length (gs_packets h)\<rparr>]\<rparr>\<rparr>)
       (h\<lparr>gs_packets := gs_packets h @ [new_packet (pkt_req p) LockedRMWReadReq 0]\<rparr>) }"

definition ms_has_locked_rmw_read_target :: "nat \<Rightarrow> gem_store \<Rightarrow> bool option" where
  "ms_has_locked_rmw_read_target m h = do {
     b \<leftarrow> nth_opt (gs_mshrs h) m;
     if \<not> ms_has_targets b then Some False
     else do { p \<leftarrow> front_packet b h; Some (pkt_cmd p = LockedRMWReadReq) } }"

section \<open>The queue of MSHRs\<close>

record mshr_queue = queue +
  mq_demand_reserve :: int

text \<open>The MSHRs of the new queue are appended to the store.\<close>

definition new_mshr_queue :: "nat \<Rightarrow> nat \<Rightarrow> nat \<Rightarrow> gem_store \<Rightarrow> gem_store \<times> mshr_queue" where
  "new_mshr_queue num_entries reserve demand_reserve h =
     (h\<lparr>gs_mshrs := gs_mshrs h @ replicate (num_entries + reserve) new_mshr\<rparr>,
      queue.extend (new_queue (length (gs_mshrs h)) num_entries reserve) \<lparr>mq_demand_reserve = int demand_reserve\<rparr>)"

definition mq_allocate ::
  "cmd_attrs \<Rightarrow> tick \<Rightarrow> u64 \<Rightarrow> u32 \<Rightarrow> nat \<Rightarrow> tick \<Rightarrow> u64 \<Rightarrow> bool \<Rightarrow> gem_store \<times> mshr_queue \<Rightarrow> (nat \<times> gem_store \<times> mshr_queue) option" where
  "mq_allocate CA now blk_addr blk_size pkt when_ready order alloc st =
     queue_allocate ms_num_targets (ms_allocate CA now blk_addr blk_size pkt when_ready order alloc) gs_mshrs st"

definition mq_deallocate :: "nat \<Rightarrow> gem_store \<times> mshr_queue \<Rightarrow> (gem_store \<times> mshr_queue) option" where
  "mq_deallocate m st = (let (h, q) = st in do {
     (ms, q) \<leftarrow> queue_deallocate ms_deallocate m (gs_mshrs h, q);
     Some (h\<lparr>gs_mshrs := ms\<rparr>, q) })"

definition mq_move_to_front :: "nat \<Rightarrow> gem_store \<times> mshr_queue \<Rightarrow> (gem_store \<times> mshr_queue) option" where
  "mq_move_to_front m st = (let (h, q) = st in do {
     b \<leftarrow> nth_opt (gs_mshrs h) m;
     if qe_in_service b then Some st
     else do { r \<leftarrow> erase_iter m (q_ready_list q); Some (h, q\<lparr>q_ready_list := m # r\<rparr>) } })"

text \<open>
  \<open>find_if\<close> from the entry on; the \<open>splice\<close> moves the entry in front of what was found, which does
  nothing when that is the entry itself or its successor.
\<close>

definition move_before :: "nat \<Rightarrow> (nat \<Rightarrow> bool) \<Rightarrow> nat list \<Rightarrow> nat list" where
  "move_before m pred xs =
     (let rest = dropWhile (\<lambda>x. x \<noteq> m) xs; skipped = takeWhile (\<lambda>x. \<not> pred x) rest in
      takeWhile (\<lambda>x. x \<noteq> m) xs
        @ (if skipped = [] then rest else tl skipped @ m # drop (length skipped) rest))"

definition mq_delay :: "tick \<Rightarrow> tick \<Rightarrow> nat \<Rightarrow> gem_store \<times> mshr_queue \<Rightarrow> (gem_store \<times> mshr_queue) option" where
  "mq_delay now ticks m st = (let (h, q) = st in do {
     h \<leftarrow> ms_delay now ticks m h;
     cpp_assert (m \<in> set (q_ready_list q));
     cpp_assert (\<forall>x \<in> set (q_ready_list q). x < length (gs_mshrs h));
     let rt = (\<lambda>x. qe_ready_time (gs_mshrs h ! x)) in
     Some (h, q\<lparr>q_ready_list := move_before m (\<lambda>x. rt x \<le> rt m) (q_ready_list q)\<rparr>) })"

definition mq_mark_in_service :: "bool \<Rightarrow> nat \<Rightarrow> gem_store \<times> mshr_queue \<Rightarrow> (gem_store \<times> mshr_queue) option" where
  "mq_mark_in_service pending_modified_resp m st = (let (h, q) = st in do {
     h \<leftarrow> ms_mark_in_service pending_modified_resp m h;
     r \<leftarrow> erase_iter m (q_ready_list q);
     Some (h, q\<lparr>q_ready_list := r, q_num_in_service := q_num_in_service q + 1\<rparr>) })"

definition mq_mark_pending :: "nat \<Rightarrow> gem_store \<times> mshr_queue \<Rightarrow> (gem_store \<times> mshr_queue) option" where
  "mq_mark_pending m st = (let (h, q) = st in do {
     b \<leftarrow> nth_opt (gs_mshrs h) m;
     cpp_assert (qe_in_service b);
     h \<leftarrow> upd_mshr m (\<lambda>b. b\<lparr>qe_in_service := False\<rparr>) h;
     cpp_assert (\<forall>x \<in> set (q_ready_list q). x < length (gs_mshrs h));
     r \<leftarrow> add_to_ready_list (\<lambda>x. qe_ready_time (gs_mshrs h ! x)) m (q_ready_list q);
     Some (h, q\<lparr>q_num_in_service := q_num_in_service q - 1, q_ready_list := r\<rparr>) })"

definition mq_force_deallocate_target ::
  "cmd_attrs \<Rightarrow> tick \<Rightarrow> nat \<Rightarrow> gem_store \<times> mshr_queue \<Rightarrow> (bool \<times> gem_store \<times> mshr_queue) option" where
  "mq_force_deallocate_target CA now m st = (let (h, q) = st; was_full = is_full q in do {
     h \<leftarrow> ms_pop_target m h;
     b \<leftarrow> nth_opt (gs_mshrs h) m;
     (more, h) \<leftarrow> (if ms_has_targets b then Some (True, h) else ms_promote_deferred CA now m h);
     (h, q) \<leftarrow> (if more then Some (h, q) else mq_deallocate m (h, q));
     Some (was_full \<and> \<not> is_full q, h, q) })"

definition mq_have_pending :: "mshr_queue \<Rightarrow> bool" where
  "mq_have_pending q \<longleftrightarrow> q_ready_list q \<noteq> []"

definition mq_can_prefetch :: "mshr_queue \<Rightarrow> bool" where
  "mq_can_prefetch q \<longleftrightarrow> q_allocated q < q_num_entries q - (q_num_reserve q + 1 + mq_demand_reserve q)"

end
