(* ===== verification/GemQueueFacts.thy ===== *)
theory GemQueueFacts
  imports GemMshr "HOL-Library.Multiset"
begin

text \<open>
  Properties of the MSHRs of gem5 and of their queue. Clearing the downstream pending flags ends, as
  every call clears one. The lists and counters of the queue agree over every history of the queue and
  of the MSHRs in it. No target gets lost or changes its place when the serviceable ones are taken out or
  deferred ones are promoted. A delayed MSHR stays where it is in the ready list.
\<close>

section \<open>Clearing the downstream pending flags\<close>

lemma fold_opt_cong_inv:
  assumes "P s" "\<And>x s. P s \<Longrightarrow> f x s = g x s" "\<And>x s s'. P s \<Longrightarrow> f x s = Some s' \<Longrightarrow> P s'"
  shows "fold_opt f xs s = fold_opt g xs s"
  using assms(1)
proof (induction xs arbitrary: s)
  case (Cons x xs)
  show ?case
  proof (cases "f x s")
    case None
    then show ?thesis using assms(2) [OF Cons.prems, of x] by simp
  next
    case (Some s1)
    then show ?thesis using assms(2) [OF Cons.prems, of x] Cons.IH [OF assms(3) [OF Cons.prems Some]] by simp
  qed
qed simp

lemma upd_mshr_pending:
  assumes "upd_mshr i f h = Some h'" "\<And>b. ms_downstream_pending (f b) = ms_downstream_pending b"
  shows "map ms_downstream_pending (gs_mshrs h') = map ms_downstream_pending (gs_mshrs h)"
proof -
  from assms(1) have "i < length (gs_mshrs h)" "gs_mshrs h' = (gs_mshrs h)[i := f (gs_mshrs h ! i)]"
    by (auto simp: upd_mshr_def bind_Some_iff)
  then show ?thesis by (intro nth_equalityI) (simp_all add: nth_list_update assms(2))
qed

text \<open>A flag that is not set stays so.\<close>

definition flags_below :: "gem_store \<Rightarrow> gem_store \<Rightarrow> bool" where
  "flags_below h' h \<longleftrightarrow> length (gs_mshrs h') = length (gs_mshrs h) \<and> pending_flags h' \<le> pending_flags h
     \<and> (\<forall>i < length (gs_mshrs h). ms_downstream_pending (gs_mshrs h' ! i) \<longrightarrow> ms_downstream_pending (gs_mshrs h ! i))"

lemma flags_below_refl [simp]: "flags_below h h"
  by (simp add: flags_below_def)

lemma flags_below_trans: "flags_below h2 h1 \<Longrightarrow> flags_below h1 h \<Longrightarrow> flags_below h2 h"
  by (auto simp: flags_below_def)

lemma flags_below_same:
  assumes "map ms_downstream_pending (gs_mshrs h') = map ms_downstream_pending (gs_mshrs h)"
  shows "flags_below h' h"
proof -
  from assms have len: "length (gs_mshrs h') = length (gs_mshrs h)" by (rule map_eq_imp_length_eq)
  have "count_if (\<lambda>b. b) (map ms_downstream_pending (gs_mshrs h')) = count_if (\<lambda>b. b) (map ms_downstream_pending (gs_mshrs h))"
    using assms by simp
  then have "pending_flags h' = pending_flags h" by (simp add: pending_flags_def count_if_def filter_map o_def)
  moreover have "ms_downstream_pending (gs_mshrs h' ! i) = ms_downstream_pending (gs_mshrs h ! i)" if "i < length (gs_mshrs h)" for i
    using arg_cong [OF assms, of "\<lambda>xs. xs ! i"] that len by simp
  ultimately show ?thesis using len by (simp add: flags_below_def)
qed

lemma clear_target_below:
  assumes "clear_target clear m d i h = Some h'" "\<And>u h h'. clear u h = Some h' \<Longrightarrow> flags_below h' h"
  shows "flags_below h' h"
proof -
  have upd: "flags_below h2 h1" if "upd_mshr m (upd_list d f) h1 = Some h2" for f h1 h2
    using that by (rule flags_below_same [OF upd_mshr_pending]) (simp add: upd_list_def)
  let ?f = "\<lambda>l :: target_list. l\<lparr>tl_targets := (tl_targets l)[i := (tl_targets l ! i)\<lparr>tg_marked := False\<rparr>]\<rparr>"
  from assms(1) obtain t :: target where rest: "(if \<not> tg_marked t then Some h else do {
       p \<leftarrow> nth_opt (gs_packets h) (tg_pkt t);
       h \<leftarrow> (case pkt_mshr p of None \<Rightarrow> Some h | Some up \<Rightarrow> clear up h);
       upd_mshr m (upd_list d ?f) h }) = Some h'"
    unfolding clear_target_def bind_Some_iff by blast
  show ?thesis
  proof (cases "tg_marked t")
    case True
    with rest obtain p :: packet and h1 where h1: "(case pkt_mshr p of None \<Rightarrow> Some h | Some up \<Rightarrow> clear up h) = Some h1"
      "upd_mshr m (upd_list d ?f) h1 = Some h'" by (auto simp only: bind_Some_iff if_False not_True_eq_False)
    from h1(1) have "flags_below h1 h" using assms(2) by (cases "pkt_mshr p") auto
    with upd [OF h1(2)] show ?thesis by (rule flags_below_trans)
  qed (use rest in simp)
qed

lemma clear_targets_below:
  assumes "clear_targets clear m d n h = Some h'" "\<And>u h h'. clear u h = Some h' \<Longrightarrow> flags_below h' h"
  shows "flags_below h' h"
  using assms(1) unfolding clear_targets_def
proof (rule fold_opt_rule [where P = "\<lambda>s. flags_below s h"])
  fix i s s'
  assume s: "clear_target clear m d i s = Some s'" "flags_below s h"
  have "flags_below s' s" by (rule clear_target_below [OF s(1)]) (rule assms(2))
  then show "flags_below s' h" by (rule flags_below_trans) (rule s(2))
qed simp

lemma clear_own_flag:
  assumes "i < length (gs_mshrs h)" "ms_downstream_pending (gs_mshrs h ! i)"
  defines "h1 \<equiv> h\<lparr>gs_mshrs := (gs_mshrs h)[i := (gs_mshrs h ! i)\<lparr>ms_downstream_pending := False\<rparr>]\<rparr>"
  shows "Suc (pending_flags h1) = pending_flags h" "flags_below h1 h"
    "\<not> ms_downstream_pending (gs_mshrs h1 ! i)"
proof -
  show "Suc (pending_flags h1) = pending_flags h"
    using assms count_if_update [of i "gs_mshrs h" ms_downstream_pending "(gs_mshrs h ! i)\<lparr>ms_downstream_pending := False\<rparr>"]
    by (simp add: pending_flags_def)
  then show "flags_below h1 h" using assms(1) by (auto simp: flags_below_def h1_def nth_list_update)
qed (use assms(1) in \<open>simp add: h1_def\<close>)

lemma clear_downstream_below:
  assumes "clear_downstream (\<lambda>_ _. None) fuel m h = Some h'"
  shows "flags_below h' h \<and> pending_flags h' < pending_flags h \<and> m < length (gs_mshrs h)
    \<and> ms_downstream_pending (gs_mshrs h ! m) \<and> \<not> ms_downstream_pending (gs_mshrs h' ! m)"
  using assms
proof (induction fuel arbitrary: m h h')
  case (Suc fuel)
  let ?h1 = "h\<lparr>gs_mshrs := (gs_mshrs h)[m := (gs_mshrs h ! m)\<lparr>ms_downstream_pending := False\<rparr>]\<rparr>"
  from Suc.prems have m: "m < length (gs_mshrs h)" "ms_downstream_pending (gs_mshrs h ! m)"
    and rest: "clear_targets (clear_downstream (\<lambda>_ _. None) fuel) m False
      (length (tl_targets (ms_targets (gs_mshrs h ! m)))) ?h1 = Some h'"
    by (auto simp: bind_Some_iff upd_mshr_def)
  note own = clear_own_flag [OF m]
  from clear_targets_below [OF rest] Suc.IH have "flags_below h' ?h1" by blast
  with own m(1) show ?case by (auto simp: flags_below_def m(2))
qed simp

text \<open>With more fuel than flags the answer \<open>stop\<close> to a call without fuel does not matter.\<close>

lemma clear_downstream_fuel:
  assumes "pending_flags h < f1" "pending_flags h < f2"
  shows "clear_downstream stop f1 m h = clear_downstream (\<lambda>_ _. None) f2 m h"
  using assms
proof (induction f1 arbitrary: f2 m h)
  case (Suc a)
  then obtain b where f2: "f2 = Suc b" by (cases f2) auto
  let ?A = "clear_downstream stop a" and ?B = "clear_downstream (\<lambda>_ _. None) b"
  show ?case
  proof (cases "m < length (gs_mshrs h) \<and> ms_downstream_pending (gs_mshrs h ! m)")
    case False
    then show ?thesis
    proof (cases "nth_opt (gs_mshrs h) m")
      case None
      then show ?thesis by (simp add: f2 None del: nth_opt_None)
    qed (auto simp: f2)
  next
    case True
    let ?h1 = "h\<lparr>gs_mshrs := (gs_mshrs h)[m := (gs_mshrs h ! m)\<lparr>ms_downstream_pending := False\<rparr>]\<rparr>"
    have own: "Suc (pending_flags ?h1) = pending_flags h" using clear_own_flag(1) True by blast
    have same: "?A u s = ?B u s" if "pending_flags s \<le> pending_flags ?h1" for u s
      using that own Suc.prems by (intro Suc.IH) (auto simp: f2)
    have eq: "clear_target ?A m d i s = clear_target ?B m d i s"
      if "pending_flags s \<le> pending_flags ?h1" for d i s
      unfolding clear_target_def same [OF that] ..
    have le: "pending_flags s' \<le> pending_flags ?h1"
      if "pending_flags s \<le> pending_flags ?h1" "clear_target ?A m d i s = Some s'" for d i s s'
    proof -
      have "flags_below s' s"
        by (rule clear_target_below [OF that(2) [unfolded eq [OF that(1)]]]) (use clear_downstream_below in blast)
      with that(1) show ?thesis by (simp add: flags_below_def)
    qed
    have all: "clear_targets ?A m d n ?h1 = clear_targets ?B m d n ?h1" for d n
      unfolding clear_targets_def
    proof (rule fold_opt_cong_inv [where P = "\<lambda>s. pending_flags s \<le> pending_flags ?h1"])
    qed (rule order.refl eq le, assumption?)+
    have "clear_downstream out (Suc k) m h
        = clear_targets (clear_downstream out k) m False (length (tl_targets (ms_targets (gs_mshrs h ! m)))) ?h1" for out k
      using True by (simp add: upd_mshr_def)
    then show ?thesis unfolding f2 using all by simp
  qed
qed simp


text \<open>C35: \<open>MSHR::clearDownstreamPending\<close>, which calls itself on the MSHRs of the caches above, ends on every
  store, cycles of MSHRs included: with more fuel than there are flags no call is ever made without
  fuel, so whatever \<open>stop\<close> would answer to one, the run is that of the model and no more fuel changes
  it. When it returns, the flag of the MSHR is clear, no flag has been set and at least one has been
  cleared; it can only be called on an MSHR whose flag is set.\<close>

theorem clear_downstream_pending_terminates:
  assumes "pending_flags h < fuel"
  shows "clear_downstream stop fuel m h = ms_clear_downstream_pending m h \<and>
    (\<forall>h'. ms_clear_downstream_pending m h = Some h' \<longrightarrow>
      pending_flags h' < pending_flags h \<and> ms_downstream_pending (gs_mshrs h ! m) \<and> \<not> ms_downstream_pending (gs_mshrs h' ! m)
      \<and> (\<forall>i < length (gs_mshrs h). ms_downstream_pending (gs_mshrs h' ! i) \<longrightarrow> ms_downstream_pending (gs_mshrs h ! i)))"
proof -
  have "clear_downstream stop fuel m h = ms_clear_downstream_pending m h"
    unfolding ms_clear_downstream_pending_def by (rule clear_downstream_fuel [OF assms lessI])
  then show ?thesis
    using clear_downstream_below [of "Suc (pending_flags h)" m h] unfolding ms_clear_downstream_pending_def flags_below_def by blast
qed

definition sample_request :: request where
  "sample_request = \<lparr>req_paddr = 0x40, req_size = 8, req_requestor = 1, req_context = 0, req_task = 0, req_flags = 0,
     req_uncacheable = False, req_maintenance = False, req_cache_invalidate = False\<rparr>"

text \<open>A write and the write of a lower cache that comes from the MSHR 0.\<close>

definition sample_packets :: "packet list" where
  "sample_packets = [(new_packet sample_request WriteReq 8)\<lparr>pkt_addr := 0x40\<rparr>,
     (new_packet sample_request WriteReq 8)\<lparr>pkt_addr := 0x40, pkt_mshr := Some 0\<rparr>]"

text \<open>Two caches with a queue of two MSHRs each; the first MSHR of each is allocated.\<close>

definition two_level_store :: "(gem_store \<times> mshr_queue \<times> mshr_queue) option" where
  "two_level_store = (let (h, q1) = new_mshr_queue 2 0 0 \<lparr>gs_packets = sample_packets, gs_mshrs = []\<rparr>;
     (h, q2) = new_mshr_queue 2 0 0 h in do {
     (m1, h, q1) \<leftarrow> mq_allocate stub_attrs 5 0x40 64 0 7 0 True (h, q1);
     (m2, h, q2) \<leftarrow> mq_allocate stub_attrs 6 0x40 64 1 8 1 True (h, q2);
     Some (h, q1, q2) })"

text \<open>An MSHR whose only target is the packet of its own allocation: the shortest cycle.\<close>

definition cyclic_store :: "(gem_store \<times> mshr_queue) option" where
  "cyclic_store = (let (h, q) = new_mshr_queue 2 0 0
       \<lparr>gs_packets = [(new_packet sample_request WriteReq 8)\<lparr>pkt_addr := 0x40\<rparr>], gs_mshrs = []\<rparr> in do {
     (m, h, q) \<leftarrow> mq_allocate stub_attrs 5 0x40 64 0 7 0 True (h, q);
     h \<leftarrow> upd_packet 0 (\<lambda>p. p\<lparr>pkt_mshr := Some m\<rparr>) h;
     h \<leftarrow> upd_mshr m (\<lambda>b. b\<lparr>ms_downstream_pending := True\<rparr>) h;
     h \<leftarrow> upd_mshr m (upd_list False (\<lambda>l. l\<lparr>tl_targets := map (\<lambda>t. t\<lparr>tg_marked := True\<rparr>) (tl_targets l)\<rparr>)) h;
     Some (h, q) })"

theorem clear_downstream_pending_terminates_witness:
  "(\<exists>h q1 q2 h'. two_level_store = Some (h, q1, q2) \<and> ms_clear_downstream_pending 0 h = Some h'
     \<and> pending_flags h = 1 \<and> pending_flags h' = 0 \<and> clear_downstream (\<lambda>_. Some) 9 0 h = Some h')
   \<and> (\<exists>h q. cyclic_store = Some (h, q) \<and> pending_flags h = 1
     \<and> clear_downstream (\<lambda>_. Some) 1 0 h \<noteq> None \<and> clear_downstream (\<lambda>_. Some) 2 0 h = ms_clear_downstream_pending 0 h)"
proof -
  have "case two_level_store of None \<Rightarrow> False | Some (h, q1, q2) \<Rightarrow> pending_flags h = 1
      \<and> ms_clear_downstream_pending 0 h \<noteq> None" by code_simp
  then obtain h q1 q2 h' where h: "two_level_store = Some (h, q1, q2)" "pending_flags h = 1"
    "ms_clear_downstream_pending 0 h = Some h'" by (auto split: option.splits)
  have fuel: "pending_flags h < 9" using h(2) by simp
  have one: "clear_downstream (\<lambda>_. Some) 9 0 h = Some h'" "pending_flags h' < 1"
    using clear_downstream_pending_terminates [OF fuel, of "\<lambda>_. Some" 0] h(2,3) by simp_all
  have "case cyclic_store of None \<Rightarrow> False | Some (c, q) \<Rightarrow> pending_flags c = 1
      \<and> clear_downstream (\<lambda>_. Some) 1 0 c \<noteq> None" by code_simp
  then obtain c q where c: "cyclic_store = Some (c, q)" "pending_flags c = 1"
    "clear_downstream (\<lambda>_. Some) 1 0 c \<noteq> None" by (auto split: option.splits)
  have "pending_flags c < 2" using c(2) by simp
  from clear_downstream_pending_terminates [OF this] have "clear_downstream (\<lambda>_. Some) 2 0 c = ms_clear_downstream_pending 0 c"
    by blast
  with one h c show ?thesis by (auto simp: eval_nat_numeral)
qed

section \<open>What operations keep\<close>

text \<open>Every result of a computation, read by \<open>sel\<close>, has the value \<open>S\<close> of \<open>\<pi>\<close>.\<close>

definition keeps :: "(gem_store \<Rightarrow> 's) \<Rightarrow> ('x \<Rightarrow> gem_store) \<Rightarrow> 's \<Rightarrow> 'x option \<Rightarrow> bool" where
  "keeps \<pi> sel S r \<longleftrightarrow> (\<forall>x. r = Some x \<longrightarrow> \<pi> (sel x) = S)"

lemma keepsD: "keeps \<pi> sel S r \<Longrightarrow> r = Some x \<Longrightarrow> \<pi> (sel x) = S"
  by (simp add: keeps_def)

lemma keeps_Some: "\<pi> (sel x) = S \<Longrightarrow> keeps \<pi> sel S (Some x)"
  by (simp add: keeps_def)

lemma keeps_bind:
  "keeps \<pi> sel' S e \<Longrightarrow> (\<And>x. \<pi> (sel' x) = S \<Longrightarrow> keeps \<pi> sel S (k x)) \<Longrightarrow> keeps \<pi> sel S (e \<bind> k)"
  by (auto simp: keeps_def bind_Some_iff)

lemma keeps_bind_store:
  "keeps \<pi> (\<lambda>h. h) S e \<Longrightarrow> (\<And>h. \<pi> h = S \<Longrightarrow> keeps \<pi> sel S (k h)) \<Longrightarrow> keeps \<pi> sel S (e \<bind> k)"
  by (rule keeps_bind)

lemma keeps_bind_pair:
  "keeps \<pi> snd S e \<Longrightarrow> (\<And>x h. \<pi> h = S \<Longrightarrow> keeps \<pi> sel S (k x h)) \<Longrightarrow> keeps \<pi> sel S (e \<bind> (\<lambda>(x, h). k x h))"
  by (rule keeps_bind) auto

lemma keeps_bind_pure: "(\<And>x. e = Some x \<Longrightarrow> keeps \<pi> sel S (k x)) \<Longrightarrow> keeps \<pi> sel S (e \<bind> k)"
  by (auto simp: keeps_def bind_Some_iff)

lemma keeps_if: "keeps \<pi> sel S a \<Longrightarrow> keeps \<pi> sel S b \<Longrightarrow> keeps \<pi> sel S (if c then a else b)"
  by simp

lemma keeps_option: "keeps \<pi> sel S a \<Longrightarrow> (\<And>x. keeps \<pi> sel S (f x)) \<Longrightarrow> keeps \<pi> sel S (case p of None \<Rightarrow> a | Some x \<Rightarrow> f x)"
  by (simp split: option.split)

lemma keeps_list: "keeps \<pi> sel S a \<Longrightarrow> (\<And>x xs. keeps \<pi> sel S (f x xs)) \<Longrightarrow> keeps \<pi> sel S (case p of [] \<Rightarrow> a | x # xs \<Rightarrow> f x xs)"
  by (simp split: list.split)

lemma keeps_prod: "(\<And>x y. keeps \<pi> sel S (f x y)) \<Longrightarrow> keeps \<pi> sel S (case p of (x, y) \<Rightarrow> f x y)"
  by (simp split: prod.split)

lemma keeps_fold:
  assumes "\<pi> h = S" "\<And>x h. \<pi> h = S \<Longrightarrow> keeps \<pi> (\<lambda>h. h) S (f x h)"
  shows "keeps \<pi> (\<lambda>h. h) S (fold_opt f xs h)"
  using assms(1)
proof (induction xs arbitrary: h)
  case (Cons x xs)
  show ?case unfolding fold_opt.simps
    by (rule keeps_bind_store [OF assms(2) [OF Cons.prems]]) (rule Cons.IH)
qed (simp add: keeps_def)

lemmas keeps_rules = keeps_Some keeps_bind_store keeps_bind_pair keeps_if keeps_option keeps_list keeps_prod keeps_bind_pure

text \<open>Clearing flags and marks keeps whatever these two updates keep.\<close>

lemma keeps_clear_targets:
  assumes "\<And>u h. \<pi> h = S \<Longrightarrow> keeps \<pi> (\<lambda>h. h) S (clear u h)"
    and "\<And>m d i h. \<pi> h = S \<Longrightarrow> keeps \<pi> (\<lambda>h. h) S (upd_mshr m (upd_list d
      (\<lambda>l. l\<lparr>tl_targets := (tl_targets l)[i := (tl_targets l ! i)\<lparr>tg_marked := False\<rparr>]\<rparr>)) h)"
    and "\<pi> h = S"
  shows "keeps \<pi> (\<lambda>h. h) S (clear_targets clear m d n h)"
  unfolding clear_targets_def
proof (rule keeps_fold)
  show "\<pi> h = S" by (rule assms(3))
  fix i h
  assume h: "\<pi> h = S"
  show "keeps \<pi> (\<lambda>h. h) S (clear_target clear m d i h)"
    unfolding clear_target_def by (rule assms(2) keeps_rules assms(1) | simp add: h)+
qed

lemma keeps_clear_downstream:
  assumes "\<And>m d i h. \<pi> h = S \<Longrightarrow> keeps \<pi> (\<lambda>h. h) S (upd_mshr m (upd_list d
      (\<lambda>l. l\<lparr>tl_targets := (tl_targets l)[i := (tl_targets l ! i)\<lparr>tg_marked := False\<rparr>]\<rparr>)) h)"
    and "\<And>m h. \<pi> h = S \<Longrightarrow> keeps \<pi> (\<lambda>h. h) S (upd_mshr m (\<lambda>b. b\<lparr>ms_downstream_pending := False\<rparr>) h)"
    and "\<And>m h. \<pi> h = S \<Longrightarrow> keeps \<pi> (\<lambda>h. h) S (stop m h)"
    and "\<pi> h = S"
  shows "keeps \<pi> (\<lambda>h. h) S (clear_downstream stop fuel m h)"
  using assms(4)
proof (induction fuel arbitrary: m h)
  case (Suc fuel)
  show ?case unfolding clear_downstream.simps
    by (rule keeps_clear_targets [OF Suc.IH assms(1)] assms(2) [OF Suc.prems] keeps_rules | assumption)+
qed (simp add: assms(3))

section \<open>What keeps the entries in service\<close>

definition services :: "gem_store \<Rightarrow> bool list" where
  "services h = map qe_in_service (gs_mshrs h)"

abbreviation serves :: "('x \<Rightarrow> gem_store) \<Rightarrow> bool list \<Rightarrow> 'x option \<Rightarrow> bool" where
  "serves \<equiv> keeps services"

lemma serves_upd_mshr:
  assumes "services h = S" "\<And>b. qe_in_service (f b) = qe_in_service b"
  shows "serves (\<lambda>h. h) S (upd_mshr i f h)"
  using assms(1)
  by (auto simp: keeps_def upd_mshr_def bind_Some_iff services_def assms(2) nth_list_update intro!: nth_equalityI split: if_splits)

lemma serves_upd_packet: "services h = S \<Longrightarrow> serves (\<lambda>h. h) S (upd_packet i f h)"
  by (auto simp: keeps_def upd_packet_def bind_Some_iff services_def)

lemma serves_upd_list: "services h = S \<Longrightarrow> serves (\<lambda>h. h) S (upd_mshr m (upd_list d f) h)"
  by (rule serves_upd_mshr) (simp_all add: upd_list_def)

lemmas serves_rules = serves_upd_mshr serves_upd_packet keeps_rules

lemma serves_tl_add: "services h = S \<Longrightarrow> serves (\<lambda>h. h) S (tl_add CA now m d pkt ready order src mark alloc h)"
  unfolding tl_add_def by (rule serves_rules | simp add: upd_list_def)+

lemma serves_replace_upgrade_at: "services h = S \<Longrightarrow> serves (\<lambda>h. h) S (replace_upgrade_at CA i h)"
  unfolding replace_upgrade_at_def by (rule serves_rules | simp)+

lemma serves_tl_replace_upgrades: "services h = S \<Longrightarrow> serves (\<lambda>h. h) S (tl_replace_upgrades CA m d h)"
  unfolding tl_replace_upgrades_def
  by (rule keeps_fold serves_replace_upgrade_at serves_rules | simp add: upd_list_def)+

lemma serves_clear_downstream: "services h = S \<Longrightarrow> serves (\<lambda>h. h) S (clear_downstream (\<lambda>_ _. None) fuel m h)"
  by (rule keeps_clear_downstream) (rule serves_upd_list serves_upd_mshr | simp add: keeps_def)+

lemma serves_tl_clear: "services h = S \<Longrightarrow> serves (\<lambda>h. h) S (tl_clear_downstream_pending m d n h)"
  unfolding tl_clear_downstream_pending_def
  by (rule keeps_clear_targets [OF serves_clear_downstream serves_upd_list])

lemmas serves_ops = serves_tl_add serves_replace_upgrade_at serves_tl_replace_upgrades serves_tl_clear serves_rules

lemma serves_ms_clear: "services h = S \<Longrightarrow> serves (\<lambda>h. h) S (ms_clear_downstream_pending m h)"
  unfolding ms_clear_downstream_pending_def by (rule serves_clear_downstream)

lemma serves_allocate_target: "services h = S \<Longrightarrow> serves (\<lambda>h. h) S (ms_allocate_target CA now pkt ready order alloc m h)"
  unfolding ms_allocate_target_def by (rule serves_ops | simp)+

lemma serves_snoop_copy: "services h = S \<Longrightarrow> serves (\<lambda>h. h) S (snoop_copy CA now pkt order resp m h)"
  unfolding snoop_copy_def Let_def by (rule serves_ops | simp add: services_def)+

lemma serves_handle_snoop: "services h = S \<Longrightarrow> serves snd S (ms_handle_snoop CA now pkt order m h)"
  unfolding ms_handle_snoop_def Let_def by (rule serves_snoop_copy serves_ops | simp)+

lemma serves_extract: "services h = S \<Longrightarrow> serves snd S (ms_extract_serviceable CA pkt m h)"
  unfolding ms_extract_serviceable_def by (rule serves_rules | simp)+

lemma serves_pop: "services h = S \<Longrightarrow> serves (\<lambda>h. h) S (ms_pop_target m h)"
  unfolding ms_pop_target_def by (rule serves_rules | simp)+

lemma serves_promote_deferred: "services h = S \<Longrightarrow> serves snd S (ms_promote_deferred CA now m h)"
  unfolding ms_promote_deferred_def Let_def by (rule serves_rules | simp)+

lemma serves_promote_if: "services h = S \<Longrightarrow> serves (\<lambda>h. h) S (ms_promote_if CA pred m h)"
  unfolding ms_promote_if_def by (rule serves_ops | simp)+

lemma serves_promote_readable: "services h = S \<Longrightarrow> serves (\<lambda>h. h) S (ms_promote_readable CA m h)"
  unfolding ms_promote_readable_def by (rule serves_promote_if serves_rules | simp)+

lemma serves_promote_writable: "services h = S \<Longrightarrow> serves (\<lambda>h. h) S (ms_promote_writable CA m h)"
  unfolding ms_promote_writable_def by (rule serves_promote_if serves_rules | simp)+

lemma serves_delay: "services h = S \<Longrightarrow> serves (\<lambda>h. h) S (ms_delay now ticks m h)"
  unfolding ms_delay_def by (rule serves_rules | simp)+

lemma serves_update_locked: "services h = S \<Longrightarrow> serves (\<lambda>h. h) S (ms_update_locked_rmw_read_target pkt m h)"
  unfolding ms_update_locked_rmw_read_target_def by (rule serves_rules | simp add: services_def)+

text \<open>Setting the flag of one MSHR.\<close>

lemma services_upd:
  assumes "upd_mshr m f h = Some h'" "\<And>b. qe_in_service (f b) = v"
  shows "m < length (services h) \<and> services h' = (services h)[m := v]"
  using assms by (auto simp: upd_mshr_def bind_Some_iff services_def map_update)

lemma services_mark_in_service:
  assumes "ms_mark_in_service resp m h = Some h'"
  shows "m < length (services h) \<and> \<not> services h ! m \<and> services h' = (services h)[m := True]"
proof -
  from assms obtain b h1 where b: "m < length (gs_mshrs h)" "\<not> qe_in_service (gs_mshrs h ! m)"
    and h1: "upd_mshr m (\<lambda>b. b\<lparr>qe_in_service := True, ms_pending_modified := tl_needs_writable (ms_targets b) \<or> resp,
       ms_post_invalidate := False, ms_post_downgrade := False\<rparr>) h = Some h1"
    and rest: "(if \<not> ms_downstream_pending (gs_mshrs h ! m)
       then tl_clear_downstream_pending m False (length (tl_targets (ms_targets (gs_mshrs h ! m)))) h1 else Some h1)
       \<bind> upd_mshr m (\<lambda>b. b\<lparr>ms_was_whole_line_write := tl_is_whole_line_write (ms_targets b)\<rparr>) = Some h'"
    by (auto simp only: ms_mark_in_service_def bind_Some_iff nth_opt_Some cpp_assert_Some)
  have "serves (\<lambda>h. h) (services h1) ((if \<not> ms_downstream_pending (gs_mshrs h ! m)
       then tl_clear_downstream_pending m False (length (tl_targets (ms_targets (gs_mshrs h ! m)))) h1 else Some h1)
       \<bind> upd_mshr m (\<lambda>b. b\<lparr>ms_was_whole_line_write := tl_is_whole_line_write (ms_targets b)\<rparr>))"
    by (rule serves_ops | simp)+
  then have "services h' = services h1" unfolding rest by (simp add: keeps_def)
  moreover have "services h1 = (services h)[m := True]" using services_upd [OF h1] by simp
  ultimately show ?thesis using b by (simp add: services_def)
qed

lemma services_allocate:
  assumes "ms_allocate CA now addr sz pkt ready order alloc m h = Some h'"
  shows "m < length (services h) \<and> services h' = (services h)[m := False]"
proof -
  from assms obtain p :: packet and h1 where
    h1: "upd_mshr m (\<lambda>b. b\<lparr>qe_blk_addr := addr, qe_blk_size := sz, qe_secure := pkt_secure p, qe_ready_time := ready,
       qe_order := order, ms_is_forward := False, ms_was_whole_line_write := False,
       qe_uncacheable := req_uncacheable (pkt_req p), qe_in_service := False, ms_downstream_pending := False,
       ms_targets := tl_init addr (ucast sz) (ms_targets b), ms_deferred := tl_init addr (ucast sz) (ms_deferred b)\<rparr>) h = Some h1"
    and h': "tl_add CA now m False pkt ready order (if pkt_cmd p = HardPFReq then FromPrefetcher else FromCPU) True alloc h1 = Some h'"
    by (auto simp only: ms_allocate_def bind_Some_iff nth_opt_Some cpp_assert_Some option.inject)
  have "services h' = services h1" using serves_tl_add [OF refl] h' unfolding keeps_def by blast
  with services_upd [OF h1, of False] show ?thesis by simp
qed

section \<open>The lists of the queue\<close>

text \<open>
  Every entry is free or allocated, free entries are not in service, the ready list holds the allocated
  entries that are not in service, and the counters count. \<open>S\<close> tells the entries in service.
\<close>

definition queue_ok :: "bool list \<Rightarrow> 'q queue_scheme \<Rightarrow> bool" where
  "queue_ok S q \<longleftrightarrow> distinct (q_free_list q @ q_allocated_list q)
     \<and> (\<forall>m \<in> set (q_free_list q @ q_allocated_list q). m < length S) \<and> (\<forall>m \<in> set (q_free_list q). \<not> S ! m)
     \<and> mset (q_ready_list q) = mset (filter (\<lambda>m. \<not> S ! m) (q_allocated_list q))
     \<and> q_num_entries q = int (length (q_free_list q) + length (q_allocated_list q))
     \<and> q_allocated q = int (length (q_allocated_list q))
     \<and> q_num_in_service q = int (length (filter (\<lambda>m. S ! m) (q_allocated_list q)))"

lemma queue_ok_ready: "queue_ok S q \<Longrightarrow> set (q_ready_list q) = {m \<in> set (q_allocated_list q). \<not> S ! m} \<and> distinct (q_ready_list q)"
proof -
  assume ok: "queue_ok S q"
  then have eq: "mset (q_ready_list q) = mset (filter (\<lambda>m. \<not> S ! m) (q_allocated_list q))" "distinct (q_allocated_list q)"
    by (auto simp: queue_ok_def)
  from mset_eq_setD [OF eq(1)] mset_eq_imp_distinct_iff [OF eq(1)] eq(2) show ?thesis by simp
qed

lemma erase_iter_mset: "erase_iter e xs = Some ys \<Longrightarrow> e \<in> set xs \<and> ys = remove1 e xs"
  by (auto simp: erase_iter_def bind_Some_iff)

lemma nth_update_out: "m \<notin> set xs \<Longrightarrow> x \<in> set xs \<Longrightarrow> S[m := v] ! x = S ! x"
  by (rule nth_list_update_neq) blast

lemma filter_update: "m \<notin> set xs \<Longrightarrow> filter (\<lambda>x. P (S[m := v] ! x)) xs = filter (\<lambda>x. P (S ! x)) xs"
  by (intro filter_cong refl) (simp add: nth_update_out)

text \<open>An entry that is in service is no longer ready, and one that is pending again is.\<close>

lemma queue_ok_serve:
  assumes "queue_ok S q" "m \<in> set (q_ready_list q)"
  shows "queue_ok (S[m := True]) (q\<lparr>q_ready_list := remove1 m (q_ready_list q), q_num_in_service := q_num_in_service q + 1\<rparr>)"
proof -
  from assms queue_ok_ready [OF assms(1)] have m: "m \<in> set (q_allocated_list q)" "\<not> S ! m" "m < length S"
    "distinct (q_allocated_list q)" "m \<notin> set (q_free_list q)" by (auto simp: queue_ok_def)
  from split_list [OF m(1)] obtain as bs where ab: "q_allocated_list q = as @ m # bs" by blast
  with m(4) have out: "m \<notin> set as" "m \<notin> set bs" by auto
  note upd = filter_update [OF out(1)] filter_update [OF out(2)]
  have free: "\<forall>x \<in> set (q_free_list q). \<not> S[m := True] ! x"
    using assms(1) by (simp add: queue_ok_def nth_update_out [OF m(5)])
  show ?thesis
    using assms(1) m(2,3) free upd [of Not] upd [of "\<lambda>b. b"] by (simp add: queue_ok_def ab del: mset_filter)
qed

lemma queue_ok_pend:
  assumes "queue_ok S q" "m < length S" "S ! m" "mset r = add_mset m (mset (q_ready_list q))" "m \<in> set (q_allocated_list q)"
  shows "queue_ok (S[m := False]) (q\<lparr>q_num_in_service := q_num_in_service q - 1, q_ready_list := r\<rparr>)"
proof -
  from assms have d: "distinct (q_allocated_list q)" "m \<notin> set (q_free_list q)" by (auto simp: queue_ok_def)
  from split_list [OF assms(5)] obtain as bs where ab: "q_allocated_list q = as @ m # bs" by blast
  with d(1) have out: "m \<notin> set as" "m \<notin> set bs" by auto
  note upd = filter_update [OF out(1)] filter_update [OF out(2)]
  have free: "\<forall>x \<in> set (q_free_list q). \<not> S[m := False] ! x"
    using assms(1) by (simp add: queue_ok_def nth_update_out [OF d(2)])
  show ?thesis
    using assms(1-4) free upd [of Not] upd [of "\<lambda>b. b"] by (simp add: queue_ok_def ab del: mset_filter)
qed

lemma queue_ok_reorder: "queue_ok S q \<Longrightarrow> mset r = mset (q_ready_list q) \<Longrightarrow> queue_ok S (q\<lparr>q_ready_list := r\<rparr>)"
  by (simp add: queue_ok_def)

lemma queue_ok_take:
  assumes "queue_ok S q" "q_free_list q = e # fs" "mset r = add_mset e (mset (q_ready_list q))"
  shows "queue_ok S (q\<lparr>q_free_list := fs, q_allocated_list := q_allocated_list q @ [e], q_ready_list := r,
    q_allocated := q_allocated q + 1\<rparr>)"
  using assms by (auto simp: queue_ok_def simp del: mset_filter)

lemma queue_ok_release:
  assumes "queue_ok S q" "e \<in> set (q_allocated_list q)"
  defines "q' \<equiv> q\<lparr>q_allocated_list := remove1 e (q_allocated_list q), q_free_list := e # q_free_list q, q_allocated := q_allocated q - 1\<rparr>"
  shows "queue_ok (S[e := False]) (if S ! e then q'\<lparr>q_num_in_service := q_num_in_service q - 1\<rparr>
    else q'\<lparr>q_ready_list := remove1 e (q_ready_list q)\<rparr>)"
proof -
  from split_list [OF assms(2)] obtain as bs where ab: "q_allocated_list q = as @ e # bs" by blast
  from assms(1) have d: "e \<notin> set (q_free_list q)" "e \<notin> set as" "e \<notin> set bs" "e < length S" by (auto simp: queue_ok_def ab)
  note upd = filter_update [OF d(2)] filter_update [OF d(3)]
  have rest: "remove1 e (as @ e # bs) = as @ bs" using d(2) by (simp add: remove1_append)
  have free: "\<forall>x \<in> set (q_free_list q). \<not> S[e := False] ! x"
    using assms(1) by (simp add: queue_ok_def nth_update_out [OF d(1)])
  show ?thesis
    using assms(1) d free upd [of Not] upd [of "\<lambda>b. b"]
    by (cases "S ! e") (auto simp: queue_ok_def q'_def rest ab simp del: mset_filter)
qed

section \<open>Histories of the queue\<close>

text \<open>An operation of the queue, or of an MSHR in the store, and the tick at which it runs.\<close>

datatype mq_op = Allocate u64 u32 nat tick u64 bool | Deallocate nat | MoveToFront nat | Delay tick nat
  | MarkInService bool nat | MarkPending nat | ForceDeallocate nat | AddTarget nat tick u64 bool nat
  | Snoop nat u64 nat | Extract nat nat | PopTarget nat | PromoteDeferred nat | PromoteReadable nat
  | PromoteWritable nat | ClearPending nat | UpdateLocked nat nat

fun run_mq :: "cmd_attrs \<Rightarrow> tick \<times> mq_op \<Rightarrow> gem_store \<times> mshr_queue \<Rightarrow> (gem_store \<times> mshr_queue) option" where
  "run_mq CA (now, Allocate addr sz pkt ready order alloc) st = map_option snd (mq_allocate CA now addr sz pkt ready order alloc st)"
| "run_mq CA (now, Deallocate m) st = mq_deallocate m st"
| "run_mq CA (now, MoveToFront m) st = mq_move_to_front m st"
| "run_mq CA (now, Delay ticks m) st = mq_delay now ticks m st"
| "run_mq CA (now, MarkInService resp m) st = mq_mark_in_service resp m st"
| "run_mq CA (now, MarkPending m) st = mq_mark_pending m st"
| "run_mq CA (now, ForceDeallocate m) st = map_option snd (mq_force_deallocate_target CA now m st)"
| "run_mq CA (now, AddTarget pkt ready order alloc m) (h, q) = map_option (\<lambda>h. (h, q)) (ms_allocate_target CA now pkt ready order alloc m h)"
| "run_mq CA (now, Snoop pkt order m) (h, q) = map_option (\<lambda>r. (snd r, q)) (ms_handle_snoop CA now pkt order m h)"
| "run_mq CA (now, Extract pkt m) (h, q) = map_option (\<lambda>r. (snd r, q)) (ms_extract_serviceable CA pkt m h)"
| "run_mq CA (now, PopTarget m) (h, q) = map_option (\<lambda>h. (h, q)) (ms_pop_target m h)"
| "run_mq CA (now, PromoteDeferred m) (h, q) = map_option (\<lambda>r. (snd r, q)) (ms_promote_deferred CA now m h)"
| "run_mq CA (now, PromoteReadable m) (h, q) = map_option (\<lambda>h. (h, q)) (ms_promote_readable CA m h)"
| "run_mq CA (now, PromoteWritable m) (h, q) = map_option (\<lambda>h. (h, q)) (ms_promote_writable CA m h)"
| "run_mq CA (now, ClearPending m) (h, q) = map_option (\<lambda>h. (h, q)) (ms_clear_downstream_pending m h)"
| "run_mq CA (now, UpdateLocked pkt m) (h, q) = map_option (\<lambda>h. (h, q)) (ms_update_locked_rmw_read_target pkt m h)"

definition mq_ok :: "gem_store \<times> mshr_queue \<Rightarrow> bool" where
  "mq_ok st \<longleftrightarrow> queue_ok (services (fst st)) (snd st)"

text \<open>What no operation changes: the size of the queue and its entries.\<close>

definition queue_shape :: "'q queue_scheme \<Rightarrow> int \<times> int \<times> nat multiset" where
  "queue_shape q = (q_num_entries q, q_num_reserve q, mset (q_free_list q) + mset (q_allocated_list q))"

definition mq_step_ok :: "gem_store \<times> mshr_queue \<Rightarrow> gem_store \<times> mshr_queue \<Rightarrow> bool" where
  "mq_step_ok st st' \<longleftrightarrow> mq_ok st' \<and> queue_shape (snd st') = queue_shape (snd st)"

lemma mq_ok_same: "mq_ok (h, q) \<Longrightarrow> services h' = services h \<Longrightarrow> mq_step_ok (h, q) (h', q)"
  by (simp add: mq_ok_def mq_step_ok_def)

lemma mq_allocate_ok:
  assumes "mq_ok st" "mq_allocate CA now addr sz pkt ready order alloc st = Some (m, st')"
  shows "mq_step_ok st st'"
proof -
  obtain h q where st: "st = (h, q)" by (cases st)
  from assms(2) obtain h' r where free: "q_free_list q \<noteq> []"
    and h': "ms_allocate CA now addr sz pkt ready order alloc (hd (q_free_list q)) h = Some h'"
    and r: "add_to_ready_list (\<lambda>x. qe_ready_time (gs_mshrs h' ! x)) (hd (q_free_list q)) (q_ready_list q) = Some r"
    and st': "st' = (h', q\<lparr>q_free_list := tl (q_free_list q), q_allocated_list := q_allocated_list q @ [hd (q_free_list q)],
      q_ready_list := r, q_allocated := q_allocated q + 1\<rparr>)"
    by (auto simp: st mq_allocate_def queue_allocate_def Let_def bind_Some_iff)
  obtain e fs where fs: "q_free_list q = e # fs" using free by (cases "q_free_list q") auto
  from assms(1) have ok: "queue_ok (services h) q" by (simp add: mq_ok_def st)
  then have "\<not> services h ! e" "e < length (services h)" by (auto simp: queue_ok_def fs)
  with services_allocate [OF h'] list_update_id [of "services h" e] have "services h' = services h" by (simp add: fs)
  with queue_ok_take [OF ok fs add_to_ready_list_mset [OF r [unfolded fs list.sel]]] show ?thesis
    by (simp add: mq_ok_def mq_step_ok_def queue_shape_def st st' fs)
qed

lemma mq_deallocate_ok:
  assumes "mq_ok st" "mq_deallocate m st = Some st'"
  shows "mq_step_ok st st'"
proof -
  obtain h q where st: "st = (h, q)" by (cases st)
  let ?q = "q\<lparr>q_allocated_list := remove1 m (q_allocated_list q), q_free_list := m # q_free_list q, q_allocated := q_allocated q - 1\<rparr>"
  let ?q' = "if services h ! m then ?q\<lparr>q_num_in_service := q_num_in_service q - 1\<rparr> else ?q\<lparr>q_ready_list := remove1 m (q_ready_list q)\<rparr>"
  from assms(2) obtain b where m: "m \<in> set (q_allocated_list q)" "m < length (gs_mshrs h)"
    and b: "ms_deallocate (gs_mshrs h ! m) = Some b"
    and st': "st' = (h\<lparr>gs_mshrs := (gs_mshrs h)[m := b]\<rparr>, ?q') \<or> st' = (h\<lparr>gs_mshrs := (gs_mshrs h)[m := b]\<rparr>, ?q'\<lparr>q_drain_state := Drained\<rparr>)"
    by (auto simp: st mq_deallocate_def queue_deallocate_def Let_def bind_Some_iff services_def erase_iter_def split: if_splits)
  have "services (h\<lparr>gs_mshrs := (gs_mshrs h)[m := b]\<rparr>) = (services h)[m := False]"
    using b by (auto simp: services_def map_update ms_deallocate_def bind_Some_iff)
  moreover have "queue_ok ((services h)[m := False]) ?q'"
    using queue_ok_release [OF _ m(1)] assms(1) by (simp add: mq_ok_def st)
  moreover have "queue_ok S (p\<lparr>q_drain_state := d\<rparr>) = queue_ok S p" for S d and p :: mshr_queue by (simp add: queue_ok_def)
  moreover have "queue_shape ?q' = queue_shape q" using m(1) by (simp add: queue_shape_def)
  ultimately show ?thesis using st' by (auto simp: mq_ok_def mq_step_ok_def st queue_shape_def)
qed

lemma move_before_mset: "mset (move_before m pred xs) = mset xs"
proof -
  let ?rest = "dropWhile (\<lambda>x. x \<noteq> m) xs"
  let ?skipped = "takeWhile (\<lambda>x. \<not> pred x) ?rest"
  have "mset (if ?skipped = [] then ?rest else tl ?skipped @ m # drop (length ?skipped) ?rest) = mset ?rest"
  proof (cases ?rest)
    case (Cons y ys)
    then have y: "y = m" using hd_dropWhile [of "\<lambda>x. x \<noteq> m" xs] by auto
    have "drop (length (takeWhile (\<lambda>x. \<not> pred x) ys)) ys = dropWhile (\<lambda>x. \<not> pred x) ys" by (simp add: dropWhile_eq_drop)
    moreover have "mset (takeWhile (\<lambda>x. \<not> pred x) ys) + mset (dropWhile (\<lambda>x. \<not> pred x) ys) = mset ys"
      by (metis mset_append takeWhile_dropWhile_id)
    ultimately show ?thesis by (simp add: Cons y)
  next
    case Nil
    show ?thesis unfolding Nil by simp
  qed
  then have "mset (move_before m pred xs) = mset (takeWhile (\<lambda>x. x \<noteq> m) xs) + mset ?rest"
    by (simp add: move_before_def Let_def)
  also have "\<dots> = mset xs" by (metis mset_append takeWhile_dropWhile_id)
  finally show ?thesis .
qed

text \<open>The search of \<open>delay\<close> starts at the entry itself, which satisfies the predicate.\<close>

lemma move_before_same:
  assumes "pred m"
  shows "move_before m pred xs = xs"
proof (cases "dropWhile (\<lambda>x. x \<noteq> m) xs")
  case Nil
  with takeWhile_dropWhile_id [of "\<lambda>x. x \<noteq> m" xs] have "takeWhile (\<lambda>x. x \<noteq> m) xs = xs" by simp
  then show ?thesis by (simp add: move_before_def Nil)
next
  case (Cons y ys)
  then have "y = m" using hd_dropWhile [of "\<lambda>x. x \<noteq> m" xs] by auto
  then have "move_before m pred xs = takeWhile (\<lambda>x. x \<noteq> m) xs @ dropWhile (\<lambda>x. x \<noteq> m) xs"
    by (simp add: move_before_def Cons assms)
  then show ?thesis by simp
qed

lemma mq_delay_same:
  assumes "mq_delay now ticks m (h, q) = Some (h', q')"
  shows "q' = q \<and> ms_delay now ticks m h = Some h'"
  using assms by (auto simp: mq_delay_def bind_Some_iff Let_def move_before_same)

lemma mq_move_to_front_ok:
  assumes "mq_ok st" "mq_move_to_front m st = Some st'"
  shows "mq_step_ok st st'"
proof -
  obtain h q where st: "st = (h, q)" by (cases st)
  from assms(2) consider "st' = st" | "m \<in> set (q_ready_list q)" "st' = (h, q\<lparr>q_ready_list := m # remove1 m (q_ready_list q)\<rparr>)"
    by (auto simp: st mq_move_to_front_def bind_Some_iff erase_iter_def split: if_splits)
  then show ?thesis
  proof cases
    case 2
    then have "mset (m # remove1 m (q_ready_list q)) = mset (q_ready_list q)" by simp
    from queue_ok_reorder [OF _ this] assms(1) 2(2) show ?thesis by (simp add: mq_ok_def mq_step_ok_def queue_shape_def st)
  qed (use assms(1) in \<open>simp add: mq_step_ok_def\<close>)
qed

lemma mq_mark_in_service_ok:
  assumes "mq_ok st" "mq_mark_in_service resp m st = Some st'"
  shows "mq_step_ok st st'"
proof -
  obtain h q where st: "st = (h, q)" by (cases st)
  from assms(2) obtain h' where h': "ms_mark_in_service resp m h = Some h'" and m: "m \<in> set (q_ready_list q)"
    and st': "st' = (h', q\<lparr>q_ready_list := remove1 m (q_ready_list q), q_num_in_service := q_num_in_service q + 1\<rparr>)"
    by (auto simp: st mq_mark_in_service_def bind_Some_iff erase_iter_def)
  from services_mark_in_service [OF h'] queue_ok_serve [OF _ m] assms(1) show ?thesis
    by (simp add: mq_ok_def mq_step_ok_def queue_shape_def st st')
qed

text \<open>An entry in service is allocated when it is one of the queue.\<close>

lemma mq_mark_pending_ok:
  assumes "mq_ok st" "mq_mark_pending m st = Some st'" "m \<in># snd (snd (queue_shape (snd st)))"
  shows "mq_step_ok st st'"
proof -
  obtain h q where st: "st = (h, q)" by (cases st)
  from assms(2) obtain h' r where m: "qe_in_service (gs_mshrs h ! m)" "m < length (gs_mshrs h)"
    and h': "upd_mshr m (\<lambda>b. b\<lparr>qe_in_service := False\<rparr>) h = Some h'"
    and r: "add_to_ready_list (\<lambda>x. qe_ready_time (gs_mshrs h' ! x)) m (q_ready_list q) = Some r"
    and st': "st' = (h', q\<lparr>q_num_in_service := q_num_in_service q - 1, q_ready_list := r\<rparr>)"
    by (auto simp: st mq_mark_pending_def bind_Some_iff)
  have s: "services h ! m" "m < length (services h)" using m by (simp_all add: services_def)
  have ok: "queue_ok (services h) q" using assms(1) by (simp add: mq_ok_def st)
  then have "m \<in> set (q_allocated_list q)" using assms(3) s(1) by (auto simp: queue_shape_def queue_ok_def st)
  from queue_ok_pend [OF ok s(2,1) add_to_ready_list_mset [OF r] this] services_upd [OF h', of False] show ?thesis
    by (simp add: mq_ok_def mq_step_ok_def queue_shape_def st st')
qed

lemma mq_force_deallocate_ok:
  assumes "mq_ok st" "mq_force_deallocate_target CA now m st = Some (full, st')"
  shows "mq_step_ok st st'"
proof -
  obtain h q where st: "st = (h, q)" by (cases st)
  from assms(2) obtain h1 b more h2 where h1: "ms_pop_target m h = Some h1"
    and h2: "(if ms_has_targets b then Some (True, h1) else ms_promote_deferred CA now m h1) = Some (more, h2)"
    and st': "(if more then Some (h2, q) else mq_deallocate m (h2, q)) = Some st'"
    by (auto simp only: st mq_force_deallocate_target_def Let_def prod.case bind_Some_iff option.inject prod.inject) blast+
  have "services h1 = services h" by (rule keepsD [OF serves_pop [OF refl] h1])
  moreover have "services h2 = services h1"
    using h2 keepsD [OF serves_promote_deferred [OF refl]] by (fastforce split: if_splits)
  ultimately have ok: "mq_ok (h2, q)" using assms(1) by (simp add: mq_ok_def st)
  show ?thesis
  proof (cases more)
    case False
    with mq_deallocate_ok [OF ok, of m st'] st' show ?thesis by (simp add: mq_step_ok_def st)
  qed (use ok st' in \<open>auto simp: mq_step_ok_def st\<close>)
qed

lemma run_mq_ok:
  assumes "mq_ok st" "run_mq CA op st = Some st'"
    and "\<And>m. snd op = MarkPending m \<Longrightarrow> m \<in># snd (snd (queue_shape (snd st)))"
  shows "mq_step_ok st st'"
proof -
  obtain h q where st: "st = (h, q)" by (cases st)
  obtain now a where op: "op = (now, a)" by (cases op)
  note ok = assms(1) [unfolded st]
  have same: "mq_step_ok (h, q) (h', q)" if "serves sel (services h) r" "r = Some x" "h' = sel x" for sel r x h'
    using mq_ok_same [OF ok keepsD [OF that(1,2)]] by (simp add: that(3))
  note ops = same [OF serves_allocate_target [OF refl]] same [OF serves_handle_snoop [OF refl]] same [OF serves_extract [OF refl]]
    same [OF serves_pop [OF refl]] same [OF serves_promote_deferred [OF refl]] same [OF serves_promote_readable [OF refl]]
    same [OF serves_promote_writable [OF refl]] same [OF serves_ms_clear [OF refl]] same [OF serves_update_locked [OF refl]]
  show ?thesis
  proof (cases a)
    case (Delay ticks m)
    with assms(2) mq_delay_same [of now ticks m h q] have "snd st' = q" "ms_delay now ticks m h = Some (fst st')"
      by (cases st', force simp: op st)+
    with same [OF serves_delay [OF refl]] show ?thesis unfolding st by (metis prod.collapse)
  next
    case (MarkPending m)
    with assms mq_mark_pending_ok show ?thesis by (simp add: op)
  qed (use assms(2) in \<open>auto simp: op st intro: mq_allocate_ok [OF ok] mq_deallocate_ok [OF ok]
      mq_move_to_front_ok [OF ok] mq_mark_in_service_ok [OF ok] mq_force_deallocate_ok [OF ok] ops\<close>)
qed

lemma new_mshr_queue_ok:
  assumes "new_mshr_queue n r d h0 = (h, q)"
  shows "mq_ok (h, q) \<and> queue_shape q = (int (n + r), int r, mset [length (gs_mshrs h0)..<length (gs_mshrs h0) + (n + r)])"
proof -
  from assms have h: "h = h0\<lparr>gs_mshrs := gs_mshrs h0 @ replicate (n + r) new_mshr\<rparr>"
    and q: "q = queue.extend (new_queue (length (gs_mshrs h0)) n r) \<lparr>mq_demand_reserve = int d\<rparr>"
    by (auto simp: new_mshr_queue_def)
  have "\<not> services h ! m" if "length (gs_mshrs h0) \<le> m" "m < length (gs_mshrs h0) + (n + r)" for m
    using that by (simp add: services_def h nth_append new_mshr_def queue_entry.extend_def new_queue_entry_def)
  then show ?thesis
    by (simp add: mq_ok_def queue_ok_def queue_shape_def q new_queue_def queue.extend_def) (simp add: services_def h)
qed

text \<open>C33: In every history of a queue of \<open>n\<close> MSHRs with \<open>r\<close> in reserve, whatever the cache does to the MSHRs
  themselves, each MSHR is free or allocated and in its list once, the ready list holds exactly the
  allocated ones that are not in service, both counters count, and the queue is full when \<open>n\<close> MSHRs are
  allocated. The MSHRs that are marked pending again must be MSHRs of the queue.\<close>

theorem mshr_queue_consistent:
  assumes "new_mshr_queue n r d h0 = (h, q)" "fold_opt (run_mq CA) ops (h, q) = Some (h', q')"
    and "\<forall>m. MarkPending m \<in> snd ` set ops \<longrightarrow> length (gs_mshrs h0) \<le> m \<and> m < length (gs_mshrs h0) + (n + r)"
  shows "distinct (q_free_list q' @ q_allocated_list q')
    \<and> set (q_free_list q' @ q_allocated_list q') = {length (gs_mshrs h0)..<length (gs_mshrs h0) + (n + r)}
    \<and> distinct (q_ready_list q') \<and> set (q_ready_list q') = {m \<in> set (q_allocated_list q'). \<not> qe_in_service (gs_mshrs h' ! m)}
    \<and> q_allocated q' = int (length (q_allocated_list q'))
    \<and> q_num_in_service q' = int (length (filter (\<lambda>m. qe_in_service (gs_mshrs h' ! m)) (q_allocated_list q')))
    \<and> (is_full q' \<longleftrightarrow> n \<le> length (q_allocated_list q'))"
proof -
  let ?ids = "[length (gs_mshrs h0)..<length (gs_mshrs h0) + (n + r)]"
  let ?I = "\<lambda>st. mq_ok st \<and> queue_shape (snd st) = (int (n + r), int r, mset ?ids)"
  have "?I (h', q')"
  proof (rule fold_opt_rule [where P = ?I, OF assms(2)])
    show "?I (h, q)" using new_mshr_queue_ok [OF assms(1)] by simp
    fix op st st'
    assume op: "op \<in> set ops" "run_mq CA op st = Some st'" and I: "?I st"
    have "m \<in># snd (snd (queue_shape (snd st)))" if "snd op = MarkPending m" for m
    proof -
      have "MarkPending m \<in> snd ` set ops" using op(1) that by force
      with assms(3) I show ?thesis by simp
    qed
    from run_mq_ok [OF _ op(2) this] I show "?I st'" by (auto simp: mq_step_ok_def)
  qed
  then have ok: "queue_ok (services h') q'" and shape: "q_num_entries q' = int (n + r)" "q_num_reserve q' = int r"
    "mset (q_free_list q' @ q_allocated_list q') = mset ?ids" by (auto simp: mq_ok_def queue_shape_def)
  have s: "services h' ! m = qe_in_service (gs_mshrs h' ! m)" if "m \<in> set (q_allocated_list q')" for m
    using ok that by (auto simp: queue_ok_def services_def)
  have "set (q_ready_list q') = {m \<in> set (q_allocated_list q'). \<not> qe_in_service (gs_mshrs h' ! m)}" "distinct (q_ready_list q')"
    using queue_ok_ready [OF ok] s by auto
  moreover have "set (q_free_list q' @ q_allocated_list q') = set ?ids" by (rule mset_eq_setD [OF shape(3)])
  moreover have "filter (\<lambda>m. services h' ! m) (q_allocated_list q') = filter (\<lambda>m. qe_in_service (gs_mshrs h' ! m)) (q_allocated_list q')"
    using s by (intro filter_cong) auto
  moreover have "is_full q' \<longleftrightarrow> n \<le> length (q_allocated_list q')"
  proof -
    have "q_allocated q' = int (length (q_allocated_list q'))" using ok unfolding queue_ok_def by blast
    then show ?thesis unfolding is_full_def shape(1,2) by simp
  qed
  ultimately show ?thesis using ok unfolding queue_ok_def by simp
qed

definition sample_ops :: "(tick \<times> mq_op) list" where
  "sample_ops = [(5, Allocate 0x40 64 0 7 0 True), (6, Allocate 0x80 64 0 9 1 True), (8, MarkInService False 0),
     (9, MarkPending 0), (10, Delay 20 1), (11, MarkInService True 1), (12, PopTarget 1), (12, Deallocate 1)]"

definition empty_store :: gem_store where
  "empty_store = \<lparr>gs_packets = sample_packets, gs_mshrs = []\<rparr>"

theorem mshr_queue_consistent_witness:
  "\<exists>h q h' q'. new_mshr_queue 2 1 0 empty_store = (h, q) \<and> fold_opt (run_mq stub_attrs) sample_ops (h, q) = Some (h', q')
     \<and> distinct (q_ready_list q') \<and> set (q_free_list q' @ q_allocated_list q') = {0..<3}"
proof -
  obtain h q where q: "new_mshr_queue 2 1 0 empty_store = (h, q)" by (cases "new_mshr_queue 2 1 0 empty_store")
  have "fold_opt (run_mq stub_attrs) sample_ops (new_mshr_queue 2 1 0 empty_store) \<noteq> None" by code_simp
  then obtain h' q' where r: "fold_opt (run_mq stub_attrs) sample_ops (h, q) = Some (h', q')" unfolding q by auto
  have "gs_mshrs empty_store = []" by (simp add: empty_store_def)
  moreover have "\<forall>m. MarkPending m \<in> snd ` set sample_ops \<longrightarrow> m < 3" by (simp add: sample_ops_def)
  ultimately have "distinct (q_ready_list q') \<and> set (q_free_list q' @ q_allocated_list q') = {0..<3}"
    using mshr_queue_consistent [OF q r] by simp
  with q r show ?thesis by blast
qed

section \<open>Delaying\<close>

text \<open>C36: \<open>MSHRQueue::delay\<close> gives the MSHR a later time but never moves it in the ready list: the search for
  its new place starts at the MSHR itself and stops there. A delayed MSHR at the head of the list keeps
  every other one from being issued, ready or not, until its own time comes.\<close>

theorem delay_blocks_queue:
  assumes "mq_delay now ticks m (h, q) = Some (h', q')"
  shows "q_ready_list q' = q_ready_list q \<and> qe_ready_time (gs_mshrs h' ! m) = now + ticks
    \<and> (\<forall>rest later. q_ready_list q = m # rest \<and> later < now + ticks \<longrightarrow> get_next later (gs_mshrs h') q' = Some None)"
proof -
  from mq_delay_same [OF assms] have q: "q' = q" and "ms_delay now ticks m h = Some h'" by auto
  then have "m < length (gs_mshrs h')" "qe_ready_time (gs_mshrs h' ! m) = now + ticks"
    by (auto simp: ms_delay_def upd_mshr_def bind_Some_iff)
  then show ?thesis by (auto simp: q get_next_def)
qed

theorem delay_blocks_queue_witness:
  "\<exists>h q h' q'. fold_opt (run_mq stub_attrs) (take 2 sample_ops) (new_mshr_queue 2 1 0 empty_store) = Some (h, q)
     \<and> mq_delay 9 20 0 (h, q) = Some (h', q') \<and> get_next 10 (gs_mshrs h') q' = Some None
     \<and> 1 \<in> set (q_ready_list q') \<and> qe_ready_time (gs_mshrs h' ! 1) = 9"
proof -
  have computed: "case fold_opt (run_mq stub_attrs) (take 2 sample_ops) (new_mshr_queue 2 1 0 empty_store) of None \<Rightarrow> False
    | Some (h, q) \<Rightarrow> q_ready_list q = [0, 1] \<and> (case mq_delay 9 20 0 (h, q) of None \<Rightarrow> False
      | Some (h', q') \<Rightarrow> qe_ready_time (gs_mshrs h' ! 1) = 9)" by code_simp
  then obtain h q where hq: "fold_opt (run_mq stub_attrs) (take 2 sample_ops) (new_mshr_queue 2 1 0 empty_store) = Some (h, q)"
    by (auto split: option.splits)
  from computed obtain h' q' where d: "q_ready_list q = [0, 1]" "mq_delay 9 20 0 (h, q) = Some (h', q')"
    "qe_ready_time (gs_mshrs h' ! 1) = 9" unfolding hq option.case prod.case by (auto split: option.splits)
  from delay_blocks_queue [OF d(2)] d(1,3) hq d(2) show ?thesis by auto
qed

end
