(* ===== verification/GemTargetFacts.thy ===== *)
theory GemTargetFacts
  imports GemQueueFacts
begin

text \<open>
  The two target lists of an MSHR are one queue. New targets go to the deferred list once there is a
  deferred target, and promoting deferred ones moves a prefix of their list: the targets followed by the
  deferred targets are a list to which packets are added at the end and from which they are taken at
  the front. Taking out the serviceable targets loses none and keeps their order.
\<close>

section \<open>The packets that wait at an MSHR\<close>

definition lists_of :: "mshr \<Rightarrow> nat list \<times> nat list" where
  "lists_of b = (map tg_pkt (tl_targets (ms_targets b)), map tg_pkt (tl_targets (ms_deferred b)))"

definition all_lists :: "gem_store \<Rightarrow> (nat list \<times> nat list) list" where
  "all_lists h = map lists_of (gs_mshrs h)"

definition waiting :: "nat \<Rightarrow> gem_store \<Rightarrow> nat list" where
  "waiting m h = fst (all_lists h ! m) @ snd (all_lists h ! m)"

lemma keeps_lists_upd:
  assumes "all_lists h = S" "\<And>b. lists_of (f b) = lists_of b"
  shows "keeps all_lists (\<lambda>h. h) S (upd_mshr i f h)"
  using assms(1)
  by (auto simp: keeps_def upd_mshr_def bind_Some_iff all_lists_def assms(2) nth_list_update intro!: nth_equalityI split: if_splits)

lemma keeps_lists_upd_packet: "all_lists h = S \<Longrightarrow> keeps all_lists (\<lambda>h. h) S (upd_packet i f h)"
  by (auto simp: keeps_def upd_packet_def bind_Some_iff all_lists_def)

lemma unmark_pkts: "map tg_pkt (ts[i := (ts ! i)\<lparr>tg_marked := False\<rparr>]) = map tg_pkt (ts :: target list)"
proof (rule nth_equalityI)
  fix k assume "k < length (map tg_pkt (ts[i := (ts ! i)\<lparr>tg_marked := False\<rparr>]))"
  then show "map tg_pkt (ts[i := (ts ! i)\<lparr>tg_marked := False\<rparr>]) ! k = map tg_pkt ts ! k" by (cases "k = i") auto
qed simp

lemma keeps_lists_unmark:
  "all_lists h = S \<Longrightarrow> keeps all_lists (\<lambda>h. h) S (upd_mshr m (upd_list d
    (\<lambda>l. l\<lparr>tl_targets := (tl_targets l)[i := (tl_targets l ! i)\<lparr>tg_marked := False\<rparr>]\<rparr>)) h)"
  by (rule keeps_lists_upd) (auto simp: upd_list_def lists_of_def unmark_pkts)

lemma keeps_lists_clear: "all_lists h = S \<Longrightarrow> keeps all_lists (\<lambda>h. h) S (clear_downstream (\<lambda>_ _. None) fuel m h)"
  by (rule keeps_clear_downstream) (rule keeps_lists_unmark keeps_lists_upd | simp add: lists_of_def keeps_def)+

lemma keeps_lists_tl_clear: "all_lists h = S \<Longrightarrow> keeps all_lists (\<lambda>h. h) S (tl_clear_downstream_pending m d n h)"
  unfolding tl_clear_downstream_pending_def by (rule keeps_clear_targets [OF keeps_lists_clear keeps_lists_unmark])

lemma keeps_lists_mark_in_service: "all_lists h = S \<Longrightarrow> keeps all_lists (\<lambda>h. h) S (ms_mark_in_service resp m h)"
  unfolding ms_mark_in_service_def
  by (rule keeps_lists_upd keeps_lists_tl_clear keeps_rules | simp add: lists_of_def)+

lemma keeps_lists_replace: "all_lists h = S \<Longrightarrow> keeps all_lists (\<lambda>h. h) S (replace_upgrade_at CA i h)"
  unfolding replace_upgrade_at_def by (rule keeps_lists_upd_packet keeps_rules | simp)+

section \<open>Flags do not change targets\<close>

lemma tl_update_flags_targets: "tl_update_flags CA pkt src alloc l = Some l' \<Longrightarrow> tl_targets l' = tl_targets l"
  by (auto simp: tl_update_flags_def tl_update_write_flags_def Let_def bind_Some_iff split: if_splits)

lemma tl_populate_flags_targets: "tl_populate_flags CA pkts l = Some l' \<Longrightarrow> tl_targets l' = tl_targets l"
  unfolding tl_populate_flags_def
  by (erule fold_opt_rule [where P = "\<lambda>x. tl_targets x = tl_targets l"])
    (auto simp: tl_reset_flags_def bind_Some_iff dest: tl_update_flags_targets)

section \<open>Adding a target\<close>

definition add_to :: "bool \<Rightarrow> nat \<Rightarrow> nat list \<times> nat list \<Rightarrow> nat list \<times> nat list" where
  "add_to d p x = (if d then (fst x, snd x @ [p]) else (fst x @ [p], snd x))"

lemma all_lists_upd:
  assumes "upd_mshr m f h = Some h'"
  shows "m < length (all_lists h) \<and> all_lists h' = (all_lists h)[m := lists_of (f (gs_mshrs h ! m))]"
  using assms by (auto simp: upd_mshr_def bind_Some_iff all_lists_def map_update)

lemma bind_pair_Some: "(e \<bind> (\<lambda>(x, y). f x y)) = Some z \<longleftrightarrow> (\<exists>x y. e = Some (x, y) \<and> f x y = Some z)"
  by (auto simp: bind_Some_iff)

lemma tl_add_lists:
  assumes "tl_add CA now m d pkt ready order src mark alloc h = Some h'"
  shows "m < length (all_lists h) \<and> all_lists h' = (all_lists h)[m := add_to d pkt (all_lists h ! m)]"
proof -
  from assms obtain p :: packet and l h1 mark' h2 where m: "m < length (gs_mshrs h)"
    and l: "tl_update_flags CA p src alloc (the_list d (gs_mshrs h ! m)) = Some l"
    and h1: "upd_mshr m (upd_list d (\<lambda>_. l)) h = Some h1"
    and h2: "(if \<not> mark then Some (False, h1) else (case pkt_mshr p of None \<Rightarrow> Some (False, h1)
       | Some up \<Rightarrow> do {
           u \<leftarrow> nth_opt (gs_mshrs h1) up;
           cpp_assert (\<not> ms_downstream_pending u);
           h \<leftarrow> upd_mshr up (\<lambda>u. u\<lparr>ms_downstream_pending := True\<rparr>) h1;
           Some (True, h) })) = Some (mark', h2)"
    and h': "upd_mshr m (upd_list d (\<lambda>l. l\<lparr>tl_targets := tl_targets l @ [\<lparr>tg_recv = now, tg_ready = ready, tg_order = order,
       tg_pkt = pkt, tg_source = src, tg_marked = mark', tg_alloc_on_fill = alloc\<rparr>]\<rparr>)) h2 = Some h'"
    unfolding tl_add_def bind_pair_Some bind_Some_iff [of "nth_opt x y" for x y] bind_Some_iff [of "tl_update_flags a b c d e" for a b c d e]
      bind_Some_iff [of "upd_mshr m f h" for f] nth_opt_Some by blast
  have "lists_of (upd_list d (\<lambda>_. l) (gs_mshrs h ! m)) = lists_of (gs_mshrs h ! m)"
    using tl_update_flags_targets [OF l] by (simp add: upd_list_def lists_of_def the_list_def)
  with all_lists_upd [OF h1] m have s1: "all_lists h1 = all_lists h" by (simp add: all_lists_def flip: map_update)
  have "keeps all_lists snd (all_lists h1) (Some (mark', h2))"
    unfolding h2 [symmetric] by (rule keeps_lists_upd keeps_rules | simp add: lists_of_def)+
  then have s2: "all_lists h2 = all_lists h" using s1 by (simp add: keeps_def)
  have old: "all_lists h ! m = lists_of (gs_mshrs h2 ! m)" using m s2 unfolding all_lists_def by (metis length_map nth_map)
  show ?thesis using all_lists_upd [OF h'] unfolding s2 old
    by (cases d) (simp_all add: upd_list_def lists_of_def add_to_def)
qed

lemma allocate_target_lists:
  assumes "ms_allocate_target CA now pkt ready order alloc m h = Some h'"
  shows "\<exists>d. m < length (all_lists h) \<and> all_lists h' = (all_lists h)[m := add_to d pkt (all_lists h ! m)]
    \<and> (d \<or> snd (all_lists h ! m) = [])"
proof -
  from assms obtain p front :: packet where m: "m < length (gs_mshrs h)"
    and r: "(if must_defer CA p front (gs_mshrs h ! m) then do {
       h \<leftarrow> (if qe_in_service (gs_mshrs h ! m) \<and> ms_post_invalidate (gs_mshrs h ! m) then replace_upgrade_at CA pkt h else Some h);
       tl_add CA now m True pkt ready order FromCPU True alloc h }
     else tl_add CA now m False pkt ready order FromCPU (\<not> qe_in_service (gs_mshrs h ! m)) alloc h) = Some h'"
    unfolding ms_allocate_target_def bind_Some_iff [of "nth_opt x y" for x y] bind_Some_iff [of "cpp_assert x" for x]
      bind_Some_iff [of "front_packet x y" for x y] nth_opt_Some by blast
  show ?thesis
  proof (cases "must_defer CA p front (gs_mshrs h ! m)")
    case True
    with r obtain h1 where h1: "(if qe_in_service (gs_mshrs h ! m) \<and> ms_post_invalidate (gs_mshrs h ! m)
        then replace_upgrade_at CA pkt h else Some h) = Some h1"
      and h': "tl_add CA now m True pkt ready order FromCPU True alloc h1 = Some h'" by (auto simp only: if_True bind_Some_iff)
    have "all_lists h1 = all_lists h" using h1 keepsD [OF keeps_lists_replace [OF refl]] by (auto split: if_splits)
    with tl_add_lists [OF h'] show ?thesis by (intro exI [of _ True]) simp
  next
    case False
    then have "tl_targets (ms_deferred (gs_mshrs h ! m)) = []" by (simp add: must_defer_def)
    then have "snd (all_lists h ! m) = []" using m by (simp add: all_lists_def lists_of_def)
    moreover have "tl_add CA now m False pkt ready order FromCPU (\<not> qe_in_service (gs_mshrs h ! m)) alloc h = Some h'"
      using r False by simp
    ultimately show ?thesis using tl_add_lists by (intro exI [of _ False]) blast
  qed
qed

section \<open>Promoting deferred targets\<close>

lemma promoted_targets_order: "promoted_targets pkts ts ds = (ts', ds') \<Longrightarrow> ts' @ ds' = ts @ ds"
  by (auto simp: promoted_targets_def Let_def split: if_splits list.splits)

lemma waiting_upd:
  assumes "upd_mshr m f h = Some h'" "waiting m h' = waiting m h"
  shows "waiting k h' = waiting k h"
  using assms all_lists_upd [OF assms(1)] by (cases "k = m") (simp_all add: waiting_def)

lemma promote_deferred_waiting:
  assumes "ms_promote_deferred CA now m h = Some (any, h')"
  shows "waiting k h' = waiting k h"
proof (cases "tl_targets (ms_targets (gs_mshrs h ! m)) = [] \<and> tl_targets (ms_deferred (gs_mshrs h ! m)) = []")
  case True
  then show ?thesis using assms by (auto simp: ms_promote_deferred_def bind_Some_iff)
next
  case False
  let ?b = "gs_mshrs h ! m"
  obtain ts ds where p: "promoted_targets (gs_packets h) (tl_targets (ms_targets ?b)) (tl_targets (ms_deferred ?b)) = (ts, ds)"
    by (cases "promoted_targets (gs_packets h) (tl_targets (ms_targets ?b)) (tl_targets (ms_deferred ?b))")
  from assms False p obtain dl tg and front :: target where m: "m < length (gs_mshrs h)"
    and dl: "tl_populate_flags CA (gs_packets h) ((ms_deferred ?b)\<lparr>tl_targets := ds\<rparr>) = Some dl"
    and tg: "tl_populate_flags CA (gs_packets h) ((ms_targets ?b)\<lparr>tl_targets := ts\<rparr>) = Some tg"
    and h': "upd_mshr m (\<lambda>b. b\<lparr>ms_deferred := dl, ms_targets := tg, qe_order := tg_order front,
           qe_ready_time := max now (tg_ready front)\<rparr>) h = Some h'"
    by (auto simp: ms_promote_deferred_def bind_Some_iff)
  have "waiting m h' = map tg_pkt (ts @ ds)"
    using all_lists_upd [OF h'] tl_populate_flags_targets [OF dl] tl_populate_flags_targets [OF tg]
    by (simp add: waiting_def lists_of_def)
  also have "\<dots> = waiting m h" using m unfolding promoted_targets_order [OF p] by (simp add: waiting_def all_lists_def lists_of_def)
  finally show ?thesis by (rule waiting_upd [OF h'])
qed

lemma promote_if_waiting:
  assumes "ms_promote_if CA pred m h = Some h'"
  shows "waiting k h' = waiting k h"
proof -
  from assms obtain n h1 dl where m: "m < length (gs_mshrs h1)"
    and h1: "tl_clear_downstream_pending m True n h = Some h1"
    and dl: "tl_populate_flags CA (gs_packets h1)
      ((ms_deferred (gs_mshrs h1 ! m))\<lparr>tl_targets := drop n (tl_targets (ms_deferred (gs_mshrs h1 ! m)))\<rparr>) = Some dl"
    and h': "upd_mshr m (\<lambda>b. b\<lparr>ms_targets := (ms_targets b)\<lparr>tl_targets := tl_targets (ms_targets b) @ take n (tl_targets (ms_deferred b))\<rparr>,
       ms_deferred := dl\<rparr>) h1 = Some h'"
    by (auto simp: ms_promote_if_def bind_Some_iff)
  have "waiting m h' = waiting m h1"
    using all_lists_upd [OF h'] tl_populate_flags_targets [OF dl] m
    by (simp add: waiting_def lists_of_def all_lists_def) (simp flip: map_append)
  from waiting_upd [OF h' this] keepsD [OF keeps_lists_tl_clear [OF refl] h1] show ?thesis by (simp add: waiting_def)
qed

lemma promote_readable_waiting: "ms_promote_readable CA m h = Some h' \<Longrightarrow> waiting k h' = waiting k h"
  by (auto simp: ms_promote_readable_def bind_Some_iff promote_if_waiting split: if_splits)

lemma promote_writable_waiting:
  assumes "ms_promote_writable CA m h = Some h'"
  shows "waiting k h' = waiting k h"
proof -
  from assms consider "h' = h" | h1 where
    "upd_mshr m (\<lambda>b. b\<lparr>ms_targets := (ms_targets b)\<lparr>tl_needs_writable := True\<rparr>\<rparr>) h = Some h1"
    "ms_promote_if CA (writable_target (gs_packets h1)) m h1 = Some h'"
    by (auto simp: ms_promote_writable_def bind_Some_iff split: list.splits if_splits)
  then show ?thesis
  proof cases
    case (2 h1)
    have "all_lists h1 = all_lists h" by (rule keepsD [OF keeps_lists_upd [OF refl] 2(1)]) (simp add: lists_of_def)
    with promote_if_waiting [OF 2(2)] show ?thesis by (simp add: waiting_def)
  qed simp
qed

section \<open>An MSHR is a queue\<close>

text \<open>The operations in question: everything but snoops, responses and the reuse of an MSHR.\<close>

fun is_queue_op :: "mq_op \<Rightarrow> bool" where
  "is_queue_op (AddTarget pkt ready order alloc m) = True"
| "is_queue_op (PopTarget m) = True"
| "is_queue_op (MoveToFront m) = True"
| "is_queue_op (Delay ticks m) = True"
| "is_queue_op (MarkInService resp m) = True"
| "is_queue_op (MarkPending m) = True"
| "is_queue_op (PromoteDeferred m) = True"
| "is_queue_op (PromoteReadable m) = True"
| "is_queue_op (PromoteWritable m) = True"
| "is_queue_op (ClearPending m) = True"
| "is_queue_op a = False"

text \<open>What they do to a list of packets.\<close>

fun serve_op :: "nat \<Rightarrow> mq_op \<Rightarrow> nat list \<Rightarrow> nat list" where
  "serve_op k (AddTarget pkt ready order alloc m) xs = (if k = m then xs @ [pkt] else xs)"
| "serve_op k (PopTarget m) xs = (if k = m then tl xs else xs)"
| "serve_op k a xs = xs"

lemma add_target_waiting:
  assumes "ms_allocate_target CA now pkt ready order alloc m h = Some h'"
  shows "waiting k h' = serve_op k (AddTarget pkt ready order alloc m) (waiting k h)"
proof -
  from allocate_target_lists [OF assms] obtain d where "m < length (all_lists h)"
    "all_lists h' = (all_lists h)[m := add_to d pkt (all_lists h ! m)]" "d \<or> snd (all_lists h ! m) = []" by blast
  then show ?thesis by (cases "k = m") (auto simp: waiting_def add_to_def)
qed

lemma pop_target_waiting:
  assumes "ms_pop_target m h = Some h'"
  shows "waiting k h' = serve_op k (PopTarget m) (waiting k h)"
proof -
  from assms have m: "m < length (gs_mshrs h)" "tl_targets (ms_targets (gs_mshrs h ! m)) \<noteq> []"
    and h': "upd_mshr m (\<lambda>b. b\<lparr>ms_targets := (ms_targets b)\<lparr>tl_targets := tl (tl_targets (ms_targets b))\<rparr>\<rparr>) h = Some h'"
    by (auto simp: ms_pop_target_def ms_has_targets_def bind_Some_iff)
  from all_lists_upd [OF h'] m show ?thesis
    by (cases "k = m") (simp_all add: waiting_def all_lists_def lists_of_def map_tl)
qed

lemma run_mq_waiting:
  assumes "run_mq CA (now, a) (h, q) = Some (h', q')" "is_queue_op a"
  shows "waiting k h' = serve_op k a (waiting k h)"
proof -
  have same: "waiting k h2 = waiting k h1" if "keeps all_lists sel (all_lists h1) r" "r = Some x" "h2 = sel x" for sel r x h1 h2
    using keepsD [OF that(1,2)] by (simp add: waiting_def that(3))
  show ?thesis
  proof (cases a)
    case (AddTarget pkt ready order alloc m)
    with assms(1) add_target_waiting show ?thesis by auto
  next
    case (PopTarget m)
    with assms(1) pop_target_waiting show ?thesis by auto
  next
    case (MoveToFront m)
    with assms(1) show ?thesis by (auto simp: mq_move_to_front_def bind_Some_iff split: if_splits)
  next
    case (Delay ticks m)
    with assms(1) have "ms_delay now ticks m h = Some h'" using mq_delay_same by auto
    moreover have "keeps all_lists (\<lambda>h. h) (all_lists h) (ms_delay now ticks m h)"
      unfolding ms_delay_def by (rule keeps_lists_upd keeps_rules | simp add: lists_of_def)+
    ultimately show ?thesis using same [of "\<lambda>h. h"] by (simp add: Delay)
  next
    case (MarkInService resp m)
    with assms(1) have "ms_mark_in_service resp m h = Some h'" by (auto simp: mq_mark_in_service_def bind_Some_iff)
    from same [OF keeps_lists_mark_in_service [OF refl] this refl] show ?thesis by (simp add: MarkInService)
  next
    case (MarkPending m)
    with assms(1) have "upd_mshr m (\<lambda>b. b\<lparr>qe_in_service := False\<rparr>) h = Some h'" by (auto simp: mq_mark_pending_def bind_Some_iff)
    from same [OF keeps_lists_upd [OF refl] this refl] show ?thesis by (simp add: MarkPending lists_of_def)
  next
    case (PromoteDeferred m)
    with assms(1) promote_deferred_waiting show ?thesis by auto
  next
    case (PromoteReadable m)
    with assms(1) promote_readable_waiting show ?thesis by auto
  next
    case (PromoteWritable m)
    with assms(1) promote_writable_waiting show ?thesis by auto
  next
    case (ClearPending m)
    with assms(1) have "clear_downstream (\<lambda>_ _. None) (Suc (pending_flags h)) m h = Some h'" by (auto simp: ms_clear_downstream_pending_def)
    from same [OF keeps_lists_clear [OF refl] this refl] show ?thesis by (simp add: ClearPending)
  qed (use assms(2) in auto)
qed

text \<open>C34: The targets of an MSHR are served in the order of their arrival, although they are kept in two
  lists: under every sequence of new requests, pops, promotions of deferred targets and moves of the
  MSHR through its queue, the targets followed by the deferred targets are a queue of packets, added to
  at the end and taken from at the front.\<close>

theorem mshr_targets_are_queue:
  assumes "fold_opt (run_mq CA) ops (h, q) = Some (h', q')" "list_all (is_queue_op \<circ> snd) ops"
  shows "waiting m h' = fold (serve_op m \<circ> snd) ops (waiting m h)"
  using assms
proof (induction ops arbitrary: h q)
  case (Cons op ops)
  obtain now a where op: "op = (now, a)" by (cases op)
  from Cons.prems(1) obtain h1 q1 where h1: "run_mq CA (now, a) (h, q) = Some (h1, q1)"
    "fold_opt (run_mq CA) ops (h1, q1) = Some (h', q')" by (auto simp: op bind_Some_iff)
  from Cons.IH [OF h1(2)] run_mq_waiting [OF h1(1)] Cons.prems(2) show ?case by (simp add: op)
qed simp

text \<open>The responses: what is taken out and what stays, in their order.\<close>

lemma take_serviceable_order:
  assumes "take_serviceable pkts ts = Some (ready, rest)"
  shows "(rest = [] \<and> ready = ts) \<or> (\<exists>as t bs. ts = as @ t # bs \<and> ready = as @ [t] \<and> rest = t # bs
    \<and> pkt_cmd (pkts ! tg_pkt t) = LockedRMWReadReq)"
  using assms
proof (induction ts arbitrary: ready rest)
  case (Cons t ts)
  show ?case
  proof (cases "pkt_cmd (pkts ! tg_pkt t) = LockedRMWReadReq")
    case True
    with Cons.prems have "ready = [t]" "rest = t # ts" by (auto simp: bind_Some_iff)
    with True show ?thesis by (intro disjI2 exI [of _ "[]"] exI [of _ t] exI [of _ ts]) simp
  next
    case False
    with Cons.prems obtain ready' where r: "take_serviceable pkts ts = Some (ready', rest)" "ready = t # ready'"
      by (auto simp: bind_Some_iff)
    from Cons.IH [OF r(1)] show ?thesis
    proof (elim disjE exE conjE)
      fix as u bs
      assume "ts = as @ u # bs" "ready' = as @ [u]" "rest = u # bs" "pkt_cmd (pkts ! tg_pkt u) = LockedRMWReadReq"
      then show ?thesis using r(2) by (intro disjI2 exI [of _ "t # as"] exI [of _ u] exI [of _ bs]) simp
    qed (use r(2) in simp)
  qed
qed simp

lemma split_snoops_order:
  "split_snoops ts = Some (ready, rest) \<Longrightarrow> rest = filter (\<lambda>t. tg_source t = FromCPU) ts \<and> ready = filter (\<lambda>t. tg_source t = FromSnoop) ts"
  by (induction ts arbitrary: ready rest) (auto simp: bind_Some_iff split: if_splits)

definition queue_ops :: "(tick \<times> mq_op) list" where
  "queue_ops = [(8, MarkInService False 0), (9, AddTarget 2 9 2 True 0), (10, AddTarget 0 9 3 True 0), (11, PopTarget 0),
     (12, PromoteDeferred 0)]"

text \<open>The third packet needs a writable block, which the MSHR did not ask for, so it is deferred.\<close>

definition upgrade_attrs :: cmd_attrs where
  "upgrade_attrs = stub_attrs\<lparr>needs_writable := (\<lambda>c. c = ReadExReq)\<rparr>"

theorem mshr_targets_are_queue_witness:
  "\<exists>h q h' q'. fold_opt (run_mq upgrade_attrs) (take 1 sample_ops)
       (new_mshr_queue 2 1 0 (empty_store\<lparr>gs_packets := sample_packets @ [(new_packet sample_request ReadExReq 8)\<lparr>pkt_addr := 0x40\<rparr>]\<rparr>))
       = Some (h, q)
     \<and> fold_opt (run_mq upgrade_attrs) queue_ops (h, q) = Some (h', q') \<and> waiting 0 h = [0] \<and> waiting 0 h' = [2, 0]"
proof -
  let ?st = "new_mshr_queue 2 1 0 (empty_store\<lparr>gs_packets := sample_packets @ [(new_packet sample_request ReadExReq 8)\<lparr>pkt_addr := 0x40\<rparr>]\<rparr>)"
  have computed: "case fold_opt (run_mq upgrade_attrs) (take 1 sample_ops) ?st of None \<Rightarrow> False
    | Some (h, q) \<Rightarrow> waiting 0 h = [0] \<and> fold_opt (run_mq upgrade_attrs) queue_ops (h, q) \<noteq> None" by code_simp
  then obtain h q where hq: "fold_opt (run_mq upgrade_attrs) (take 1 sample_ops) ?st = Some (h, q)" by (auto split: option.splits)
  from computed obtain h' q' where w: "waiting 0 h = [0]" "fold_opt (run_mq upgrade_attrs) queue_ops (h, q) = Some (h', q')"
    unfolding hq option.case prod.case by auto
  have "list_all (is_queue_op \<circ> snd) queue_ops" by (simp add: queue_ops_def)
  from mshr_targets_are_queue [OF w(2) this, of 0] w(1) have "waiting 0 h' = [2, 0]" by (simp add: queue_ops_def)
  with hq w show ?thesis by blast
qed

end
