(* ===== verification/SectorTags.thy ===== *)
theory SectorTags
  imports SetAssocTags
begin

text \<open>
  The sector tag store of gem5 (\<open>tags/sector_blk.hh\<close>, \<open>tags/sector_blk.cc\<close>, \<open>tags/sector_tags.hh\<close>,
  \<open>tags/sector_tags.cc\<close>). A sector is a tagged entry that is valid while its counter of valid blocks is
  positive; its blocks take their tag from it. Blocks and sectors are indices into the two vectors of
  the store, and the entries of the replacement policy are the sectors. What a subclass of the blocks
  overrides is a record of functions, \<open>block_ops\<close>.
\<close>

section \<open>Sectors and their blocks\<close>

record sub_blk = cache_blk +
  sb_sector :: "nat option"
  sb_offset :: u32

record sector_blk = tagged_entry +
  sec_valid_count :: "8 word"
  sec_blks :: "nat option list"

record ('b, 'c) block_ops =
  bo_copy :: "'b sub_blk_scheme \<Rightarrow> 'b sub_blk_scheme \<Rightarrow> 'b sub_blk_scheme"
  bo_sub_invalidate :: "'b sub_blk_scheme \<Rightarrow> 'b sub_blk_scheme"
  bo_sector_invalidate :: "'c sector_blk_scheme \<Rightarrow> 'c sector_blk_scheme"

text \<open>Nothing is overridden in a sector store.\<close>

definition sector_block_ops :: "(unit, unit) block_ops" where
  "sector_block_ops = \<lparr>bo_copy = (\<lambda>src dest. dest), bo_sub_invalidate = id, bo_sector_invalidate = tagged_invalidate\<rparr>"

definition new_sub_blk :: "sub_blk option" where
  "new_sub_blk = do { b \<leftarrow> new_cache_blk; Some (cache_blk.extend b \<lparr>sb_sector = None, sb_offset = 0\<rparr>) }"

definition new_sector_blk :: sector_blk where
  "new_sector_blk = tagged_entry.extend new_tagged_entry \<lparr>sec_valid_count = 0, sec_blks = []\<rparr>"

definition sector_is_valid :: "'c sector_blk_scheme \<Rightarrow> bool" where
  "sector_is_valid sec \<longleftrightarrow> 0 < sec_valid_count sec"

definition validate_sub_blk :: "'c sector_blk_scheme \<Rightarrow> 'c sector_blk_scheme" where
  "validate_sub_blk sec = sec\<lparr>sec_valid_count := sec_valid_count sec + 1\<rparr>"

definition invalidate_sub_blk :: "('b, 'c) block_ops \<Rightarrow> 'c sector_blk_scheme \<Rightarrow> 'c sector_blk_scheme" where
  "invalidate_sub_blk V sec =
     (let sec = sec\<lparr>sec_valid_count := sec_valid_count sec - 1\<rparr> in
      if sec_valid_count sec = 0 then bo_sector_invalidate V sec else sec)"

text \<open>\<open>match\<close> and \<open>insert\<close> of \<open>TaggedEntry\<close> on a sector, whose \<open>isValid\<close> is the counter.\<close>

definition sector_match :: "block_key \<Rightarrow> 'c sector_blk_scheme \<Rightarrow> bool option" where
  "sector_match key sec = do {
     ext \<leftarrow> te_extract sec;
     Some (sector_is_valid sec \<and> te_tag sec = ext (key_address key) \<and> te_secure sec = key_secure key) }"

definition sector_insert :: "block_key \<Rightarrow> 'c sector_blk_scheme \<Rightarrow> 'c sector_blk_scheme option" where
  "sector_insert key sec = do {
     ext \<leftarrow> te_extract sec;
     cpp_assert (\<not> sector_is_valid sec);
     let sec = sec\<lparr>te_valid := True, te_tag := ext (key_address key)\<rparr> in
     Some (if key_secure key then sec\<lparr>te_secure := True\<rparr> else sec) }"

text \<open>The operations of a block take its sector and return both.\<close>

definition sub_get_tag :: "'b sub_blk_scheme \<Rightarrow> 'c sector_blk_scheme \<Rightarrow> u64 option" where
  "sub_get_tag b sec = do { cpp_assert (\<not> te_valid b \<or> te_tag b = te_tag sec); Some (te_tag sec) }"

definition sub_match :: "block_key \<Rightarrow> 'b sub_blk_scheme \<Rightarrow> 'c sector_blk_scheme \<Rightarrow> bool option" where
  "sub_match key b sec = do {
     ext \<leftarrow> te_extract b;
     if te_valid b then do { tag \<leftarrow> sub_get_tag b sec; Some (tag = ext (key_address key) \<and> te_secure b = key_secure key) }
     else Some False }"

definition sub_set_valid ::
  "'b sub_blk_scheme \<Rightarrow> 'c sector_blk_scheme \<Rightarrow> ('b sub_blk_scheme \<times> 'c sector_blk_scheme) option" where
  "sub_set_valid b sec = do { b \<leftarrow> set_valid b; Some (b, validate_sub_blk sec) }"

definition sub_insert ::
  "block_key \<Rightarrow> 'b sub_blk_scheme \<Rightarrow> 'c sector_blk_scheme \<Rightarrow> ('b sub_blk_scheme \<times> 'c sector_blk_scheme) option" where
  "sub_insert key b sec = do {
     same \<leftarrow> (if sector_is_valid sec then sector_match key sec else Some True);
     cpp_assert same;
     sec \<leftarrow> (if \<not> sector_is_valid sec \<and> key_address key \<noteq> max_addr then sector_insert key sec else Some sec);
     ext \<leftarrow> te_extract b;
     (b, sec) \<leftarrow> sub_set_valid b sec;
     let b = b\<lparr>te_tag := ext (key_address key)\<rparr> in
     Some (if key_secure key then b\<lparr>te_secure := True\<rparr> else b, sec) }"

text \<open>\<open>CacheBlk::insert\<close> with the attributes of a request, which calls the virtual \<open>insert\<close>.\<close>

definition sub_cache_insert ::
  "block_key \<Rightarrow> u32 \<Rightarrow> u32 \<Rightarrow> u64 \<Rightarrow> tick \<Rightarrow> 'b sub_blk_scheme \<Rightarrow> 'c sector_blk_scheme
     \<Rightarrow> ('b sub_blk_scheme \<times> 'c sector_blk_scheme) option" where
  "sub_cache_insert key requestor task part now b sec = do {
     cpp_assert (\<not> te_valid b);
     (b, sec) \<leftarrow> sub_insert key b sec;
     Some (increase_ref_count
       (b\<lparr>cb_requestor := requestor, cb_task := task, cb_partition := part, cb_inserted := now\<rparr>), sec) }"

definition sub_invalidate ::
  "('b, 'c) block_ops \<Rightarrow> 'b sub_blk_scheme \<Rightarrow> 'c sector_blk_scheme \<Rightarrow> ('b sub_blk_scheme \<times> 'c sector_blk_scheme) option" where
  "sub_invalidate V b sec = do { b \<leftarrow> cache_blk_invalidate b; Some (bo_sub_invalidate V b, invalidate_sub_blk V sec) }"

text \<open>What the move assignment copies once the destination has been inserted.\<close>

definition copy_blk_state :: "tick \<Rightarrow> 'b cache_blk_scheme \<Rightarrow> 'b cache_blk_scheme \<Rightarrow> 'b cache_blk_scheme option" where
  "copy_blk_state now src dest =
     (let dest = (if cb_prefetched src then dest\<lparr>cb_prefetched := True\<rparr> else dest) in do {
        dest \<leftarrow> set_coherence_bits (cb_coherence src) dest;
        dest \<leftarrow> set_when_ready now (dest\<lparr>cb_task := cb_task src, cb_partition := cb_partition src\<rparr>);
        Some (dest\<lparr>cb_refs := cb_refs src, cb_requestor := cb_requestor src, cb_locks := cb_locks src\<rparr>) })"

section \<open>The store\<close>

record ('b, 'c, 's) sector_tags = base_tags +
  st_blks :: "'b sub_blk_scheme list"
  st_secs :: "'c sector_blk_scheme list"
  st_alloc_assoc :: u32
  st_sequential :: bool
  st_policy :: 's
  st_per_sector :: u32
  st_num_sectors :: u32
  st_shift :: nat
  st_mask :: u32
  st_evictions :: "u64 list"

definition new_sector_tags :: "u32 \<Rightarrow> bool \<Rightarrow> 's \<Rightarrow> u32 \<Rightarrow> base_tags \<Rightarrow> ('b, 'c, 's) sector_tags option" where
  "new_sector_tags assoc sequential policy per t = do {
     n \<leftarrow> div_u32 (bt_num_blocks t) per;
     shift \<leftarrow> floor_log2 (bt_blk_size t);
     cpp_assert (\<not> (bt_blk_size t < 4 \<or> \<not> is_power_of_2 (bt_blk_size t)));
     cpp_assert (is_power_of_2 per);
     Some (base_tags.extend t \<lparr>st_blks = [], st_secs = [], st_alloc_assoc = assoc, st_sequential = sequential,
       st_policy = policy, st_per_sector = per, st_num_sectors = n, st_shift = shift, st_mask = per - 1,
       st_evictions = replicate (Suc (unat per)) 0\<rparr>) }"

text \<open>A block with the index of its sector and its sector.\<close>

definition sub_at :: "nat \<Rightarrow> ('b, 'c, 's) sector_tags \<Rightarrow> ('b sub_blk_scheme \<times> nat \<times> 'c sector_blk_scheme) option" where
  "sub_at i t = do {
     b \<leftarrow> nth_opt (st_blks t) i;
     s \<leftarrow> sb_sector b;
     sec \<leftarrow> nth_opt (st_secs t) s;
     Some (b, s, sec) }"

definition put_sub ::
  "nat \<Rightarrow> 'b sub_blk_scheme \<Rightarrow> nat \<Rightarrow> 'c sector_blk_scheme \<Rightarrow> ('b, 'c, 's) sector_tags \<Rightarrow> ('b, 'c, 's) sector_tags" where
  "put_sub i b s sec t = t\<lparr>st_blks := (st_blks t)[i := b], st_secs := (st_secs t)[s := sec]\<rparr>"

section \<open>Initialisation\<close>

text \<open>The body of the inner loop: block \<open>k\<close> of sector \<open>s\<close>.\<close>

definition link_sub :: "bool \<Rightarrow> nat \<Rightarrow> nat \<Rightarrow> ('b, 'c, 's) sector_tags \<Rightarrow> ('b, 'c, 's) sector_tags option" where
  "link_sub ext s k t =
     (let i = s * unat (st_per_sector t) + k in do {
        b \<leftarrow> nth_opt (st_blks t) i;
        sec \<leftarrow> nth_opt (st_secs t) s;
        ps \<leftarrow> update_opt (sec_blks sec) k (Some i);
        let b = b\<lparr>cb_data := Some (unat (bt_blk_size t) * i), sb_sector := Some s, sb_offset := of_nat k\<rparr>;
            b = (if ext then register_tag_extractor (extract_tag (bt_indexing t)) b else b) in
        Some (put_sub i b s (sec\<lparr>sec_blks := ps\<rparr>) t) })"

text \<open>The position of a sector is also that of its blocks.\<close>

definition sector_set_position ::
  "nat \<Rightarrow> u32 \<Rightarrow> u32 \<Rightarrow> ('b, 'c, 's) sector_tags \<Rightarrow> ('b, 'c, 's) sector_tags option" where
  "sector_set_position s row way t = do {
     sec \<leftarrow> nth_opt (st_secs t) s;
     ps \<leftarrow> map_opt id (sec_blks sec);
     blks \<leftarrow> fold_opt (\<lambda>i bs. do { b \<leftarrow> nth_opt bs i; update_opt bs i (set_position row way b) }) ps (st_blks t);
     Some (t\<lparr>st_blks := blks, st_secs := (st_secs t)[s := set_position row way sec]\<rparr>) }"

text \<open>The argument tells whether the tag extractors are registered, as \<open>SectorTags::tagsInit\<close> does.\<close>

definition init_sector ::
  "bool \<Rightarrow> ('env, 's) policy_ops \<Rightarrow> nat \<Rightarrow> ('b, 'c, 's) sector_tags \<Rightarrow> ('b, 'c, 's) sector_tags option" where
  "init_sector ext OPS s t = do {
     sec \<leftarrow> nth_opt (st_secs t) s;
     p \<leftarrow> op_instantiate OPS s (st_policy t);
     t \<leftarrow> fold_opt (link_sub ext s) [0..<unat (st_per_sector t)]
       (t\<lparr>st_policy := p, st_secs := (st_secs t)[s := sec\<lparr>sec_blks := replicate (unat (st_per_sector t)) None\<rparr>]\<rparr>);
     (ix, row, way) \<leftarrow> set_entry s (of_nat s) (bt_indexing t);
     t \<leftarrow> sector_set_position s row way (t\<lparr>bt_indexing := ix\<rparr>);
     if ext then do {
       sec \<leftarrow> nth_opt (st_secs t) s;
       Some (t\<lparr>st_secs := (st_secs t)[s := register_tag_extractor (extract_tag ix) sec]\<rparr>) }
     else Some t }"

definition sector_tags_init ::
  "('env, 's) policy_ops \<Rightarrow> (unit, unit, 's) sector_tags \<Rightarrow> (unit, unit, 's) sector_tags option" where
  "sector_tags_init OPS t = do {
     b \<leftarrow> new_sub_blk;
     fold_opt (init_sector True OPS) [0..<unat (st_num_sectors t)]
       (t\<lparr>st_blks := replicate (unat (bt_num_blocks t)) b,
          st_secs := replicate (unat (st_num_sectors t)) new_sector_blk\<rparr>) }"

section \<open>Operations\<close>

definition extract_sector_offset :: "u64 \<Rightarrow> ('b, 'c, 's) sector_tags \<Rightarrow> nat" where
  "extract_sector_offset addr t = unat (drop_bit (st_shift t) addr AND ucast (st_mask t))"

text \<open>The loop of \<open>findBlock\<close> over the sectors of the set.\<close>

fun find_sub ::
  "block_key \<Rightarrow> nat \<Rightarrow> ('b, 'c, 's) sector_tags \<Rightarrow> entry option list \<Rightarrow> nat option option" where
  "find_sub key offset t [] = Some None"
| "find_sub key offset t (p # ps) = do {
     s \<leftarrow> p;
     sec \<leftarrow> nth_opt (st_secs t) s;
     bp \<leftarrow> nth_opt (sec_blks sec) offset;
     i \<leftarrow> bp;
     (b, s', sec') \<leftarrow> sub_at i t;
     m \<leftarrow> sub_match key b sec';
     if m then Some (Some i) else find_sub key offset t ps }"

definition sector_find_block :: "block_key \<Rightarrow> ('b, 'c, 's) sector_tags \<Rightarrow> nat option option" where
  "sector_find_block key t = do {
     ps \<leftarrow> possible_entries (bt_indexing t) (key_address key);
     find_sub key (extract_sector_offset (key_address key) t) t ps }"

definition sector_invalidate ::
  "('b, 'c) block_ops \<Rightarrow> ('env, 's) policy_ops \<Rightarrow> nat \<Rightarrow> ('b, 'c, 's) sector_tags \<Rightarrow> ('b, 'c, 's) sector_tags option" where
  "sector_invalidate V OPS i t = do {
     (b, s, sec) \<leftarrow> sub_at i t;
     cpp_assert (te_valid b);
     st \<leftarrow> count_occupancy (\<lambda>n. n - 1) (cb_requestor b) (bt_stats t);
     (b', sec') \<leftarrow> sub_invalidate V b sec;
     let st = st\<lparr>total_refs := total_refs st + ucast (cb_refs b), sampled_refs := sampled_refs st + 1\<rparr>;
         t = put_sub i b' s sec' t in
     if sector_is_valid sec' then Some (t\<lparr>bt_stats := st\<rparr>)
     else do {
       p \<leftarrow> op_invalidate OPS s (st_policy t);
       Some (t\<lparr>bt_stats := st\<lparr>tags_in_use := tags_in_use st - 1\<rparr>, st_policy := p\<rparr>) } }"

definition sector_access_block ::
  "('env, 's) policy_ops \<Rightarrow> 'env \<Rightarrow> packet \<Rightarrow> ('b, 'c, 's) sector_tags \<Rightarrow> (nat option \<times> u64 \<times> ('b, 'c, 's) sector_tags) option" where
  "sector_access_block OPS env pkt t = do {
     found \<leftarrow> sector_find_block (packet_key pkt) t;
     let st = (bt_stats t)\<lparr>tag_accesses := tag_accesses (bt_stats t) + ucast (st_alloc_assoc t)\<rparr>;
         st = (if st_sequential t then (if found \<noteq> None then st\<lparr>data_accesses := data_accesses st + 1\<rparr> else st)
               else st\<lparr>data_accesses := data_accesses st + ucast (st_alloc_assoc t * st_per_sector t)\<rparr>);
         t = t\<lparr>bt_stats := st\<rparr> in
     (case found of
        None \<Rightarrow> Some (None, bt_latency t, t)
      | Some i \<Rightarrow> do {
          (b, s, sec) \<leftarrow> sub_at i t;
          p \<leftarrow> op_touch OPS env s (st_policy t);
          Some (Some i, bt_latency t, t\<lparr>st_blks := (st_blks t)[i := increase_ref_count b], st_policy := p\<rparr>) }) }"

text \<open>The base class inserts the block last, with its own statistics.\<close>

definition sector_insert_block ::
  "('env, 's) policy_ops \<Rightarrow> 'env \<Rightarrow> tick \<Rightarrow> packet \<Rightarrow> nat \<Rightarrow> ('b, 'c, 's) sector_tags \<Rightarrow> ('b, 'c, 's) sector_tags option" where
  "sector_insert_block OPS env now pkt i t = do {
     (b, s, sec) \<leftarrow> sub_at i t;
     p \<leftarrow> (if sector_is_valid sec then op_touch OPS env s (st_policy t) else op_reset OPS env s (st_policy t));
     let st = (if sector_is_valid sec then bt_stats t else (bt_stats t)\<lparr>tags_in_use := tags_in_use (bt_stats t) + 1\<rparr>) in do {
     cpp_assert (\<not> te_valid b);
     let r = req_requestor (pkt_req pkt) in do {
     cpp_assert (r < bt_max_requestors t);
     st \<leftarrow> count_occupancy (\<lambda>n. n + 1) r st;
     (b, sec) \<leftarrow> sub_cache_insert (packet_key pkt) r (req_task (pkt_req pkt)) (packet_partition pkt t) now b sec;
     let warm = \<not> bt_warmed_up t \<and> bt_warmup_bound t \<le> average_value (tags_in_use st);
         st = (if warm then st\<lparr>warmup_tick := now\<rparr> else st) in
     Some ((put_sub i b s sec t)\<lparr>st_policy := p, bt_warmed_up := bt_warmed_up t \<or> warm,
       bt_stats := st\<lparr>tag_accesses := tag_accesses st + 1, data_accesses := data_accesses st + 1\<rparr>\<rparr>) } } }"

text \<open>\<open>BaseTags::moveBlock\<close>: the move assignment with the virtual functions of the blocks.\<close>

definition sub_move_block ::
  "('b, 'c) block_ops \<Rightarrow> tick \<Rightarrow> nat \<Rightarrow> nat \<Rightarrow> ('b, 'c, 's) sector_tags \<Rightarrow> ('b, 'c, 's) sector_tags option" where
  "sub_move_block V now src dest t = do {
     (sb, ss, ssec) \<leftarrow> sub_at src t;
     (db, ds, dsec) \<leftarrow> sub_at dest t;
     cpp_assert (\<not> te_valid db);
     cpp_assert (te_valid sb);
     tag \<leftarrow> sub_get_tag sb ssec;
     (db, dsec) \<leftarrow> sub_insert \<lparr>key_address = tag, key_secure = te_secure sb\<rparr> (bo_copy V sb db) dsec;
     locks \<leftarrow> Some (cb_locks db);
     db \<leftarrow> copy_blk_state now sb db;
     let t = put_sub dest db ds dsec t in do {
       ssec \<leftarrow> nth_opt (st_secs t) ss;
       (sb, ssec) \<leftarrow> sub_invalidate V (sb\<lparr>cb_locks := locks\<rparr>) ssec;
       Some (put_sub src sb ss ssec t) } }"

definition sector_move_block ::
  "('b, 'c) block_ops \<Rightarrow> ('env, 's) policy_ops \<Rightarrow> 'env \<Rightarrow> tick \<Rightarrow> nat \<Rightarrow> nat \<Rightarrow> ('b, 'c, 's) sector_tags
     \<Rightarrow> ('b, 'c, 's) sector_tags option" where
  "sector_move_block V OPS env now src dest t = do {
     (_, ds, dsec) \<leftarrow> sub_at dest t;
     let was_valid = sector_is_valid dsec in do {
     t \<leftarrow> sub_move_block V now src dest t;
     (_, ss, ssec) \<leftarrow> sub_at src t;
     p \<leftarrow> (if sector_is_valid ssec then Some (st_policy t) else op_invalidate OPS ss (st_policy t));
     let st = bt_stats t;
         used = (if \<not> sector_is_valid ssec then (if was_valid then tags_in_use st - 1 else tags_in_use st)
                 else if was_valid then tags_in_use st else tags_in_use st + 1) in do {
     p \<leftarrow> (if was_valid then op_touch OPS env ds p else op_reset OPS env ds p);
     Some (t\<lparr>bt_stats := st\<lparr>tags_in_use := used\<rparr>, st_policy := p\<rparr>) } } }"

section \<open>Victims\<close>

text \<open>
  The partitioning policies filter sectors. The way policy reads the position of an entry; the
  capacity policy, once the limit is reached, casts the entry to a cache block, which a sector is not.
\<close>

definition sector_pp_filter :: "(entry \<Rightarrow> 'c sector_blk_scheme) \<Rightarrow> u64 \<Rightarrow> partitioning \<Rightarrow> entry list \<Rightarrow> entry list option" where
  "sector_pp_filter sec i p es = (case p of
     WayPP m \<Rightarrow> (case map_of m i of
        None \<Rightarrow> Some es | Some ws \<Rightarrow> Some (filter (\<lambda>e. te_way (sec e) \<in> set ws) es))
   | MaxCapacityPP c \<Rightarrow> (case (map_of (max_capacities c) i, map_of (cur_capacities c) i) of
        (Some most, Some cur) \<Rightarrow> if es = [] \<or> cur < most then Some es else None
      | _ \<Rightarrow> Some es))"

definition sector_candidates :: "block_key \<Rightarrow> u64 \<Rightarrow> ('b, 'c, 's) sector_tags \<Rightarrow> entry list option" where
  "sector_candidates key part_id t = do {
     ps \<leftarrow> possible_entries (bt_indexing t) (key_address key);
     es \<leftarrow> map_opt id ps;
     cpp_assert (\<forall>e \<in> set es. e < length (st_secs t));
     (case bt_partitions t of None \<Rightarrow> Some es
      | Some pm \<Rightarrow> fold_opt (sector_pp_filter (\<lambda>e. st_secs t ! e) part_id) pm es) }"

text \<open>The first sector that matches the key.\<close>

fun find_sector :: "block_key \<Rightarrow> 'c sector_blk_scheme list \<Rightarrow> entry list \<Rightarrow> entry option option" where
  "find_sector key secs [] = Some None"
| "find_sector key secs (e # es) = do {
     sec \<leftarrow> nth_opt secs e;
     m \<leftarrow> sector_match key sec;
     if m then Some (Some e) else find_sector key secs es }"

text \<open>The valid blocks of a sector, in the order of their offsets.\<close>

definition valid_subs :: "'c sector_blk_scheme \<Rightarrow> ('b, 'c, 's) sector_tags \<Rightarrow> nat list option" where
  "valid_subs sec t = do {
     is \<leftarrow> map_opt id (sec_blks sec);
     cpp_assert (\<forall>i \<in> set is. i < length (st_blks t));
     Some (filter (\<lambda>i. te_valid (st_blks t ! i)) is) }"

definition count_eviction :: "nat \<Rightarrow> ('b, 'c, 's) sector_tags \<Rightarrow> ('b, 'c, 's) sector_tags option" where
  "count_eviction n t = do {
     x \<leftarrow> nth_opt (st_evictions t) n;
     ev \<leftarrow> update_opt (st_evictions t) n (x + 1);
     Some (t\<lparr>st_evictions := ev\<rparr>) }"

text \<open>
  The third argument is the list of blocks to evict, which is appended to. Without candidates no
  victim is returned and nothing is counted.
\<close>

definition sector_find_victim ::
  "('env, 's) policy_ops \<Rightarrow> 'env \<Rightarrow> block_key \<Rightarrow> nat list \<Rightarrow> u64 \<Rightarrow> ('b, 'c, 's) sector_tags
     \<Rightarrow> (nat option \<times> nat list \<times> ('b, 'c, 's) sector_tags) option" where
  "sector_find_victim OPS env key evict part_id t = do {
     es \<leftarrow> sector_candidates key part_id t;
     found \<leftarrow> find_sector key (st_secs t) es;
     if found = None \<and> es = [] then Some (None, evict, t)
     else do {
       (s, p) \<leftarrow> (case found of Some s \<Rightarrow> Some (s, st_policy t) | None \<Rightarrow> op_victim OPS env es (st_policy t));
       sec \<leftarrow> nth_opt (st_secs t) s;
       bp \<leftarrow> nth_opt (sec_blks sec) (extract_sector_offset (key_address key) t);
       m \<leftarrow> sector_match key sec;
       i \<leftarrow> bp;
       evict \<leftarrow> (if m then do { b \<leftarrow> nth_opt (st_blks t) i; cpp_assert (\<not> te_valid b); Some evict }
                 else do { vs \<leftarrow> valid_subs sec t; Some (evict @ vs) });
       t \<leftarrow> count_eviction (length evict) (t\<lparr>st_policy := p\<rparr>);
       Some (Some i, evict, t) } }"

section \<open>Addresses and visitors\<close>

definition sector_regenerate_blk_addr :: "nat \<Rightarrow> ('b, 'c, 's) sector_tags \<Rightarrow> u64 option" where
  "sector_regenerate_blk_addr i t = do {
     (b, s, sec) \<leftarrow> sub_at i t;
     tag \<leftarrow> sub_get_tag b sec;
     Some (regenerate_addr (bt_indexing t) tag (te_set sec) OR push_bit (st_shift t) (ucast (sb_offset b))) }"

definition sector_any_blk :: "('b sub_blk_scheme \<Rightarrow> bool) \<Rightarrow> ('b, 'c, 's) sector_tags \<Rightarrow> bool" where
  "sector_any_blk visitor t \<longleftrightarrow> (\<exists>b \<in> set (st_blks t). visitor b)"

end
