(* ===== verification/SectorFacts.thy ===== *)
theory SectorFacts
  imports SectorTags SetAssocFacts
begin

text \<open>
  The sector store under its invariant: the counter of a sector is the number of its valid blocks,
  a valid block has the tag and the security attribute of its sector, and no two valid sectors of a
  set have both alike. The lemmas hold for every kind of blocks that overrides only what the locale
  \<open>sector_blocks\<close> allows.
\<close>

section \<open>What a subclass of the blocks may override\<close>

locale sector_blocks =
  fixes V :: "('b, 'c) block_ops"
  assumes copy_fields: "te_valid (bo_copy V s d) = te_valid d" "te_tag (bo_copy V s d) = te_tag d"
      "te_secure (bo_copy V s d) = te_secure d" "te_extract (bo_copy V s d) = te_extract d"
      "sb_sector (bo_copy V s d) = sb_sector d" "sb_offset (bo_copy V s d) = sb_offset d"
    and sub_invalidate_fields: "te_valid (bo_sub_invalidate V b) = te_valid b" "te_secure (bo_sub_invalidate V b) = te_secure b"
      "te_extract (bo_sub_invalidate V b) = te_extract b" "sb_sector (bo_sub_invalidate V b) = sb_sector b"
      "sb_offset (bo_sub_invalidate V b) = sb_offset b"
    and sector_invalidate_fields: "te_secure (bo_sector_invalidate V sec) = False"
      "te_extract (bo_sector_invalidate V sec) = te_extract sec" "te_set (bo_sector_invalidate V sec) = te_set sec"
      "sec_valid_count (bo_sector_invalidate V sec) = sec_valid_count sec"
      "sec_blks (bo_sector_invalidate V sec) = sec_blks sec"

interpretation plain_blocks: sector_blocks sector_block_ops
  by unfold_locales (simp_all add: sector_block_ops_def tagged_invalidate_def)

section \<open>The invariant\<close>

definition valid_in :: "'b tagged_entry_scheme list \<Rightarrow> nat \<Rightarrow> nat \<Rightarrow> nat set" where
  "valid_in bs n s = {i. i < length bs \<and> i div n = s \<and> te_valid (bs ! i)}"

definition sub_placed :: "nat \<Rightarrow> indexing \<Rightarrow> nat \<Rightarrow> 'b sub_blk_scheme \<Rightarrow> bool" where
  "sub_placed n ix i b \<longleftrightarrow> sb_sector b = Some (i div n) \<and> sb_offset b = of_nat (i mod n)
     \<and> te_extract b = Some (extract_tag ix) \<and> (te_valid b \<or> \<not> te_secure b)"

definition sector_placed :: "nat \<Rightarrow> indexing \<Rightarrow> 'b sub_blk_scheme list \<Rightarrow> nat \<Rightarrow> 'c sector_blk_scheme \<Rightarrow> bool" where
  "sector_placed n ix bs s sec \<longleftrightarrow> te_extract sec = Some (extract_tag ix) \<and> sec_blks sec = map Some [s * n..<Suc s * n]
     \<and> unat (te_set sec) = s div unat (ix_assoc ix)
     \<and> sec_valid_count sec = of_nat (card (valid_in bs n s)) \<and> (valid_in bs n s = {} \<longrightarrow> \<not> te_secure sec)
     \<and> (\<forall>i \<in> valid_in bs n s. te_tag (bs ! i) = te_tag sec \<and> te_secure (bs ! i) = te_secure sec)"

definition sectors_unique :: "nat \<Rightarrow> nat \<Rightarrow> 'b sub_blk_scheme list \<Rightarrow> 'c sector_blk_scheme list \<Rightarrow> bool" where
  "sectors_unique n a bs secs \<longleftrightarrow> (\<forall>s s'. s < length secs \<and> s' < length secs \<and> s div a = s' div a
     \<and> valid_in bs n s \<noteq> {} \<and> valid_in bs n s' \<noteq> {} \<and> te_tag (secs ! s) = te_tag (secs ! s')
     \<and> te_secure (secs ! s) = te_secure (secs ! s') \<longrightarrow> s = s')"

definition sector_shape :: "('b, 'c, 's) sector_tags \<Rightarrow> bool" where
  "sector_shape t \<longleftrightarrow> indexing_ok (bt_indexing t) \<and> rows_ok (bt_indexing t)
     \<and> (\<exists>k < 8. unat (st_per_sector t) = 2 ^ k) \<and> st_mask t = st_per_sector t - 1
     \<and> length (st_secs t) = length (ix_sets (bt_indexing t)) * unat (ix_assoc (bt_indexing t))
     \<and> length (st_blks t) = length (st_secs t) * unat (st_per_sector t)
     \<and> length (occupancies (bt_stats t)) = unat (bt_max_requestors t)
     \<and> length (st_evictions t) = Suc (unat (st_per_sector t))"

definition sector_inv :: "('b, 'c, 's) sector_tags \<Rightarrow> bool" where
  "sector_inv t \<longleftrightarrow> sector_shape t
     \<and> (\<forall>i < length (st_blks t). sub_placed (unat (st_per_sector t)) (bt_indexing t) i (st_blks t ! i))
     \<and> (\<forall>s < length (st_secs t). sector_placed (unat (st_per_sector t)) (bt_indexing t) (st_blks t) s (st_secs t ! s))
     \<and> sectors_unique (unat (st_per_sector t)) (unat (ix_assoc (bt_indexing t))) (st_blks t) (st_secs t)
     \<and> (\<forall>b \<in> set (st_blks t). te_valid b \<longrightarrow> cb_requestor b < bt_max_requestors t)"

text \<open>Block \<open>i\<close> holds the key.\<close>

definition sub_holds :: "block_key \<Rightarrow> ('b, 'c, 's) sector_tags \<Rightarrow> nat \<Rightarrow> bool" where
  "sub_holds k t i \<longleftrightarrow> (let s = i div unat (st_per_sector t); ix = bt_indexing t in
     i < length (st_blks t) \<and> i mod unat (st_per_sector t) = extract_sector_offset (key_address k) t
     \<and> s div unat (ix_assoc ix) = unat (extract_set ix (key_address k)) \<and> te_valid (st_blks t ! i)
     \<and> te_tag (st_secs t ! s) = extract_tag ix (key_address k) \<and> te_secure (st_secs t ! s) = key_secure k)"

definition same_sub_block :: "('b, 'c, 's) sector_tags \<Rightarrow> block_key \<Rightarrow> block_key \<Rightarrow> bool" where
  "same_sub_block t k k' \<longleftrightarrow> same_block (bt_indexing t) k k'
     \<and> extract_sector_offset (key_address k) t = extract_sector_offset (key_address k') t"

section \<open>Arithmetic of sectors\<close>

lemma sector_shape_per: "sector_shape t \<Longrightarrow> 0 < unat (st_per_sector t) \<and> unat (st_per_sector t) < 256"
proof -
  assume "sector_shape t"
  then obtain k where k: "k < 8" "unat (st_per_sector t) = 2 ^ k" by (auto simp: sector_shape_def)
  then have "(2 :: nat) ^ k \<le> 2 ^ 7" by (intro power_increasing) auto
  with k(2) show ?thesis by simp
qed

lemma sector_of_block:
  assumes "sector_shape t" "i < length (st_blks t)"
  shows "i div unat (st_per_sector t) < length (st_secs t)"
  using assms sector_shape_per [OF assms(1)] by (simp add: sector_shape_def less_mult_imp_div_less)

lemma block_of_sector:
  assumes "sector_shape t" "s < length (st_secs t)" "k < unat (st_per_sector t)"
  shows "s * unat (st_per_sector t) + k < length (st_blks t)"
proof -
  have "s * unat (st_per_sector t) + k < Suc s * unat (st_per_sector t)" using assms(3) by simp
  also have "\<dots> \<le> length (st_secs t) * unat (st_per_sector t)" using assms(2) by (intro mult_le_mono1) simp
  finally show ?thesis using assms(1) by (simp add: sector_shape_def)
qed

lemma sector_offset_mod:
  assumes "sector_shape t"
  shows "extract_sector_offset addr t = (unat addr div 2 ^ st_shift t) mod unat (st_per_sector t)"
proof -
  from assms obtain k where k: "k < 8" "unat (st_per_sector t) = 2 ^ k" and m: "st_mask t = st_per_sector t - 1"
    by (auto simp: sector_shape_def)
  have "st_per_sector t = 2 ^ k"
    using k power_u32 [of k] by (simp add: word_unat_eq_iff)
  then have "st_mask t = mask k" using m by (simp add: mask_eq_exp_minus_1)
  then have "(ucast (st_mask t) :: u64) = mask k"
    using k(1) by (intro bit_word_eqI) (auto simp: bit_ucast_iff bit_mask_iff)
  then have "extract_sector_offset addr t = unat (take_bit k (drop_bit (st_shift t) addr))"
    by (simp only: extract_sector_offset_def take_bit_eq_mask)
  also have "\<dots> = take_bit k (drop_bit (st_shift t) (unat addr))"
    by (simp only: unsigned_take_bit_eq unat_drop_bit_eq)
  finally show ?thesis by (simp only: k(2) take_bit_eq_mod drop_bit_eq_div)
qed

lemma sector_offset_below: "sector_shape t \<Longrightarrow> extract_sector_offset addr t < unat (st_per_sector t)"
  using sector_shape_per [of t] by (simp add: sector_offset_mod)

lemma finite_valid_in [simp]: "finite (valid_in bs n s)"
  by (simp add: valid_in_def)

lemma card_valid_in:
  assumes "0 < n"
  shows "card (valid_in bs n s) \<le> n"
proof -
  have "valid_in bs n s \<subseteq> {s * n..<Suc s * n}"
  proof
    fix i
    assume "i \<in> valid_in bs n s"
    then have "i div n = s" by (simp add: valid_in_def)
    with row_member [OF assms, of i s] show "i \<in> {s * n..<Suc s * n}" by simp
  qed
  from card_mono [OF _ this] show ?thesis by simp
qed

lemma valid_in_update:
  assumes "i < length bs"
  shows "valid_in (bs[i := b]) n s
    = (if i div n = s then if te_valid b then insert i (valid_in bs n s) else valid_in bs n s - {i} else valid_in bs n s)"
  using assms by (auto simp: valid_in_def nth_list_update)

lemma count_is_valid:
  assumes "sector_placed n ix bs s sec" "0 < n" "n < 256"
  shows "sector_is_valid sec \<longleftrightarrow> valid_in bs n s \<noteq> {}"
proof -
  have "card (valid_in bs n s) < 256" using card_valid_in [OF assms(2), of bs s] assms(3) by simp
  then have "unat (of_nat (card (valid_in bs n s)) :: 8 word) = card (valid_in bs n s)"
    by (simp add: unsigned_of_nat take_bit_nat_eq_self)
  moreover have "sec_valid_count sec = of_nat (card (valid_in bs n s))" using assms(1) by (simp add: sector_placed_def)
  ultimately have "unat (sec_valid_count sec) = card (valid_in bs n s)" by simp
  then have "0 < sec_valid_count sec \<longleftrightarrow> 0 < card (valid_in bs n s)" by (simp add: word_less_nat_alt)
  then show ?thesis by (simp add: sector_is_valid_def card_gt_0_iff)
qed

lemma sector_valid_iff:
  assumes "sector_inv t" "s < length (st_secs t)"
  shows "sector_is_valid (st_secs t ! s) \<longleftrightarrow> valid_in (st_blks t) (unat (st_per_sector t)) s \<noteq> {}"
  by (rule count_is_valid) (use assms sector_shape_per [of t] in \<open>auto simp: sector_inv_def\<close>)

lemma sub_at_inv:
  assumes "sector_inv t" "i < length (st_blks t)"
  shows "sub_at i t = Some (st_blks t ! i, i div unat (st_per_sector t), st_secs t ! (i div unat (st_per_sector t)))"
  using assms sector_of_block [of t i] by (simp add: sector_inv_def sub_placed_def sub_at_def)

lemma sub_at_bounds:
  "sub_at i t = Some (b, s, sec) \<Longrightarrow> i < length (st_blks t) \<and> b = st_blks t ! i \<and> s < length (st_secs t) \<and> sec = st_secs t ! s"
  by (auto simp: sub_at_def bind_Some_iff)

section \<open>The lookup\<close>

lemma sub_match_inv:
  assumes "sector_inv t" "i < length (st_blks t)"
  shows "sub_match k (st_blks t ! i) (st_secs t ! (i div unat (st_per_sector t)))
    = Some (te_valid (st_blks t ! i) \<and> te_tag (st_secs t ! (i div unat (st_per_sector t))) = extract_tag (bt_indexing t) (key_address k)
        \<and> te_secure (st_secs t ! (i div unat (st_per_sector t))) = key_secure k)"
proof -
  let ?s = "i div unat (st_per_sector t)"
  from assms sector_of_block [of t i] have "sub_placed (unat (st_per_sector t)) (bt_indexing t) i (st_blks t ! i)"
    "sector_placed (unat (st_per_sector t)) (bt_indexing t) (st_blks t) ?s (st_secs t ! ?s)"
    by (auto simp: sector_inv_def)
  then show ?thesis using assms(2)
    by (auto simp: sub_match_def sub_get_tag_def sub_placed_def sector_placed_def valid_in_def)
qed

lemma find_sub_find:
  assumes inv: "sector_inv t" and es: "\<forall>s \<in> set es. s < length (st_secs t)" and o: "off < unat (st_per_sector t)"
  shows "find_sub k off t (map Some es) = Some (map_option (\<lambda>s. s * unat (st_per_sector t) + off)
    (find (\<lambda>s. te_valid (st_blks t ! (s * unat (st_per_sector t) + off))
      \<and> te_tag (st_secs t ! s) = extract_tag (bt_indexing t) (key_address k)
      \<and> te_secure (st_secs t ! s) = key_secure k) es))"
  using es
proof (induction es)
  case Nil
  then show ?case by simp
next
  case (Cons s es)
  let ?n = "unat (st_per_sector t)"
  let ?i = "s * ?n + off"
  have shape: "sector_shape t" using inv by (simp add: sector_inv_def)
  from Cons.prems have s: "s < length (st_secs t)" by simp
  from block_of_sector [OF shape s o] have i: "?i < length (st_blks t)" .
  have d: "?i div ?n = s" using o by simp
  have "sector_placed ?n (bt_indexing t) (st_blks t) s (st_secs t ! s)" using inv s by (simp add: sector_inv_def)
  then have "sec_blks (st_secs t ! s) = map Some [s * ?n..<Suc s * ?n]" by (simp add: sector_placed_def)
  then have b: "off < length (sec_blks (st_secs t ! s))" "sec_blks (st_secs t ! s) ! off = Some ?i" using o by simp_all
  from Cons sub_at_inv [OF inv i] sub_match_inv [OF inv i, of k] s b show ?case by (simp add: d)
qed

lemma sector_find_iff:
  assumes inv: "sector_inv t"
  shows "\<exists>r. sector_find_block k t = Some r \<and> (\<forall>i. r = Some i \<longleftrightarrow> sub_holds k t i)"
proof -
  let ?ix = "bt_indexing t" and ?a = "unat (ix_assoc (bt_indexing t))" and ?n = "unat (st_per_sector t)"
  let ?r = "unat (extract_set ?ix (key_address k))" and ?o = "extract_sector_offset (key_address k) t"
  let ?es = "[?r * ?a..<Suc ?r * ?a]"
  have shape: "sector_shape t" using inv by (simp add: sector_inv_def)
  then have ok: "indexing_ok ?ix" "rows_ok ?ix" and len: "length (st_secs t) = length (ix_sets ?ix) * ?a"
    by (auto simp: sector_shape_def)
  from extract_set_below [OF ok(1)] have r: "?r < length (ix_sets ?ix)" .
  with ok(2) have row: "possible_entries ?ix (key_address k) = Some (map Some ?es)"
    by (simp add: possible_entries_def rows_ok_def)
  have a: "0 < ?a" using ok(1) by (auto simp: indexing_ok_def unat_gt_0)
  note mem = row_member [OF a]
  have o: "?o < ?n" by (rule sector_offset_below [OF shape])
  have "Suc ?r * ?a \<le> length (ix_sets ?ix) * ?a" using r by (intro mult_le_mono1) simp
  then have below: "\<forall>s \<in> set ?es. s < length (st_secs t)" using len by auto
  let ?P = "\<lambda>s. te_valid (st_blks t ! (s * ?n + ?o)) \<and> te_tag (st_secs t ! s) = extract_tag ?ix (key_address k)
    \<and> te_secure (st_secs t ! s) = key_secure k"
  have f: "sector_find_block k t = Some (map_option (\<lambda>s. s * ?n + ?o) (find ?P ?es))"
    using find_sub_find [OF inv below o, of k] by (simp add: sector_find_block_def row)
  have holds: "sub_holds k t (s * ?n + ?o)" if "s \<in> set ?es" "?P s" for s
    using that o block_of_sector [OF shape _ o, of s] below mem by (auto simp: sub_holds_def)
  have found: "find ?P ?es = Some (i div ?n)" and split: "i = i div ?n * ?n + ?o" if h: "sub_holds k t i" for i
  proof -
    let ?s = "i div ?n"
    have i: "i < length (st_blks t)" "i mod ?n = ?o" "?s div ?a = ?r" "te_valid (st_blks t ! i)"
      "te_tag (st_secs t ! ?s) = extract_tag ?ix (key_address k)" "te_secure (st_secs t ! ?s) = key_secure k"
      using h by (auto simp: sub_holds_def Let_def)
    show split: "i = ?s * ?n + ?o" using i(2) div_mult_mod_eq [of i ?n] by simp
    then have P: "?s \<in> set ?es" "?P ?s" using i mem by auto
    then obtain s where s: "find ?P ?es = Some s" by (cases "find ?P ?es") (auto simp: find_None_iff)
    then have Ps: "s \<in> set ?es" "?P s" by (auto simp: find_Some_iff)
    have "s * ?n + ?o \<in> valid_in (st_blks t) ?n s" "i \<in> valid_in (st_blks t) ?n ?s"
      using Ps i below o block_of_sector [OF shape _ o, of s] by (auto simp: valid_in_def)
    moreover have "sectors_unique ?n ?a (st_blks t) (st_secs t)" using inv by (simp add: sector_inv_def)
    moreover have "s < length (st_secs t)" "?s < length (st_secs t)" "s div ?a = ?s div ?a"
      using Ps(1) P(1) below mem by auto
    moreover have "te_tag (st_secs t ! s) = te_tag (st_secs t ! ?s)" "te_secure (st_secs t ! s) = te_secure (st_secs t ! ?s)"
      using Ps(2) i(5,6) by simp_all
    ultimately have "s = ?s" unfolding sectors_unique_def by blast
    with s show "find ?P ?es = Some ?s" by simp
  qed
  let ?r = "map_option (\<lambda>s. s * ?n + ?o) (find ?P ?es)"
  have "?r = Some i \<longleftrightarrow> sub_holds k t i" for i
  proof
    assume "?r = Some i"
    then obtain s where "find ?P ?es = Some s" "i = s * ?n + ?o" by auto
    then show "sub_holds k t i" using holds [of s] by (auto simp: find_Some_iff)
  next
    assume h: "sub_holds k t i"
    from found [OF h] split [OF h] show "?r = Some i" by simp
  qed
  with f show ?thesis by blast
qed

lemma sector_find_eqI:
  assumes "sector_inv t" "\<And>i. r = Some i \<longleftrightarrow> sub_holds k t i"
  shows "sector_find_block k t = Some r"
proof -
  from sector_find_iff [OF assms(1), of k] obtain r' where
    r': "sector_find_block k t = Some r'" "\<And>i. r' = Some i \<longleftrightarrow> sub_holds k t i" by blast
  with assms(2) have "r' = Some i \<longleftrightarrow> r = Some i" for i by blast
  then have "r' = r" by (cases r; cases r') auto
  with r'(1) show ?thesis by simp
qed

section \<open>Changing one block and its sector\<close>

text \<open>
  The invariant survives when block \<open>i\<close> and its sector are replaced, if the new sector counts its
  blocks, agrees with the valid ones, and does not repeat a valid sector of its set.
\<close>

lemma sector_inv_update:
  assumes inv: "sector_inv t" and i: "i < length (st_blks t)"
    and shape: "sector_shape t'" "bt_indexing t' = bt_indexing t" "st_per_sector t' = st_per_sector t"
      "bt_max_requestors t' = bt_max_requestors t" "te_valid b \<Longrightarrow> cb_requestor b < bt_max_requestors t"
    and blks: "st_blks t' = (st_blks t)[i := b]"
    and secs: "st_secs t' = (st_secs t)[i div unat (st_per_sector t) := sec]"
    and placed: "sub_placed (unat (st_per_sector t)) (bt_indexing t) i b"
      "sector_placed (unat (st_per_sector t)) (bt_indexing t) (st_blks t') (i div unat (st_per_sector t)) sec"
    and unique: "\<And>s. te_valid b \<Longrightarrow> s < length (st_secs t) \<Longrightarrow> s \<noteq> i div unat (st_per_sector t)
      \<Longrightarrow> s div unat (ix_assoc (bt_indexing t)) = i div unat (st_per_sector t) div unat (ix_assoc (bt_indexing t))
      \<Longrightarrow> valid_in (st_blks t) (unat (st_per_sector t)) s \<noteq> {}
      \<Longrightarrow> \<not> (te_tag (st_secs t ! s) = te_tag sec \<and> te_secure (st_secs t ! s) = te_secure sec)"
    and same: "\<not> te_valid b \<Longrightarrow> te_valid (st_blks t ! i) \<and> (valid_in (st_blks t') (unat (st_per_sector t)) (i div unat (st_per_sector t)) \<noteq> {}
      \<longrightarrow> te_tag sec = te_tag (st_secs t ! (i div unat (st_per_sector t)))
        \<and> te_secure sec = te_secure (st_secs t ! (i div unat (st_per_sector t))))"
  shows "sector_inv t'"
proof -
  let ?n = "unat (st_per_sector t)" and ?a = "unat (ix_assoc (bt_indexing t))"
  let ?s = "i div ?n"
  have sh: "sector_shape t" using inv by (simp add: sector_inv_def)
  have s: "?s < length (st_secs t)" by (rule sector_of_block [OF sh i])
  have other: "valid_in (st_blks t') ?n s = valid_in (st_blks t) ?n s" if "s \<noteq> ?s" for s
    using that by (simp add: blks valid_in_update [OF i])
  have subs: "sub_placed ?n (bt_indexing t) j (st_blks t' ! j)" if "j < length (st_blks t')" for j
    using that inv placed(1) by (cases "j = i") (simp_all add: blks sector_inv_def)
  have "sector_placed ?n (bt_indexing t) (st_blks t') s (st_secs t' ! s)" if "s < length (st_secs t')" for s
  proof (cases "s = ?s")
    case True
    then show ?thesis using placed(2) s by (simp add: secs)
  next
    case False
    have "sector_placed ?n (bt_indexing t) (st_blks t) s (st_secs t ! s)" using inv that by (simp add: secs sector_inv_def)
    moreover have "st_blks t' ! j = st_blks t ! j" if "j \<in> valid_in (st_blks t) ?n s" for j
      using that False by (cases "j = i") (auto simp: blks valid_in_def)
    ultimately show ?thesis using False other [OF False] by (simp add: sector_placed_def secs)
  qed
  moreover have "sectors_unique ?n ?a (st_blks t') (st_secs t')"
    unfolding sectors_unique_def
  proof (intro allI impI)
    fix x y
    assume h: "x < length (st_secs t') \<and> y < length (st_secs t') \<and> x div ?a = y div ?a
      \<and> valid_in (st_blks t') ?n x \<noteq> {} \<and> valid_in (st_blks t') ?n y \<noteq> {}
      \<and> te_tag (st_secs t' ! x) = te_tag (st_secs t' ! y) \<and> te_secure (st_secs t' ! x) = te_secure (st_secs t' ! y)"
    have u: "sectors_unique ?n ?a (st_blks t) (st_secs t)" using inv by (simp add: sector_inv_def)
    have clash: "False" if z: "z < length (st_secs t)" "z \<noteq> ?s" "z div ?a = ?s div ?a" "valid_in (st_blks t) ?n z \<noteq> {}"
      "valid_in (st_blks t') ?n ?s \<noteq> {}" "te_tag (st_secs t ! z) = te_tag sec" "te_secure (st_secs t ! z) = te_secure sec" for z
    proof (cases "te_valid b")
      case True
      with unique [OF True z(1,2,3,4)] z(6,7) show False by simp
    next
      case False
      from same [OF False] z(5) have eq: "te_valid (st_blks t ! i)" "te_tag sec = te_tag (st_secs t ! ?s)"
        "te_secure sec = te_secure (st_secs t ! ?s)" by auto
      then have "i \<in> valid_in (st_blks t) ?n ?s" using i by (simp add: valid_in_def)
      then have "z = ?s" using u z eq s unfolding sectors_unique_def by (metis empty_iff)
      with z(2) show False by simp
    qed
    consider "x = ?s" "y = ?s" | "x \<noteq> ?s" "y \<noteq> ?s" | "x = ?s" "y \<noteq> ?s" | "x \<noteq> ?s" "y = ?s" by blast
    then show "x = y"
    proof cases
      case 2
      with h have "x < length (st_secs t)" "y < length (st_secs t)" "x div ?a = y div ?a" "valid_in (st_blks t) ?n x \<noteq> {}"
        "valid_in (st_blks t) ?n y \<noteq> {}" "te_tag (st_secs t ! x) = te_tag (st_secs t ! y)"
        "te_secure (st_secs t ! x) = te_secure (st_secs t ! y)"
        using other [OF 2(1)] other [OF 2(2)] by (simp_all add: secs)
      then show ?thesis using u unfolding sectors_unique_def by blast
    next
      case 3
      then show ?thesis using h s clash [of y] other [of y] by (simp add: secs)
    next
      case 4
      then show ?thesis using h s clash [of x] other [of x] by (simp add: secs)
    qed simp
  qed
  moreover have "\<forall>x \<in> set (st_blks t'). te_valid x \<longrightarrow> cb_requestor x < bt_max_requestors t'"
    using inv shape(4,5) set_update_subset_insert [of "st_blks t" i b] by (auto simp: blks sector_inv_def)
  ultimately show ?thesis using subs shape(1-3) by (simp add: sector_inv_def)
qed

section \<open>What an operation keeps\<close>

definition same_geometry :: "('b, 'c, 's) sector_tags \<Rightarrow> ('b, 'c, 's) sector_tags \<Rightarrow> bool" where
  "same_geometry t t' \<longleftrightarrow> bt_indexing t' = bt_indexing t \<and> st_per_sector t' = st_per_sector t \<and> st_shift t' = st_shift t
     \<and> st_mask t' = st_mask t \<and> bt_max_requestors t' = bt_max_requestors t \<and> bt_partitions t' = bt_partitions t
     \<and> length (st_blks t') = length (st_blks t) \<and> length (st_secs t') = length (st_secs t)
     \<and> length (occupancies (bt_stats t')) = length (occupancies (bt_stats t))
     \<and> length (st_evictions t') = length (st_evictions t)"

lemma same_geometry_shape: "same_geometry t t' \<Longrightarrow> sector_shape t' = sector_shape t"
  by (auto simp: same_geometry_def sector_shape_def)

lemma same_geometry_refl [simp]: "same_geometry t t"
  by (simp add: same_geometry_def)

lemma same_geometry_trans: "same_geometry t t' \<Longrightarrow> same_geometry t' t'' \<Longrightarrow> same_geometry t t''"
  by (auto simp: same_geometry_def)

lemma same_geometry_offset: "same_geometry t t' \<Longrightarrow> extract_sector_offset addr t' = extract_sector_offset addr t"
  by (simp add: same_geometry_def extract_sector_offset_def)

section \<open>Inserting a block\<close>

lemma sub_cache_insert_fields:
  assumes "te_extract b = Some ext" "te_extract sec = Some ext" "\<not> te_valid b" "\<not> te_secure b"
    and "if sector_is_valid sec then te_tag sec = ext (key_address key) \<and> te_secure sec = key_secure key else \<not> te_secure sec"
    and "key_address key \<noteq> max_addr"
  shows "\<exists>b' sec'. sub_cache_insert key r task part now b sec = Some (b', sec')
    \<and> te_valid b' \<and> te_tag b' = ext (key_address key) \<and> te_secure b' = key_secure key \<and> te_extract b' = Some ext
    \<and> sb_sector b' = sb_sector b \<and> sb_offset b' = sb_offset b \<and> cb_requestor b' = r
    \<and> te_tag sec' = ext (key_address key) \<and> te_secure sec' = key_secure key \<and> te_extract sec' = Some ext
    \<and> te_set sec' = te_set sec \<and> sec_blks sec' = sec_blks sec \<and> sec_valid_count sec' = sec_valid_count sec + 1"
  using assms
  by (cases "sector_is_valid sec"; cases "key_secure key")
    (auto simp: sub_cache_insert_def sub_insert_def sector_match_def sector_insert_def sub_set_valid_def set_valid_def
      validate_sub_blk_def increase_ref_count_def Let_def)

text \<open>The sector of block \<open>i\<close> may take the key: no other valid sector of the set has it, and it has no other.\<close>

definition may_insert :: "block_key \<Rightarrow> ('b, 'c, 's) sector_tags \<Rightarrow> nat \<Rightarrow> bool" where
  "may_insert k t i \<longleftrightarrow> (let n = unat (st_per_sector t); ix = bt_indexing t; si = i div n in
     i < length (st_blks t) \<and> \<not> te_valid (st_blks t ! i) \<and> i mod n = extract_sector_offset (key_address k) t
     \<and> si div unat (ix_assoc ix) = unat (extract_set ix (key_address k))
     \<and> (\<forall>s < length (st_secs t). s div unat (ix_assoc ix) = si div unat (ix_assoc ix) \<and> valid_in (st_blks t) n s \<noteq> {}
         \<longrightarrow> (te_tag (st_secs t ! s) = extract_tag ix (key_address k) \<and> te_secure (st_secs t ! s) = key_secure k \<longleftrightarrow> s = si)))"

lemma sector_insert_block_ok:
  assumes inv: "sector_inv t" and may: "may_insert (packet_key pkt) t i"
    and addr: "pkt_addr pkt \<noteq> max_addr" and r: "req_requestor (pkt_req pkt) < bt_max_requestors t"
    and pol: "(if sector_is_valid (st_secs t ! (i div unat (st_per_sector t)))
      then op_touch OPS env (i div unat (st_per_sector t)) (st_policy t)
      else op_reset OPS env (i div unat (st_per_sector t)) (st_policy t)) = Some p"
  shows "\<exists>t'. sector_insert_block OPS env now pkt i t = Some t' \<and> sector_inv t' \<and> same_geometry t t' \<and> st_policy t' = p
    \<and> (\<forall>k j. sub_holds k t' j \<longleftrightarrow> (if same_sub_block t k (packet_key pkt) then j = i else sub_holds k t j))"
proof -
  let ?n = "unat (st_per_sector t)" and ?ix = "bt_indexing t" and ?key = "packet_key pkt"
  let ?s = "i div ?n" and ?a = "unat (ix_assoc (bt_indexing t))"
  let ?b = "st_blks t ! i" and ?sec = "st_secs t ! ?s"
  have sh: "sector_shape t" using inv by (simp add: sector_inv_def)
  have n: "0 < ?n" "?n < 256" using sector_shape_per [OF sh] by simp_all
  from may have i: "i < length (st_blks t)" "\<not> te_valid ?b" "i mod ?n = extract_sector_offset (pkt_addr pkt) t"
      "?s div ?a = unat (extract_set ?ix (pkt_addr pkt))"
    and others: "\<And>s. s < length (st_secs t) \<Longrightarrow> s div ?a = ?s div ?a \<Longrightarrow> valid_in (st_blks t) ?n s \<noteq> {}
      \<Longrightarrow> te_tag (st_secs t ! s) = extract_tag ?ix (pkt_addr pkt) \<and> te_secure (st_secs t ! s) = pkt_secure pkt \<longleftrightarrow> s = ?s"
    by (auto simp: may_insert_def Let_def packet_key_def)
  have s: "?s < length (st_secs t)" by (rule sector_of_block [OF sh i(1)])
  have placed: "sub_placed ?n ?ix i ?b" "sector_placed ?n ?ix (st_blks t) ?s ?sec"
    using inv i(1) s by (simp_all add: sector_inv_def)
  note valid = sector_valid_iff [OF inv s]
  have key: "key_address ?key = pkt_addr pkt" "key_secure ?key = pkt_secure pkt" by (simp_all add: packet_key_def)
  have fits: "if sector_is_valid ?sec then te_tag ?sec = extract_tag ?ix (key_address ?key) \<and> te_secure ?sec = key_secure ?key
    else \<not> te_secure ?sec"
    using others [OF s] valid placed(2) by (auto simp: key sector_placed_def)
  have ext: "te_extract ?b = Some (extract_tag ?ix)" "te_extract ?sec = Some (extract_tag ?ix)" "\<not> te_secure ?b"
    using placed i(2) by (auto simp: sub_placed_def sector_placed_def)
  have "key_address ?key \<noteq> max_addr" using addr by (simp add: key)
  note sub_cache_insert_fields [OF ext(1,2) i(2) ext(3) fits this, of "req_requestor (pkt_req pkt)" "req_task (pkt_req pkt)"
    "packet_partition pkt t" now, unfolded key]
  then obtain b' sec' where
    ins: "sub_cache_insert ?key (req_requestor (pkt_req pkt)) (req_task (pkt_req pkt)) (packet_partition pkt t) now ?b ?sec
      = Some (b', sec')"
    and b': "te_valid b'" "te_tag b' = extract_tag ?ix (pkt_addr pkt)" "te_secure b' = pkt_secure pkt"
      "te_extract b' = Some (extract_tag ?ix)" "sb_sector b' = sb_sector ?b" "sb_offset b' = sb_offset ?b"
      "cb_requestor b' = req_requestor (pkt_req pkt)"
    and sec': "te_tag sec' = extract_tag ?ix (pkt_addr pkt)" "te_secure sec' = pkt_secure pkt"
      "te_extract sec' = Some (extract_tag ?ix)" "te_set sec' = te_set ?sec" "sec_blks sec' = sec_blks ?sec"
      "sec_valid_count sec' = sec_valid_count ?sec + 1" by blast
  have "unat (req_requestor (pkt_req pkt)) < length (occupancies (bt_stats t))"
    using sh r by (simp add: sector_shape_def word_less_nat_alt)
  with ins i(2) r pol sub_at_inv [OF inv i(1)] obtain t' where t': "sector_insert_block OPS env now pkt i t = Some t'"
    by (auto simp: sector_insert_block_def count_occupancy_def Let_def split: if_splits)
  with ins i(2) r pol sub_at_inv [OF inv i(1)] have eq: "st_blks t' = (st_blks t)[i := b']" "st_secs t' = (st_secs t)[?s := sec']"
      "st_policy t' = p" and geo: "same_geometry t t'"
    by (auto simp: sector_insert_block_def count_occupancy_def same_geometry_def put_sub_def bind_Some_iff Let_def split: if_splits)
  have vi: "valid_in (st_blks t') ?n ?s = insert i (valid_in (st_blks t) ?n ?s)" "i \<notin> valid_in (st_blks t) ?n ?s"
    using i(2) b'(1) by (simp_all add: eq valid_in_update [OF i(1)]) (simp add: valid_in_def)
  have agree: "te_tag (st_blks t' ! j) = te_tag sec' \<and> te_secure (st_blks t' ! j) = te_secure sec'"
    if "j \<in> valid_in (st_blks t') ?n ?s" for j
  proof (cases "j = i")
    case True
    with i(1) b' sec' show ?thesis by (simp add: eq)
  next
    case False
    with that vi have j: "j \<in> valid_in (st_blks t) ?n ?s" by simp
    with others [OF s] placed(2) sec' have "te_tag (st_blks t ! j) = te_tag sec' \<and> te_secure (st_blks t ! j) = te_secure sec'"
      by (auto simp: sector_placed_def)
    with False show ?thesis by (simp add: eq)
  qed
  have inv': "sector_inv t'"
  proof (rule sector_inv_update [OF inv i(1) _ _ _ _ _ eq(1,2)])
    show "sector_shape t'" using same_geometry_shape [OF geo] sh by simp
    show "bt_indexing t' = bt_indexing t" "st_per_sector t' = st_per_sector t" "bt_max_requestors t' = bt_max_requestors t"
      using geo by (simp_all add: same_geometry_def)
    show "cb_requestor b' < bt_max_requestors t" using b'(7) r by simp
    show "sub_placed ?n ?ix i b'" using placed(1) b' by (simp add: sub_placed_def)
    show "sector_placed ?n ?ix (st_blks t') ?s sec'"
      using placed(2) sec' vi agree by (simp add: sector_placed_def)
    show "\<not> (te_tag (st_secs t ! x) = te_tag sec' \<and> te_secure (st_secs t ! x) = te_secure sec')"
      if "x < length (st_secs t)" "x \<noteq> ?s" "x div ?a = ?s div ?a" "valid_in (st_blks t) ?n x \<noteq> {}" for x
      using others [OF that(1,3,4)] that(2) sec' by simp
  qed (use b'(1) in simp)
  have "sub_holds k t' j \<longleftrightarrow> (if same_sub_block t k ?key then j = i else sub_holds k t j)" for k j
  proof -
    have hi: "sub_holds k t' i \<longleftrightarrow> same_sub_block t k ?key"
      using i s b'(1) sec' geo same_geometry_offset [OF geo, of "key_address k"]
      by (auto simp: sub_holds_def same_sub_block_def same_block_def eq same_geometry_def packet_key_def Let_def word_unat_eq_iff)
    have hj: "sub_holds k t' j \<longleftrightarrow> sub_holds k t j" if j: "j \<noteq> i"
    proof (cases "j div ?n = ?s \<and> j < length (st_blks t) \<and> te_valid (st_blks t ! j)")
      case True
      then have "valid_in (st_blks t) ?n ?s \<noteq> {}" by (auto simp: valid_in_def)
      with others [OF s] sec' have "te_tag ?sec = te_tag sec'" "te_secure ?sec = te_secure sec'" by auto
      with j True s geo same_geometry_offset [OF geo, of "key_address k"] show ?thesis
        by (simp add: sub_holds_def eq same_geometry_def Let_def)
    next
      case False
      with j geo same_geometry_offset [OF geo, of "key_address k"] show ?thesis
        by (auto simp: sub_holds_def eq same_geometry_def Let_def)
    qed
    have "\<not> sub_holds k t j" if "same_sub_block t k ?key" for j
    proof
      assume h: "sub_holds k t j"
      let ?sj = "j div ?n"
      from h have j: "j < length (st_blks t)" "te_valid (st_blks t ! j)" by (auto simp: sub_holds_def Let_def)
      have "?sj < length (st_secs t)" by (rule sector_of_block [OF sh j(1)])
      moreover have "valid_in (st_blks t) ?n ?sj \<noteq> {}" using j by (auto simp: valid_in_def)
      moreover have "?sj div ?a = ?s div ?a" "te_tag (st_secs t ! ?sj) = extract_tag ?ix (pkt_addr pkt)"
        "te_secure (st_secs t ! ?sj) = pkt_secure pkt" "j mod ?n = i mod ?n"
        using h that i by (auto simp: sub_holds_def same_sub_block_def same_block_def packet_key_def Let_def)
      ultimately have "?sj = ?s" using others [of ?sj] by simp
      with \<open>j mod ?n = i mod ?n\<close> have "j = i" by (metis div_mult_mod_eq)
      with j i show False by simp
    qed
    moreover have "\<not> sub_holds k t i" using i(2) by (simp add: sub_holds_def Let_def)
    ultimately show ?thesis using hi hj by (cases "j = i") auto
  qed
  with t' inv' geo eq(3) show ?thesis by blast
qed

section \<open>Invalidating a block\<close>

context sector_blocks
begin

lemma sub_invalidate_step:
  "\<exists>b' sec'. sub_invalidate V b sec = Some (b', sec') \<and> \<not> te_valid b' \<and> \<not> te_secure b' \<and> te_extract b' = te_extract b
    \<and> sb_sector b' = sb_sector b \<and> sb_offset b' = sb_offset b
    \<and> te_extract sec' = te_extract sec \<and> te_set sec' = te_set sec \<and> sec_blks sec' = sec_blks sec
    \<and> sec_valid_count sec' = sec_valid_count sec - 1
    \<and> (if sec_valid_count sec = 1 then \<not> te_secure sec' else te_tag sec' = te_tag sec \<and> te_secure sec' = te_secure sec)"
  by (auto simp: sub_invalidate_def cache_blk_invalidate_cleared invalidate_sub_blk_def Let_def
      sub_invalidate_fields sector_invalidate_fields cleared_def)

lemma sector_invalidate_ok:
  assumes inv: "sector_inv t" and i: "i < length (st_blks t)" "te_valid (st_blks t ! i)"
    and pol: "op_invalidate OPS (i div unat (st_per_sector t)) (st_policy t) = Some p"
  shows "\<exists>t'. sector_invalidate V OPS i t = Some t' \<and> sector_inv t' \<and> same_geometry t t'
    \<and> st_policy t' = (if valid_in (st_blks t) (unat (st_per_sector t)) (i div unat (st_per_sector t)) = {i} then p else st_policy t)
    \<and> (\<forall>s. s \<noteq> i div unat (st_per_sector t) \<longrightarrow> st_secs t' ! s = st_secs t ! s)
    \<and> (\<forall>j. j \<noteq> i \<longrightarrow> st_blks t' ! j = st_blks t ! j) \<and> \<not> te_valid (st_blks t' ! i)
    \<and> (\<forall>k j. sub_holds k t' j \<longleftrightarrow> j \<noteq> i \<and> sub_holds k t j)"
proof -
  let ?n = "unat (st_per_sector t)" and ?ix = "bt_indexing t"
  let ?s = "i div ?n" and ?a = "unat (ix_assoc (bt_indexing t))"
  let ?b = "st_blks t ! i" and ?sec = "st_secs t ! ?s"
  let ?vi = "valid_in (st_blks t) ?n ?s"
  have sh: "sector_shape t" using inv by (simp add: sector_inv_def)
  have n: "0 < ?n" "?n < 256" using sector_shape_per [OF sh] by simp_all
  have s: "?s < length (st_secs t)" by (rule sector_of_block [OF sh i(1)])
  have placed: "sub_placed ?n ?ix i ?b" "sector_placed ?n ?ix (st_blks t) ?s ?sec"
    using inv i(1) s by (simp_all add: sector_inv_def)
  have mem: "i \<in> ?vi" using i by (simp add: valid_in_def)
  have card: "card ?vi \<le> ?n" "0 < card ?vi" using card_valid_in [OF n(1)] mem by (auto simp: card_gt_0_iff)
  from sub_invalidate_step [of ?b ?sec] obtain b' sec' where step: "sub_invalidate V ?b ?sec = Some (b', sec')"
    and b': "\<not> te_valid b'" "\<not> te_secure b'" "te_extract b' = te_extract ?b" "sb_sector b' = sb_sector ?b" "sb_offset b' = sb_offset ?b"
    and sec': "te_extract sec' = te_extract ?sec" "te_set sec' = te_set ?sec" "sec_blks sec' = sec_blks ?sec"
      "sec_valid_count sec' = sec_valid_count ?sec - 1"
      "if sec_valid_count ?sec = 1 then \<not> te_secure sec' else te_tag sec' = te_tag ?sec \<and> te_secure sec' = te_secure ?sec"
    by blast
  have one: "sec_valid_count ?sec = 1 \<longleftrightarrow> ?vi = {i}"
  proof -
    have "sec_valid_count ?sec = of_nat (card ?vi)" using placed(2) by (simp add: sector_placed_def)
    moreover have "unat (of_nat (card ?vi) :: 8 word) = card ?vi" using card n by (simp add: unsigned_of_nat take_bit_nat_eq_self)
    ultimately have "sec_valid_count ?sec = 1 \<longleftrightarrow> card ?vi = 1" by (simp add: word_unat_eq_iff)
    with mem show ?thesis by (auto simp: card_1_singleton_iff)
  qed
  have count: "sec_valid_count sec' = of_nat (card (?vi - {i}))"
    using placed(2) sec'(4) card mem by (simp add: sector_placed_def card_Diff_singleton of_nat_diff)
  have ne: "sector_is_valid sec' \<longleftrightarrow> ?vi \<noteq> {i}"
  proof -
    have "card (?vi - {i}) < 256" using card n mem by (simp add: card_Diff_singleton)
    then have "unat (sec_valid_count sec') = card (?vi - {i})"
      by (simp add: count unsigned_of_nat take_bit_nat_eq_self)
    then have "sector_is_valid sec' \<longleftrightarrow> ?vi - {i} \<noteq> {}" by (simp add: sector_is_valid_def word_less_nat_alt card_gt_0_iff)
    with mem show ?thesis by auto
  qed
  have "cb_requestor ?b < bt_max_requestors t" using inv i by (simp add: sector_inv_def)
  then have "unat (cb_requestor ?b) < length (occupancies (bt_stats t))"
    using sh by (simp add: sector_shape_def word_less_nat_alt)
  with step i pol sub_at_inv [OF inv i(1)] obtain t' where t': "sector_invalidate V OPS i t = Some t'"
    by (cases "sector_is_valid sec'") (auto simp: sector_invalidate_def count_occupancy_def put_sub_def Let_def)
  with step i pol ne sub_at_inv [OF inv i(1)] have eq: "st_blks t' = (st_blks t)[i := b']" "st_secs t' = (st_secs t)[?s := sec']"
      "st_policy t' = (if ?vi = {i} then p else st_policy t)" and geo: "same_geometry t t'"
    by (auto simp: sector_invalidate_def count_occupancy_def same_geometry_def put_sub_def bind_Some_iff Let_def split: if_splits)
  have vi: "valid_in (st_blks t') ?n ?s = ?vi - {i}" using b'(1) by (simp add: eq valid_in_update [OF i(1)])
  have keep: "te_tag sec' = te_tag ?sec \<and> te_secure sec' = te_secure ?sec" if "j \<in> ?vi - {i}" for j
    using that sec'(5) one by (auto split: if_splits)
  have inv': "sector_inv t'"
  proof (rule sector_inv_update [OF inv i(1) _ _ _ _ _ eq(1,2)])
    show "sector_shape t'" using same_geometry_shape [OF geo] sh by simp
    show "bt_indexing t' = bt_indexing t" "st_per_sector t' = st_per_sector t" "bt_max_requestors t' = bt_max_requestors t"
      using geo by (simp_all add: same_geometry_def)
    show "sub_placed ?n ?ix i b'" using placed(1) b' by (simp add: sub_placed_def)
    have "te_tag (st_blks t' ! j) = te_tag sec' \<and> te_secure (st_blks t' ! j) = te_secure sec'" if "j \<in> ?vi - {i}" for j
      using that keep [OF that] placed(2) by (auto simp: eq sector_placed_def)
    moreover have "\<not> te_secure sec'" if "?vi - {i} = {}"
      using that sec'(5) one mem by (auto split: if_splits)
    ultimately show "sector_placed ?n ?ix (st_blks t') ?s sec'"
      using placed(2) sec' count by (auto simp: sector_placed_def vi)
    show "te_valid ?b \<and> (valid_in (st_blks t') ?n ?s \<noteq> {} \<longrightarrow> te_tag sec' = te_tag ?sec \<and> te_secure sec' = te_secure ?sec)"
      using i(2) keep by (auto simp: vi)
  qed (use b'(1) in simp_all)
  have "sub_holds k t' j \<longleftrightarrow> j \<noteq> i \<and> sub_holds k t j" for k j
  proof (cases "j = i")
    case True
    with i(1) b'(1) show ?thesis by (simp add: sub_holds_def eq Let_def)
  next
    case False
    note off = same_geometry_offset [OF geo, of "key_address k"]
    show ?thesis
    proof (cases "j div ?n = ?s \<and> j < length (st_blks t) \<and> te_valid (st_blks t ! j)")
      case True
      with False have "j \<in> ?vi - {i}" by (simp add: valid_in_def)
      with keep [OF this] False True s geo off show ?thesis by (simp add: sub_holds_def eq same_geometry_def Let_def)
    next
      case other: False
      with False geo off show ?thesis by (auto simp: sub_holds_def eq same_geometry_def Let_def)
    qed
  qed
  with t' inv' geo eq b'(1) i(1) show ?thesis by (auto intro!: exI [of _ t'])
qed

end

end
