(* ===== verification/CompressedTags.thy ===== *)
theory CompressedTags
  imports SectorFacts
begin

text \<open>
  The compressed tag store of gem5 (\<open>tags/super_blk.hh\<close>, \<open>tags/super_blk.cc\<close>, \<open>tags/compressed_tags.hh\<close>,
  \<open>tags/compressed_tags.cc\<close>): a sector store whose sectors, the superblocks, hold several compressed
  blocks in the space of one. Sizes are in bits. The quotient of two sizes, which the code takes in
  double precision and rounds down, is that of integers: they are below \<open>2 ^ 53\<close>.
\<close>

section \<open>Blocks and superblocks\<close>

record comp_blk = sub_blk +
  cp_size :: u64
  cp_latency :: u64
  cp_compressed :: bool

record super_blk = sector_blk +
  su_blk_size :: u64
  su_factor :: "8 word"

definition new_comp_blk :: "comp_blk option" where
  "new_comp_blk = do { b \<leftarrow> new_sub_blk; Some (sub_blk.extend b \<lparr>cp_size = 0, cp_latency = 0, cp_compressed = False\<rparr>) }"

definition new_super_blk :: super_blk where
  "new_super_blk = sector_blk.extend new_sector_blk \<lparr>su_blk_size = 0, su_factor = 1\<rparr>"

text \<open>What the subclasses override: the move assignment copies first, and both invalidations reset.\<close>

definition comp_copy :: "'b comp_blk_scheme \<Rightarrow> 'b comp_blk_scheme \<Rightarrow> 'b comp_blk_scheme" where
  "comp_copy src dest = dest\<lparr>cp_latency := cp_latency src, cp_compressed := cp_compressed src\<rparr>"

definition super_invalidate :: "'c super_blk_scheme \<Rightarrow> 'c super_blk_scheme" where
  "super_invalidate sec = (tagged_invalidate sec)\<lparr>su_factor := 1\<rparr>"

definition comp_block_ops :: "(unit comp_blk_ext, unit super_blk_ext) block_ops" where
  "comp_block_ops = \<lparr>bo_copy = comp_copy, bo_sub_invalidate = (\<lambda>b. b\<lparr>cp_compressed := False\<rparr>),
     bo_sector_invalidate = super_invalidate\<rparr>"

interpretation compressed_blocks: sector_blocks comp_block_ops
  by unfold_locales (simp_all add: comp_block_ops_def comp_copy_def super_invalidate_def tagged_invalidate_def)

section \<open>Compression factors\<close>

text \<open>\<open>alignToPowerOfTwo\<close> of the stub (\<open>base/bitfield.hh\<close>).\<close>

definition align_to_power_of_2 :: "u64 \<Rightarrow> u64" where
  "align_to_power_of_2 v = fold (\<lambda>k v. v OR drop_bit k v) [1, 2, 4, 8, 16, 32] (v - 1) + 1"

definition calculate_compression_factor :: "u64 \<Rightarrow> 'c super_blk_scheme \<Rightarrow> 8 word" where
  "calculate_compression_factor size_bits sec =
     (let blk_bits = 8 * su_blk_size sec;
          factor = (if blk_bits < size_bits then 1 else if size_bits = 0 then blk_bits
                    else align_to_power_of_2 (blk_bits div size_bits)) in
      ucast (min factor (of_nat (length (sec_blks sec)))))"

definition set_compression_factor :: "8 word \<Rightarrow> 'c super_blk_scheme \<Rightarrow> 'c super_blk_scheme" where
  "set_compression_factor f sec = (if sec_valid_count sec \<le> 1 then sec\<lparr>su_factor := f\<rparr> else sec)"

definition can_co_allocate :: "u64 \<Rightarrow> 'c super_blk_scheme \<Rightarrow> bool" where
  "can_co_allocate size_bits sec \<longleftrightarrow> sec_valid_count sec < su_factor sec
     \<and> size_bits \<le> (su_blk_size sec * 8) div ucast (su_factor sec)"

definition set_blk_size :: "u64 \<Rightarrow> 'c super_blk_scheme \<Rightarrow> 'c super_blk_scheme option" where
  "set_blk_size n sec = do { cpp_assert (su_blk_size sec = 0); Some (sec\<lparr>su_blk_size := n\<rparr>) }"

type_synonym ('b, 'c, 's) comp_tags = "('b comp_blk_ext, 'c super_blk_ext, 's) sector_tags"

text \<open>The loop over the blocks of a superblock looks for a valid one that is not the ignored one.\<close>

fun first_compressed :: "nat option \<Rightarrow> 'b comp_blk_scheme list \<Rightarrow> nat option list \<Rightarrow> bool option" where
  "first_compressed ignored bs [] = Some True"
| "first_compressed ignored bs (p # ps) = do {
     i \<leftarrow> p;
     b \<leftarrow> nth_opt bs i;
     if te_valid b \<and> Some i \<noteq> ignored then Some (cp_compressed b) else first_compressed ignored bs ps }"

definition super_is_compressed :: "nat option \<Rightarrow> 'c super_blk_scheme \<Rightarrow> ('b, 'c, 's) comp_tags \<Rightarrow> bool option" where
  "super_is_compressed ignored sec t = first_compressed ignored (st_blks t) (sec_blks sec)"

definition set_size_bits :: "u64 \<Rightarrow> nat \<Rightarrow> ('b, 'c, 's) comp_tags \<Rightarrow> ('b, 'c, 's) comp_tags option" where
  "set_size_bits size_bits i t = do {
     (b, s, sec) \<leftarrow> sub_at i t;
     let f = calculate_compression_factor size_bits sec; sec = set_compression_factor f sec in do {
       cpp_assert (1 \<le> sec_valid_count sec);
       compressed \<leftarrow> (if sec_valid_count sec = 1 then Some (f \<noteq> 1) else super_is_compressed (Some i) sec t);
       Some (put_sub i (b\<lparr>cp_size := size_bits, cp_compressed := compressed\<rparr>) s sec t) } }"

datatype overwrite_type = DATA_CONTRACTION | UNCHANGED | DATA_EXPANSION

definition check_expansion_contraction :: "u64 \<Rightarrow> nat \<Rightarrow> ('b, 'c, 's) comp_tags \<Rightarrow> overwrite_type option" where
  "check_expansion_contraction size_bits i t = do {
     (b, s, sec) \<leftarrow> sub_at i t;
     let old = su_factor sec; new = calculate_compression_factor size_bits sec in
     Some (if new < old then DATA_EXPANSION else if old < new then DATA_CONTRACTION else UNCHANGED) }"

section \<open>The store\<close>

text \<open>Unlike \<open>SectorTags::tagsInit\<close>, this one registers no tag extractors.\<close>

definition init_superblock ::
  "('env, 's) policy_ops \<Rightarrow> nat \<Rightarrow> ('b, 'c, 's) comp_tags \<Rightarrow> ('b, 'c, 's) comp_tags option" where
  "init_superblock OPS s t = do {
     sec \<leftarrow> nth_opt (st_secs t) s;
     sec \<leftarrow> set_blk_size (ucast (bt_blk_size t)) sec;
     init_sector False OPS s (t\<lparr>st_secs := (st_secs t)[s := sec]\<rparr>) }"

definition compressed_tags_init ::
  "('env, 's) policy_ops \<Rightarrow> (unit, unit, 's) comp_tags \<Rightarrow> (unit, unit, 's) comp_tags option" where
  "compressed_tags_init OPS t = do {
     b \<leftarrow> new_comp_blk;
     fold_opt (init_superblock OPS) [0..<unat (st_num_sectors t)]
       (t\<lparr>st_blks := replicate (unat (bt_num_blocks t)) b,
          st_secs := replicate (unat (st_num_sectors t)) new_super_blk\<rparr>) }"

text \<open>The first superblock with the tag that has room for the block.\<close>

fun find_superblock ::
  "block_key \<Rightarrow> nat \<Rightarrow> u64 \<Rightarrow> ('b, 'c, 's) comp_tags \<Rightarrow> entry list \<Rightarrow> entry option option" where
  "find_superblock key offset size_bits t [] = Some None"
| "find_superblock key offset size_bits t (s # ss) = do {
     sec \<leftarrow> nth_opt (st_secs t) s;
     m \<leftarrow> sector_match key sec;
     room \<leftarrow> (if m then do {
         bp \<leftarrow> nth_opt (sec_blks sec) offset;
         i \<leftarrow> bp;
         b \<leftarrow> nth_opt (st_blks t) i;
         if te_valid b then Some False
         else do { c \<leftarrow> super_is_compressed None sec t; Some (c \<and> can_co_allocate size_bits sec) } }
       else Some False);
     if room then Some (Some s) else find_superblock key offset size_bits t ss }"

definition compressed_find_victim ::
  "('env, 's) policy_ops \<Rightarrow> 'env \<Rightarrow> block_key \<Rightarrow> u64 \<Rightarrow> nat list \<Rightarrow> u64 \<Rightarrow> ('b, 'c, 's) comp_tags
     \<Rightarrow> (nat option \<times> nat list \<times> ('b, 'c, 's) comp_tags) option" where
  "compressed_find_victim OPS env key size_bits evict part_id t = do {
     es \<leftarrow> sector_candidates key part_id t;
     let offset = extract_sector_offset (key_address key) t in do {
     found \<leftarrow> find_superblock key offset size_bits t es;
     if found = None \<and> es = [] then Some (None, evict, t)
     else do {
       (s, p) \<leftarrow> (case found of Some s \<Rightarrow> Some (s, st_policy t) | None \<Rightarrow> op_victim OPS env es (st_policy t));
       sec \<leftarrow> nth_opt (st_secs t) s;
       evict \<leftarrow> (if found = None then do { vs \<leftarrow> valid_subs sec t; Some (evict @ vs) } else Some evict);
       bp \<leftarrow> nth_opt (sec_blks sec) offset;
       i \<leftarrow> bp;
       b \<leftarrow> nth_opt (st_blks t) i;
       cpp_assert (found = None \<or> \<not> te_valid b);
       t \<leftarrow> count_eviction (length evict) (t\<lparr>st_policy := p\<rparr>);
       Some (Some i, evict, t) } } }"

definition compressed_any_blk :: "('b comp_blk_scheme \<Rightarrow> bool) \<Rightarrow> ('b, 'c, 's) comp_tags \<Rightarrow> bool" where
  "compressed_any_blk visitor t \<longleftrightarrow> (\<exists>b \<in> set (st_blks t). visitor b)"

end
