(* ===== verification/SectorProps.thy ===== *)
theory SectorProps
  imports SectorFacts
begin

text \<open>
  What a miss does in a sector store: the victim search, the eviction of the victim's blocks and the
  insertion are defined under the invariant and change the lookups as they should.
\<close>

section \<open>Evicting a list of blocks\<close>

context sector_blocks
begin

lemma evict_all:
  assumes pol: "replacement_policy (op_invalidate OPS) (op_touch OPS) (op_reset OPS) (op_victim OPS) sound"
    and inv: "sector_inv t" and "sound es (st_policy t)" "distinct is"
    and "\<forall>i \<in> set is. i < length (st_blks t) \<and> te_valid (st_blks t ! i) \<and> i div unat (st_per_sector t) \<in> set es"
  shows "\<exists>t'. fold_opt (sector_invalidate V OPS) is t = Some t' \<and> sector_inv t' \<and> same_geometry t t' \<and> sound es (st_policy t')
    \<and> (\<forall>s. (\<forall>i \<in> set is. i div unat (st_per_sector t) \<noteq> s) \<longrightarrow> st_secs t' ! s = st_secs t ! s)
    \<and> (\<forall>j. j \<notin> set is \<longrightarrow> st_blks t' ! j = st_blks t ! j) \<and> (\<forall>i \<in> set is. \<not> te_valid (st_blks t' ! i))
    \<and> (\<forall>k j. sub_holds k t' j \<longleftrightarrow> j \<notin> set is \<and> sub_holds k t j)"
  using assms(2-)
proof (induction "is" arbitrary: t)
  case Nil
  then show ?case by simp
next
  case (Cons i "is")
  let ?n = "unat (st_per_sector t)"
  note invalidate_sound = replacement_policy.invalidate_sound [OF pol]
  from Cons.prems(4) have i: "i < length (st_blks t)" "te_valid (st_blks t ! i)" "i div ?n \<in> set es" by auto
  from invalidate_sound [OF Cons.prems(2) i(3)] obtain p where p: "op_invalidate OPS (i div ?n) (st_policy t) = Some p" "sound es p" by blast
  from sector_invalidate_ok [of t i OPS p, OF Cons.prems(1) i(1,2) p(1)] obtain t1 where
    t1: "sector_invalidate V OPS i t = Some t1" "sector_inv t1" "same_geometry t t1"
      "st_policy t1 = (if valid_in (st_blks t) ?n (i div ?n) = {i} then p else st_policy t)"
      "\<forall>s. s \<noteq> i div ?n \<longrightarrow> st_secs t1 ! s = st_secs t ! s"
      "\<forall>j. j \<noteq> i \<longrightarrow> st_blks t1 ! j = st_blks t ! j" "\<not> te_valid (st_blks t1 ! i)"
      "\<forall>k j. sub_holds k t1 j \<longleftrightarrow> j \<noteq> i \<and> sub_holds k t j" by blast
  have n: "st_per_sector t1 = st_per_sector t" "length (st_blks t1) = length (st_blks t)"
    using t1(3) by (simp_all add: same_geometry_def)
  have snd: "sound es (st_policy t1)" using t1(4) p(2) Cons.prems(2) by simp
  have rest: "\<forall>j \<in> set is. j < length (st_blks t1) \<and> te_valid (st_blks t1 ! j) \<and> j div unat (st_per_sector t1) \<in> set es"
    using Cons.prems(3,4) t1(6) n by auto
  have "distinct is" "i \<notin> set is" using Cons.prems(3) by simp_all
  from Cons.IH [OF t1(2) snd this(1) rest] obtain t' where
    t': "fold_opt (sector_invalidate V OPS) is t1 = Some t'" "sector_inv t'" "same_geometry t1 t'" "sound es (st_policy t')"
      "\<forall>s. (\<forall>j \<in> set is. j div unat (st_per_sector t1) \<noteq> s) \<longrightarrow> st_secs t' ! s = st_secs t1 ! s"
      "\<forall>j. j \<notin> set is \<longrightarrow> st_blks t' ! j = st_blks t1 ! j" "\<forall>j \<in> set is. \<not> te_valid (st_blks t' ! j)"
      "\<forall>k j. sub_holds k t' j \<longleftrightarrow> j \<notin> set is \<and> sub_holds k t1 j" by blast
  show ?case
  proof (intro exI conjI)
    show "fold_opt (sector_invalidate V OPS) (i # is) t = Some t'" using t1(1) t'(1) by simp
    show "sector_inv t'" "sound es (st_policy t')" by (fact t')+
    show "same_geometry t t'" by (rule same_geometry_trans [OF t1(3) t'(3)])
    show "\<forall>s. (\<forall>j \<in> set (i # is). j div ?n \<noteq> s) \<longrightarrow> st_secs t' ! s = st_secs t ! s"
      using t'(5) t1(5) n(1) by auto
    show "\<forall>j. j \<notin> set (i # is) \<longrightarrow> st_blks t' ! j = st_blks t ! j" using t'(6) t1(6) by simp
    show "\<forall>j \<in> set (i # is). \<not> te_valid (st_blks t' ! j)" using t'(6,7) t1(7) \<open>i \<notin> set is\<close> by auto
    show "\<forall>k j. sub_holds k t' j \<longleftrightarrow> j \<notin> set (i # is) \<and> sub_holds k t j" using t'(8) t1(8) by auto
  qed
qed

end

section \<open>The victim\<close>

text \<open>Without partitions the candidates are the sectors of the set.\<close>

definition set_of_key :: "block_key \<Rightarrow> ('b, 'c, 's) sector_tags \<Rightarrow> entry list" where
  "set_of_key k t = (let r = unat (extract_set (bt_indexing t) (key_address k)); a = unat (ix_assoc (bt_indexing t)) in [r * a..<Suc r * a])"

lemma set_of_key:
  assumes "sector_shape t"
  shows "possible_entries (bt_indexing t) (key_address k) = Some (map Some (set_of_key k t))"
    and "s \<in> set (set_of_key k t) \<longleftrightarrow> s div unat (ix_assoc (bt_indexing t)) = unat (extract_set (bt_indexing t) (key_address k))"
    and "s \<in> set (set_of_key k t) \<Longrightarrow> s < length (st_secs t)"
    and "set_of_key k t \<noteq> []"
proof -
  let ?ix = "bt_indexing t" and ?a = "unat (ix_assoc (bt_indexing t))"
  let ?r = "unat (extract_set ?ix (key_address k))"
  from assms have ok: "indexing_ok ?ix" "rows_ok ?ix" and len: "length (st_secs t) = length (ix_sets ?ix) * ?a"
    by (auto simp: sector_shape_def)
  from extract_set_below [OF ok(1)] have r: "?r < length (ix_sets ?ix)" .
  with ok(2) show "possible_entries ?ix (key_address k) = Some (map Some (set_of_key k t))"
    by (simp add: possible_entries_def rows_ok_def set_of_key_def Let_def)
  have a: "0 < ?a" using ok(1) by (auto simp: indexing_ok_def unat_gt_0)
  show "s \<in> set (set_of_key k t) \<longleftrightarrow> s div ?a = ?r" using row_member [OF a, of s ?r] by (simp add: set_of_key_def Let_def)
  have "Suc ?r * ?a \<le> length (ix_sets ?ix) * ?a" using r by (intro mult_le_mono1) simp
  then show "s \<in> set (set_of_key k t) \<Longrightarrow> s < length (st_secs t)" using len by (auto simp: set_of_key_def Let_def)
  show "set_of_key k t \<noteq> []" using a by (simp add: set_of_key_def Let_def)
qed

lemma map_opt_id [simp]: "map_opt id (map Some xs) = Some xs"
  by (induction xs) simp_all

lemma sector_candidates_set:
  assumes "sector_shape t" "bt_partitions t = None"
  shows "sector_candidates k part_id t = Some (set_of_key k t)"
  using set_of_key(1,3) [OF assms(1)] assms(2) by (simp add: sector_candidates_def)

lemma find_sector_find:
  assumes inv: "sector_inv t" and "\<forall>s \<in> set es. s < length (st_secs t)"
  shows "find_sector k (st_secs t) es = Some (find (\<lambda>s. valid_in (st_blks t) (unat (st_per_sector t)) s \<noteq> {}
    \<and> te_tag (st_secs t ! s) = extract_tag (bt_indexing t) (key_address k) \<and> te_secure (st_secs t ! s) = key_secure k) es)"
  using assms(2)
proof (induction es)
  case (Cons s es)
  then have s: "s < length (st_secs t)" by simp
  have "te_extract (st_secs t ! s) = Some (extract_tag (bt_indexing t))"
    using inv s by (simp add: sector_inv_def sector_placed_def)
  with Cons s sector_valid_iff [OF inv s] show ?case by (simp add: sector_match_def)
qed simp

lemma sector_match_inv:
  assumes "sector_inv t" "s < length (st_secs t)"
  shows "sector_match k (st_secs t ! s) = Some (valid_in (st_blks t) (unat (st_per_sector t)) s \<noteq> {}
    \<and> te_tag (st_secs t ! s) = extract_tag (bt_indexing t) (key_address k) \<and> te_secure (st_secs t ! s) = key_secure k)"
  using find_sector_find [OF assms(1), of "[s]" k] assms(2) sector_valid_iff [OF assms] assms(1)
  by (simp add: sector_match_def sector_inv_def sector_placed_def)

lemma valid_subs_inv:
  assumes inv: "sector_inv t" and s: "s < length (st_secs t)"
  shows "\<exists>vs. valid_subs (st_secs t ! s) t = Some vs \<and> distinct vs \<and> set vs = valid_in (st_blks t) (unat (st_per_sector t)) s
    \<and> length vs \<le> unat (st_per_sector t)"
proof -
  let ?n = "unat (st_per_sector t)"
  have sh: "sector_shape t" using inv by (simp add: sector_inv_def)
  have n: "0 < ?n" using sector_shape_per [OF sh] by simp
  let ?vs = "filter (\<lambda>i. te_valid (st_blks t ! i)) [s * ?n..<Suc s * ?n]"
  have below: "i < length (st_blks t)" if "i \<in> set [s * ?n..<Suc s * ?n]" for i
    using block_of_sector [OF sh s, of "i - s * ?n"] that by auto
  have "sec_blks (st_secs t ! s) = map Some [s * ?n..<Suc s * ?n]" using inv s by (simp add: sector_inv_def sector_placed_def)
  then have "valid_subs (st_secs t ! s) t = Some ?vs" using below by (simp add: valid_subs_def)
  moreover have "set ?vs = valid_in (st_blks t) ?n s"
    using below row_member [OF n, of _ s] by (auto simp: valid_in_def)
  moreover have "length ?vs \<le> ?n" using length_filter_le [of _ "[s * ?n..<Suc s * ?n]"] by simp
  ultimately show ?thesis using distinct_filter [OF distinct_upt] by blast
qed

text \<open>The block of a sector that the address selects.\<close>

lemma sector_slot:
  assumes inv: "sector_inv t" and s: "s < length (st_secs t)"
  shows "\<exists>i. extract_sector_offset addr t < length (sec_blks (st_secs t ! s))
    \<and> sec_blks (st_secs t ! s) ! extract_sector_offset addr t = Some i \<and> i < length (st_blks t)
    \<and> i div unat (st_per_sector t) = s \<and> i mod unat (st_per_sector t) = extract_sector_offset addr t"
proof -
  let ?n = "unat (st_per_sector t)" and ?o = "extract_sector_offset addr t"
  have sh: "sector_shape t" using inv by (simp add: sector_inv_def)
  have o: "?o < ?n" by (rule sector_offset_below [OF sh])
  have "sec_blks (st_secs t ! s) = map Some [s * ?n..<Suc s * ?n]" using inv s by (simp add: sector_inv_def sector_placed_def)
  with o block_of_sector [OF sh s o] show ?thesis by simp
qed

section \<open>The miss path\<close>

text \<open>The cache evicts what the search lists, then inserts the block at the victim.\<close>

definition replace_block ::
  "('b, 'c) block_ops \<Rightarrow> ('env, 's) policy_ops \<Rightarrow> 'env \<Rightarrow> tick \<Rightarrow> packet \<Rightarrow> ('b, 'c, 's) sector_tags
     \<Rightarrow> (nat option \<times> nat list \<times> ('b, 'c, 's) sector_tags) option" where
  "replace_block V OPS env now pkt t = do {
     (v, evict, t) \<leftarrow> sector_find_victim OPS env (packet_key pkt) [] 0 t;
     t \<leftarrow> fold_opt (sector_invalidate V OPS) evict t;
     (case v of None \<Rightarrow> Some (None, evict, t)
      | Some i \<Rightarrow> do { t \<leftarrow> sector_insert_block OPS env now pkt i t; Some (Some i, evict, t) }) }"

text \<open>What the search returns: a free block in the sector of the key, or a block of an evicted sector.\<close>

definition victim_ok :: "block_key \<Rightarrow> ('b, 'c, 's) sector_tags \<Rightarrow> nat \<Rightarrow> nat list \<Rightarrow> bool" where
  "victim_ok k t i evict \<longleftrightarrow> (let n = unat (st_per_sector t); s = i div n in
     i < length (st_blks t) \<and> i mod n = extract_sector_offset (key_address k) t \<and> s \<in> set (set_of_key k t)
     \<and> distinct evict \<and> length evict \<le> n
     \<and> (if \<exists>s' \<in> set (set_of_key k t). valid_in (st_blks t) n s' \<noteq> {}
            \<and> te_tag (st_secs t ! s') = extract_tag (bt_indexing t) (key_address k) \<and> te_secure (st_secs t ! s') = key_secure k
        then evict = [] \<and> \<not> te_valid (st_blks t ! i) \<and> valid_in (st_blks t) n s \<noteq> {}
          \<and> te_tag (st_secs t ! s) = extract_tag (bt_indexing t) (key_address k) \<and> te_secure (st_secs t ! s) = key_secure k
        else set evict = valid_in (st_blks t) n s))"

lemma count_eviction_ok:
  assumes "sector_inv t" "n \<le> unat (st_per_sector t)"
  shows "\<exists>t'. count_eviction n t = Some t' \<and> sector_inv t' \<and> same_geometry t t' \<and> st_policy t' = st_policy t
    \<and> st_blks t' = st_blks t \<and> st_secs t' = st_secs t"
  using assms by (auto simp: count_eviction_def sector_inv_def sector_shape_def same_geometry_def)

lemma sector_find_victim_ok:
  assumes pol: "replacement_policy (op_invalidate OPS) (op_touch OPS) (op_reset OPS) (op_victim OPS) sound"
    and inv: "sector_inv t" and none: "sector_find_block k t = Some None" and "bt_partitions t = None"
    and snd: "sound (set_of_key k t) (st_policy t)"
  shows "\<exists>i evict t'. sector_find_victim OPS env k [] part_id t = Some (Some i, evict, t') \<and> victim_ok k t i evict
    \<and> sector_inv t' \<and> same_geometry t t' \<and> sound (set_of_key k t) (st_policy t') \<and> st_blks t' = st_blks t \<and> st_secs t' = st_secs t"
proof -
  note victim_found = replacement_policy.victim_found [OF pol] and victim_in = replacement_policy.victim_in [OF pol] and victim_sound = replacement_policy.victim_sound [OF pol]
  let ?n = "unat (st_per_sector t)" and ?es = "set_of_key k t"
  have sh: "sector_shape t" using inv by (simp add: sector_inv_def)
  note es = set_of_key(2-4) [OF sh]
  have cand: "sector_candidates k part_id t = Some ?es" by (rule sector_candidates_set [OF sh assms(4)])
  let ?P = "\<lambda>s. valid_in (st_blks t) ?n s \<noteq> {} \<and> te_tag (st_secs t ! s) = extract_tag (bt_indexing t) (key_address k)
    \<and> te_secure (st_secs t ! s) = key_secure k"
  have found: "find_sector k (st_secs t) ?es = Some (find ?P ?es)" by (rule find_sector_find [OF inv]) (use es(2) in blast)
  show ?thesis
  proof (cases "find ?P ?es")
    case (Some s)
    then have s: "s \<in> set ?es" "?P s" by (auto simp: find_Some_iff)
    from sector_slot [OF inv es(2) [OF s(1)], of "key_address k"] obtain i where
      i: "extract_sector_offset (key_address k) t < length (sec_blks (st_secs t ! s))
          \<and> sec_blks (st_secs t ! s) ! extract_sector_offset (key_address k) t = Some i" "i < length (st_blks t)"
        "i div ?n = s" "i mod ?n = extract_sector_offset (key_address k) t" by blast
    have free: "\<not> te_valid (st_blks t ! i)"
    proof
      assume "te_valid (st_blks t ! i)"
      then have "sub_holds k t i" using i s es(1) [of s k] by (simp add: sub_holds_def)
      with sector_find_iff [OF inv, of k] none show False by auto
    qed
    have inv1: "sector_inv (t\<lparr>st_policy := st_policy t\<rparr>)" using inv by simp
    from count_eviction_ok [OF inv1, of 0] obtain t' where t': "count_eviction 0 (t\<lparr>st_policy := st_policy t\<rparr>) = Some t'"
      "sector_inv t'" "same_geometry t t'" "st_policy t' = st_policy t" "st_blks t' = st_blks t" "st_secs t' = st_secs t" by auto
    have "sector_find_victim OPS env k [] part_id t = Some (Some i, [], t')"
      using cand found Some sector_match_inv [OF inv es(2) [OF s(1)], of k] s(2) i(1,2) free es(2) [OF s(1)] t'(1)
      by (auto simp: sector_find_victim_def)
    moreover have "\<exists>s' \<in> set ?es. ?P s'" using s by blast
    with i s free have "victim_ok k t i []" unfolding victim_ok_def Let_def by simp
    ultimately show ?thesis using t' snd by (intro exI [of _ i] exI [of _ "[]"] exI [of _ t']) simp
  next
    case None
    from victim_found [OF snd es(3)] obtain s p where v: "op_victim OPS env ?es (st_policy t) = Some (s, p)" by blast
    from victim_in [OF v] have s: "s \<in> set ?es" .
    from victim_sound [OF snd v] have snd': "sound ?es p" .
    from None s have nP: "\<not> ?P s" and noP: "\<not> (\<exists>s' \<in> set ?es. ?P s')" by (auto simp: find_None_iff)
    from sector_slot [OF inv es(2) [OF s], of "key_address k"] obtain i where
      i: "extract_sector_offset (key_address k) t < length (sec_blks (st_secs t ! s))
          \<and> sec_blks (st_secs t ! s) ! extract_sector_offset (key_address k) t = Some i" "i < length (st_blks t)"
        "i div ?n = s" "i mod ?n = extract_sector_offset (key_address k) t" by blast
    from valid_subs_inv [OF inv es(2) [OF s]] obtain vs where vs: "valid_subs (st_secs t ! s) t = Some vs" "distinct vs"
      "set vs = valid_in (st_blks t) ?n s" "length vs \<le> ?n" by blast
    have inv1: "sector_inv (t\<lparr>st_policy := p\<rparr>)" using inv by (simp add: sector_inv_def sector_shape_def)
    from count_eviction_ok [OF inv1, of "length vs"] vs(4) obtain t' where t': "count_eviction (length vs) (t\<lparr>st_policy := p\<rparr>) = Some t'"
      "sector_inv t'" "same_geometry t t'" "st_policy t' = p" "st_blks t' = st_blks t" "st_secs t' = st_secs t"
      by (auto simp: same_geometry_def)
    have "sector_find_victim OPS env k [] part_id t = Some (Some i, vs, t')"
      using cand found None es(3) v sector_match_inv [OF inv es(2) [OF s], of k] nP i(1) vs(1) es(2) [OF s] t'(1)
      by (auto simp: sector_find_victim_def)
    moreover have "victim_ok k t i vs" unfolding victim_ok_def Let_def if_not_P [OF noP] using i s vs by simp
    ultimately show ?thesis using t' snd' by (intro exI [of _ i] exI [of _ vs] exI [of _ t']) simp
  qed
qed

lemma victim_may_insert:
  assumes inv: "sector_inv t" and vic: "victim_ok k t i evict"
    and geo: "same_geometry t t'" and inv': "sector_inv t'"
    and secs: "\<forall>s. (\<forall>j \<in> set evict. j div unat (st_per_sector t) \<noteq> s) \<longrightarrow> st_secs t' ! s = st_secs t ! s"
    and blks: "\<forall>j. j \<notin> set evict \<longrightarrow> st_blks t' ! j = st_blks t ! j" "\<forall>j \<in> set evict. \<not> te_valid (st_blks t' ! j)"
  shows "may_insert k t' i"
proof -
  let ?n = "unat (st_per_sector t)" and ?a = "unat (ix_assoc (bt_indexing t))" and ?s = "i div unat (st_per_sector t)"
  let ?P = "\<lambda>s. valid_in (st_blks t) ?n s \<noteq> {} \<and> te_tag (st_secs t ! s) = extract_tag (bt_indexing t) (key_address k)
    \<and> te_secure (st_secs t ! s) = key_secure k"
  have sh: "sector_shape t" using inv by (simp add: sector_inv_def)
  note es = set_of_key(2) [OF sh, of _ k]
  have g: "bt_indexing t' = bt_indexing t" "st_per_sector t' = st_per_sector t" "length (st_blks t') = length (st_blks t)"
    "length (st_secs t') = length (st_secs t)" using geo by (simp_all add: same_geometry_def)
  have i: "i < length (st_blks t)" "i mod ?n = extract_sector_offset (key_address k) t" "?s \<in> set (set_of_key k t)"
    using vic by (simp_all add: victim_ok_def Let_def)
  note off = same_geometry_offset [OF geo, of "key_address k"]
  have vi: "valid_in (st_blks t') ?n s = valid_in (st_blks t) ?n s - set evict" for s
    using blks g(3) by (auto simp: valid_in_def)
  show ?thesis
  proof (cases "\<exists>s' \<in> set (set_of_key k t). ?P s'")
    case True
    with vic have e: "evict = []" "\<not> te_valid (st_blks t ! i)" "?P ?s" by (simp_all add: victim_ok_def Let_def)
    have "s = ?s" if s: "s < length (st_secs t)" "s div ?a = ?s div ?a" "?P s" for s
    proof -
      have "?s < length (st_secs t)" by (rule sector_of_block [OF sh i(1)])
      with inv s e(3) show ?thesis unfolding sector_inv_def sectors_unique_def by metis
    qed
    moreover have "st_secs t' ! s = st_secs t ! s" for s using secs e(1) by simp
    moreover have "st_blks t' ! i = st_blks t ! i" using blks(1) e(1) by simp
    ultimately show ?thesis using i e es vi g off by (auto simp: may_insert_def Let_def)
  next
    case False
    with vic have e: "set evict = valid_in (st_blks t) ?n ?s" by (simp add: victim_ok_def Let_def)
    have free: "\<not> te_valid (st_blks t' ! i)"
    proof
      assume v: "te_valid (st_blks t' ! i)"
      then have "i \<notin> set evict" using blks(2) by auto
      then have "i \<in> valid_in (st_blks t) ?n ?s" using v blks(1) i(1) by (simp add: valid_in_def)
      with e \<open>i \<notin> set evict\<close> show False by simp
    qed
    have "\<not> (te_tag (st_secs t' ! s) = extract_tag (bt_indexing t) (key_address k) \<and> te_secure (st_secs t' ! s) = key_secure k)
        \<and> s \<noteq> ?s"
      if s: "s div ?a = ?s div ?a" "valid_in (st_blks t') ?n s \<noteq> {}" for s
    proof -
      have ne: "s \<noteq> ?s" using s(2) e vi by auto
      then have "\<forall>j \<in> set evict. j div ?n \<noteq> s" using e by (auto simp: valid_in_def)
      then have "st_secs t' ! s = st_secs t ! s" using secs by blast
      moreover have "s \<in> set (set_of_key k t)" "valid_in (st_blks t) ?n s \<noteq> {}" using s i(3) es vi by auto
      ultimately show ?thesis using False ne by auto
    qed
    with i es free g off show ?thesis by (auto simp: may_insert_def Let_def)
  qed
qed

context sector_blocks
begin

lemma replace_block_ok:
  assumes pol: "replacement_policy (op_invalidate OPS) (op_touch OPS) (op_reset OPS) (op_victim OPS) sound"
    and inv: "sector_inv t" and none: "sector_find_block (packet_key pkt) t = Some None" and parts: "bt_partitions t = None"
    and snd: "sound (set_of_key (packet_key pkt) t) (st_policy t)"
    and addr: "pkt_addr pkt \<noteq> max_addr" and r: "req_requestor (pkt_req pkt) < bt_max_requestors t"
  shows "\<exists>i evict t'. replace_block V OPS env now pkt t = Some (Some i, evict, t') \<and> victim_ok (packet_key pkt) t i evict
    \<and> sector_inv t' \<and> same_geometry t t' \<and> sound (set_of_key (packet_key pkt) t) (st_policy t')
    \<and> (\<forall>k. sector_find_block k t' = (if same_sub_block t k (packet_key pkt) then Some (Some i)
        else if \<exists>e \<in> set evict. sector_find_block k t = Some (Some e) then Some None else sector_find_block k t))"
proof -
  note touch_sound = replacement_policy.touch_sound [OF pol] and reset_sound = replacement_policy.reset_sound [OF pol]
  let ?k = "packet_key pkt" and ?n = "unat (st_per_sector t)"
  let ?es = "set_of_key ?k t"
  have sh: "sector_shape t" using inv by (simp add: sector_inv_def)
  from sector_find_victim_ok [OF pol inv none parts snd, of env 0] obtain i evict t1 where
    v: "sector_find_victim OPS env ?k [] 0 t = Some (Some i, evict, t1)" "victim_ok ?k t i evict" "sector_inv t1"
      "same_geometry t t1" "sound ?es (st_policy t1)" "st_blks t1 = st_blks t" "st_secs t1 = st_secs t" by blast
  have g1: "bt_indexing t1 = bt_indexing t" "st_per_sector t1 = st_per_sector t" using v(4) by (simp_all add: same_geometry_def)
  have i: "i < length (st_blks t)" "i div ?n \<in> set ?es" "distinct evict" using v(2) by (simp_all add: victim_ok_def Let_def)
  have "\<forall>j \<in> set evict. j < length (st_blks t) \<and> te_valid (st_blks t ! j) \<and> j div ?n \<in> set ?es"
    using v(2) i(2) by (auto simp: victim_ok_def Let_def valid_in_def split: if_splits)
  then have ev: "\<forall>j \<in> set evict. j < length (st_blks t1) \<and> te_valid (st_blks t1 ! j) \<and> j div unat (st_per_sector t1) \<in> set ?es"
    by (simp add: v(6) g1)
  from evict_all [OF pol v(3,5) i(3) ev] obtain t2 where
    t2: "fold_opt (sector_invalidate V OPS) evict t1 = Some t2" "sector_inv t2" "same_geometry t1 t2" "sound ?es (st_policy t2)"
      "\<forall>s. (\<forall>j \<in> set evict. j div ?n \<noteq> s) \<longrightarrow> st_secs t2 ! s = st_secs t ! s"
      "\<forall>j. j \<notin> set evict \<longrightarrow> st_blks t2 ! j = st_blks t ! j" "\<forall>j \<in> set evict. \<not> te_valid (st_blks t2 ! j)"
      "\<forall>k j. sub_holds k t2 j \<longleftrightarrow> j \<notin> set evict \<and> sub_holds k t1 j" unfolding v(6,7) g1 by blast
  have geo: "same_geometry t t2" by (rule same_geometry_trans [OF v(4) t2(3)])
  then have g2: "st_per_sector t2 = st_per_sector t" "bt_max_requestors t2 = bt_max_requestors t" "bt_indexing t2 = bt_indexing t"
    by (simp_all add: same_geometry_def)
  have may: "may_insert ?k t2 i" by (rule victim_may_insert [OF inv v(2) geo t2(2,5,6,7)])
  from touch_sound [OF t2(4) i(2), of env] reset_sound [OF t2(4) i(2), of env] obtain p where
    p: "(if sector_is_valid (st_secs t2 ! (i div unat (st_per_sector t2))) then op_touch OPS env (i div unat (st_per_sector t2)) (st_policy t2)
      else op_reset OPS env (i div unat (st_per_sector t2)) (st_policy t2)) = Some p" "sound ?es p"
    unfolding g2 by (cases "sector_is_valid (st_secs t2 ! (i div ?n))") auto
  from sector_insert_block_ok [OF t2(2) may addr _ p(1), of now] r g2(2) obtain t' where
    t': "sector_insert_block OPS env now pkt i t2 = Some t'" "sector_inv t'" "same_geometry t2 t'" "st_policy t' = p"
      "\<forall>k j. sub_holds k t' j \<longleftrightarrow> (if same_sub_block t2 k ?k then j = i else sub_holds k t2 j)" by auto
  have h1: "sub_holds k t1 j \<longleftrightarrow> sub_holds k t j" for k j
    using v(6,7) g1 same_geometry_offset [OF v(4), of "key_address k"] by (simp add: sub_holds_def)
  have sb: "same_sub_block t2 k k' \<longleftrightarrow> same_sub_block t k k'" for k k'
    using g2(3) same_geometry_offset [OF geo] by (simp add: same_sub_block_def)
  have "sector_find_block k t' = (if same_sub_block t k ?k then Some (Some i)
    else if \<exists>e \<in> set evict. sector_find_block k t = Some (Some e) then Some None else sector_find_block k t)" for k
  proof -
    from sector_find_iff [OF inv, of k] obtain r where
      r: "sector_find_block k t = Some r" "\<And>j. r = Some j \<longleftrightarrow> sub_holds k t j" by blast
    have "sector_find_block k t' = Some (if same_sub_block t k ?k then Some i else if \<exists>e \<in> set evict. r = Some e then None else r)"
    proof (rule sector_find_eqI [OF t'(2)])
      fix j
      show "(if same_sub_block t k ?k then Some i else if \<exists>e \<in> set evict. r = Some e then None else r) = Some j \<longleftrightarrow> sub_holds k t' j"
        using t'(5) t2(8) h1 sb r(2) [of j] by auto
    qed
    with r(1) show ?thesis by simp
  qed
  moreover have "replace_block V OPS env now pkt t = Some (Some i, evict, t')"
    by (simp add: replace_block_def v(1) t2(1) t'(1))
  moreover have "same_geometry t t'" by (rule same_geometry_trans [OF geo t'(3)])
  ultimately show ?thesis using v(2) t'(2,4) p(2) by blast
qed

end

end
