(* ===== verification/SectorInit.thy ===== *)
theory SectorInit
  imports SectorProps
begin

text \<open>
  What \<open>SectorTags::tagsInit\<close> establishes: the invariant of the sector store, with no block found.
\<close>

section \<open>Linking the blocks of a sector\<close>

lemma sec_blks_self: "sec_blks sec = ps \<Longrightarrow> sec\<lparr>sec_blks := ps\<rparr> = sec"
  by (cases sec) simp

lemma link_subs:
  assumes "fold_opt (link_sub True s) [0..<k] t = Some t'" "s < length (st_secs t)" "k \<le> unat (st_per_sector t)"
    and "sec_blks (st_secs t ! s) = replicate (unat (st_per_sector t)) None"
  shows "\<exists>bs. t' = t\<lparr>st_blks := bs, st_secs := (st_secs t)[s := (st_secs t ! s)\<lparr>sec_blks :=
        map Some [s * unat (st_per_sector t)..<s * unat (st_per_sector t) + k] @ replicate (unat (st_per_sector t) - k) None\<rparr>]\<rparr>
    \<and> length bs = length (st_blks t)
    \<and> (\<forall>i < length bs. te_valid (bs ! i) = te_valid (st_blks t ! i) \<and> te_secure (bs ! i) = te_secure (st_blks t ! i)
       \<and> (if s * unat (st_per_sector t) \<le> i \<and> i < s * unat (st_per_sector t) + k
          then sb_sector (bs ! i) = Some s \<and> sb_offset (bs ! i) = of_nat (i - s * unat (st_per_sector t))
            \<and> te_extract (bs ! i) = Some (extract_tag (bt_indexing t))
          else bs ! i = st_blks t ! i))"
  using assms(1,3)
proof (induction k arbitrary: t')
  case 0
  then show ?case using assms(2) sec_blks_self [OF assms(4)] by (auto intro!: exI [of _ "st_blks t"])
next
  case (Suc k)
  let ?n = "unat (st_per_sector t)"
  from Suc.prems(1) obtain t1 where t1: "fold_opt (link_sub True s) [0..<k] t = Some t1" "link_sub True s k t1 = Some t'"
    by (auto simp: fold_opt_append bind_Some_iff)
  from Suc.IH [OF t1(1)] Suc.prems(2) obtain bs where bs: "t1 = t\<lparr>st_blks := bs, st_secs := (st_secs t)[s := (st_secs t ! s)\<lparr>sec_blks :=
        map Some [s * ?n..<s * ?n + k] @ replicate (?n - k) None\<rparr>]\<rparr>" "length bs = length (st_blks t)"
    "\<forall>i < length bs. te_valid (bs ! i) = te_valid (st_blks t ! i) \<and> te_secure (bs ! i) = te_secure (st_blks t ! i)
       \<and> (if s * ?n \<le> i \<and> i < s * ?n + k then sb_sector (bs ! i) = Some s \<and> sb_offset (bs ! i) = of_nat (i - s * ?n)
            \<and> te_extract (bs ! i) = Some (extract_tag (bt_indexing t)) else bs ! i = st_blks t ! i)" by auto
  let ?i = "s * ?n + k"
  have row: "(map Some [s * ?n..<s * ?n + k] @ replicate (?n - k) None)[k := Some ?i]
    = map Some [s * ?n..<s * ?n + Suc k] @ replicate (?n - Suc k) None"
    using Suc.prems(2) by (intro nth_equalityI) (auto simp: nth_list_update nth_append)
  from t1(2) bs(1,2) assms(2) have i: "?i < length bs"
    by (auto simp: link_sub_def bind_Some_iff Let_def)
  let ?bs = "bs[?i := (bs ! ?i)\<lparr>cb_data := Some (unat (bt_blk_size t) * ?i), sb_sector := Some s, sb_offset := of_nat k,
    te_extract := Some (extract_tag (bt_indexing t))\<rparr>]"
  from t1(2) bs(1) assms(2) i have t': "t' = t\<lparr>st_blks := ?bs, st_secs := (st_secs t)[s := (st_secs t ! s)\<lparr>sec_blks :=
        map Some [s * ?n..<s * ?n + Suc k] @ replicate (?n - Suc k) None\<rparr>]\<rparr>"
    by (auto simp: link_sub_def bind_Some_iff Let_def put_sub_def register_tag_extractor_def row)
  have "te_valid (?bs ! j) = te_valid (st_blks t ! j) \<and> te_secure (?bs ! j) = te_secure (st_blks t ! j)
       \<and> (if s * ?n \<le> j \<and> j < s * ?n + Suc k then sb_sector (?bs ! j) = Some s \<and> sb_offset (?bs ! j) = of_nat (j - s * ?n)
            \<and> te_extract (?bs ! j) = Some (extract_tag (bt_indexing t)) else ?bs ! j = st_blks t ! j)" if "j < length ?bs" for j
  proof (cases "j = ?i")
    case True
    then show ?thesis using i bs(2,3) by simp
  next
    case False
    then have "s * ?n \<le> j \<and> j < s * ?n + Suc k \<longleftrightarrow> s * ?n \<le> j \<and> j < s * ?n + k" by auto
    moreover have "?bs ! j = bs ! j" using False by simp
    moreover have "j < length bs" using that by simp
    ultimately show ?thesis using bs(3) by simp
  qed
  with t' bs(2) show ?case by (intro exI [of _ ?bs]) simp
qed

lemma set_positions:
  assumes "fold_opt (\<lambda>i bs. do { b \<leftarrow> nth_opt bs i; update_opt bs i (set_position row way b) }) ps bs = Some bs'"
  shows "length bs' = length bs \<and> (\<forall>i < length bs. te_valid (bs' ! i) = te_valid (bs ! i) \<and> te_secure (bs' ! i) = te_secure (bs ! i)
    \<and> te_extract (bs' ! i) = te_extract (bs ! i) \<and> sb_sector (bs' ! i) = sb_sector (bs ! i) \<and> sb_offset (bs' ! i) = sb_offset (bs ! i))"
  using assms
proof (induction ps arbitrary: bs)
  case (Cons i ps)
  then obtain b bs1 where i: "i < length bs" "bs1 = bs[i := set_position row way (bs ! i)]"
    and rest: "fold_opt (\<lambda>i bs. do { b \<leftarrow> nth_opt bs i; update_opt bs i (set_position row way b) }) ps bs1 = Some bs'"
    by (auto simp: bind_Some_iff)
  from Cons.IH [OF rest] i show ?case by (auto simp: nth_list_update set_position_def)
qed simp

section \<open>The loop over the sectors\<close>

definition sector_upto :: "indexing \<Rightarrow> ('b, 'c, 's) sector_tags \<Rightarrow> nat \<Rightarrow> ('b, 'c, 's) sector_tags \<Rightarrow> bool" where
  "sector_upto ix t0 m t \<longleftrightarrow> (\<exists>rows. bt_indexing t = ix\<lparr>ix_sets := rows\<rparr> \<and> length rows = length (ix_sets ix)
       \<and> (\<forall>row \<in> set rows. length row = unat (ix_assoc ix))
       \<and> (\<forall>s < m. s div unat (ix_assoc ix) < length rows \<and> rows ! (s div unat (ix_assoc ix)) ! (s mod unat (ix_assoc ix)) = Some s))
     \<and> st_per_sector t = st_per_sector t0 \<and> st_mask t = st_mask t0 \<and> bt_stats t = bt_stats t0
     \<and> bt_max_requestors t = bt_max_requestors t0 \<and> st_evictions t = st_evictions t0 \<and> bt_partitions t = bt_partitions t0
     \<and> length (st_blks t) = length (st_blks t0) \<and> length (st_secs t) = length (st_secs t0)
     \<and> (\<forall>i < length (st_blks t). \<not> te_valid (st_blks t ! i) \<and> \<not> te_secure (st_blks t ! i)
       \<and> (i div unat (st_per_sector t) < m \<longrightarrow> sub_placed (unat (st_per_sector t)) ix i (st_blks t ! i)))
     \<and> (\<forall>s < length (st_secs t). sec_valid_count (st_secs t ! s) = 0 \<and> \<not> te_secure (st_secs t ! s)
       \<and> (s < m \<longrightarrow> te_extract (st_secs t ! s) = Some (extract_tag ix) \<and> unat (te_set (st_secs t ! s)) = s div unat (ix_assoc ix)
          \<and> sec_blks (st_secs t ! s) = map Some [s * unat (st_per_sector t)..<Suc s * unat (st_per_sector t)]))"

lemma init_sector_step:
  assumes up: "sector_upto ix t0 s t" and step: "init_sector True OPS s t = Some t'"
    and ok: "indexing_ok ix" and s32: "s < 2 ^ 32" and n: "0 < unat (st_per_sector t)"
  shows "sector_upto ix t0 (Suc s) t'"
proof -
  let ?A = "unat (ix_assoc ix)" and ?n = "unat (st_per_sector t)"
  from up obtain rows where rows: "bt_indexing t = ix\<lparr>ix_sets := rows\<rparr>" "length rows = length (ix_sets ix)"
      "\<forall>row \<in> set rows. length row = ?A"
      "\<forall>i < s. i div ?A < length rows \<and> rows ! (i div ?A) ! (i mod ?A) = Some i"
    and same: "st_per_sector t = st_per_sector t0" "st_mask t = st_mask t0" "bt_stats t = bt_stats t0"
      "bt_max_requestors t = bt_max_requestors t0" "st_evictions t = st_evictions t0" "bt_partitions t = bt_partitions t0"
      "length (st_blks t) = length (st_blks t0)" "length (st_secs t) = length (st_secs t0)"
    and blks: "\<forall>i < length (st_blks t). \<not> te_valid (st_blks t ! i) \<and> \<not> te_secure (st_blks t ! i)
       \<and> (i div ?n < s \<longrightarrow> sub_placed ?n ix i (st_blks t ! i))"
    and secs: "\<forall>i < length (st_secs t). sec_valid_count (st_secs t ! i) = 0 \<and> \<not> te_secure (st_secs t ! i)
       \<and> (i < s \<longrightarrow> te_extract (st_secs t ! i) = Some (extract_tag ix) \<and> unat (te_set (st_secs t ! i)) = i div ?A
          \<and> sec_blks (st_secs t ! i) = map Some [i * ?n..<Suc i * ?n])"
    unfolding sector_upto_def by blast
  from step obtain p t1 ix' row way t2 where
    s: "s < length (st_secs t)" and
    t1: "fold_opt (link_sub True s) [0..<?n]
       (t\<lparr>st_policy := p, st_secs := (st_secs t)[s := (st_secs t ! s)\<lparr>sec_blks := replicate ?n None\<rparr>]\<rparr>) = Some t1"
    and e: "set_entry s (of_nat s) (bt_indexing t1) = Some (ix', row, way)"
    and t2: "sector_set_position s row way (t1\<lparr>bt_indexing := ix'\<rparr>) = Some t2"
    and t': "s < length (st_secs t2)" "t' = t2\<lparr>st_secs := (st_secs t2)[s := register_tag_extractor (extract_tag ix') (st_secs t2 ! s)]\<rparr>"
    by (auto simp: init_sector_def bind_Some_iff)
  from link_subs [OF t1] s obtain bs where bs: "t1 = t\<lparr>st_policy := p, st_blks := bs, st_secs := (st_secs t)[s := (st_secs t ! s)\<lparr>sec_blks :=
        map Some [s * ?n..<s * ?n + ?n]\<rparr>]\<rparr>" "length bs = length (st_blks t)"
    "\<forall>i < length bs. te_valid (bs ! i) = te_valid (st_blks t ! i) \<and> te_secure (bs ! i) = te_secure (st_blks t ! i)
       \<and> (if s * ?n \<le> i \<and> i < s * ?n + ?n then sb_sector (bs ! i) = Some s \<and> sb_offset (bs ! i) = of_nat (i - s * ?n)
            \<and> te_extract (bs ! i) = Some (extract_tag (bt_indexing t)) else bs ! i = st_blks t ! i)"
    by auto
  have it1: "bt_indexing t1 = ix\<lparr>ix_sets := rows\<rparr>" using rows(1) by (simp add: bs(1))
  have sw: "unat row = s div ?A" "unat way = s mod ?A"
    using set_entry_get(2,3) [OF e] it1 s32 by (simp_all add: unat_div unat_mod unat_of_nat_u32)
  from e it1 have r: "unat row < length rows" and w: "unat way < length (rows ! unat row)"
    and ix': "ix' = ix\<lparr>ix_sets := rows[unat row := (rows ! unat row)[unat way := Some s]]\<rparr>"
    by (auto simp: set_entry_def bind_Some_iff)
  let ?rows = "rows[unat row := (rows ! unat row)[unat way := Some s]]"
  have len: "\<forall>row \<in> set ?rows. length row = ?A"
    using rows(3) r by (auto simp: all_set_conv_all_nth nth_list_update)
  have entries: "i div ?A < length ?rows \<and> ?rows ! (i div ?A) ! (i mod ?A) = Some i" if "i < Suc s" for i
  proof (cases "i = s")
    case True
    then show ?thesis using r w sw by simp
  next
    case False
    with that have i: "i < s" by simp
    then have "\<not> (i div ?A = unat row \<and> i mod ?A = unat way)"
      unfolding sw using div_mult_mod_eq [of i ?A] div_mult_mod_eq [of s ?A] by (metis less_irrefl)
    with rows(4) i r show ?thesis by (auto simp: nth_list_update)
  qed
  have tag: "extract_tag ix' = extract_tag ix" "extract_tag (bt_indexing t) = extract_tag ix"
    by (auto intro!: extract_tag_cong simp: ix' rows(1))
  from t2 s obtain bs2 where
    bs2: "fold_opt (\<lambda>i bs. do { b \<leftarrow> nth_opt bs i; update_opt bs i (set_position row way b) }) [s * ?n..<s * ?n + ?n] bs = Some bs2"
    and t2': "t2 = t1\<lparr>bt_indexing := ix', st_blks := bs2, st_secs := (st_secs t)[s := set_position row way ((st_secs t ! s)\<lparr>sec_blks :=
        map Some [s * ?n..<s * ?n + ?n]\<rparr>)]\<rparr>"
    by (auto simp: sector_set_position_def bs(1) bind_Some_iff)
  note pos = set_positions [OF bs2]
  have fin: "t' = t\<lparr>st_policy := p, bt_indexing := ix', st_blks := bs2, st_secs := (st_secs t)[s := register_tag_extractor (extract_tag ix)
      (set_position row way ((st_secs t ! s)\<lparr>sec_blks := map Some [s * ?n..<s * ?n + ?n]\<rparr>))]\<rparr>"
    using s by (simp add: t'(2) t2' bs(1) tag)
  have placed: "\<not> te_valid (bs2 ! i) \<and> \<not> te_secure (bs2 ! i) \<and> (i div ?n < Suc s \<longrightarrow> sub_placed ?n ix i (bs2 ! i))"
    if i: "i < length (st_blks t)" for i
  proof -
    have v: "\<not> te_valid (bs2 ! i)" "\<not> te_secure (bs2 ! i)" using i pos bs(2,3) blks by auto
    have "sub_placed ?n ix i (bs2 ! i)" if d: "i div ?n < Suc s"
    proof (cases "i div ?n = s")
      case True
      then have "i \<in> set [s * ?n..<Suc s * ?n]" using row_member [OF n] by blast
      then have "s * ?n \<le> i \<and> i < s * ?n + ?n" by simp
      moreover have "i - s * ?n = i mod ?n" using True by (metis minus_div_mult_eq_mod)
      ultimately show ?thesis using i pos bs(2,3) v True tag by (simp add: sub_placed_def)
    next
      case False
      then have "\<not> (s * ?n \<le> i \<and> i < s * ?n + ?n)" using row_member [OF n, of i s] by auto
      then have "bs ! i = st_blks t ! i" using i bs(2,3) by auto
      moreover have "sub_placed ?n ix i (st_blks t ! i)" using False d blks i by simp
      ultimately show ?thesis using pos i bs(2) v by (simp add: sub_placed_def)
    qed
    with v show ?thesis by blast
  qed
  have sec: "sec_valid_count (st_secs t' ! i) = 0 \<and> \<not> te_secure (st_secs t' ! i)
       \<and> (i < Suc s \<longrightarrow> te_extract (st_secs t' ! i) = Some (extract_tag ix) \<and> unat (te_set (st_secs t' ! i)) = i div ?A
          \<and> sec_blks (st_secs t' ! i) = map Some [i * ?n..<Suc i * ?n])" if "i < length (st_secs t)" for i
    using that secs s sw(1) by (cases "i = s") (auto simp: fin register_tag_extractor_def set_position_def add.commute)
  have "bt_indexing t' = ix\<lparr>ix_sets := ?rows\<rparr>" "length ?rows = length (ix_sets ix)" using rows(2) by (simp_all add: fin ix')
  moreover have "st_per_sector t' = st_per_sector t" "st_mask t' = st_mask t" "bt_stats t' = bt_stats t"
    "bt_max_requestors t' = bt_max_requestors t" "st_evictions t' = st_evictions t" "bt_partitions t' = bt_partitions t"
    "st_blks t' = bs2" "length (st_secs t') = length (st_secs t)" by (simp_all add: fin)
  ultimately show ?thesis
    unfolding sector_upto_def using len entries placed sec same pos bs(2) by (auto intro!: exI [of _ ?rows])
qed

lemma sector_tags_init_inv:
  assumes init: "sector_tags_init OPS t0 = Some t" and ok: "indexing_ok (bt_indexing t0)"
    and per: "k < 8" "unat (st_per_sector t0) = 2 ^ k" "st_mask t0 = st_per_sector t0 - 1"
    and secs: "unat (st_num_sectors t0) = length (ix_sets (bt_indexing t0)) * unat (ix_assoc (bt_indexing t0))"
    and blks: "unat (bt_num_blocks t0) = unat (st_num_sectors t0) * unat (st_per_sector t0)"
    and occ: "length (occupancies (bt_stats t0)) = unat (bt_max_requestors t0)"
    and ev: "length (st_evictions t0) = Suc (unat (st_per_sector t0))"
  shows "sector_inv t \<and> bt_partitions t = bt_partitions t0 \<and> sector_find_block key t = Some None"
proof -
  let ?ix = "bt_indexing t0" and ?A = "unat (ix_assoc (bt_indexing t0))" and ?n = "unat (st_per_sector t0)"
  have n: "0 < ?n" using per(2) by simp
  from init obtain b where b: "new_sub_blk = Some b"
    and fold: "fold_opt (init_sector True OPS) [0..<unat (st_num_sectors t0)]
      (t0\<lparr>st_blks := replicate (unat (bt_num_blocks t0)) b, st_secs := replicate (unat (st_num_sectors t0)) new_sector_blk\<rparr>) = Some t"
    by (auto simp: sector_tags_init_def bind_Some_iff)
  let ?t0 = "t0\<lparr>st_blks := replicate (unat (bt_num_blocks t0)) b, st_secs := replicate (unat (st_num_sectors t0)) new_sector_blk\<rparr>"
  have free: "\<not> te_valid b" "\<not> te_secure b"
    using b by (auto simp: new_sub_blk_def new_cache_blk_def cache_blk_invalidate_cleared bind_Some_iff cache_blk.extend_def)
  have "sector_upto ?ix ?t0 m t" if "fold_opt (init_sector True OPS) [0..<m] ?t0 = Some t" "m \<le> unat (st_num_sectors t0)" for m t
    using that
  proof (induction m arbitrary: t)
    case 0
    then show ?case using ok free
      by (auto simp: sector_upto_def indexing_ok_def new_sector_blk_def new_tagged_entry_def tagged_entry.extend_def
          div_eq_0_iff intro!: exI [of _ "ix_sets ?ix"])
  next
    case (Suc m)
    then obtain t1 where t1: "fold_opt (init_sector True OPS) [0..<m] ?t0 = Some t1" "init_sector True OPS m t1 = Some t"
      by (auto simp: fold_opt_append bind_Some_iff)
    with Suc have up: "sector_upto ?ix ?t0 m t1" by simp
    then have "0 < unat (st_per_sector t1)" using n by (simp add: sector_upto_def)
    moreover have "m < 2 ^ 32" using Suc.prems(2) unsigned_less [of "st_num_sectors t0", where 'a = nat] by simp
    ultimately show ?case using init_sector_step [OF up t1(2) ok] by simp
  qed
  from this [OF fold] have up: "sector_upto ?ix ?t0 (unat (st_num_sectors t0)) t" by simp
  then obtain rows where rows: "bt_indexing t = ?ix\<lparr>ix_sets := rows\<rparr>" "length rows = length (ix_sets ?ix)"
      "\<forall>row \<in> set rows. length row = ?A"
      "\<forall>s < unat (st_num_sectors t0). rows ! (s div ?A) ! (s mod ?A) = Some s"
    and t: "st_per_sector t = st_per_sector t0" "st_mask t = st_mask t0" "bt_stats t = bt_stats t0"
      "bt_max_requestors t = bt_max_requestors t0" "st_evictions t = st_evictions t0" "bt_partitions t = bt_partitions t0"
      "length (st_blks t) = unat (bt_num_blocks t0)" "length (st_secs t) = unat (st_num_sectors t0)"
    and bl: "\<forall>i < length (st_blks t). \<not> te_valid (st_blks t ! i) \<and> \<not> te_secure (st_blks t ! i)
       \<and> (i div ?n < unat (st_num_sectors t0) \<longrightarrow> sub_placed ?n ?ix i (st_blks t ! i))"
    and se: "\<forall>s < length (st_secs t). sec_valid_count (st_secs t ! s) = 0 \<and> \<not> te_secure (st_secs t ! s)
       \<and> (s < unat (st_num_sectors t0) \<longrightarrow> te_extract (st_secs t ! s) = Some (extract_tag ?ix)
          \<and> unat (te_set (st_secs t ! s)) = s div ?A \<and> sec_blks (st_secs t ! s) = map Some [s * ?n..<Suc s * ?n])"
    by (auto simp: sector_upto_def)
  have "rows_ok (?ix\<lparr>ix_sets := rows\<rparr>)"
    by (rule rows_okI) (use rows secs in auto)
  moreover have "indexing_ok (?ix\<lparr>ix_sets := rows\<rparr>)" using ok rows(2,3) by (auto simp: indexing_ok_def)
  ultimately have shape: "sector_shape t"
    using per secs blks occ ev by (auto simp: sector_shape_def rows(1,2) t)
  have tag: "extract_tag (?ix\<lparr>ix_sets := rows\<rparr>) = extract_tag ?ix" by (rule extract_tag_cong) simp
  have novalid: "valid_in (st_blks t) m s = {}" for m s using bl by (auto simp: valid_in_def)
  have "i div ?n < unat (st_num_sectors t0)" if "i < length (st_blks t)" for i
    using that blks n by (simp add: t less_mult_imp_div_less)
  with bl se shape have inv: "sector_inv t"
    by (auto simp: sector_inv_def t rows(1) sub_placed_def sector_placed_def tag novalid sectors_unique_def all_set_conv_all_nth)
  have "sector_find_block key t = Some None"
    by (rule sector_find_eqI [OF inv]) (use bl in \<open>auto simp: sub_holds_def Let_def\<close>)
  with inv t(6) show ?thesis by blast
qed

end
