(* ===== verification/SectorStore.thy ===== *)
theory SectorStore
  imports SectorInit
begin

text \<open>
  The properties of the sector store: lookups, accesses, invalidations and the miss path never abort
  and keep the store a map from keys to blocks; the address of a block can be put together again.
\<close>

section \<open>Accesses\<close>

lemma increase_ref_fields [simp]:
  "te_valid (increase_ref_count b) = te_valid b" "te_tag (increase_ref_count b) = te_tag b"
  "te_secure (increase_ref_count b) = te_secure b" "te_extract (increase_ref_count b) = te_extract b"
  "cb_requestor (increase_ref_count b) = cb_requestor b"
  by (simp_all add: increase_ref_count_def)

lemma sub_placed_increase_ref [simp]: "sub_placed n ix i (increase_ref_count b) = sub_placed n ix i b"
  by (simp add: sub_placed_def increase_ref_count_def)

lemma valid_in_increase_ref [simp]:
  "i < length bs \<Longrightarrow> valid_in (bs[i := increase_ref_count (bs ! i)]) n s = valid_in bs n s"
  by (auto simp: valid_in_def nth_list_update)





section \<open>Properties\<close>


text \<open>A store of two sets of two sectors of four blocks under LRU.\<close>

definition small_sector_store :: "(unit, unit, entry \<Rightarrow> lru_data) sector_tags option" where
  "small_sector_store = do {
     ix \<leftarrow> new_set_associative 2 1024 256;
     bt \<leftarrow> new_base_tags 64 1024 1 ix None 0 4;
     t \<leftarrow> new_sector_tags 2 False (\<lambda>_. new_lru_data) 4 bt;
     sector_tags_init lru_ops t }"

lemma small_sector_store_inv:
  "\<exists>t. small_sector_store = Some t \<and> sector_inv t \<and> bt_partitions t = None \<and> sector_find_block k t = Some None"
proof -
  have "small_sector_store \<noteq> None" by code_simp
  then obtain t where t: "small_sector_store = Some t" by blast
  then obtain ix bt t0 where ix: "new_set_associative 2 1024 256 = Some ix" and bt: "new_base_tags 64 1024 1 ix None 0 4 = Some bt"
    and t0: "new_sector_tags 2 False (\<lambda>_. new_lru_data) 4 bt = Some t0" "sector_tags_init lru_ops t0 = Some t"
    by (auto simp: small_sector_store_def bind_Some_iff)
  have "map_option (\<lambda>ix. length (ix_sets ix) * unat (ix_assoc ix)) (new_set_associative 2 1024 256) = Some 4" by code_simp
  with ix have size: "length (ix_sets ix) * unat (ix_assoc ix) = 4" by simp
  have bt': "bt_indexing bt = ix" "bt_num_blocks bt = 16" "bt_max_requestors bt = 4" "bt_partitions bt = None"
    "occupancies (bt_stats bt) = replicate 4 0"
    using bt by (auto simp: new_base_tags_def new_tag_stats_def bind_Some_iff)
  then have f: "bt_indexing t0 = ix" "bt_num_blocks t0 = 16" "st_num_sectors t0 = 4" "st_per_sector t0 = 4" "st_mask t0 = 3"
    "bt_max_requestors t0 = 4" "bt_partitions t0 = None" "occupancies (bt_stats t0) = replicate 4 0" "length (st_evictions t0) = 5"
    using t0(1) by (auto simp: new_sector_tags_def bind_Some_iff base_tags.extend_def)
  have "sector_inv t \<and> bt_partitions t = bt_partitions t0 \<and> sector_find_block k t = Some None"
    by (rule sector_tags_init_inv [OF t0(2), of 2]) (use f size new_set_associative_ok [OF ix] in simp_all)
  with t f(7) show ?thesis by auto
qed

lemma lru_contract:
  "replacement_policy (op_invalidate lru_ops) (op_touch lru_ops) (op_reset lru_ops) (op_victim lru_ops) (\<lambda>cs s. True)"
  by (simp add: lru_ops_def lru.replacement_policy_axioms)


text \<open>C38: The address of a block that a lookup finds can be put together again. When the sets of the indexing
  policy are selected by the address bits above the sector offset, \<open>regenerateBlkAddr\<close> returns the address that was
  looked up, down to the offset within the block.\<close>

theorem sector_address_round_trip:
  assumes inv: "sector_inv t" and geo: "2 ^ (set_shift (bt_indexing t) - st_shift t) = unat (st_per_sector t)"
      "st_shift t \<le> set_shift (bt_indexing t)"
    and found: "sector_find_block k t = Some (Some i)"
  shows "sector_regenerate_blk_addr i t = Some (push_bit (st_shift t) (drop_bit (st_shift t) (key_address k)))"
proof -
  let ?ix = "bt_indexing t" and ?n = "unat (st_per_sector t)" and ?s = "i div unat (st_per_sector t)"
  let ?j = "set_shift ?ix - st_shift t"
  have sh: "sector_shape t" and ok: "indexing_ok ?ix" using inv by (simp_all add: sector_inv_def sector_shape_def)
  from sector_find_iff [OF inv, of k] found have h: "sub_holds k t i" by auto
  then have i: "i < length (st_blks t)" "te_valid (st_blks t ! i)" "?s div unat (ix_assoc ?ix) = unat (extract_set ?ix (key_address k))"
    "te_tag (st_secs t ! ?s) = extract_tag ?ix (key_address k)" "i mod ?n = extract_sector_offset (key_address k) t"
    by (auto simp: sub_holds_def Let_def)
  have s: "?s < length (st_secs t)" by (rule sector_of_block [OF sh i(1)])
  have placed: "sub_placed ?n ?ix i (st_blks t ! i)" "sector_placed ?n ?ix (st_blks t) ?s (st_secs t ! ?s)"
    using inv i(1) s by (simp_all add: sector_inv_def)
  have "unat (te_set (st_secs t ! ?s)) = unat (extract_set ?ix (key_address k))" using placed(2) i(3) by (simp add: sector_placed_def)
  then have row: "te_set (st_secs t ! ?s) = extract_set ?ix (key_address k)" by (rule unsigned_word_eqI)
  have agree: "te_tag (st_blks t ! i) = te_tag (st_secs t ! ?s)"
    using placed(2) i(1,2) by (auto simp: sector_placed_def valid_in_def)
  have n: "?n < 256" "0 < ?n" using sector_shape_per [OF sh] by simp_all
  have "unat (ucast (sb_offset (st_blks t ! i)) :: u64) = i mod ?n"
    using placed(1) mod_less_divisor [OF n(2), of i] n(1)
    by (simp add: sub_placed_def unsigned_of_nat take_bit_nat_eq_self unsigned_ucast_eq)
  also have "\<dots> = take_bit ?j (drop_bit (st_shift t) (unat (key_address k)))"
    by (simp only: i(5) sector_offset_mod [OF sh] geo(1) take_bit_eq_mod drop_bit_eq_div)
  also have "\<dots> = unat (take_bit ?j (drop_bit (st_shift t) (key_address k)))"
    by (simp only: unsigned_take_bit_eq unat_drop_bit_eq)
  finally have off: "(ucast (sb_offset (st_blks t ! i)) :: u64) = take_bit ?j (drop_bit (st_shift t) (key_address k))"
    by (rule unsigned_word_eqI)
  have "push_bit (set_shift ?ix) (drop_bit (set_shift ?ix) (key_address k))
      OR push_bit (st_shift t) (take_bit ?j (drop_bit (st_shift t) (key_address k)))
    = push_bit (st_shift t) (drop_bit (st_shift t) (key_address k))"
  proof (rule bit_word_eqI)
    fix m
    show "bit (push_bit (set_shift ?ix) (drop_bit (set_shift ?ix) (key_address k))
        OR push_bit (st_shift t) (take_bit ?j (drop_bit (st_shift t) (key_address k)))) m
      = bit (push_bit (st_shift t) (drop_bit (st_shift t) (key_address k))) m"
      using geo(2) by (cases "m < set_shift ?ix") (auto simp: bit_or_iff bit_push_bit_iff bit_drop_bit_eq bit_take_bit_iff)
  qed
  with regenerate_extract [OF ok, of "key_address k"] show ?thesis
    by (simp add: sector_regenerate_blk_addr_def sub_at_inv [OF inv i(1)] sub_get_tag_def agree i(4) row off)
qed

theorem sector_address_round_trip_witness:
  "\<exists>(t :: (unit, unit, entry \<Rightarrow> lru_data) sector_tags) i. sector_find_block (packet_key (read_of 0x1044)) t = Some (Some i) \<and> sector_regenerate_blk_addr i t = Some 0x1040"
proof -
  have computed: "case small_sector_store of None \<Rightarrow> False | Some t \<Rightarrow> bt_max_requestors t = 4
      \<and> same_sub_block t (packet_key (read_of 0x1044)) (packet_key (read_of 0x1040))
      \<and> set_shift (bt_indexing t) = 8 \<and> st_shift t = 6 \<and> st_per_sector t = 4" by code_simp
  from small_sector_store_inv obtain t where t: "small_sector_store = Some t" "sector_inv t" "bt_partitions t = None"
    "\<And>k. sector_find_block k t = Some None" by (metis option.inject)
  note facts = computed [unfolded t(1) option.case]
  let ?pkt = "read_of 0x1040" and ?env = "\<lparr>rp_now = 5, rp_rand = 0\<rparr>"
  have pkt: "pkt_addr ?pkt \<noteq> max_addr" "req_requestor (pkt_req ?pkt) < bt_max_requestors t"
    using facts by (simp_all add: read_of_def new_packet_def max_addr_def)
  from plain_blocks.replace_block_ok [OF lru_contract t(2) t(4) t(3) TrueI pkt, of ?env 5] obtain i t' where
    t': "sector_inv t'" "same_geometry t t'"
      "\<And>k. same_sub_block t k (packet_key ?pkt) \<Longrightarrow> sector_find_block k t' = Some (Some i)" by auto
  have found: "sector_find_block (packet_key (read_of 0x1044)) t' = Some (Some i)" using t'(3) facts by blast
  have "set_shift (bt_indexing t') = 8" "st_shift t' = 6" "st_per_sector t' = 4" using t'(2) facts by (simp_all add: same_geometry_def)
  with sector_address_round_trip [OF t'(1) _ _ found]
  have "sector_regenerate_blk_addr i t' = Some (push_bit 6 (drop_bit 6 0x1044))" by (simp add: packet_key_def read_of_def new_packet_def)
  with found show ?thesis by auto
qed

section \<open>What goes wrong\<close>

text \<open>
  The move assignment inserts the tag of the source as an address. Into a valid sector, be it one of the same tag,
  this panics unless the tag extracted from the tag is the tag of that sector.
\<close>

theorem move_into_valid_sector_aborts:
  assumes "sector_inv t" "src < length (st_blks t)" "dest < length (st_blks t)"
    and "valid_in (st_blks t) (unat (st_per_sector t)) (dest div unat (st_per_sector t)) \<noteq> {}"
    and "extract_tag (bt_indexing t) (te_tag (st_secs t ! (src div unat (st_per_sector t))))
      \<noteq> te_tag (st_secs t ! (dest div unat (st_per_sector t)))"
  shows "sector_move_block sector_block_ops OPS env now src dest t = None"
proof -
  let ?d = "dest div unat (st_per_sector t)" and ?s = "src div unat (st_per_sector t)"
  have d: "?d < length (st_secs t)" using assms(1,3) sector_of_block by (auto simp: sector_inv_def)
  then have "sector_is_valid (st_secs t ! ?d)" using sector_valid_iff [OF assms(1)] assms(4) by blast
  moreover have "te_extract (st_secs t ! ?d) = Some (extract_tag (bt_indexing t))"
    using assms(1) d by (simp add: sector_inv_def sector_placed_def)
  ultimately have "sub_insert \<lparr>key_address = te_tag (st_secs t ! ?s), key_secure = sec\<rparr> b (st_secs t ! ?d) = None"
    for sec and b :: sub_blk using assms(5) by (simp add: sub_insert_def sector_match_def)
  then have "sub_move_block sector_block_ops now src dest t = None"
    using sub_at_inv [OF assms(1,2)] sub_at_inv [OF assms(1,3)]
    by (auto simp: sub_move_block_def sub_get_tag_def bind_eq_None_conv)
  then show ?thesis using sub_at_inv [OF assms(1,3)] by (simp add: sector_move_block_def)
qed

text \<open>The counter of a sector is a byte: 256 valid blocks count as none, and sectors of 256 blocks are accepted.\<close>

lemma full_sector_of_256_is_invalid:
  assumes "sec_valid_count sec = 0"
  shows "\<not> sector_is_valid ((validate_sub_blk ^^ 256) sec)"
proof -
  have "sec_valid_count ((validate_sub_blk ^^ n) sec) = of_nat n" for n
    using assms by (induction n) (simp_all add: validate_sub_blk_def)
  then show ?thesis by (simp add: sector_is_valid_def)
qed

end
