(* ===== verification/CompressedFacts.thy ===== *)
theory CompressedFacts
  imports CompressedTags SectorStore
begin

text \<open>
  Facts about the compressed store: the compression factor that the code computes, when the blocks of
  a superblock fit in it, and what the missing tag extractors do to every lookup.
\<close>

section \<open>Rounding to a power of two\<close>

lemma bit_smear:
  fixes w :: u64
  assumes "\<And>n. bit v n \<longleftrightarrow> (\<exists>d < 2 ^ j. bit w (n + d))"
  shows "bit (v OR drop_bit (2 ^ j) v) n \<longleftrightarrow> (\<exists>d < 2 ^ Suc j. bit w (n + d))"
proof
  assume "bit (v OR drop_bit (2 ^ j) v) n"
  then consider "bit v n" | "bit v (2 ^ j + n)" by (auto simp: bit_or_iff bit_drop_bit_eq)
  then show "\<exists>d < 2 ^ Suc j. bit w (n + d)"
  proof cases
    case 1
    then obtain d where "d < 2 ^ j" "bit w (n + d)" using assms by blast
    then show ?thesis by (intro exI [of _ d]) simp
  next
    case 2
    then obtain d where "d < 2 ^ j" "bit w (2 ^ j + n + d)" using assms by blast
    then show ?thesis by (intro exI [of _ "2 ^ j + d"]) (simp add: add_ac)
  qed
next
  assume "\<exists>d < 2 ^ Suc j. bit w (n + d)"
  then obtain d where d: "d < 2 ^ Suc j" "bit w (n + d)" by blast
  show "bit (v OR drop_bit (2 ^ j) v) n"
  proof (cases "d < 2 ^ j")
    case True
    with d(2) assms have "bit v n" by blast
    then show ?thesis by (simp add: bit_or_iff)
  next
    case False
    then have "d - 2 ^ j < 2 ^ j" "2 ^ j + n + (d - 2 ^ j) = n + d" using d(1) by auto
    with d(2) assms have "bit v (2 ^ j + n)" by metis
    then show ?thesis by (simp add: bit_or_iff bit_drop_bit_eq)
  qed
qed

lemma bit_smear_all:
  fixes w :: u64
  shows "bit (fold (\<lambda>k v. v OR drop_bit k v) [1, 2, 4, 8, 16, 32] w) n \<longleftrightarrow> (\<exists>d < 64. bit w (n + d))"
proof -
  define S where "S k v = (v OR drop_bit k v :: u64)" for k v
  have 0: "bit w n \<longleftrightarrow> (\<exists>d < 2 ^ 0. bit w (n + d))" for n by simp
  note 1 = bit_smear [OF 0, folded S_def]
  note 2 = bit_smear [OF 1, folded S_def]
  note 3 = bit_smear [OF 2, folded S_def]
  note 4 = bit_smear [OF 3, folded S_def]
  note 5 = bit_smear [OF 4, folded S_def]
  note 6 = bit_smear [OF 5, folded S_def, of n]
  have "fold (\<lambda>k v. v OR drop_bit k v) [1, 2, 4, 8, 16, 32] w
    = S (2 ^ 5) (S (2 ^ 4) (S (2 ^ 3) (S (2 ^ 2) (S (2 ^ 1) (S (2 ^ 0) w)))))" by (simp add: S_def)
  then show ?thesis using 6 by simp
qed

lemma align_power_of_2:
  assumes "2 ^ k < unat v" "unat v \<le> 2 ^ Suc k" "k < 62"
  shows "align_to_power_of_2 v = 2 ^ Suc k"
proof -
  let ?w = "v - 1"
  have pos: "0 < unat v" using assms(1) by simp
  then have "v \<noteq> 0" by auto
  then have w: "unat ?w = unat v - 1" by (simp add: unat_minus_one)
  have top: "bit ?w k"
  proof -
    have "2 ^ k \<le> unat ?w" "unat ?w < 2 ^ Suc k" using assms(1,2) w by linarith+
    then have "int (2 ^ k) \<le> int (unat ?w)" "int (unat ?w) < int (2 ^ Suc k)" by (simp_all only: of_nat_le_iff of_nat_less_iff)
    then have "2 ^ k \<le> int (unat ?w)" "int (unat ?w) < 2 ^ Suc k" by (simp_all only: of_nat_power of_nat_numeral)
    from top_bit [OF this] show ?thesis by (simp add: bit_uint_iff)
  qed
  have above: "\<not> bit ?w m" if "k < m" for m
  proof
    assume "bit ?w m"
    then have "bit (unat ?w) m" by (simp add: bit_unsigned_iff)
    then have "2 ^ m \<le> unat ?w" by (metis bit_iff_odd div_less even_zero not_le)
    moreover have "(2 :: nat) ^ Suc k \<le> 2 ^ m" using that by (intro power_increasing) auto
    ultimately show False using assms(2) w pos by linarith
  qed
  have "fold (\<lambda>k v. v OR drop_bit k v) [1, 2, 4, 8, 16, 32] ?w = mask (Suc k)"
  proof (rule bit_word_eqI)
    fix n
    assume n: "n < LENGTH(64)"
    have "(\<exists>d < 64. bit ?w (n + d)) \<longleftrightarrow> n \<le> k"
    proof
      assume "\<exists>d < 64. bit ?w (n + d)"
      then obtain d where "bit ?w (n + d)" by blast
      show "n \<le> k"
      proof (rule ccontr)
        assume "\<not> n \<le> k"
        with above [of "n + d"] \<open>bit ?w (n + d)\<close> show False by simp
      qed
    next
      assume "n \<le> k"
      with top assms(3) show "\<exists>d < 64. bit ?w (n + d)" by (intro exI [of _ "k - n"]) simp
    qed
    with n show "bit (fold (\<lambda>k v. v OR drop_bit k v) [1, 2, 4, 8, 16, 32] ?w) n = bit (mask (Suc k) :: u64) n"
      unfolding bit_smear_all by (auto simp: bit_mask_iff)
  qed
  then show ?thesis unfolding align_to_power_of_2_def by (simp add: mask_eq_exp_minus_1)
qed

lemma unat_power_u64: "n < 64 \<Longrightarrow> unat (2 ^ n :: u64) = 2 ^ n"
proof -
  assume "n < 64"
  then have "(2 :: nat) ^ n < 2 ^ 64" by (intro power_strict_increasing) auto
  then have "unat (of_nat (2 ^ n) :: u64) = 2 ^ n"
    unfolding unsigned_of_nat by (subst take_bit_nat_eq_self) simp_all
  then show ?thesis by simp
qed

lemma align_bounds:
  assumes "0 < unat v" "unat v \<le> 2 ^ 62"
  shows "\<exists>k. unat (align_to_power_of_2 v) = 2 ^ k \<and> unat v \<le> 2 ^ k \<and> 2 ^ k < 2 * unat v \<and> k \<le> 62"
proof (cases "unat v = 1")
  case True
  then have "v = 1" by (simp add: word_unat_eq_iff)
  moreover have "align_to_power_of_2 1 = 1" by code_simp
  ultimately show ?thesis by (intro exI [of _ 0]) simp
next
  case False
  define k where "k = (GREATEST k. 2 ^ k < unat v)"
  have ex: "2 ^ 0 < unat v" using False assms(1) by simp
  have bound: "y \<le> 62" if "2 ^ y < unat v" for y :: nat
  proof (rule ccontr)
    assume "\<not> y \<le> 62"
    then have "(2 :: nat) ^ 62 \<le> 2 ^ y" by (intro power_increasing) auto
    with that assms(2) show False by simp
  qed
  have lo: "2 ^ k < unat v" unfolding k_def by (rule GreatestI_nat [where P = "\<lambda>k. 2 ^ k < unat v" and b = 62, OF ex]) (use bound in blast)
  have hi: "unat v \<le> 2 ^ Suc k"
  proof (rule ccontr)
    assume "\<not> ?thesis"
    then have "2 ^ Suc k < unat v" by simp
    then have "Suc k \<le> k" unfolding k_def by (rule Greatest_le_nat [where P = "\<lambda>k. 2 ^ k < unat v" and b = 62]) (use bound in blast)
    then show False by simp
  qed
  have "k < 62"
  proof (rule ccontr)
    assume "\<not> ?thesis"
    then have "(2 :: nat) ^ 62 \<le> 2 ^ k" by (intro power_increasing) auto
    with lo assms(2) show False by linarith
  qed
  from align_power_of_2 [OF lo hi this] have "unat (align_to_power_of_2 v) = unat (2 ^ Suc k :: u64)" by simp
  also have "\<dots> = 2 ^ Suc k" using \<open>k < 62\<close> by (intro unat_power_u64) simp
  finally show ?thesis using lo hi \<open>k < 62\<close> by (intro exI [of _ "Suc k"]) simp
qed

section \<open>The compression factor\<close>

text \<open>C39: The compression factor of a block is rounded up to a power of two, where the documentation rounds down:
  it is the least power of two that is at least the quotient \<open>q\<close> of the block size and the compressed size. So that
  many blocks of the size fit in the space of one block exactly when \<open>q\<close> is itself a power of two.\<close>

theorem compression_factor_rounds_up:
  assumes "0 < unat bits" "unat bits \<le> 8 * unat (su_blk_size sec)" "unat (su_blk_size sec) < 2 ^ 32"
    and "length (sec_blks sec) = 2 ^ j" "j \<le> 7" "8 * unat (su_blk_size sec) div unat bits \<le> 2 ^ j"
  shows "\<exists>k. unat (calculate_compression_factor bits sec) = 2 ^ k
    \<and> 8 * unat (su_blk_size sec) div unat bits \<le> 2 ^ k \<and> 2 ^ k < 2 * (8 * unat (su_blk_size sec) div unat bits)
    \<and> (2 ^ k * unat bits \<le> 8 * unat (su_blk_size sec) \<longleftrightarrow> 8 * unat (su_blk_size sec) div unat bits = 2 ^ k)"
proof -
  let ?blk = "8 * su_blk_size sec" and ?q = "8 * unat (su_blk_size sec) div unat bits"
  have blk: "unat ?blk = 8 * unat (su_blk_size sec)" using assms(3) by (simp add: unat_word_ariths(2))
  have q: "unat (?blk div bits) = ?q" by (simp add: unat_div blk)
  have "0 < ?q" using assms(1,2) by (simp add: div_greater_zero_iff)
  moreover have "?q \<le> 2 ^ 62"
  proof -
    have "(2 :: nat) ^ j \<le> 2 ^ 62" using assms(5) by (intro power_increasing) auto
    with assms(6) show ?thesis by linarith
  qed
  ultimately obtain k where k: "unat (align_to_power_of_2 (?blk div bits)) = 2 ^ k" "?q \<le> 2 ^ k" "2 ^ k < 2 * ?q"
    using align_bounds [of "?blk div bits"] q by auto
  have "k \<le> j"
  proof (rule ccontr)
    assume "\<not> ?thesis"
    then have "(2 :: nat) ^ Suc j \<le> 2 ^ k" by (intro power_increasing) auto
    with k(3) assms(6) show False by simp
  qed
  then have kj: "(2 :: nat) ^ k \<le> 2 ^ j" "(2 :: nat) ^ j \<le> 2 ^ 7" using assms(5) by (auto intro!: power_increasing simp del: power_numeral)
  then have len: "unat (of_nat (length (sec_blks sec)) :: u64) = 2 ^ j"
    using assms(5) by (simp add: assms(4) unat_power_u64)
  have "\<not> ?blk < bits" "bits \<noteq> 0" using assms(1,2) blk by (auto simp: word_less_nat_alt)
  moreover have "align_to_power_of_2 (?blk div bits) \<le> of_nat (length (sec_blks sec))"
    using k(1) kj(1) len by (simp add: word_le_nat_alt)
  ultimately have "calculate_compression_factor bits sec = ucast (align_to_power_of_2 (?blk div bits))"
    by (simp add: calculate_compression_factor_def Let_def min_def)
  then have f: "unat (calculate_compression_factor bits sec) = 2 ^ k"
    using k(1) \<open>k \<le> j\<close> assms(5) by (simp add: unsigned_ucast_eq take_bit_nat_eq_self)
  have "2 ^ k * unat bits \<le> 8 * unat (su_blk_size sec) \<longleftrightarrow> 2 ^ k \<le> ?q"
    using assms(1) by (simp add: less_eq_div_iff_mult_less_eq)
  with f k(2,3) show ?thesis by (intro exI [of _ k]) auto
qed

text \<open>A superblock of four blocks of 64 bytes: 170 bits get the factor 4, although only three such blocks fit.\<close>

definition sample_super :: super_blk where
  "sample_super = new_super_blk\<lparr>su_blk_size := 64, sec_blks := [Some 0, Some 1, Some 2, Some 3]\<rparr>"

theorem compression_factor_rounds_up_witness:
  "\<exists>k. unat (calculate_compression_factor 170 sample_super) = 2 ^ k \<and> 3 \<le> (2 :: nat) ^ k \<and> 2 ^ k < (6 :: nat)
     \<and> \<not> 2 ^ k * 170 \<le> (512 :: nat)"
proof -
  have "su_blk_size sample_super = 64" "length (sec_blks sample_super) = 2 ^ 2" by (simp_all add: sample_super_def)
  with compression_factor_rounds_up [of 170 sample_super 2] obtain k where
    k: "unat (calculate_compression_factor 170 sample_super) = 2 ^ k" "3 \<le> (2 :: nat) ^ k" "2 ^ k < (6 :: nat)"
      "2 ^ k * 170 \<le> (512 :: nat) \<longleftrightarrow> 3 = (2 :: nat) ^ k" by auto
  have "(3 :: nat) \<noteq> 2 ^ k" by (cases k) (auto, presburger)
  with k show ?thesis by blast
qed

text \<open>The blocks that may join: the superblock then holds 170 + 3 * 128 bits in 512.\<close>

lemma superblock_overcommitted:
  "calculate_compression_factor 170 sample_super = 4
   \<and> (\<forall>n \<in> {1, 2, 3}. can_co_allocate 128 ((set_compression_factor 4 sample_super)\<lparr>sec_valid_count := n\<rparr>))
   \<and> (512 :: nat) < 170 + 3 * 128"
  by code_simp

section \<open>The missing tag extractors\<close>

lemma link_sub_unregistered:
  assumes "fold_opt (link_sub False s) ks t = Some t'" "\<forall>b \<in> set (st_blks t). te_extract b = None"
    and "\<forall>sec \<in> set (st_secs t). te_extract sec = None"
  shows "(\<forall>b \<in> set (st_blks t'). te_extract b = None) \<and> (\<forall>sec \<in> set (st_secs t'). te_extract sec = None)
    \<and> bt_indexing t' = bt_indexing t"
  using assms
proof (induction ks arbitrary: t)
  case (Cons k ks)
  then obtain t1 where t1: "link_sub False s k t = Some t1" "fold_opt (link_sub False s) ks t1 = Some t'" by (auto simp: bind_Some_iff)
  have "(\<forall>b \<in> set (st_blks t1). te_extract b = None) \<and> (\<forall>sec \<in> set (st_secs t1). te_extract sec = None) \<and> bt_indexing t1 = bt_indexing t"
    using t1(1) Cons.prems(2,3)
    by (auto simp: link_sub_def put_sub_def Let_def bind_Some_iff dest!: set_update_subset_insert [THEN subsetD])
  with Cons.IH [OF t1(2)] show ?case by auto
qed simp

lemma set_entry_indexing_ok:
  assumes "set_entry e x ix = Some (ix', s, w)" "indexing_ok ix"
  shows "indexing_ok ix'"
proof -
  from assms(1) have r: "unat s < length (ix_sets ix)" "ix' = ix\<lparr>ix_sets := (ix_sets ix)[unat s := (ix_sets ix ! unat s)[unat w := Some e]]\<rparr>"
    by (auto simp: set_entry_def bind_Some_iff)
  have "\<forall>row \<in> set (ix_sets ix'). length row = unat (ix_assoc ix)"
    using assms(2) r by (auto simp: indexing_ok_def all_set_conv_all_nth nth_list_update)
  with assms(2) r show ?thesis by (auto simp: indexing_ok_def)
qed

lemma set_positions_unregistered:
  fixes bs :: "'b sub_blk_scheme list"
  assumes "fold_opt (\<lambda>i bs. do { b \<leftarrow> nth_opt bs i; update_opt bs i (set_position row way b) }) ps bs = Some bs'"
    and "\<forall>b \<in> set bs. te_extract b = None"
  shows "\<forall>b \<in> set bs'. te_extract b = None"
  using set_positions [OF assms(1)] assms(2) by (simp add: all_set_conv_all_nth)

definition unregistered :: "('b, 'c, 's) sector_tags \<Rightarrow> bool" where
  "unregistered t \<longleftrightarrow> (\<forall>b \<in> set (st_blks t). te_extract b = None) \<and> (\<forall>sec \<in> set (st_secs t). te_extract sec = None)
     \<and> indexing_ok (bt_indexing t)"

lemma init_superblock_unregistered:
  assumes "init_superblock OPS s t = Some t'" "unregistered t"
  shows "unregistered t'"
proof -
  from assms(1) obtain sec p t1 ix row way where
    s: "s < length (st_secs t)" and sec: "sec = (st_secs t ! s)\<lparr>su_blk_size := ucast (bt_blk_size t)\<rparr>"
    and t1: "fold_opt (link_sub False s) [0..<unat (st_per_sector t)]
       (t\<lparr>st_policy := p, st_secs := (st_secs t)[s := sec\<lparr>sec_blks := replicate (unat (st_per_sector t)) None\<rparr>]\<rparr>) = Some t1"
    and e: "set_entry s (of_nat s) (bt_indexing t1) = Some (ix, row, way)"
    and t': "sector_set_position s row way (t1\<lparr>bt_indexing := ix\<rparr>) = Some t'"
    by (auto simp: init_superblock_def set_blk_size_def init_sector_def bind_Some_iff)
  have "te_extract (st_secs t ! s) = None" using assms(2) s by (simp add: unregistered_def)
  then have "\<forall>x \<in> set ((st_secs t)[s := sec\<lparr>sec_blks := replicate (unat (st_per_sector t)) None\<rparr>]). te_extract x = None"
    using assms(2) by (auto simp: sec unregistered_def dest!: set_update_subset_insert [THEN subsetD])
  with link_sub_unregistered [OF t1] assms(2) have u1: "\<forall>b \<in> set (st_blks t1). te_extract b = None"
    "\<forall>x \<in> set (st_secs t1). te_extract x = None" "indexing_ok (bt_indexing t1)" by (auto simp: unregistered_def)
  from t' obtain ps bs where bs: "fold_opt (\<lambda>i bs. do { b \<leftarrow> nth_opt bs i; update_opt bs i (set_position row way b) }) ps (st_blks t1) = Some bs"
    and s1: "s < length (st_secs t1)"
    and t'': "t' = t1\<lparr>bt_indexing := ix, st_blks := bs, st_secs := (st_secs t1)[s := set_position row way (st_secs t1 ! s)]\<rparr>"
    by (auto simp: sector_set_position_def bind_Some_iff)
  from set_positions_unregistered [OF bs u1(1)] have "\<forall>b \<in> set bs. te_extract b = None" .
  moreover have "te_extract (st_secs t1 ! s) = None" using u1(2) s1 by simp
  then have "\<forall>x \<in> set (st_secs t'). te_extract x = None"
    using u1(2) by (auto simp: t'' set_position_def dest!: set_update_subset_insert [THEN subsetD])
  ultimately show ?thesis using set_entry_indexing_ok [OF e u1(3)] by (simp add: unregistered_def t'')
qed

lemma unregistered_aborts:
  assumes "unregistered t"
  shows "sector_find_block k t = None"
    and "bt_partitions t = None \<Longrightarrow> compressed_find_victim OPS env k bits evict part_id t = None"
proof -
  from possible_entries_row [of "bt_indexing t" "key_address k"] assms obtain row where
    row: "possible_entries (bt_indexing t) (key_address k) = Some row" "length row = unat (ix_assoc (bt_indexing t))"
    by (auto simp: unregistered_def)
  moreover have "0 < unat (ix_assoc (bt_indexing t))" using assms by (auto simp: unregistered_def indexing_ok_def unat_gt_0)
  ultimately obtain p ps where ps: "row = p # ps" by (cases row) auto
  have subs: "sub_match k b sec = None" if "b \<in> set (st_blks t)" for b and sec :: "'x sector_blk_scheme"
    using that assms by (simp add: unregistered_def sub_match_def)
  have secs: "sector_match k sec = None" if "sec \<in> set (st_secs t)" for sec
    using that assms by (simp add: unregistered_def sector_match_def)
  have "find_sub k off t (p # ps) = None" for off
    using assms by (auto simp: bind_eq_None_conv unregistered_def sub_match_def sub_at_def)
  then show "sector_find_block k t = None" using row(1) ps by (simp add: sector_find_block_def)
  show "compressed_find_victim OPS env k bits evict part_id t = None" if none: "bt_partitions t = None"
  proof (cases "sector_candidates k part_id t")
    case (Some es)
    then obtain s ss where es: "es = s # ss" using row(1) ps none
      by (auto simp: sector_candidates_def bind_Some_iff)
    have "find_superblock k off bits t (s # ss) = None" for off
      using assms by (auto simp: bind_eq_None_conv unregistered_def sector_match_def)
    with Some es show ?thesis by (simp add: compressed_find_victim_def Let_def)
  qed (simp add: compressed_find_victim_def)
qed

text \<open>C40: The compressed store cannot be used. Its \<open>tagsInit\<close> registers no tag extractor with the blocks and the
  superblocks, and \<open>TaggedEntry::match\<close> asserts that there is one: after the initialisation every lookup, every
  access and, without partitions, every search for a victim ends the program.\<close>

theorem compressed_store_aborts:
  assumes "compressed_tags_init OPS t0 = Some t" "indexing_ok (bt_indexing t0)"
  shows "sector_find_block k t = None \<and> sector_access_block OPS env pkt t = None
    \<and> (bt_partitions t = None \<longrightarrow> compressed_find_victim OPS env k bits evict part_id t = None)"
proof -
  from assms(1) obtain b where b: "new_comp_blk = Some b" and
    f: "fold_opt (init_superblock OPS) [0..<unat (st_num_sectors t0)]
       (t0\<lparr>st_blks := replicate (unat (bt_num_blocks t0)) b, st_secs := replicate (unat (st_num_sectors t0)) new_super_blk\<rparr>) = Some t"
    by (auto simp: compressed_tags_init_def bind_Some_iff)
  have "te_extract b = None"
    using b by (auto simp: new_comp_blk_def new_sub_blk_def new_cache_blk_def cache_blk_invalidate_cleared bind_Some_iff
        sub_blk.extend_def cache_blk.extend_def tagged_entry.extend_def new_tagged_entry_def cleared_def)
  then have start: "unregistered (t0\<lparr>st_blks := replicate (unat (bt_num_blocks t0)) b,
      st_secs := replicate (unat (st_num_sectors t0)) new_super_blk\<rparr>)"
    using assms(2) by (auto simp: unregistered_def new_super_blk_def new_sector_blk_def new_tagged_entry_def
        sector_blk.extend_def tagged_entry.extend_def)
  have "unregistered t" by (rule fold_opt_rule [where P = unregistered, OF f start]) (rule init_superblock_unregistered)
  then show ?thesis
    using unregistered_aborts(1) [of t] unregistered_aborts(2) [of t OPS env k bits evict part_id]
    by (simp add: sector_access_block_def)
qed

definition small_compressed_store :: "(unit, unit, entry \<Rightarrow> lru_data) comp_tags option" where
  "small_compressed_store = do {
     ix \<leftarrow> new_set_associative 2 1024 256;
     bt \<leftarrow> new_base_tags 64 1024 1 ix None 0 4;
     t \<leftarrow> new_sector_tags 2 False (\<lambda>_. new_lru_data) 4 bt;
     compressed_tags_init lru_ops t }"

theorem compressed_store_aborts_witness:
  "\<exists>t. small_compressed_store = Some t \<and> sector_find_block (packet_key (read_of 0x1040)) t = None"
proof -
  have "small_compressed_store \<noteq> None" by code_simp
  then obtain t where t: "small_compressed_store = Some t" by blast
  then obtain ix bt t0 where ix: "new_set_associative 2 1024 256 = Some ix" and bt: "new_base_tags 64 1024 1 ix None 0 4 = Some bt"
    and t0: "new_sector_tags 2 False (\<lambda>_. new_lru_data) 4 bt = Some t0" "compressed_tags_init lru_ops t0 = Some t"
    by (auto simp: small_compressed_store_def bind_Some_iff)
  have "bt_indexing t0 = ix"
    using bt t0(1) by (auto simp: new_base_tags_def new_sector_tags_def bind_Some_iff base_tags.extend_def)
  with new_set_associative_ok [OF ix] have "indexing_ok (bt_indexing t0)" by simp
  from compressed_store_aborts [OF t0(2) this, of "packet_key (read_of 0x1040)"] t show ?thesis by blast
qed

end
