(* ===== verification/Spec2Isabelle.thy ===== *)
theory Spec2Isabelle
  imports MemoryFacts CacheFindings DirtyFacts TexCache StatsFacts ConfigFacts SecondChance Ship TreePlru Dueling Skewed SetAssocFacts FaLruFacts GemTargetFacts CompressedFacts
begin

text \<open>
  A verification development for the two cache models of this repository: the GPGPU-Sim cache
  (\<open>src/gpgpusim_cache/gpgpu_cache\<close>) and the parts of the gem5 classic cache
  (\<open>src/gem5_cache\<close>) that hold its state: blocks, tag stores, indexing, replacement, partitioning.

  How the code is modelled. Every function of the code is a HOL function of the same name in
  snake case. A member function takes the object, a record with the members of the class, and returns
  it updated; a subclass is a record extension. \<open>unsigned\<close> is a 32-bit word, an address, a cycle, a
  tick and a statistics counter are 64-bit words, and \<open>+\<close> wraps as in C++. An \<open>assert\<close> that fails,
  \<open>abort\<close>, \<open>panic\<close>, \<open>fatal\<close>, an exception, a null or out of range access, a division by zero and a
  shift out of range are \<open>None\<close> of the option monad. Pointers to shared objects (\<open>mem_fetch\<close>, cache
  blocks in a tag store) are indices into an explicit store. A \<open>std::map\<close> is an association list.
  What the code asks of its surroundings (\<open>curTick()\<close>, \<open>rand()\<close>, the packet, the command table, an
  object behind a virtual interface) is an argument.

  The GPGPU-Sim cache. \<open>GpuTypes\<close>: tokens, allocator, memory port and hash functions of
  \<open>gpgpu_stubs.h\<close>. \<open>CacheBlocks\<close>, \<open>BlockOps\<close>: line and sector blocks and their virtual interface.
  \<open>CacheConfig\<close>: the configuration string, the address arithmetic and the set index functions, with
  \<open>ConfigFacts\<close>. \<open>Float32\<close>, \<open>TagArray\<close>, \<open>TagFacts\<close>: probe, access, fill and flush of \<open>tag_array\<close>,
  with \<open>DirtyFacts\<close> on the count of modified lines over histories. \<open>Mshr\<close>:
  the table of outstanding misses. \<open>CacheStats\<close>, \<open>StatsFacts\<close>: the counters. \<open>BaselineCache\<close>,
  \<open>DataCache\<close>: the pipeline of \<open>gpu_cache_ref.cc\<close>, every handler of hits and misses, \<open>cycle\<close>, \<open>fill\<close>,
  \<open>access\<close> and \<open>next_access\<close>. \<open>TexFifo\<close>, \<open>TexCache\<close>: the texture cache and its ring buffers.
  \<open>DataStore\<close>, \<open>MemorySystem\<close>, \<open>MemoryFacts\<close>: the two-level example of \<open>memory_system.h\<close>.

  How these parts interact: \<open>access\<close> probes the tag array, and on a miss pushes a token into the miss
  queue and joins the MSHR table; \<open>cycle\<close> sends the queue to the memory port; \<open>fill\<close> returns a token,
  fills the tag array and marks the MSHR entry ready; \<open>next_access\<close> delivers. A line is pinned from the
  moment a response for it is queued until it is delivered. \<open>Protocol\<close> states this as a step relation
  \<open>vstep\<close> on an abstract view (the counters of the lines, the queues and the MSHR table) and proves its
  invariants by rule induction. \<open>CacheFrame\<close>, \<open>CacheMoves\<close> and \<open>CacheAccess\<close> show that every operation of
  the code is a sequence of such steps, \<open>CacheRuns\<close> that every history of a cache is; \<open>CacheProps\<close>
  draws the properties: every accepted token is delivered exactly once, counters equal the number of
  undelivered responses, pinned lines are never chosen as a victim, the miss queue is bounded.
  \<open>CacheFindings\<close> states, for every cache in the situation, where the code does something it does not mean
  to, and reaches the situations from the constructor.
  \<open>Samples\<close> has the configurations that witnesses share.

  The gem5 cache. \<open>ReplBase\<close> states the contract \<open>replacement_policy\<close> between a policy and the tag
  store; \<open>StampPolicies\<close>, \<open>SecondChance\<close>, \<open>Rrip\<close>, \<open>Ship\<close>, \<open>TreePlru\<close> and \<open>Dueling\<close> are the policies, each an
  interpretation of it, and \<open>SatCounter\<close> the counters they use. \<open>RecencyFacts\<close> refines LRU and FIFO to one
  list of entries. \<open>Indexing\<close> and \<open>Skewed\<close> are the indexing policies; the latter
  takes the bit operations as an argument, and is studied with those of the repository's stub, on which it
  loses the set, and with those that gem5 documents, on which it is invertible. \<open>GemTypes\<close>, \<open>GemBlk\<close>: packets,
  requests and cache blocks with their load-linked locks. \<open>Partitioning\<close>: the partitioning policies
  and their manager. \<open>SetAssocTags\<close>: \<open>BaseTags\<close> and \<open>BaseSetAssoc\<close> over any policy; \<open>SetAssocFacts\<close> shows
  that the store is a map. \<open>FaLru\<close>, \<open>FaLruFacts\<close>: the fully associative store, whose linked list is a
  list and whose tracking of smaller caches is consistent. \<open>SectorTags\<close>: the store of sectors, over any
  kind of sub-blocks; \<open>SectorFacts\<close> has its invariant and the locale \<open>sector_blocks\<close> of what a subclass may
  override, \<open>SectorInit\<close> that \<open>tagsInit\<close> establishes it, \<open>SectorProps\<close> the miss path, \<open>SectorStore\<close> the
  properties. \<open>CompressedTags\<close>, \<open>CompressedFacts\<close>: superblocks and compression factors on top of it.
  \<open>GemQueue\<close>: \<open>Queue\<close> of \<open>queue.hh\<close> with its allocated, ready and free lists, and the write buffer.
  \<open>GemMshr\<close>: the MSHRs with their targets, deferred targets and snoops, the flags of downstream misses
  that connect the MSHRs of several caches through one store, and \<open>MSHRQueue\<close>. \<open>GemQueueFacts\<close> has the
  invariant of the queue over all histories and the termination of the walk along the flags,
  \<open>GemTargetFacts\<close> that targets and deferred targets together are one queue.

  Kinds of properties: well-formedness of accepted configurations, functional behaviour of the
  operations on every branch, invariants and safety over all histories, refinement of abstract
  specifications (a queue, a recency list, a map, a clock), equivalence of the one-step ageing of
  BRRIP with the search of RRIP, round trips of stores and addresses, bounds, termination of the
  loops, and the error behaviour, also where it is not what the code means.

  Loops and bounds. Loops over arrays are folds over the index range. \<open>drain_ready\<close> of the two-level
  system runs with fuel, and \<open>drain_terminates\<close> shows that the number of queued responses is enough;
  \<open>clear_downstream\<close> follows the packets of an MSHR into the MSHRs of other caches with fuel one above
  the number of pending flags, each step clearing one, and its property shows that this is enough, the
  answer to a call without fuel being an argument on which nothing depends;
  the search of the second-chance policy and the RRIP search are terminating functions; the walks
  along the bits of a tree and along the linked list of the fully associative store are partial
  functions on options, whose properties state that they return. The property of the fully
  associative store needs a smallest tracked cache of at least two blocks: with one the code follows
  a null pointer. Sizes are those that 32-bit arithmetic does not wrap, as each statement says.

  Not modelled. Functions that only print. Of the gem5 cache: the controller (\<open>base.cc\<close>, \<open>cache.cc\<close>,
  \<open>noncoherent_cache.cc\<close>), whose ports, events and statistics come from a simulator that the stubs
  replace by empty bodies; compressors and prefetchers; the data bytes of blocks and packets. The superseded code under \<open>deprecated\<close>, the verbatim upstream
  copies under \<open>reference-only-originals-gpgpusim\<close>, which are not compiled, and the tests.
\<close>

end
